(* ===== verification/Prelude.thy ===== *)
theory Prelude
  imports Main "HOL-Library.Word" "HOL-Library.Multiset" "HOL-Library.Char_ord"
    "HOL-Library.List_Lexorder" "HOL-Library.Product_Lexorder"
begin

text \<open>
  Shared vocabulary of the development: how Go's values, errors and messages are represented, and
  the generic lemmas the component theories use.

  \<^item> Go's \<open>string\<close> and \<open>[]byte\<close> are both byte sequences; HOL's \<open>char\<close> is an 8-bit byte, so both
    are \<open>char list\<close> (\<open>bytes\<close>), and the conversions \<open>[]byte(s)\<close> and \<open>string(b)\<close> are the identity.
  \<^item> Go's \<open>error\<close> is the datatype \<open>goerr\<close>: a sentinel value that code compares with
    \<open>errors.Is\<close>, or an \<open>fmt.Errorf\<close> application, kept as its format and arguments, with the
    wrapped error when the format has a \<open>%w\<close>. \<open>GoPanic\<close> is no error value: it stands for a
    run-time panic that unwinds through the callers, none of which recovers.
  \<^item> A result \<open>(T, error)\<close> is \<open>goerr + 'a\<close>, \<open>Inl\<close> the error.
  \<^item> A stateful operation takes the state and returns the result and the new state.
\<close>

section \<open>Types\<close>

type_synonym bytes = "char list"

datatype sentinel =
    EOF | ErrUnexpectedEOF | ErrFrameTooLarge | ErrReset | Canceled | DeadlineExceeded
  | ErrNotExist | ErrExist | ENOTDIR | EISDIR | ENOTEMPTY | ELOOP | EINVAL | EIO
  | ErrNotFound | ErrHelp | ErrClosed | ErrLength | InvalidByte
  | ECONNRESET | ECONNREFUSED | EHOSTUNREACH | ENETUNREACH

text \<open>A formatting argument: text, an integer, a float quotient, or a nested \<open>fmt.Sprintf\<close>.\<close>

datatype fmtarg = AStr string | AInt int | AQuot int int | ASprintf string "fmtarg list"

datatype goerr =
    Sentinel sentinel
  | Errorf string "fmtarg list"
  | Wrapf string "fmtarg list" goerr
  | GoPanic string

type_synonym 'a res = "goerr + 'a"

text \<open>\<open>errors.Is\<close> follows the chain of wrapped errors.\<close>

fun errors_is :: "goerr \<Rightarrow> sentinel \<Rightarrow> bool" where
  "errors_is (Sentinel s) t = (s = t)"
| "errors_is (Errorf _ _) t = False"
| "errors_is (Wrapf _ _ e) t = errors_is e t"
| "errors_is (GoPanic _) t = False"

definition is_panic :: "goerr \<Rightarrow> bool" where
  "is_panic e = (case e of GoPanic _ \<Rightarrow> True | _ \<Rightarrow> False)"

text \<open>
  A user-visible message: a literal, an \<open>fmt.Sprintf\<close> application, or one whose last argument is an
  error (\<open>%v\<close>).
\<close>

datatype msg = Lit string | Sprintf string "fmtarg list" | SprintfErr string "fmtarg list" goerr

text \<open>Two's complement wrap-around of Go's \<open>int64\<close> arithmetic.\<close>

definition wrap64 :: "int \<Rightarrow> int" where
  "wrap64 n = (n + 2 ^ 63) mod 2 ^ 64 - 2 ^ 63"

section \<open>Collections\<close>

named_theorems res_iff \<open>when a computation returns a given result\<close>
named_theorems path_simps \<open>lexical path computation on well-formed components\<close>

section \<open>Results\<close>

definition ok :: "'a res \<Rightarrow> bool" where
  "ok r = (case r of Inl _ \<Rightarrow> False | Inr _ \<Rightarrow> True)"

lemma ok_simps [simp]: "ok (Inr x)" "\<not> ok (Inl e)"
  by (simp_all add: ok_def)

lemma ok_iff: "ok r \<longleftrightarrow> (\<exists>x. r = Inr x)"
  by (cases r) simp_all

lemma not_ok_iff: "\<not> ok r \<longleftrightarrow> (\<exists>e. r = Inl e)"
  by (cases r) simp_all

lemma case_sum_Inr_iff [res_iff]:
  "(case r of Inl e \<Rightarrow> Inl (h e) | Inr x \<Rightarrow> f x) = Inr y \<longleftrightarrow> (\<exists>x. r = Inr x \<and> f x = Inr y)"
  by (cases r) simp_all

lemma if_Inl_iff [res_iff]:
  "(if b then Inl e else r) = Inr y \<longleftrightarrow> \<not> b \<and> r = Inr y"
  by simp

text \<open>The idiom \<open>x, err := f(); if err != nil { return err }\<close>.\<close>

fun bind_res :: "'a res \<Rightarrow> ('a \<Rightarrow> 'b res) \<Rightarrow> 'b res" where
  "bind_res (Inl e) f = Inl e"
| "bind_res (Inr x) f = f x"

lemma bind_res_Inr_iff [res_iff]: "bind_res r f = Inr y \<longleftrightarrow> (\<exists>x. r = Inr x \<and> f x = Inr y)"
  by (cases r) simp_all

text \<open>The same idiom for an operation that also changes a state, and the wrapping of its error.\<close>

fun bind_st :: "'a res \<times> 'w \<Rightarrow> ('a \<Rightarrow> 'w \<Rightarrow> 'b res \<times> 'w) \<Rightarrow> 'b res \<times> 'w" where
  "bind_st (Inl e, w) f = (Inl e, w)"
| "bind_st (Inr x, w) f = f x w"

fun wrap_err :: "string \<Rightarrow> fmtarg list \<Rightarrow> 'a res \<times> 'w \<Rightarrow> 'a res \<times> 'w" where
  "wrap_err fmt args (Inl e, w) = (Inl (Wrapf fmt args e), w)"
| "wrap_err fmt args (Inr x, w) = (Inr x, w)"

lemma bind_st_Inr_iff [res_iff]:
  "bind_st p f = (Inr y, w') \<longleftrightarrow> (\<exists>x w. p = (Inr x, w) \<and> f x w = (Inr y, w'))"
  by (cases p; cases "fst p") auto

lemma bind_st_Inl_iff:
  "bind_st p f = (Inl e, w') \<longleftrightarrow> p = (Inl e, w') \<or> (\<exists>x w. p = (Inr x, w) \<and> f x w = (Inl e, w'))"
  by (cases p; cases "fst p") auto

lemma wrap_err_Inr_iff [res_iff]: "wrap_err fmt args p = (Inr y, w') \<longleftrightarrow> p = (Inr y, w')"
  by (cases p; cases "fst p") auto

lemma wrap_err_Inl_iff:
  "wrap_err fmt args p = (Inl e, w') \<longleftrightarrow> (\<exists>e0. e = Wrapf fmt args e0 \<and> p = (Inl e0, w'))"
  by (cases p; cases "fst p") auto

text \<open>Whatever a sequence of such operations keeps, it keeps on every path, errors included.\<close>

lemma bind_st_keeps:
  assumes "P (snd p)" and "\<And>x w. p = (Inr x, w) \<Longrightarrow> P (snd (f x w))"
  shows "P (snd (bind_st p f))"
  using assms by (cases p; cases "fst p") auto

lemma snd_wrap_err [simp]: "snd (wrap_err fmt args p) = snd p"
  by (cases p; cases "fst p") auto

lemma wrap64_id: "- (2 ^ 63) \<le> n \<Longrightarrow> n < 2 ^ 63 \<Longrightarrow> wrap64 n = n"
  by (simp add: wrap64_def)

lemma wrap64_range: "- (2 ^ 63) \<le> wrap64 n \<and> wrap64 n < 2 ^ 63"
  by (simp add: wrap64_def)

section \<open>Lists\<close>

lemma take_eq_iff_prefix: "take (length p) s = p \<longleftrightarrow> (\<exists>r. s = p @ r)"
  by (metis append_take_drop_id append_eq_conv_conj)

lemma map_of_filter_neq: "map_of (filter (\<lambda>(k, _). k \<noteq> a) xs) k = (if k = a then None else map_of xs k)"
  by (induction xs) auto

lemma map_of_filter_key:
  "map_of (filter (\<lambda>(k, _). P k) xs) k = (if P k then map_of xs k else None)"
  by (induction xs) auto

lemma list_all_iff_nth: "list_all P xs \<longleftrightarrow> (\<forall>i < length xs. P (xs ! i))"
  by (simp add: list_all_length)

end
