(* ===== verification/GoStrings.thy ===== *)
theory GoStrings
  imports Prelude
begin

text \<open>
  The functions of Go's \<open>strings\<close> and \<open>encoding/hex\<close> packages that the program calls, on byte
  strings, with the laws the components rely on. \<open>strings.ToLower\<close> is written for the one use the
  program makes of it, comparison with ASCII keywords: besides the ASCII letters only U+212A and
  U+0130 have an ASCII lower case, every other byte is left as it is.
\<close>

section \<open>Prefixes and cutting\<close>

definition has_prefix :: "string \<Rightarrow> string \<Rightarrow> bool" where
  "has_prefix s p = (take (length p) s = p)"

definition trim_prefix :: "string \<Rightarrow> string \<Rightarrow> string" where
  "trim_prefix s p = (if has_prefix s p then drop (length p) s else s)"

definition trim_left :: "string \<Rightarrow> string \<Rightarrow> string" where
  "trim_left s cutset = dropWhile (\<lambda>c. c \<in> set cutset) s"

definition trim_right :: "string \<Rightarrow> string \<Rightarrow> string" where
  "trim_right s cutset = rev (dropWhile (\<lambda>c. c \<in> set cutset) (rev s))"

definition trim :: "string \<Rightarrow> string \<Rightarrow> string" where
  "trim s cutset = trim_right (trim_left s cutset) cutset"

definition contains_any :: "string \<Rightarrow> string \<Rightarrow> bool" where
  "contains_any s chars = list_ex (\<lambda>c. c \<in> set chars) s"

definition contains_char :: "string \<Rightarrow> char \<Rightarrow> bool" where
  "contains_char s c = (c \<in> set s)"

section \<open>White space\<close>

text \<open>The UTF-8 encodings of the code points for which \<open>unicode.IsSpace\<close> holds.\<close>

definition space_encodings :: "string list" where
  "space_encodings =
     [[char_of (9::nat)], [char_of (10::nat)], [char_of (11::nat)], [char_of (12::nat)],
      [char_of (13::nat)], [char_of (32::nat)],
      map char_of [0xC2, 0x85::nat], map char_of [0xC2, 0xA0::nat],
      map char_of [0xE1, 0x9A, 0x80::nat]]
     @ map (\<lambda>b. map char_of [0xE2, 0x80, b]) [0x80..<0x8B::nat]
     @ [map char_of [0xE2, 0x80, 0xA8::nat], map char_of [0xE2, 0x80, 0xA9::nat],
        map char_of [0xE2, 0x80, 0xAF::nat], map char_of [0xE2, 0x81, 0x9F::nat],
        map char_of [0xE3, 0x80, 0x80::nat]]"

fun strip_front :: "string list \<Rightarrow> nat \<Rightarrow> string \<Rightarrow> string" where
  "strip_front encs 0 s = s"
| "strip_front encs (Suc n) s =
     (case find (has_prefix s) encs of
        None \<Rightarrow> s
      | Some e \<Rightarrow> strip_front encs n (drop (length e) s))"

text \<open>Each round removes at least one byte, so \<open>length s\<close> rounds suffice.\<close>

definition trim_space :: "string \<Rightarrow> string" where
  "trim_space s =
     (let l = strip_front space_encodings (length s) s
      in rev (strip_front (map rev space_encodings) (length l) (rev l)))"

section \<open>Case\<close>

definition lower_char :: "char \<Rightarrow> char" where
  "lower_char c =
     (let n = of_char c :: nat in if 65 \<le> n \<and> n \<le> 90 then char_of (n + 32) else c)"

fun to_lower :: "string \<Rightarrow> string" where
  "to_lower [] = []"
| "to_lower (c # s) =
     (if has_prefix (c # s) (map char_of [0xE2, 0x84, 0xAA::nat])
      then CHR ''k'' # to_lower (drop 2 s)
      else if has_prefix (c # s) (map char_of [0xC4, 0xB0::nat])
      then CHR ''i'' # to_lower (drop 1 s)
      else lower_char c # to_lower s)"

section \<open>Splitting, joining, replacing\<close>

fun split_on :: "char \<Rightarrow> string \<Rightarrow> string list" where
  "split_on c [] = [[]]"
| "split_on c (x # xs) =
     (if x = c then [] # split_on c xs
      else (case split_on c xs of [] \<Rightarrow> [[x]] | h # t \<Rightarrow> (x # h) # t))"

fun join_with :: "string \<Rightarrow> string list \<Rightarrow> string" where
  "join_with sep [] = []"
| "join_with sep [x] = x"
| "join_with sep (x # y # r) = x @ sep @ join_with sep (y # r)"

function replace_all :: "string \<Rightarrow> string \<Rightarrow> string \<Rightarrow> string" where
  "replace_all s old new =
     (case s of [] \<Rightarrow> []
      | c # r \<Rightarrow>
          if old \<noteq> [] \<and> has_prefix s old
          then new @ replace_all (drop (length old) s) old new
          else c # replace_all r old new)"
  by pat_completeness auto
termination
  by (relation "measure (\<lambda>(s, _, _). length s)") (auto simp: has_prefix_def)

declare replace_all.simps [simp del]

section \<open>Hexadecimal\<close>

definition hex_digit :: "nat \<Rightarrow> char" where
  "hex_digit n = (if n < 10 then char_of (48 + n) else char_of (87 + n))"

definition from_hex_char :: "char \<Rightarrow> nat option" where
  "from_hex_char c =
     (let n = of_char c in
      if 48 \<le> n \<and> n \<le> 57 then Some (n - 48)
      else if 97 \<le> n \<and> n \<le> 102 then Some (n - 87)
      else if 65 \<le> n \<and> n \<le> 70 then Some (n - 55)
      else None)"

fun hex_encode :: "bytes \<Rightarrow> string" where
  "hex_encode [] = []"
| "hex_encode (b # bs) =
     hex_digit (of_char b div 16) # hex_digit (of_char b mod 16) # hex_encode bs"

fun hex_decode :: "string \<Rightarrow> bytes res" where
  "hex_decode [] = Inr []"
| "hex_decode [a] =
     (case from_hex_char a of
        None \<Rightarrow> Inl (Sentinel InvalidByte) | Some _ \<Rightarrow> Inl (Sentinel ErrLength))"
| "hex_decode (a # b # s) =
     (case from_hex_char a of
        None \<Rightarrow> Inl (Sentinel InvalidByte)
      | Some h \<Rightarrow>
          (case from_hex_char b of
             None \<Rightarrow> Inl (Sentinel InvalidByte)
           | Some l \<Rightarrow>
               (case hex_decode s of
                  Inl e \<Rightarrow> Inl e
                | Inr r \<Rightarrow> Inr (char_of (16 * h + l) # r))))"

definition is_hex :: "string \<Rightarrow> bool" where
  "is_hex s = list_all (\<lambda>c. from_hex_char c \<noteq> None) s"

section \<open>Laws\<close>

lemma has_prefix_iff: "has_prefix s p \<longleftrightarrow> (\<exists>r. s = p @ r)"
  by (simp add: has_prefix_def take_eq_iff_prefix)

lemma has_prefix_append [simp]: "has_prefix (p @ r) p"
  by (simp add: has_prefix_def)

lemma trim_prefix_append [simp]: "trim_prefix (p @ r) p = r"
  by (simp add: trim_prefix_def)

lemma trim_prefix_Cons [simp]: "trim_prefix (c # r) [c] = r"
  by (simp add: trim_prefix_def has_prefix_def)

lemma split_on_not_Nil [simp]: "split_on c s \<noteq> []"
  by (induction s) (auto split: list.splits)

lemma split_on_no_sep: "c \<notin> set s \<Longrightarrow> split_on c s = [s]"
  by (induction s) auto

lemma split_on_append_sep: "c \<notin> set a \<Longrightarrow> split_on c (a @ c # b) = a # split_on c b"
  by (induction a) auto

lemma split_on_join:
  "xs \<noteq> [] \<Longrightarrow> \<forall>x \<in> set xs. c \<notin> set x \<Longrightarrow> split_on c (join_with [c] xs) = xs"
  by (induction "[c]" xs rule: join_with.induct) (auto simp: split_on_no_sep split_on_append_sep)

lemma join_with_Cons: "xs \<noteq> [] \<Longrightarrow> join_with sep (x # xs) = x @ sep @ join_with sep xs"
  by (cases xs) simp_all

lemma join_split_on: "join_with [c] (split_on c s) = s"
proof (induction s)
  case Nil
  then show ?case by simp
next
  case (Cons x s)
  obtain h t where ht: "split_on c s = h # t"
    by (cases "split_on c s") auto
  with Cons show ?case
    by (cases t) (auto simp: join_with_Cons)
qed

lemma split_on_no_sep_elem: "x \<in> set (split_on c s) \<Longrightarrow> c \<notin> set x"
proof (induction s arbitrary: x)
  case Nil
  then show ?case by simp
next
  case (Cons y s)
  then show ?case
    by (cases "split_on c s") (auto split: if_splits)
qed

lemma split_on_append:
  "split_on c (a @ c # b) = split_on c a @ split_on c b"
proof (induction a)
  case Nil
  then show ?case by simp
next
  case (Cons x a)
  then show ?case
    by (cases "split_on c a") auto
qed

lemma hex_digit_value: "n < 16 \<Longrightarrow> from_hex_char (hex_digit n) = Some n"
  by (auto simp: from_hex_char_def hex_digit_def Let_def)

lemma hex_decode_encode [simp]: "hex_decode (hex_encode b) = Inr b"
proof (induction b)
  case Nil
  then show ?case by simp
next
  case (Cons c b)
  have "of_char c div 16 < (16::nat)" using nat_of_char_less_256 [of c] by linarith
  then show ?case using Cons
    by (simp add: hex_digit_value)
qed

lemma length_hex_encode [simp]: "length (hex_encode b) = 2 * length b"
  by (induction b) auto

lemma hex_decode_length: "hex_decode s = Inr b \<Longrightarrow> length s = 2 * length b"
  by (induction s arbitrary: b rule: hex_decode.induct) (auto split: option.splits sum.splits)

lemma from_hex_char_bound: "from_hex_char c = Some n \<Longrightarrow> n < 16"
  by (auto simp: from_hex_char_def Let_def split: if_splits)

lemma hex_digit_from_hex_char: "from_hex_char c = Some n \<Longrightarrow> hex_digit n = lower_char c"
proof -
  assume a: "from_hex_char c = Some n"
  have c: "char_of (of_char c :: nat) = c" by simp
  from a show ?thesis
    by (auto simp: from_hex_char_def hex_digit_def lower_char_def Let_def c split: if_splits)
qed

lemma hex_encode_decode: "hex_decode s = Inr b \<Longrightarrow> hex_encode b = map lower_char s"
proof (induction s arbitrary: b rule: hex_decode.induct)
  case (3 a c s)
  then obtain h l r where *: "from_hex_char a = Some h" "from_hex_char c = Some l"
      "hex_decode s = Inr r" "b = char_of (16 * h + l) # r"
    by (auto split: option.splits sum.splits)
  have "h < 16" "l < 16" using * by (auto dest: from_hex_char_bound)
  then have v: "(16 * h + l) mod 256 = 16 * h + l" "(16 * h + l) div 16 = h" by simp_all
  show ?case using * 3 \<open>l < 16\<close>
    by (simp add: v hex_digit_from_hex_char)
qed (auto split: option.splits)

lemma hex_decode_ok_iff: "ok (hex_decode s) \<longleftrightarrow> even (length s) \<and> is_hex s"
  by (induction s rule: hex_decode.induct)
     (force simp: is_hex_def ok_def split: option.split sum.split)+

lemma lower_char_idem [simp]: "lower_char (lower_char c) = lower_char c"
  by (auto simp: lower_char_def Let_def)

section \<open>White space and case of printable ASCII\<close>

text \<open>A byte that neither starts nor ends the encoding of a white-space code point.\<close>

definition graphic :: "char \<Rightarrow> bool" where
  "graphic c = (let n = of_char c :: nat in 32 < n \<and> n < 128)"

lemma space_encodings_edges:
  "list_all (\<lambda>e. e \<noteq> [] \<and> \<not> graphic (hd e) \<and> \<not> graphic (last e)) space_encodings"
  by (simp add: space_encodings_def graphic_def upt_rec)

lemma no_prefix_graphic:
  assumes "list_all (\<lambda>e. e \<noteq> [] \<and> \<not> graphic (hd e)) encs" "s \<noteq> [] \<Longrightarrow> graphic (hd s)"
  shows "strip_front encs n s = s"
proof -
  have "find (has_prefix s) encs = None"
  proof (unfold find_None_iff, rule notI)
    assume "\<exists>e. e \<in> set encs \<and> has_prefix s e"
    then obtain e r where e: "e \<in> set encs" "s = e @ r" by (auto simp: has_prefix_iff)
    with assms(1) have "e \<noteq> []" "\<not> graphic (hd e)" by (auto simp: list_all_iff)
    with e assms(2) show False by simp
  qed
  then show ?thesis by (cases n) simp_all
qed

lemma trim_space_id:
  assumes "s \<noteq> [] \<Longrightarrow> graphic (hd s) \<and> graphic (last s)"
  shows "trim_space s = s"
proof -
  have "strip_front space_encodings (length s) s = s"
    by (rule no_prefix_graphic) (use assms space_encodings_edges in \<open>auto simp: list_all_iff\<close>)
  moreover have "strip_front (map rev space_encodings) (length s) (rev s) = rev s"
    by (rule no_prefix_graphic)
       (use assms space_encodings_edges in \<open>auto simp: list_all_iff hd_rev\<close>)
  ultimately show ?thesis by (simp add: trim_space_def)
qed

lemma trim_space_blank [simp]: "trim_space (CHR '' '' # s) = trim_space s"
proof -
  have "find (has_prefix (CHR '' '' # s)) space_encodings = Some '' ''"
    by (simp add: space_encodings_def has_prefix_def char_of_def bit_0)
  then show ?thesis by (simp add: trim_space_def)
qed

lemma to_lower_Cons:
  "graphic c \<Longrightarrow> to_lower (c # s) = lower_char c # to_lower s"
  by (auto simp: has_prefix_def graphic_def Let_def)

declare to_lower.simps(2) [simp del]

text \<open>Evaluation of \<open>ToLower\<close> and \<open>TrimSpace\<close> on printable ASCII.\<close>

lemmas ascii_eval = trim_space_id to_lower_Cons graphic_def lower_char_def

end
