(* ===== verification/Protoio.thy ===== *)
theory Protoio
  imports GoStrings
begin

unbundle bit_operations_syntax

text \<open>
  The length-prefixed framing of \<open>internal/protoio/protoio.go\<close>, shared by the libp2p streams and
  the control socket. A connection is seen from one side: the bytes that will still arrive and how
  the stream ends after them, the bytes written so far and how many more the stream takes before a
  write fails. Both are unconstrained, so a theorem over all connections covers every peer, every
  truncation and every write failure. The JSON codec of a message type is an argument of
  \<open>write_json\<close> and \<open>read_json\<close>.
\<close>

section \<open>Connections\<close>

record conn =
  rd_buf :: bytes
  rd_end :: goerr
  wr_buf :: bytes
  wr_room :: "nat option"
  wr_err :: goerr

definition conn_write :: "conn \<Rightarrow> bytes \<Rightarrow> unit res \<times> conn" where
  "conn_write c d =
     (case wr_room c of
        None \<Rightarrow> (Inr (), c\<lparr>wr_buf := wr_buf c @ d\<rparr>)
      | Some n \<Rightarrow>
          if length d \<le> n
          then (Inr (), c\<lparr>wr_buf := wr_buf c @ d, wr_room := Some (n - length d)\<rparr>)
          else (Inl (wr_err c), c\<lparr>wr_buf := wr_buf c @ take n d, wr_room := Some 0\<rparr>))"

text \<open>
  \<open>io.ReadFull\<close>: nothing read before the end is the end's own error, a partial read that ends
  cleanly is \<open>io.ErrUnexpectedEOF\<close>.
\<close>

definition read_full :: "conn \<Rightarrow> nat \<Rightarrow> bytes res \<times> conn" where
  "read_full c n =
     (if n \<le> length (rd_buf c)
      then (Inr (take n (rd_buf c)), c\<lparr>rd_buf := drop n (rd_buf c)\<rparr>)
      else (Inl (if rd_buf c \<noteq> [] \<and> rd_end c = Sentinel EOF then Sentinel ErrUnexpectedEOF
                 else rd_end c),
            c\<lparr>rd_buf := []\<rparr>))"

section \<open>Big-endian length header\<close>

definition put_uint32 :: "32 word \<Rightarrow> bytes" where
  "put_uint32 w =
     [char_of (unat (drop_bit 24 w AND 255)), char_of (unat (drop_bit 16 w AND 255)),
      char_of (unat (drop_bit 8 w AND 255)), char_of (unat (w AND 255))]"

definition get_uint32 :: "bytes \<Rightarrow> 32 word" where
  "get_uint32 h =
     foldl (\<lambda>acc b. push_bit 8 acc OR of_nat (of_char b)) 0 h"

section \<open>Frames\<close>

definition MaxFrame :: nat where
  "MaxFrame = 8 * 2 ^ 20"

definition write_frame :: "conn \<Rightarrow> bytes \<Rightarrow> unit res \<times> conn" where
  "write_frame c data =
     (if length data > MaxFrame then (Inl (Sentinel ErrFrameTooLarge), c)
      else case conn_write c (put_uint32 (of_nat (length data))) of
             (Inl e, c1) \<Rightarrow> (Inl e, c1)
           | (Inr _, c1) \<Rightarrow>
               if data = [] then (Inr (), c1) else conn_write c1 data)"

definition read_frame :: "conn \<Rightarrow> bytes res \<times> conn" where
  "read_frame c =
     (case read_full c 4 of
        (Inl e, c1) \<Rightarrow> (Inl e, c1)
      | (Inr hdr, c1) \<Rightarrow>
          (let n = unat (get_uint32 hdr)
           in if n > MaxFrame then (Inl (Sentinel ErrFrameTooLarge), c1) else read_full c1 n))"

definition write_json :: "('v \<Rightarrow> bytes res) \<Rightarrow> conn \<Rightarrow> 'v \<Rightarrow> unit res \<times> conn" where
  "write_json marshal c v =
     (case marshal v of
        Inl e \<Rightarrow> (Inl (Wrapf ''marshal frame payload: %w'' [] e), c)
      | Inr data \<Rightarrow> write_frame c data)"

definition read_json :: "(bytes \<Rightarrow> 'v res) \<Rightarrow> conn \<Rightarrow> 'v res \<times> conn" where
  "read_json unmarshal c =
     (case read_frame c of
        (Inl e, c1) \<Rightarrow> (Inl e, c1)
      | (Inr data, c1) \<Rightarrow>
          (case unmarshal data of
             Inl e \<Rightarrow> (Inl (Wrapf ''unmarshal frame payload: %w'' [] e), c1)
           | Inr v \<Rightarrow> (Inr v, c1)))"

section \<open>Header laws\<close>

lemma length_put_uint32 [simp]: "length (put_uint32 w) = 4"
  by (simp add: put_uint32_def)

lemma and_255: "x AND 255 = take_bit 8 (x :: 32 word)"
  by (simp add: take_bit_eq_mask mask_eq_exp_minus_1)

lemma word32_bytes:
  "push_bit 8 (push_bit 8 (push_bit 8 (take_bit 8 (drop_bit 24 w)) OR take_bit 8 (drop_bit 16 w))
     OR take_bit 8 (drop_bit 8 w)) OR take_bit 8 w = (w :: 32 word)"
proof (rule bit_word_eqI)
  fix n assume "n < LENGTH(32)"
  then consider "n < 8" | "8 \<le> n" "n < 16" | "16 \<le> n" "n < 24" | "24 \<le> n" "n < 32"
    by fastforce
  then show "bit (push_bit 8 (push_bit 8 (push_bit 8 (take_bit 8 (drop_bit 24 w))
       OR take_bit 8 (drop_bit 16 w)) OR take_bit 8 (drop_bit 8 w)) OR take_bit 8 w) n = bit w n"
    by cases (auto simp: bit_simps)
qed

lemma of_nat_byte:
  "of_nat (of_char (char_of (unat (take_bit 8 x)) :: char)) = (take_bit 8 x :: 32 word)"
proof -
  have "unat (take_bit 8 x) mod 256 = unat (take_bit 8 x)"
    by (simp add: unsigned_take_bit_eq take_bit_nat_def)
  then show ?thesis by simp
qed

lemma get_put_uint32 [simp]: "get_uint32 (put_uint32 w) = w"
proof -
  have "get_uint32 (put_uint32 w) =
     push_bit 8 (push_bit 8 (push_bit 8 (take_bit 8 (drop_bit 24 w)) OR take_bit 8 (drop_bit 16 w))
       OR take_bit 8 (drop_bit 8 w)) OR take_bit 8 w"
    unfolding get_uint32_def put_uint32_def and_255 by (simp only: foldl.simps of_nat_byte) simp
  then show ?thesis by (simp only: word32_bytes)
qed


section \<open>Frames\<close>

definition frame_bytes :: "bytes \<Rightarrow> bytes" where
  "frame_bytes data = put_uint32 (of_nat (length data)) @ data"

lemma unat_len_MaxFrame:
  "length data \<le> MaxFrame \<Longrightarrow> unat (of_nat (length data) :: 32 word) = length data"
  by (simp add: MaxFrame_def unat_of_nat)

lemma conn_write_ok:
  "conn_write c d = (Inr u, c') \<Longrightarrow> wr_buf c' = wr_buf c @ d \<and> rd_buf c' = rd_buf c \<and> rd_end c' = rd_end c"
  by (auto simp: conn_write_def split: option.splits if_splits)

lemma conn_write_unlimited [simp]:
  "wr_room c = None \<Longrightarrow> conn_write c d = (Inr (), c\<lparr>wr_buf := wr_buf c @ d\<rparr>)"
  by (simp add: conn_write_def)

lemma conn_write_frame:
  "rd_buf (snd (conn_write c d)) = rd_buf c" "rd_end (snd (conn_write c d)) = rd_end c"
  by (simp_all add: conn_write_def split: option.splits)

lemma write_frame_keeps_input:
  "rd_buf (snd (write_frame c d)) = rd_buf c \<and> rd_end (snd (write_frame c d)) = rd_end c"
  by (auto simp: write_frame_def split: prod.splits sum.splits)
     (metis conn_write_frame snd_conv)+

lemma write_frame_ok:
  "write_frame c d = (Inr u, c') \<Longrightarrow> wr_buf c' = wr_buf c @ frame_bytes d \<and> length d \<le> MaxFrame"
  by (auto simp: write_frame_def frame_bytes_def split: if_splits prod.splits sum.splits
        dest!: conn_write_ok)

lemma write_frame_unlimited:
  "wr_room c = None \<Longrightarrow> length d \<le> MaxFrame \<Longrightarrow>
     write_frame c d = (Inr (), c\<lparr>wr_buf := wr_buf c @ frame_bytes d\<rparr>)"
  by (simp add: write_frame_def frame_bytes_def)

lemma read_full_append [simp]:
  "rd_buf c = d @ rest \<Longrightarrow> read_full c (length d) = (Inr d, c\<lparr>rd_buf := rest\<rparr>)"
  by (simp add: read_full_def)

lemma read_frame_frame_bytes:
  assumes "rd_buf c = frame_bytes d @ rest" "length d \<le> MaxFrame"
  shows "read_frame c = (Inr d, c\<lparr>rd_buf := rest\<rparr>)"
proof -
  have "read_full c 4 = (Inr (put_uint32 (of_nat (length d))), c\<lparr>rd_buf := d @ rest\<rparr>)"
    using assms(1) read_full_append [of c "put_uint32 (of_nat (length d))" "d @ rest"]
    by (simp add: frame_bytes_def)
  then show ?thesis
    using assms(2) unat_len_MaxFrame [OF assms(2)] by (simp add: read_frame_def)
qed

lemma read_full_ok: "read_full c n = (Inr d, c') \<Longrightarrow> length d = n \<and> rd_buf c = d @ rd_buf c'"
  by (auto simp: read_full_def split: if_splits)

lemma read_frame_ok_bound:
  "read_frame c = (Inr d, c') \<Longrightarrow> length d \<le> MaxFrame"
  by (auto simp: read_frame_def Let_def split: prod.splits sum.splits if_splits dest!: read_full_ok)

lemma write_json_read_json:
  assumes "unmarshal data = Inr v" "length data \<le> MaxFrame" "rd_buf r = frame_bytes data @ rest"
  shows "read_json unmarshal r = (Inr v, r\<lparr>rd_buf := rest\<rparr>)"
  by (simp add: read_json_def read_frame_frame_bytes [OF assms(3,2)] assms(1))

section \<open>Properties\<close>

text \<open>C1: a frame that \<open>WriteFrame\<close> accepted is read back exactly by \<open>ReadFrame\<close> at the other end,
  leaving the bytes after it in the stream, so frames can be pipelined.\<close>

theorem frame_roundtrip:
  assumes "write_frame w data = (Inr (), w')"
    and "rd_buf r = drop (length (wr_buf w)) (wr_buf w') @ rest"
  shows "read_frame r = (Inr data, r\<lparr>rd_buf := rest\<rparr>)"
proof -
  from assms(1) have "wr_buf w' = wr_buf w @ frame_bytes data" "length data \<le> MaxFrame"
    by (auto dest: write_frame_ok)
  with assms(2) show ?thesis by (simp add: read_frame_frame_bytes)
qed

theorem frame_roundtrip_witness:
  "read_frame \<lparr>rd_buf = put_uint32 2 @ ''hi'' @ ''x'', rd_end = Sentinel EOF, wr_buf = [],
               wr_room = None, wr_err = Sentinel ErrReset\<rparr>
   = (Inr ''hi'', \<lparr>rd_buf = ''x'', rd_end = Sentinel EOF, wr_buf = [],
                   wr_room = None, wr_err = Sentinel ErrReset\<rparr>)"
proof -
  let ?w = "\<lparr>rd_buf = [], rd_end = Sentinel EOF, wr_buf = [], wr_room = None,
             wr_err = Sentinel ErrReset\<rparr>"
  let ?r = "\<lparr>rd_buf = put_uint32 2 @ ''hi'' @ ''x'', rd_end = Sentinel EOF, wr_buf = [],
               wr_room = None, wr_err = Sentinel ErrReset\<rparr>"
  have w: "write_frame ?w ''hi'' = (Inr (), ?w\<lparr>wr_buf := put_uint32 2 @ ''hi''\<rparr>)"
    by (simp add: write_frame_def MaxFrame_def)
  have "rd_buf ?r = drop (length (wr_buf ?w)) (wr_buf (?w\<lparr>wr_buf := put_uint32 2 @ ''hi''\<rparr>)) @ ''x''"
    by simp
  from frame_roundtrip [OF w this] show ?thesis by simp
qed

text \<open>C2: whatever a peer sends, \<open>ReadFrame\<close> never returns (nor allocates for) more than
  \<open>MaxFrame\<close> bytes: it consumes the four header bytes, and an announced length above the bound is
  refused with \<open>ErrFrameTooLarge\<close> before any payload byte is taken; otherwise what it returns and
  what it leaves are exactly a split of the bytes after the header at the announced length.\<close>

theorem read_frame_bounded:
  assumes "rd_buf c = hdr @ body" "length hdr = 4"
  shows "if unat (get_uint32 hdr) > MaxFrame
         then read_frame c = (Inl (Sentinel ErrFrameTooLarge), c\<lparr>rd_buf := body\<rparr>)
         else if unat (get_uint32 hdr) \<le> length body
         then (\<exists>d rest. read_frame c = (Inr d, c\<lparr>rd_buf := rest\<rparr>) \<and> body = d @ rest
                 \<and> length d = unat (get_uint32 hdr) \<and> length d \<le> MaxFrame)
         else (\<exists>e. read_frame c = (Inl e, c\<lparr>rd_buf := []\<rparr>))"
proof -
  have "read_full c 4 = (Inr hdr, c\<lparr>rd_buf := body\<rparr>)"
    using assms read_full_append [of c hdr body] by simp
  then show ?thesis
    by (auto simp: read_frame_def read_full_def Let_def intro: exI [of _ "drop _ body"])
qed

theorem read_frame_bounded_witness:
  "read_frame \<lparr>rd_buf = map char_of [255, 0, 0, 0 :: nat] @ ''abc'', rd_end = Sentinel EOF,
               wr_buf = [], wr_room = None, wr_err = Sentinel ErrReset\<rparr>
   = (Inl (Sentinel ErrFrameTooLarge),
      \<lparr>rd_buf = ''abc'', rd_end = Sentinel EOF, wr_buf = [], wr_room = None,
       wr_err = Sentinel ErrReset\<rparr>)"
proof -
  have "unat (get_uint32 (map char_of [255, 0, 0, 0 :: nat])) > MaxFrame"
    by (simp add: get_uint32_def MaxFrame_def)
  then show ?thesis
    using read_frame_bounded [of "\<lparr>rd_buf = map char_of [255, 0, 0, 0 :: nat] @ ''abc'',
      rd_end = Sentinel EOF, wr_buf = [], wr_room = None, wr_err = Sentinel ErrReset\<rparr>"
      "map char_of [255, 0, 0, 0 :: nat]" "''abc''"] by simp
qed

end
