(* ===== verification/Dummy.thy ===== *)
theory Dummy
  imports GoStrings
begin

text \<open>
  The commit-hash/CID mapping of \<open>internal/dummy/dummy.go\<close>. The CID and multihash packages
  (\<open>go-cid\<close>, \<open>go-multihash\<close>) are third-party code: their functions are fields of the argument
  \<open>L\<close>, a CID is the byte string it is a wrapper of (the undefined CID is the empty one), and what
  the program relies on is the locale \<open>multiformats\<close>. \<open>ref_cids\<close> is a concrete instance in the
  documented binary layout; the interpretation \<open>ref\<close> shows that the laws can hold.
\<close>

section \<open>The multiformats interface\<close>

type_synonym cid = bytes

record cidlib =
  mh_sum :: "bytes \<Rightarrow> nat \<Rightarrow> int \<Rightarrow> bytes res"
  mh_decode :: "bytes \<Rightarrow> (nat \<times> bytes) res"
  new_cidv1 :: "nat \<Rightarrow> bytes \<Rightarrow> cid"
  cid_hash :: "cid \<Rightarrow> bytes"
  cid_type :: "cid \<Rightarrow> nat"
  cid_string :: "cid \<Rightarrow> string"
  cid_decode :: "string \<Rightarrow> cid res"

definition IDENTITY :: nat where "IDENTITY = 0"
definition DagProtobuf :: nat where "DagProtobuf = 112"
definition Raw :: nat where "Raw = 85"

definition cid_undef :: cid where "cid_undef = []"

definition cid_defined :: "cid \<Rightarrow> bool" where
  "cid_defined c = (c \<noteq> cid_undef)"

section \<open>Operations\<close>

definition CommitLen :: nat where "CommitLen = 40"

definition from_commit :: "cidlib \<Rightarrow> string \<Rightarrow> cid res" where
  "from_commit L commit =
     (if length commit \<noteq> CommitLen
      then Inl (Errorf ''invalid HF commit hash %q: expected %d hex characters, got %d''
                 [AStr commit, AInt (int CommitLen), AInt (int (length commit))])
      else case hex_decode commit of
             Inl e \<Rightarrow> Inl (Wrapf ''invalid HF commit hash %q: %w'' [AStr commit] e)
           | Inr raw \<Rightarrow>
               (case mh_sum L raw IDENTITY (-1) of
                  Inl e \<Rightarrow> Inl (Wrapf ''build identity multihash: %w'' [] e)
                | Inr digest \<Rightarrow> Inr (new_cidv1 L DagProtobuf digest)))"

definition commit_of :: "cidlib \<Rightarrow> cid \<Rightarrow> string res" where
  "commit_of L c =
     (case mh_decode L (cid_hash L c) of
        Inl e \<Rightarrow> Inl (Wrapf ''decode dummy multihash %s: %w'' [AStr (cid_string L c)] e)
      | Inr (code, digest) \<Rightarrow>
          if code \<noteq> IDENTITY
          then Inl (Errorf ''cid %s is not a dummy HF cid (multihash code %#x)''
                     [AStr (cid_string L c), AInt (int code)])
          else if length digest \<noteq> 20
          then Inl (Errorf ''cid %s is not a dummy HF cid (digest length %d)''
                     [AStr (cid_string L c), AInt (int (length digest))])
          else Inr (hex_encode digest))"

definition is_dummy :: "cidlib \<Rightarrow> cid \<Rightarrow> bool" where
  "is_dummy L c = ok (commit_of L c)"

section \<open>The laws of the interface\<close>

text \<open>A CID made from a multihash: the two codecs the program uses.\<close>

definition cid_valid :: "cidlib \<Rightarrow> cid \<Rightarrow> bool" where
  "cid_valid L c = (cid_type L c \<in> {DagProtobuf, Raw} \<and> ok (mh_decode L (cid_hash L c))
     \<and> c = new_cidv1 L (cid_type L c) (cid_hash L c))"

locale multiformats =
  fixes L :: cidlib
  assumes sum_identity: "\<exists>m. mh_sum L raw IDENTITY (-1) = Inr m \<and> mh_decode L m = Inr (IDENTITY, raw)"
    and hash_new: "ok (mh_decode L m) \<Longrightarrow> cid_hash L (new_cidv1 L t m) = m"
    and type_new: "ok (mh_decode L m) \<Longrightarrow> t \<in> {DagProtobuf, Raw} \<Longrightarrow> cid_type L (new_cidv1 L t m) = t"
    and defined_valid: "cid_valid L c \<Longrightarrow> cid_defined c"
    and decode_string: "cid_valid L c \<Longrightarrow> cid_decode L (cid_string L c) = Inr c"
begin

lemma from_commit_Inr_iff:
  "from_commit L s = Inr c \<longleftrightarrow>
     length s = CommitLen \<and> (\<exists>raw m. hex_decode s = Inr raw \<and> mh_sum L raw IDENTITY (-1) = Inr m
        \<and> c = new_cidv1 L DagProtobuf m)"
  by (auto simp: from_commit_def split: sum.splits)

lemma from_commit_ok: "ok (from_commit L s) \<longleftrightarrow> length s = CommitLen \<and> is_hex s"
proof -
  have "ok (from_commit L s) \<longleftrightarrow> length s = CommitLen \<and> ok (hex_decode s)"
    using sum_identity by (fastforce simp: ok_iff from_commit_Inr_iff)
  then show ?thesis by (auto simp: hex_decode_ok_iff CommitLen_def)
qed

lemma commit_of_from_commit:
  assumes "from_commit L s = Inr c"
  shows "commit_of L c = Inr (map lower_char s)"
proof -
  from assms obtain raw m where *: "length s = CommitLen" "hex_decode s = Inr raw"
      "mh_sum L raw IDENTITY (-1) = Inr m" "c = new_cidv1 L DagProtobuf m"
    by (auto simp: from_commit_Inr_iff)
  from sum_identity [of raw] *(3) have "mh_decode L m = Inr (IDENTITY, raw)" by auto
  moreover have "length raw = 20"
    using hex_decode_length [OF *(2)] *(1) by (simp add: CommitLen_def)
  ultimately show ?thesis
    using hex_encode_decode [OF *(2)] by (simp add: commit_of_def *(4) hash_new)
qed

lemma from_commit_eq_iff:
  assumes "from_commit L s = Inr c" "from_commit L t = Inr d"
  shows "c = d \<longleftrightarrow> map lower_char s = map lower_char t"
proof
  assume "c = d"
  with commit_of_from_commit [OF assms(1)] commit_of_from_commit [OF assms(2)]
  show "map lower_char s = map lower_char t" by simp
next
  assume eq: "map lower_char s = map lower_char t"
  from assms obtain rs rt where r: "hex_decode s = Inr rs" "hex_decode t = Inr rt"
    by (auto simp: from_commit_Inr_iff)
  from eq hex_encode_decode [OF r(1)] hex_encode_decode [OF r(2)]
  have "hex_decode (hex_encode rs) = hex_decode (hex_encode rt)" by simp
  with r assms show "c = d" by (auto simp: from_commit_Inr_iff)
qed

lemma new_valid:
  assumes "ok (mh_decode L m)" "t \<in> {DagProtobuf, Raw}"
  shows "cid_valid L (new_cidv1 L t m)"
  using type_new [OF assms] hash_new [OF assms(1), of t] assms unfolding cid_valid_def by simp

lemma from_commit_valid:
  assumes "from_commit L s = Inr c"
  shows "cid_valid L c" "cid_type L c = DagProtobuf"
proof -
  from assms obtain raw m where *: "mh_sum L raw IDENTITY (-1) = Inr m" "c = new_cidv1 L DagProtobuf m"
    by (auto simp: from_commit_Inr_iff)
  from sum_identity [of raw] *(1) have "ok (mh_decode L m)" by auto
  with new_valid [of m DagProtobuf] type_new [of m DagProtobuf] *(2)
  show "cid_valid L c" "cid_type L c = DagProtobuf" by simp_all
qed

lemma from_commit_defined: "from_commit L s = Inr c \<Longrightarrow> cid_defined c \<and> cid_type L c = DagProtobuf"
  using from_commit_valid defined_valid by blast

end

section \<open>A concrete instance\<close>

text \<open>
  Multihash: code byte, length byte, digest (one-byte varints). CIDv1: version byte, codec byte,
  multihash. Text form: multibase \<open>f\<close> (lower-case hexadecimal).
\<close>

definition ref_cids :: cidlib where
  "ref_cids =
     \<lparr>mh_sum = (\<lambda>raw code _.
        if code = IDENTITY then Inr (char_of code # char_of (length raw) # raw)
        else Inl (Errorf ''unknown multihash code'' [])),
      mh_decode = (\<lambda>m. case m of
          c # _ # d \<Rightarrow> Inr (of_char c, d)
        | _ \<Rightarrow> Inl (Errorf ''multihash too short'' [])),
      new_cidv1 = (\<lambda>t m. char_of (1::nat) # char_of t # m),
      cid_hash = (\<lambda>c. drop 2 c),
      cid_type = (\<lambda>c. case c of _ # t # _ \<Rightarrow> of_char t | _ \<Rightarrow> 0),
      cid_string = (\<lambda>c. CHR ''f'' # hex_encode c),
      cid_decode = (\<lambda>s. case s of
          [] \<Rightarrow> Inl (Errorf ''cid too short'' [])
        | p # r \<Rightarrow> if p = CHR ''f'' then hex_decode r else Inl (Errorf ''unknown multibase'' []))\<rparr>"

interpretation ref: multiformats ref_cids
  by unfold_locales
     (auto simp: ref_cids_def IDENTITY_def DagProtobuf_def Raw_def cid_defined_def cid_undef_def cid_valid_def)

lemma ref_decode_string: "cid_decode ref_cids (cid_string ref_cids c) = Inr c"
  by (simp add: ref_cids_def)

section \<open>Properties\<close>

text \<open>\<open>FromCommit\<close> accepts exactly the 40-character hexadecimal strings.\<close>

theorem from_commit_accepts:
  assumes "multiformats L"
  shows "ok (from_commit L s) \<longleftrightarrow> length s = 40 \<and> is_hex s"
  using multiformats.from_commit_ok [OF assms] by (simp add: CommitLen_def)

theorem from_commit_accepts_witness:
  "ok (from_commit ref_cids ''0123456789abcdef0123456789abcdef01234567'')
   \<and> \<not> ok (from_commit ref_cids ''../../etc/passwd'')"
  using from_commit_accepts [OF ref.multiformats_axioms, of "''0123456789abcdef0123456789abcdef01234567''"]
    from_commit_accepts [OF ref.multiformats_axioms, of "''../../etc/passwd''"]
  by (simp add: is_hex_def from_hex_char_def Let_def)

text \<open>C3: \<open>Commit\<close> inverts \<open>FromCommit\<close>: it recovers the commit hash from the dummy CID, in lower
  case, and two accepted hashes have the same dummy CID exactly when they differ in letter case
  only.\<close>

theorem dummy_roundtrip:
  assumes "multiformats L" "from_commit L s = Inr c" "from_commit L t = Inr d"
  shows "commit_of L c = Inr (map lower_char s) \<and> is_dummy L c
    \<and> (c = d \<longleftrightarrow> map lower_char s = map lower_char t)"
  using multiformats.commit_of_from_commit [OF assms(1,2)]
    multiformats.from_commit_eq_iff [OF assms(1,2,3)]
  by (simp add: is_dummy_def)

theorem dummy_roundtrip_witness:
  "\<exists>c. from_commit ref_cids ''0123456789abcdef0123456789abcdef01234567'' = Inr c
     \<and> from_commit ref_cids ''0123456789ABCDEF0123456789ABCDEF01234567'' = Inr c
     \<and> commit_of ref_cids c = Inr ''0123456789abcdef0123456789abcdef01234567''"
proof -
  have a: "ok (from_commit ref_cids ''0123456789abcdef0123456789abcdef01234567'')"
    and b: "ok (from_commit ref_cids ''0123456789ABCDEF0123456789ABCDEF01234567'')"
    by (simp_all add: ref.from_commit_ok CommitLen_def is_hex_def from_hex_char_def Let_def)
  then obtain c d where
      c: "from_commit ref_cids ''0123456789abcdef0123456789abcdef01234567'' = Inr c" and
      d: "from_commit ref_cids ''0123456789ABCDEF0123456789ABCDEF01234567'' = Inr d"
    by (auto simp: ok_iff)
  have l: "map lower_char ''0123456789abcdef0123456789abcdef01234567'' = ''0123456789abcdef0123456789abcdef01234567''"
    and u: "map lower_char ''0123456789ABCDEF0123456789ABCDEF01234567'' = ''0123456789abcdef0123456789abcdef01234567''"
    by code_simp+
  from dummy_roundtrip [OF ref.multiformats_axioms c d, unfolded l u] c d show ?thesis by blast
qed

end
