(* ===== verification/Store.thy ===== *)
theory Store
  imports GoStrings
begin

text \<open>
  \<open>internal/store/bolt.go\<close>: bbolt as a \<open>go-datastore\<close>, and the repository lock. bbolt is
  third-party code: the operations of a transaction are fields of the argument \<open>B\<close>, over an
  abstract database state, with their documented laws in the locale \<open>bolt\<close>. What the rest of the
  program uses is the datastore interface, the record \<open>dsops\<close> with the laws of the locale
  \<open>datastore\<close>; the sublocale statement is the proof that the adapter provides it.
\<close>

section \<open>The bbolt interface\<close>

record 'db boltlib =
  tx_begin :: "'db \<Rightarrow> unit res"
  bucket_exists :: "'db \<Rightarrow> bytes \<Rightarrow> bool"
  create_bucket :: "'db \<Rightarrow> bytes \<Rightarrow> 'db res"
  bucket_get :: "'db \<Rightarrow> bytes \<Rightarrow> bytes \<Rightarrow> bytes option"
  bucket_put :: "'db \<Rightarrow> bytes \<Rightarrow> bytes \<Rightarrow> bytes \<Rightarrow> 'db res"
  bucket_delete :: "'db \<Rightarrow> bytes \<Rightarrow> bytes \<Rightarrow> 'db res"
  bucket_foreach :: "'db \<Rightarrow> bytes \<Rightarrow> (bytes \<times> bytes) list"
  tx_commit :: "'db \<Rightarrow> 'db res"

text \<open>
  \<open>db.View\<close> runs a read-only function, \<open>db.Update\<close> a read-write one: an error of the function
  rolls the transaction back, otherwise it commits.
\<close>

definition db_view :: "'db boltlib \<Rightarrow> ('db \<Rightarrow> 'a res) \<Rightarrow> 'db \<Rightarrow> 'a res" where
  "db_view B f db = (case tx_begin B db of Inl e \<Rightarrow> Inl e | Inr _ \<Rightarrow> f db)"

definition db_update :: "'db boltlib \<Rightarrow> ('db \<Rightarrow> 'db res) \<Rightarrow> 'db \<Rightarrow> unit res \<times> 'db" where
  "db_update B f db =
     (case tx_begin B db of
        Inl e \<Rightarrow> (Inl e, db)
      | Inr _ \<Rightarrow>
          (case f db of
             Inl e \<Rightarrow> (Inl e, db)
           | Inr db1 \<Rightarrow>
               (case tx_commit B db1 of Inl e \<Rightarrow> (Inl e, db) | Inr db2 \<Rightarrow> (Inr (), db2))))"

section \<open>The store\<close>

definition BucketBlocks :: bytes where "BucketBlocks = ''blocks''"
definition BucketFilestore :: bytes where "BucketFilestore = ''filestore''"
definition BucketMap :: bytes where "BucketMap = ''map''"

fun create_buckets :: "'db boltlib \<Rightarrow> bytes list \<Rightarrow> 'db \<Rightarrow> 'db res" where
  "create_buckets B [] db = Inr db"
| "create_buckets B (b # bs) db =
     (case create_bucket B db b of Inl e \<Rightarrow> Inl e | Inr db1 \<Rightarrow> create_buckets B bs db1)"

text \<open>
  What the process holds open: the database, the libp2p host with its connection manager and resource
  manager, the DHT, and the subscription to reachability events.
\<close>

datatype resource = RStore | RConnMgr | RRcMgr | RHost | RDht | RSub

text \<open>\<open>Open\<close>: the outcome of \<open>bolt.Open\<close> is an argument; the buckets are made in one transaction, and when that
  fails the database is closed again.\<close>

definition store_open :: "'db boltlib \<Rightarrow> 'db res \<Rightarrow> string \<Rightarrow> resource list \<Rightarrow> 'db res \<times> resource list" where
  "store_open B opened path rs =
     (case opened of
        Inl e \<Rightarrow> (Inl (Wrapf ''open bolt db %s: %w'' [AStr path] e), rs)
      | Inr db \<Rightarrow>
          (let rs1 = RStore # rs
           in case db_update B (create_buckets B [BucketBlocks, BucketFilestore, BucketMap]) db of
                (Inl e, _) \<Rightarrow> (Inl (Wrapf ''initialise bolt buckets: %w'' [] e), remove1 RStore rs1)
              | (Inr _, db1) \<Rightarrow> (Inr db1, rs1)))"

section \<open>The datastore adapter\<close>

definition raw :: "string \<Rightarrow> bytes" where
  "raw k = trim_prefix k ''/''"

definition ds_get :: "'db boltlib \<Rightarrow> bytes \<Rightarrow> 'db \<Rightarrow> string \<Rightarrow> bytes res" where
  "ds_get B bucket db k =
     db_view B (\<lambda>tx. if \<not> bucket_exists B tx bucket then Inl (Sentinel ErrNotFound)
                     else case bucket_get B tx bucket (raw k) of
                            None \<Rightarrow> Inl (Sentinel ErrNotFound) | Some v \<Rightarrow> Inr v) db"

definition ds_has :: "'db boltlib \<Rightarrow> bytes \<Rightarrow> 'db \<Rightarrow> string \<Rightarrow> bool res" where
  "ds_has B bucket db k =
     db_view B (\<lambda>tx. if \<not> bucket_exists B tx bucket then Inr False
                     else Inr (bucket_get B tx bucket (raw k) \<noteq> None)) db"

definition ds_get_size :: "'db boltlib \<Rightarrow> bytes \<Rightarrow> 'db \<Rightarrow> string \<Rightarrow> nat res" where
  "ds_get_size B bucket db k =
     db_view B (\<lambda>tx. if \<not> bucket_exists B tx bucket then Inl (Sentinel ErrNotFound)
                     else case bucket_get B tx bucket (raw k) of
                            None \<Rightarrow> Inl (Sentinel ErrNotFound) | Some v \<Rightarrow> Inr (length v)) db"

definition ds_put :: "'db boltlib \<Rightarrow> bytes \<Rightarrow> 'db \<Rightarrow> string \<Rightarrow> bytes \<Rightarrow> unit res \<times> 'db" where
  "ds_put B bucket db k v =
     db_update B (\<lambda>tx. case create_bucket B tx bucket of
                          Inl e \<Rightarrow> Inl e
                        | Inr tx1 \<Rightarrow> bucket_put B tx1 bucket (raw k) v) db"

definition ds_delete :: "'db boltlib \<Rightarrow> bytes \<Rightarrow> 'db \<Rightarrow> string \<Rightarrow> unit res \<times> 'db" where
  "ds_delete B bucket db k =
     db_update B (\<lambda>tx. if \<not> bucket_exists B tx bucket then Inr tx
                       else bucket_delete B tx bucket (raw k)) db"

record query =
  q_prefix :: string
  keys_only :: bool
  q_limit :: nat
  q_offset :: nat

record dsentry =
  e_key :: string
  e_value :: bytes
  e_size :: nat

definition empty_query :: query where
  "empty_query = \<lparr>q_prefix = [], keys_only = False, q_limit = 0, q_offset = 0\<rparr>"

text \<open>\<open>dsq.NaiveQueryApply\<close>, a library function, is the argument \<open>naive\<close>.\<close>

definition ds_query ::
  "'db boltlib \<Rightarrow> (query \<Rightarrow> dsentry list \<Rightarrow> dsentry list) \<Rightarrow> bytes \<Rightarrow> 'db \<Rightarrow> query \<Rightarrow> dsentry list res" where
  "ds_query B naive bucket db q =
     (case db_view B (\<lambda>tx. if \<not> bucket_exists B tx bucket then Inr []
                           else Inr (map (\<lambda>(k, v). \<lparr>e_key = ''/'' @ k,
                                   e_value = (if keys_only q then [] else v),
                                   e_size = length v\<rparr>) (bucket_foreach B tx bucket))) db of
        Inl e \<Rightarrow> Inl e
      | Inr es \<Rightarrow> Inr (naive q es))"

section \<open>Batches\<close>

record batch =
  b_puts :: "(string \<times> bytes) list"
  b_deletes :: "string list"

definition batch_put :: "batch \<Rightarrow> string \<Rightarrow> bytes \<Rightarrow> batch" where
  "batch_put b k v = b\<lparr>b_puts := b_puts b @ [(k, v)]\<rparr>"

definition batch_delete :: "batch \<Rightarrow> string \<Rightarrow> batch" where
  "batch_delete b k = b\<lparr>b_deletes := b_deletes b @ [k]\<rparr>"

fun put_all :: "'db boltlib \<Rightarrow> bytes \<Rightarrow> (string \<times> bytes) list \<Rightarrow> 'db \<Rightarrow> 'db res" where
  "put_all B bucket [] tx = Inr tx"
| "put_all B bucket ((k, v) # ps) tx =
     (case bucket_put B tx bucket (raw k) v of Inl e \<Rightarrow> Inl e | Inr tx1 \<Rightarrow> put_all B bucket ps tx1)"

fun delete_all :: "'db boltlib \<Rightarrow> bytes \<Rightarrow> string list \<Rightarrow> 'db \<Rightarrow> 'db res" where
  "delete_all B bucket [] tx = Inr tx"
| "delete_all B bucket (k # ks) tx =
     (case bucket_delete B tx bucket (raw k) of Inl e \<Rightarrow> Inl e | Inr tx1 \<Rightarrow> delete_all B bucket ks tx1)"

definition batch_commit :: "'db boltlib \<Rightarrow> bytes \<Rightarrow> batch \<Rightarrow> 'db \<Rightarrow> unit res \<times> 'db" where
  "batch_commit B bucket b db =
     db_update B (\<lambda>tx. case create_bucket B tx bucket of
                          Inl e \<Rightarrow> Inl e
                        | Inr tx1 \<Rightarrow>
                            (case put_all B bucket (b_puts b) tx1 of
                               Inl e \<Rightarrow> Inl e
                             | Inr tx2 \<Rightarrow> delete_all B bucket (b_deletes b) tx2)) db"

section \<open>The repository lock\<close>

text \<open>
  The kernel's view of \<open>flock\<close>: which open file holds the exclusive lock of each path. The outcome
  of \<open>os.OpenFile\<close> on the lock file is an argument, and so are those of \<open>flock\<close> and \<open>Close\<close> when the lock is
  given up. Closing the file ends its lock in any case: the kernel frees the descriptor even when \<open>close\<close> reports an
  error. A \<open>Lock\<close> whose file is nil is \<open>None\<close>.
\<close>

record flocks =
  holder :: "string \<Rightarrow> nat option"
  next_fd :: nat

definition acquire_lock :: "unit res \<Rightarrow> string \<Rightarrow> flocks \<Rightarrow> (string \<times> nat) res \<times> flocks" where
  "acquire_lock opened path s =
     (case opened of
        Inl e \<Rightarrow> (Inl (Wrapf ''open lock file %s: %w'' [AStr path] e), s)
      | Inr _ \<Rightarrow>
          (let fd = next_fd s; s1 = s\<lparr>next_fd := Suc fd\<rparr>
           in if holder s path \<noteq> None
              then (Inl (Wrapf ''another swarmface process holds %s: %w'' [AStr path]
                          (Sentinel ErrExist)), s1)
              else (Inr (path, fd), s1\<lparr>holder := (holder s)(path \<mapsto> fd)\<rparr>)))"

definition lock_close ::
  "unit res \<Rightarrow> unit res \<Rightarrow> (string \<times> nat) option \<Rightarrow> flocks \<Rightarrow> unit res \<times> (string \<times> nat) option \<times> flocks" where
  "lock_close unlocked closed l s =
     (case l of
        None \<Rightarrow> (Inr (), None, s)
      | Some (path, fd) \<Rightarrow>
          (case unlocked of Inl e \<Rightarrow> Inl e | Inr _ \<Rightarrow> closed, None,
           if holder s path = Some fd then s\<lparr>holder := (holder s)(path := None)\<rparr> else s))"

section \<open>The datastore interface\<close>

record 's dsops =
  dget :: "'s \<Rightarrow> string \<Rightarrow> bytes res"
  dhas :: "'s \<Rightarrow> string \<Rightarrow> bool res"
  dput :: "'s \<Rightarrow> string \<Rightarrow> bytes \<Rightarrow> unit res \<times> 's"
  ddelete :: "'s \<Rightarrow> string \<Rightarrow> unit res \<times> 's"
  dquery :: "'s \<Rightarrow> query \<Rightarrow> dsentry list res"

definition bolt_ds :: "'db boltlib \<Rightarrow> (query \<Rightarrow> dsentry list \<Rightarrow> dsentry list) \<Rightarrow> bytes \<Rightarrow> 'db dsops" where
  "bolt_ds B naive bucket =
     \<lparr>dget = ds_get B bucket, dhas = ds_has B bucket, dput = ds_put B bucket,
      ddelete = ds_delete B bucket, dquery = ds_query B naive bucket\<rparr>"

definition valid_key :: "string \<Rightarrow> bool" where
  "valid_key k = (has_prefix k ''/'')"

locale datastore =
  fixes D :: "'s dsops"
  assumes get_put: "valid_key k \<Longrightarrow> valid_key k' \<Longrightarrow> dput D s k v = (Inr (), s') \<Longrightarrow>
      dget D s' k' = (if k' = k then Inr v else dget D s k')"
    and put_err: "dput D s k v = (Inl e, s') \<Longrightarrow> s' = s"
    and get_delete: "valid_key k \<Longrightarrow> valid_key k' \<Longrightarrow> ddelete D s k = (Inr (), s') \<Longrightarrow>
      dget D s' k' = (if k' = k then Inl (Sentinel ErrNotFound) else dget D s k')"
    and delete_err: "ddelete D s k = (Inl e, s') \<Longrightarrow> s' = s"
    and has_get: "dhas D s k = Inr b \<Longrightarrow> b = ok (dget D s k)"
    and query_get: "dquery D s empty_query = Inr es \<Longrightarrow>
      (\<lambda>e. (e_key e, e_value e)) ` set es = {(k, v). valid_key k \<and> dget D s k = Inr v}"
    and query_distinct: "dquery D s empty_query = Inr es \<Longrightarrow> distinct (map e_key es)"

locale bolt =
  fixes B :: "'db boltlib"
  assumes get_put: "bucket_put B db b k v = Inr db' \<Longrightarrow>
      bucket_get B db' b' k' = (if b' = b \<and> k' = k then Some v else bucket_get B db b' k')"
    and exists_put: "bucket_put B db b k v = Inr db' \<Longrightarrow> bucket_exists B db' b' = bucket_exists B db b'"
    and begin_put: "bucket_put B db b k v = Inr db' \<Longrightarrow> tx_begin B db' = tx_begin B db"
    and get_delete: "bucket_delete B db b k = Inr db' \<Longrightarrow>
      bucket_get B db' b' k' = (if b' = b \<and> k' = k then None else bucket_get B db b' k')"
    and exists_delete: "bucket_delete B db b k = Inr db' \<Longrightarrow> bucket_exists B db' b' = bucket_exists B db b'"
    and begin_delete: "bucket_delete B db b k = Inr db' \<Longrightarrow> tx_begin B db' = tx_begin B db"
    and get_create: "create_bucket B db b = Inr db' \<Longrightarrow> bucket_get B db' b' k' = bucket_get B db b' k'"
    and exists_create: "create_bucket B db b = Inr db' \<Longrightarrow>
      bucket_exists B db' b' \<longleftrightarrow> b' = b \<or> bucket_exists B db b'"
    and begin_create: "create_bucket B db b = Inr db' \<Longrightarrow> tx_begin B db' = tx_begin B db"
    and commit_same: "tx_commit B db = Inr db' \<Longrightarrow> bucket_get B db' b k = bucket_get B db b k
      \<and> bucket_exists B db' b = bucket_exists B db b \<and> tx_begin B db' = tx_begin B db"
    and foreach: "set (bucket_foreach B db b) = {(k, v). bucket_get B db b k = Some v}"
    and foreach_sorted: "sorted_wrt (<) (map fst (bucket_foreach B db b))"
    and get_exists: "bucket_get B db b k = Some v \<Longrightarrow> bucket_exists B db b"
begin

lemma ds_get_iff:
  "ds_get B b db k = Inr v \<longleftrightarrow> ok (tx_begin B db) \<and> bucket_get B db b (raw k) = Some v"
  by (auto simp: ds_get_def db_view_def ok_iff get_exists split: sum.splits option.splits)

lemma ds_get_eq:
  "ds_get B b db k = (case tx_begin B db of Inl e \<Rightarrow> Inl e
     | Inr _ \<Rightarrow> (case bucket_get B db b (raw k) of None \<Rightarrow> Inl (Sentinel ErrNotFound) | Some v \<Rightarrow> Inr v))"
  by (auto simp: ds_get_def db_view_def get_exists split: sum.splits option.splits)

lemma raw_inj: "valid_key k \<Longrightarrow> valid_key k' \<Longrightarrow> raw k = raw k' \<longleftrightarrow> k = k'"
  by (auto simp: valid_key_def has_prefix_iff raw_def)

lemma ds_put_ok:
  assumes "ds_put B b db k v = (Inr (), db')"
  shows "bucket_get B db' b' k' = (if b' = b \<and> k' = raw k then Some v else bucket_get B db b' k')"
    and "tx_begin B db' = tx_begin B db"
proof -
  from assms obtain db1 db2 where c: "tx_commit B db2 = Inr db'"
    and p: "create_bucket B db b = Inr db1" "bucket_put B db1 b (raw k) v = Inr db2"
    unfolding ds_put_def db_update_def by (auto split: sum.splits)
  show "bucket_get B db' b' k' = (if b' = b \<and> k' = raw k then Some v else bucket_get B db b' k')"
    and "tx_begin B db' = tx_begin B db"
    using commit_same [OF c] get_put [OF p(2)] get_create [OF p(1)] begin_put [OF p(2)]
      begin_create [OF p(1)] by simp_all
qed

lemma ds_delete_ok:
  assumes "ds_delete B b db k = (Inr (), db')"
  shows "bucket_get B db' b' k' = (if b' = b \<and> k' = raw k then None else bucket_get B db b' k')"
    and "tx_begin B db' = tx_begin B db"
proof -
  from assms obtain db1 where c: "tx_commit B db1 = Inr db'"
    and d: "(if \<not> bucket_exists B db b then Inr db else bucket_delete B db b (raw k)) = Inr db1"
    unfolding ds_delete_def db_update_def by (auto split: sum.splits)
  from d have "bucket_get B db1 b' k' = (if b' = b \<and> k' = raw k then None else bucket_get B db b' k')
      \<and> tx_begin B db1 = tx_begin B db"
    by (cases "bucket_exists B db b"; cases "bucket_get B db b k'")
       (auto simp: get_delete begin_delete dest: get_exists)
  with commit_same [OF c]
  show "bucket_get B db' b' k' = (if b' = b \<and> k' = raw k then None else bucket_get B db b' k')"
    and "tx_begin B db' = tx_begin B db" by simp_all
qed

lemma db_update_err: "db_update B f db = (Inl e, db') \<Longrightarrow> db' = db"
  by (auto simp: db_update_def split: sum.splits)

lemma put_all_ok:
  "put_all B b ps db = Inr db' \<Longrightarrow>
     bucket_get B db' b' k' = (if b' = b then (case map_of (rev (map (\<lambda>(k, v). (raw k, v)) ps)) k' of
        Some v \<Rightarrow> Some v | None \<Rightarrow> bucket_get B db b k') else bucket_get B db b' k')
     \<and> tx_begin B db' = tx_begin B db"
proof (induction ps arbitrary: db)
  case Nil
  then show ?case by simp
next
  case (Cons p ps)
  obtain k v where p: "p = (k, v)" by fastforce
  with Cons.prems obtain db1 where put: "bucket_put B db b (raw k) v = Inr db1"
    and rest: "put_all B b ps db1 = Inr db'"
    by (auto split: sum.splits)
  show ?case
    using Cons.IH [OF rest] get_put [OF put] begin_put [OF put]
    by (auto simp: p map_add_def split: option.splits)
qed

lemma delete_all_ok:
  "delete_all B b ks db = Inr db' \<Longrightarrow>
     bucket_get B db' b' k' = (if b' = b \<and> k' \<in> raw ` set ks then None else bucket_get B db b' k')
     \<and> tx_begin B db' = tx_begin B db"
proof (induction ks arbitrary: db)
  case Nil
  then show ?case by simp
next
  case (Cons k ks)
  then obtain db1 where del: "bucket_delete B db b (raw k) = Inr db1"
    and rest: "delete_all B b ks db1 = Inr db'"
    by (auto split: sum.splits)
  show ?case
    using Cons.IH [OF rest] get_delete [OF del] begin_delete [OF del] by auto
qed

lemma batch_commit_ok:
  assumes "batch_commit B b t db = (Inr (), db')"
  shows "bucket_get B db' b' k' =
    (if b' \<noteq> b then bucket_get B db b' k'
     else if k' \<in> raw ` set (b_deletes t) then None
     else case map_of (rev (map (\<lambda>(k, v). (raw k, v)) (b_puts t))) k' of
            Some v \<Rightarrow> Some v | None \<Rightarrow> bucket_get B db b k')"
proof -
  from assms obtain db1 db2 db3 where c: "tx_commit B db3 = Inr db'"
    and p: "create_bucket B db b = Inr db1" "put_all B b (b_puts t) db1 = Inr db2"
      "delete_all B b (b_deletes t) db2 = Inr db3"
    unfolding batch_commit_def db_update_def by (auto split: sum.splits)
  show ?thesis
    using commit_same [OF c] get_create [OF p(1)] put_all_ok [OF p(2), of b' k']
      delete_all_ok [OF p(3), of b' k'] by (auto split: option.split)
qed

end

section \<open>The adapter provides the interface\<close>

locale bolt_store = bolt B for B :: "'db boltlib" +
  fixes naive :: "query \<Rightarrow> dsentry list \<Rightarrow> dsentry list" and bucket :: bytes
  assumes naive_empty: "naive empty_query es = es"
begin

lemma keys_only_empty: "keys_only empty_query = False"
  by (simp add: empty_query_def)

lemma query_entries:
  assumes "ds_query B naive bucket s empty_query = Inr es"
  shows "ok (tx_begin B s) \<and> es = map (\<lambda>(k, v). \<lparr>e_key = ''/'' @ k, e_value = v, e_size = length v\<rparr>)
           (bucket_foreach B s bucket)"
proof -
  have "set (bucket_foreach B s bucket) = {}" if "\<not> bucket_exists B s bucket"
    unfolding foreach using get_exists [of s bucket] that by fastforce
  with assms show ?thesis
    by (auto simp: ds_query_def db_view_def ok_def naive_empty keys_only_empty
        split: sum.splits if_splits)
qed

end

sublocale bolt_store \<subseteq> datastore "bolt_ds B naive bucket"
proof unfold_locales
  fix k k' s v s'
  assume "valid_key k" "valid_key k'" and p: "dput (bolt_ds B naive bucket) s k v = (Inr (), s')"
  then show "dget (bolt_ds B naive bucket) s' k' = (if k' = k then Inr v else dget (bolt_ds B naive bucket) s k')"
    using ds_put_ok [of bucket s k v s'] raw_inj [of k k']
    by (auto simp: bolt_ds_def ds_get_eq ds_put_def db_update_def split: sum.splits)
next
  fix s k v e s'
  assume "dput (bolt_ds B naive bucket) s k v = (Inl e, s')"
  then show "s' = s" by (auto simp: bolt_ds_def ds_put_def dest: db_update_err)
next
  fix k k' s s'
  assume "valid_key k" "valid_key k'" "ddelete (bolt_ds B naive bucket) s k = (Inr (), s')"
  then show "dget (bolt_ds B naive bucket) s' k' =
      (if k' = k then Inl (Sentinel ErrNotFound) else dget (bolt_ds B naive bucket) s k')"
    using ds_delete_ok [of bucket s k s'] raw_inj [of k k']
    by (auto simp: bolt_ds_def ds_get_eq ds_delete_def db_update_def split: sum.splits)
next
  fix s k e s'
  assume "ddelete (bolt_ds B naive bucket) s k = (Inl e, s')"
  then show "s' = s" by (auto simp: bolt_ds_def ds_delete_def dest: db_update_err)
next
  fix s k b
  assume "dhas (bolt_ds B naive bucket) s k = Inr b"
  then show "b = ok (dget (bolt_ds B naive bucket) s k)"
    by (auto simp: bolt_ds_def ds_has_def ds_get_def db_view_def ok_def
        split: sum.splits option.splits if_splits)
next
  fix s es
  assume "dquery (bolt_ds B naive bucket) s empty_query = Inr es"
  then have q: "ok (tx_begin B s)" and es: "es = map (\<lambda>(k, v). \<lparr>e_key = ''/'' @ k, e_value = v, e_size = length v\<rparr>)
      (bucket_foreach B s bucket)"
    using query_entries by (auto simp: bolt_ds_def)
  have "(\<lambda>e. (e_key e, e_value e)) ` set es = (\<lambda>(k, v). (''/'' @ k, v)) ` set (bucket_foreach B s bucket)"
    by (force simp: es)
  also have "\<dots> = {(k, v). valid_key k \<and> dget (bolt_ds B naive bucket) s k = Inr v}"
    using q by (auto simp: foreach bolt_ds_def ds_get_iff raw_def valid_key_def has_prefix_iff image_iff)
  finally show "(\<lambda>e. (e_key e, e_value e)) ` set es =
      {(k, v). valid_key k \<and> dget (bolt_ds B naive bucket) s k = Inr v}" .
next
  fix s es
  assume q: "dquery (bolt_ds B naive bucket) s empty_query = Inr es"
  have "distinct (map fst (bucket_foreach B s bucket))"
    using foreach_sorted [of s bucket] by (simp add: strict_sorted_iff)
  with query_entries [of s es] q show "distinct (map e_key es)"
    by (auto simp: bolt_ds_def o_def case_prod_unfold distinct_map inj_on_def)
qed


section \<open>A concrete instance\<close>

text \<open>
  Buckets are names, the contents an association list keyed by bucket and key. As documented for
  bbolt, a blank key is refused and iteration is in key order.
\<close>

type_synonym memdb = "bytes list \<times> ((bytes \<times> bytes) \<times> bytes) list"

definition mem_get :: "memdb \<Rightarrow> bytes \<Rightarrow> bytes \<Rightarrow> bytes option" where
  "mem_get db b k = (if b \<in> set (fst db) then map_of (snd db) (b, k) else None)"

definition mem_bolt :: "memdb boltlib" where
  "mem_bolt =
     \<lparr>tx_begin = (\<lambda>_. Inr ()),
      bucket_exists = (\<lambda>db b. b \<in> set (fst db)),
      create_bucket = (\<lambda>db b. Inr (if b \<in> set (fst db) then db
        else (b # fst db, filter (\<lambda>(bk, _). fst bk \<noteq> b) (snd db)))),
      bucket_get = mem_get,
      bucket_put = (\<lambda>db b k v. if k = [] \<or> b \<notin> set (fst db) then Inl (Errorf ''key required'' [])
        else Inr (fst db, ((b, k), v) # snd db)),
      bucket_delete = (\<lambda>db b k. Inr (fst db, filter (\<lambda>(bk, _). bk \<noteq> (b, k)) (snd db))),
      bucket_foreach = (\<lambda>db b. if b \<in> set (fst db)
        then map (\<lambda>k. (k, the (mem_get db b k)))
               (sort (remdups (map (snd \<circ> fst) (filter (\<lambda>(bk, _). fst bk = b) (snd db)))))
        else []),
      tx_commit = Inr\<rparr>"

lemma mem_foreach_keys:
  "b \<in> set (fst db) \<Longrightarrow>
     set (map (snd \<circ> fst) (filter (\<lambda>(bk, _). fst bk = b) (snd db))) = {k. mem_get db b k \<noteq> None}"
  by (force simp: mem_get_def map_of_eq_None_iff)

interpretation mem: bolt mem_bolt
proof unfold_locales
  fix db b
  show "set (bucket_foreach mem_bolt db b) = {(k, v). bucket_get mem_bolt db b k = Some v}"
  proof (cases "b \<in> set (fst db)")
    case True
    then have "set (bucket_foreach mem_bolt db b) = (\<lambda>k. (k, the (mem_get db b k))) `
        set (map (snd \<circ> fst) (filter (\<lambda>(bk, _). fst bk = b) (snd db)))"
      by (simp add: mem_bolt_def)
    also have "\<dots> = (\<lambda>k. (k, the (mem_get db b k))) ` {k. mem_get db b k \<noteq> None}"
      by (simp only: mem_foreach_keys [OF True])
    finally show ?thesis by (auto simp: mem_bolt_def)
  next
    case False
    then show ?thesis by (simp add: mem_bolt_def mem_get_def)
  qed
next
  fix db b
  show "sorted_wrt (<) (map fst (bucket_foreach mem_bolt db b))"
    by (simp add: mem_bolt_def strict_sorted_iff o_def)
qed (auto simp: mem_bolt_def mem_get_def map_of_filter_key split: if_splits)

interpretation mem_map: bolt_store mem_bolt "\<lambda>_ es. es" BucketMap
  by unfold_locales simp

section \<open>Lock histories\<close>

text \<open>
  Any sequence of \<open>AcquireLock\<close> and \<open>Close\<close> calls by any processes: \<open>live\<close> holds the locks that
  were returned and not closed yet.
\<close>

inductive lock_reach :: "flocks \<Rightarrow> (string \<times> nat) set \<Rightarrow> bool" where
  start: "lock_reach \<lparr>holder = (\<lambda>_. None), next_fd = n\<rparr> {}"
| acquired: "lock_reach s live \<Longrightarrow> acquire_lock opened p s = (Inr l, s') \<Longrightarrow> lock_reach s' (insert l live)"
| refused: "lock_reach s live \<Longrightarrow> acquire_lock opened p s = (Inl e, s') \<Longrightarrow> lock_reach s' live"
| closed: "lock_reach s live \<Longrightarrow> l \<in> live \<Longrightarrow> lock_close unlocked closed (Some l) s = (r, l', s') \<Longrightarrow>
    lock_reach s' (live - {l})"

lemma lock_reach_inv:
  "lock_reach s live \<Longrightarrow> (\<forall>p fd. holder s p = Some fd \<longleftrightarrow> (p, fd) \<in> live) \<and> (\<forall>(p, fd) \<in> live. fd < next_fd s)"
proof (induction rule: lock_reach.induct)
  case (start n)
  then show ?case by simp
next
  case (acquired s live opened p l s')
  from acquired.hyps(2) have "holder s p = None" and l: "l = (p, next_fd s)"
    and s': "s' = s\<lparr>next_fd := Suc (next_fd s), holder := (holder s)(p \<mapsto> next_fd s)\<rparr>"
    by (auto simp: acquire_lock_def Let_def split: sum.splits if_splits)
  moreover from this acquired.IH have "(p, fd) \<notin> live" for fd by (metis option.distinct(1))
  ultimately show ?case using acquired.IH by (auto simp: less_SucI)
next
  case (refused s live opened p e s')
  then have "s' = s \<or> s' = s\<lparr>next_fd := Suc (next_fd s)\<rparr>"
    by (auto simp: acquire_lock_def Let_def split: sum.splits if_splits)
  with refused.IH show ?case by (auto simp: less_SucI)
next
  case (closed s live l unlocked closed r l' s')
  obtain p fd where l: "l = (p, fd)" by fastforce
  with closed have h: "holder s p = Some fd" by blast
  with closed.hyps(3) l have s': "s' = s\<lparr>holder := (holder s)(p := None)\<rparr>"
    by (simp add: lock_close_def)
  from closed.IH have i: "\<And>p fd. holder s p = Some fd \<longleftrightarrow> (p, fd) \<in> live"
    and b: "\<forall>(p, fd) \<in> live. fd < next_fd s" by blast+
  from b have "\<forall>(p, fd) \<in> live - {l}. fd < next_fd s'" by (simp add: s')
  moreover have "holder s' q = Some fd' \<longleftrightarrow> (q, fd') \<in> live - {l}" for q fd'
    using i [of q fd'] h by (auto simp: s' l)
  ultimately show ?case by blast
qed

section \<open>Properties\<close>

text \<open>The bbolt adapter is a map per bucket: after a successful \<open>Put\<close>, \<open>Get\<close> returns the new
  value for that key of that bucket and what it returned before for every other key and every
  other bucket; a failed \<open>Put\<close> or \<open>Delete\<close> changes nothing.\<close>

theorem ds_put_get:
  assumes "bolt B" "valid_key k" "valid_key k'"
  shows "case ds_put B b db k v of
      (Inr _, db') \<Rightarrow> ds_get B b' db' k' = (if b' = b \<and> k' = k then Inr v else ds_get B b' db k')
    | (Inl _, db') \<Rightarrow> db' = db"
proof -
  obtain r db' where p: "ds_put B b db k v = (r, db')" by fastforce
  show ?thesis
  proof (cases r)
    case (Inl e)
    with p show ?thesis
      by (simp add: bolt.db_update_err [OF assms(1)] ds_put_def)
  next
    case (Inr u)
    with p have "ds_put B b db k v = (Inr (), db')" by simp
    from bolt.ds_put_ok [OF assms(1) this] bolt.raw_inj [OF assms(1) assms(2,3)] p Inr show ?thesis
      by (auto simp: bolt.ds_get_eq [OF assms(1)] ds_put_def db_update_def split: sum.splits)
  qed
qed

theorem ds_put_get_witness:
  "\<exists>db'. ds_put mem_bolt BucketMap ([BucketMap], []) ''/k'' ''v'' = (Inr (), db')
     \<and> ds_get mem_bolt BucketMap db' ''/k'' = Inr ''v''"
proof -
  obtain db' where p: "ds_put mem_bolt BucketMap ([BucketMap], []) ''/k'' ''v'' = (Inr (), db')"
    by (simp add: ds_put_def db_update_def mem_bolt_def raw_def trim_prefix_def has_prefix_def)
  have v: "valid_key ''/k''" by (simp add: valid_key_def has_prefix_def)
  with p show ?thesis
    using ds_put_get [OF mem.bolt_axioms v v, where b = BucketMap and b' = BucketMap
        and db = "([BucketMap], [])" and v = "''v''"] by simp
qed

text \<open>C4: \<open>Commit\<close> of a batch is all or nothing, and on success a key has its last put value, except
  that every key deleted anywhere in the batch is gone, also when it was put after the delete.\<close>

theorem batch_commit_effect:
  assumes "bolt B"
  shows "case batch_commit B b t db of
      (Inl _, db') \<Rightarrow> db' = db
    | (Inr _, db') \<Rightarrow> \<forall>b' k'. bucket_get B db' b' k' =
        (if b' \<noteq> b then bucket_get B db b' k'
         else if k' \<in> raw ` set (b_deletes t) then None
         else case map_of (rev (map (\<lambda>(k, v). (raw k, v)) (b_puts t))) k' of
                Some v \<Rightarrow> Some v | None \<Rightarrow> bucket_get B db b k')"
proof -
  obtain r db' where p: "batch_commit B b t db = (r, db')" by fastforce
  show ?thesis
    using p bolt.batch_commit_ok [OF assms, of b t db db']
    by (cases r) (auto simp: batch_commit_def dest: bolt.db_update_err [OF assms])
qed

theorem batch_commit_effect_witness:
  "\<exists>db'. batch_commit mem_bolt BucketMap (batch_put (batch_delete \<lparr>b_puts = [], b_deletes = []\<rparr> ''/k'') ''/k'' ''v'')
           ([BucketMap], []) = (Inr (), db') \<and> bucket_get mem_bolt db' BucketMap ''k'' = None"
proof -
  let ?t = "batch_put (batch_delete \<lparr>b_puts = [], b_deletes = []\<rparr> ''/k'') ''/k'' ''v''"
  obtain db' where c: "batch_commit mem_bolt BucketMap ?t ([BucketMap], []) = (Inr (), db')"
    by (simp add: batch_commit_def db_update_def mem_bolt_def batch_put_def batch_delete_def raw_def
        trim_prefix_def has_prefix_def)
  have "raw ''/k'' = ''k''" by (simp add: raw_def trim_prefix_def has_prefix_def)
  then have "''k'' \<in> raw ` set (b_deletes ?t)"
    by (simp add: batch_put_def batch_delete_def)
  with c batch_commit_effect [OF mem.bolt_axioms, where b = BucketMap and t = ?t
      and db = "([BucketMap], [])"]
  show ?thesis by simp
qed

text \<open>The repository lock is exclusive in every history of acquisitions and releases: at most one
  unclosed lock per path exists, and \<open>AcquireLock\<close> succeeds (once the file opens) exactly when
  there is none.\<close>

theorem lock_exclusive:
  assumes "lock_reach s live"
  shows "((p, a) \<in> live \<longrightarrow> (p, b) \<in> live \<longrightarrow> a = b)
    \<and> (ok (fst (acquire_lock (Inr ()) p s)) \<longleftrightarrow> \<not> (\<exists>fd. (p, fd) \<in> live))"
proof -
  have inv: "\<forall>p fd. holder s p = Some fd \<longleftrightarrow> (p, fd) \<in> live"
    using lock_reach_inv [OF assms] by blast
  have "(p, a) \<in> live \<longrightarrow> (p, b) \<in> live \<longrightarrow> a = b"
    by (metis inv option.inject)
  moreover have "(\<exists>fd. (p, fd) \<in> live) \<longleftrightarrow> holder s p \<noteq> None"
    using inv by auto
  ultimately show ?thesis by (simp add: acquire_lock_def Let_def)
qed

theorem lock_exclusive_witness:
  "\<not> ok (fst (acquire_lock (Inr ()) ''r/swarmface.lock''
       (snd (acquire_lock (Inr ()) ''r/swarmface.lock'' \<lparr>holder = (\<lambda>_. None), next_fd = 3\<rparr>))))"
proof -
  let ?s = "snd (acquire_lock (Inr ()) ''r/swarmface.lock'' \<lparr>holder = (\<lambda>_. None), next_fd = 3\<rparr>)"
  have "acquire_lock (Inr ()) ''r/swarmface.lock'' \<lparr>holder = (\<lambda>_. None), next_fd = 3\<rparr> =
      (Inr (''r/swarmface.lock'', 3), ?s)"
    by (simp add: acquire_lock_def Let_def)
  then have "lock_reach ?s (insert (''r/swarmface.lock'', 3) {})"
    by (rule lock_reach.acquired [OF lock_reach.start])
  from lock_exclusive [OF this, of "''r/swarmface.lock''"] show ?thesis by auto
qed

end
