(* ===== verification/Json.thy ===== *)
theory Json
  imports GoStrings
begin

text \<open>
  Go's \<open>encoding/json\<close>, as far as the program's messages and records use it: values, the compact
  encoder (strings escaped as \<open>json.Marshal\<close> does, HTML characters included), the decoder of any
  JSON text into values, and the access to the fields of a decoded object. Strings are UTF-8 bytes;
  an invalid byte is written as U+FFFD and read as U+FFFD, as Go does, so the round trip holds for
  valid UTF-8. The decoder recurses with fuel; \<open>parse_json\<close> gives it twice the length of the text,
  and \<open>parse_json_print\<close> shows that this suffices for every encoded value.
\<close>

section \<open>UTF-8\<close>

text \<open>The ranges of the bytes of a valid encoding, shortest first.\<close>

definition utf8_shapes :: "(nat \<times> nat) list list" where
  "utf8_shapes =
     [[(0x00, 0x7F)],
      [(0xC2, 0xDF), (0x80, 0xBF)],
      [(0xE0, 0xE0), (0xA0, 0xBF), (0x80, 0xBF)],
      [(0xE1, 0xEC), (0x80, 0xBF), (0x80, 0xBF)],
      [(0xED, 0xED), (0x80, 0x9F), (0x80, 0xBF)],
      [(0xEE, 0xEF), (0x80, 0xBF), (0x80, 0xBF)],
      [(0xF0, 0xF0), (0x90, 0xBF), (0x80, 0xBF), (0x80, 0xBF)],
      [(0xF1, 0xF3), (0x80, 0xBF), (0x80, 0xBF), (0x80, 0xBF)],
      [(0xF4, 0xF4), (0x80, 0x8F), (0x80, 0xBF), (0x80, 0xBF)]]"

fun matches_shape :: "bytes \<Rightarrow> (nat \<times> nat) list \<Rightarrow> bool" where
  "matches_shape s [] = True"
| "matches_shape [] (r # rs) = False"
| "matches_shape (c # s) ((lo, hi) # rs) = (lo \<le> of_char c \<and> of_char c \<le> hi \<and> matches_shape s rs)"

text \<open>The length of the valid encoding at the front of a byte string, 0 when there is none.\<close>

definition utf8_width :: "bytes \<Rightarrow> nat" where
  "utf8_width s = (case find (matches_shape s) utf8_shapes of None \<Rightarrow> 0 | Some sh \<Rightarrow> length sh)"

function valid_utf8 :: "bytes \<Rightarrow> bool" where
  "valid_utf8 s =
     (if s = [] then True
      else if utf8_width s = 0 then False
      else valid_utf8 (drop (utf8_width s) s))"
  by pat_completeness auto
termination
  by (relation "measure length") auto

declare valid_utf8.simps [simp del]

definition utf8_encode :: "nat \<Rightarrow> bytes" where
  "utf8_encode r =
     (if r < 0x80 then [char_of r]
      else if r < 0x800 then [char_of (0xC0 + r div 64), char_of (0x80 + r mod 64)]
      else if r < 0x10000 then
        [char_of (0xE0 + r div 4096), char_of (0x80 + r div 64 mod 64), char_of (0x80 + r mod 64)]
      else [char_of (0xF0 + r div 262144), char_of (0x80 + r div 4096 mod 64),
            char_of (0x80 + r div 64 mod 64), char_of (0x80 + r mod 64)])"

definition replacement :: bytes where
  "replacement = utf8_encode 0xFFFD"

section \<open>Strings\<close>

abbreviation bslash :: char where "bslash \<equiv> CHR 0x5C"
abbreviation dquote :: char where "dquote \<equiv> CHR 0x22"

definition esc_ascii :: "char \<Rightarrow> bytes" where
  "esc_ascii c =
     (let n = of_char c :: nat in
      if c = dquote \<or> c = bslash then [bslash, c]
      else if n = 8 then [bslash, CHR ''b'']
      else if n = 12 then [bslash, CHR ''f'']
      else if n = 10 then [bslash, CHR ''n'']
      else if n = 13 then [bslash, CHR ''r'']
      else if n = 9 then [bslash, CHR ''t'']
      else if n < 0x20 \<or> c = CHR ''<'' \<or> c = CHR ''>'' \<or> c = CHR ''&''
      then [bslash, CHR ''u'', CHR ''0'', CHR ''0'', hex_digit (n div 16), hex_digit (n mod 16)]
      else [c])"

definition esc_multi :: "bytes \<Rightarrow> bytes" where
  "esc_multi r =
     (if r = utf8_encode 0x2028 then bslash # ''u2028''
      else if r = utf8_encode 0x2029 then bslash # ''u2029''
      else r)"

function json_escape :: "bytes \<Rightarrow> bytes" where
  "json_escape [] = []"
| "json_escape (c # s) =
     (if (of_char c :: nat) < 0x80 then esc_ascii c @ json_escape s
      else if utf8_width (c # s) = 0 then bslash # ''ufffd'' @ json_escape s
      else esc_multi (take (utf8_width (c # s)) (c # s)) @ json_escape (drop (utf8_width (c # s)) (c # s)))"
  by pat_completeness auto
termination
  by (relation "measure length") auto

definition json_quote :: "bytes \<Rightarrow> bytes" where
  "json_quote s = dquote # json_escape s @ [dquote]"

fun hex4 :: "bytes \<Rightarrow> (nat \<times> bytes) option" where
  "hex4 (a # b # c # d # s) =
     (case (from_hex_char a, from_hex_char b, from_hex_char c, from_hex_char d) of
        (Some w, Some x, Some y, Some z) \<Rightarrow> Some (4096 * w + 256 * x + 16 * y + z, s)
      | _ \<Rightarrow> None)"
| "hex4 _ = None"

text \<open>
  The character of an escape \<open>u\<close> and what follows it: a surrogate pair is one code point, a lone
  surrogate is U+FFFD.
\<close>

definition unicode_escape :: "bytes \<Rightarrow> (bytes \<times> bytes) option" where
  "unicode_escape t =
     (case hex4 t of
        None \<Rightarrow> None
      | Some (r, t1) \<Rightarrow>
          if 0xD800 \<le> r \<and> r < 0xE000 then
            (case (if has_prefix t1 [bslash, CHR ''u''] then hex4 (drop 2 t1) else None) of
               Some (r2, t2) \<Rightarrow>
                 if r < 0xDC00 \<and> 0xDC00 \<le> r2 \<and> r2 < 0xE000
                 then Some (utf8_encode (0x10000 + (r - 0xD800) * 0x400 + (r2 - 0xDC00)), t2)
                 else Some (replacement, t1)
             | None \<Rightarrow> Some (replacement, t1))
          else Some (utf8_encode r, t1))"

definition short_escape :: "char \<Rightarrow> char option" where
  "short_escape e =
     (if e = dquote \<or> e = bslash \<or> e = CHR ''/'' then Some e
      else if e = CHR ''b'' then Some (char_of (8::nat))
      else if e = CHR ''f'' then Some (char_of (12::nat))
      else if e = CHR ''n'' then Some (char_of (10::nat))
      else if e = CHR ''r'' then Some (char_of (13::nat))
      else if e = CHR ''t'' then Some (char_of (9::nat))
      else None)"

text \<open>The characters of one unit of a string literal and the text after it.\<close>

definition string_unit :: "bytes \<Rightarrow> (bytes \<times> bytes) option" where
  "string_unit s =
     (case s of
        [] \<Rightarrow> None
      | c # t \<Rightarrow>
          if c = bslash then
            (case t of
               [] \<Rightarrow> None
             | e # t1 \<Rightarrow>
                 if e = CHR ''u'' then unicode_escape t1
                 else map_option (\<lambda>x. ([x], t1)) (short_escape e))
          else if (of_char c :: nat) < 0x20 then None
          else if utf8_width s = 0 then Some (replacement, t)
          else Some (take (utf8_width s) s, drop (utf8_width s) s))"

fun string_body :: "nat \<Rightarrow> bytes \<Rightarrow> (bytes \<times> bytes) option" where
  "string_body 0 s = None"
| "string_body (Suc n) s =
     (if s = [] then None
      else if hd s = dquote then Some ([], tl s)
      else case string_unit s of
             None \<Rightarrow> None
           | Some (u, r) \<Rightarrow> map_option (\<lambda>(v, r'). (u @ v, r')) (string_body n r))"

section \<open>Numbers\<close>

definition digit_char :: "nat \<Rightarrow> char" where
  "digit_char n = char_of (48 + n)"

definition is_digit :: "char \<Rightarrow> bool" where
  "is_digit c = (48 \<le> (of_char c :: nat) \<and> (of_char c :: nat) \<le> 57)"

fun nat_dec :: "nat \<Rightarrow> string" where
  "nat_dec n = (if n < 10 then [digit_char n] else nat_dec (n div 10) @ [digit_char (n mod 10)])"

declare nat_dec.simps [simp del]

definition int_dec :: "int \<Rightarrow> string" where
  "int_dec i = (if i < 0 then CHR ''-'' # nat_dec (nat (- i)) else nat_dec (nat i))"

definition dec_nat :: "string \<Rightarrow> nat" where
  "dec_nat s = foldl (\<lambda>a c. 10 * a + (of_char c - 48)) 0 s"

text \<open>\<open>strconv.ParseInt\<close> on a number literal: \<open>None\<close> unless it is a plain integer.\<close>

definition dec_int :: "string \<Rightarrow> int option" where
  "dec_int s =
     (let neg = (s \<noteq> [] \<and> hd s = CHR ''-''); d = (if neg then tl s else s)
      in if d \<noteq> [] \<and> list_all is_digit d
         then Some (if neg then - int (dec_nat d) else int (dec_nat d)) else None)"

definition is_num_char :: "char \<Rightarrow> bool" where
  "is_num_char c = (is_digit c \<or> c \<in> set ''+-.eE'')"

text \<open>The grammar of JSON numbers.\<close>

definition json_number :: "string \<Rightarrow> bool" where
  "json_number s =
     (let s1 = (if s \<noteq> [] \<and> hd s = CHR ''-'' then tl s else s);
          i = takeWhile is_digit s1; s2 = dropWhile is_digit s1;
          f = (if s2 \<noteq> [] \<and> hd s2 = CHR ''.'' then takeWhile is_digit (tl s2) else ''0'');
          s3 = (if s2 \<noteq> [] \<and> hd s2 = CHR ''.'' then dropWhile is_digit (tl s2) else s2);
          s4 = (if s3 \<noteq> [] \<and> hd s3 \<in> set ''eE''
                then (if tl s3 \<noteq> [] \<and> hd (tl s3) \<in> set ''+-'' then tl (tl s3) else tl s3)
                else ''0'')
      in i \<noteq> [] \<and> (hd i = CHR ''0'' \<longrightarrow> tl i = []) \<and> f \<noteq> []
         \<and> s4 \<noteq> [] \<and> list_all is_digit s4)"

section \<open>Values\<close>

datatype json =
    JNull
  | JBool bool
  | JNum string
  | JStr bytes
  | JArr "json list"
  | JObj "(bytes \<times> json) list"

text \<open>
  The encoder, over a layout: \<open>nl d\<close> is written where a line may break at nesting depth \<open>d\<close>, \<open>sp\<close>
  after a colon. \<open>json.Marshal\<close> writes nothing there, \<open>json.MarshalIndent(v, "", " ")\<close> a newline with
  one space per level, and a space. Empty arrays and objects are written without a break.
\<close>

fun json_layout :: "(nat \<Rightarrow> bytes) \<Rightarrow> bytes \<Rightarrow> nat \<Rightarrow> json \<Rightarrow> bytes"
  and layout_elems :: "(nat \<Rightarrow> bytes) \<Rightarrow> bytes \<Rightarrow> nat \<Rightarrow> json list \<Rightarrow> bytes"
  and layout_members :: "(nat \<Rightarrow> bytes) \<Rightarrow> bytes \<Rightarrow> nat \<Rightarrow> (bytes \<times> json) list \<Rightarrow> bytes" where
  "json_layout nl sp d JNull = ''null''"
| "json_layout nl sp d (JBool b) = (if b then ''true'' else ''false'')"
| "json_layout nl sp d (JNum l) = l"
| "json_layout nl sp d (JStr s) = json_quote s"
| "json_layout nl sp d (JArr vs) =
     CHR ''['' # (if vs = [] then '']'' else nl (Suc d) @ layout_elems nl sp d vs)"
| "json_layout nl sp d (JObj kvs) =
     CHR ''{'' # (if kvs = [] then ''}'' else nl (Suc d) @ layout_members nl sp d kvs)"
| "layout_elems nl sp d [] = '']''"
| "layout_elems nl sp d [v] = json_layout nl sp (Suc d) v @ nl d @ '']''"
| "layout_elems nl sp d (v # w # vs) =
     json_layout nl sp (Suc d) v @ '','' @ nl (Suc d) @ layout_elems nl sp d (w # vs)"
| "layout_members nl sp d [] = ''}''"
| "layout_members nl sp d [(k, v)] =
     json_quote k @ '':'' @ sp @ json_layout nl sp (Suc d) v @ nl d @ ''}''"
| "layout_members nl sp d ((k, v) # m # ms) =
     json_quote k @ '':'' @ sp @ json_layout nl sp (Suc d) v @ '','' @ nl (Suc d)
       @ layout_members nl sp d (m # ms)"

definition json_print :: "json \<Rightarrow> bytes" where
  "json_print v = json_layout (\<lambda>_. []) [] 0 v"

definition json_print_indent :: "json \<Rightarrow> bytes" where
  "json_print_indent v = json_layout (\<lambda>d. CHR 0x0A # replicate d (CHR '' '')) '' '' 0 v"

section \<open>Parsing\<close>

definition skip_ws :: "bytes \<Rightarrow> bytes" where
  "skip_ws s = dropWhile (\<lambda>c. of_char c \<in> {9, 10, 13, 32 :: nat}) s"

definition parse_key :: "bytes \<Rightarrow> (bytes \<times> bytes) option" where
  "parse_key s =
     (case skip_ws s of
        [] \<Rightarrow> None
      | c # r \<Rightarrow> if c = dquote then string_body (Suc (length r)) r else None)"

definition parse_atom :: "bytes \<Rightarrow> (json \<times> bytes) option" where
  "parse_atom s =
     (if has_prefix s ''null'' then Some (JNull, drop 4 s)
      else if has_prefix s ''true'' then Some (JBool True, drop 4 s)
      else if has_prefix s ''false'' then Some (JBool False, drop 5 s)
      else if json_number (takeWhile is_num_char s)
      then Some (JNum (takeWhile is_num_char s), dropWhile is_num_char s)
      else None)"

fun parse_value :: "nat \<Rightarrow> bytes \<Rightarrow> (json \<times> bytes) option"
  and parse_elems :: "nat \<Rightarrow> bytes \<Rightarrow> (json list \<times> bytes) option"
  and parse_members :: "nat \<Rightarrow> bytes \<Rightarrow> ((bytes \<times> json) list \<times> bytes) option" where
  "parse_value 0 s = None"
| "parse_value (Suc n) s =
     (case skip_ws s of
        [] \<Rightarrow> None
      | c # r \<Rightarrow>
          if c = dquote then map_option (\<lambda>(t, r'). (JStr t, r')) (string_body (Suc (length r)) r)
          else if c = CHR ''['' then
            (case skip_ws r of
               [] \<Rightarrow> None
             | d # r1 \<Rightarrow> if d = CHR '']'' then Some (JArr [], r1)
                         else map_option (\<lambda>(vs, r'). (JArr vs, r')) (parse_elems n (d # r1)))
          else if c = CHR ''{'' then
            (case skip_ws r of
               [] \<Rightarrow> None
             | d # r1 \<Rightarrow> if d = CHR ''}'' then Some (JObj [], r1)
                         else map_option (\<lambda>(ms, r'). (JObj ms, r')) (parse_members n (d # r1)))
          else parse_atom (c # r))"
| "parse_elems 0 s = None"
| "parse_elems (Suc n) s =
     (case parse_value n s of
        None \<Rightarrow> None
      | Some (v, r) \<Rightarrow>
          (case skip_ws r of
             [] \<Rightarrow> None
           | d # r1 \<Rightarrow>
               if d = CHR '']'' then Some ([v], r1)
               else if d = CHR '','' then map_option (\<lambda>(vs, r'). (v # vs, r')) (parse_elems n r1)
               else None))"
| "parse_members 0 s = None"
| "parse_members (Suc n) s =
     (case parse_key s of
        None \<Rightarrow> None
      | Some (k, r0) \<Rightarrow>
          (case skip_ws r0 of
             [] \<Rightarrow> None
           | col # r1 \<Rightarrow>
               if col \<noteq> CHR '':'' then None
               else case parse_value n r1 of
                      None \<Rightarrow> None
                    | Some (v, r) \<Rightarrow>
                        (case skip_ws r of
                           [] \<Rightarrow> None
                         | d # r2 \<Rightarrow>
                             if d = CHR ''}'' then Some ([(k, v)], r2)
                             else if d = CHR '','' then
                               map_option (\<lambda>(ms, r'). ((k, v) # ms, r')) (parse_members n r2)
                             else None)))"

definition parse_json :: "bytes \<Rightarrow> json res" where
  "parse_json s =
     (case parse_value (2 * length s + 2) s of
        Some (v, r) \<Rightarrow> if skip_ws r = [] then Inr v else Inl (Errorf ''invalid character'' [])
      | None \<Rightarrow> Inl (Errorf ''invalid JSON'' []))"

section \<open>Round trip of strings\<close>

lemma valid_utf8_Nil [simp]: "valid_utf8 []"
  by (simp add: valid_utf8.simps)

lemma matches_shape_length: "matches_shape s sh \<Longrightarrow> length sh \<le> length s"
  by (induction s sh rule: matches_shape.induct) auto

lemma matches_shape_take:
  "length sh \<le> w \<Longrightarrow> w \<le> length s \<Longrightarrow> matches_shape (take w s @ r) sh = matches_shape s sh"
  by (induction s sh arbitrary: w rule: matches_shape.induct) (auto simp: take_Cons split: nat.splits)

lemma utf8_shapes_sorted: "sorted (map length utf8_shapes)"
  by (simp add: utf8_shapes_def)

lemma utf8_width_le: "utf8_width s \<le> length s"
  by (auto simp: utf8_width_def find_Some_iff matches_shape_length split: option.split)

lemma utf8_width_take:
  assumes w: "utf8_width s \<noteq> 0"
  shows "utf8_width (take (utf8_width s) s @ r) = utf8_width s"
proof -
  obtain sh where sh: "find (matches_shape s) utf8_shapes = Some sh" "utf8_width s = length sh"
    using w by (auto simp: utf8_width_def split: option.splits)
  then obtain i where i: "i < length utf8_shapes" "sh = utf8_shapes ! i" "matches_shape s sh"
      "\<forall>j < i. \<not> matches_shape s (utf8_shapes ! j)"
    by (auto simp: find_Some_iff)
  have len: "length (utf8_shapes ! j) \<le> length sh" if "j \<le> i" for j
    using sorted_nth_mono [OF utf8_shapes_sorted that] i(1,2) that by simp
  have agree: "matches_shape (take (length sh) s @ r) (utf8_shapes ! j) = matches_shape s (utf8_shapes ! j)"
    if "j \<le> i" for j
    using matches_shape_take [OF len [OF that]] matches_shape_length [OF i(3)] by simp
  have "find (matches_shape (take (length sh) s @ r)) utf8_shapes = Some sh"
    unfolding find_Some_iff using i agree by (intro exI [of _ i]) auto
  then show ?thesis
    using sh by (simp add: utf8_width_def)
qed

lemma utf8_width_ascii: "(of_char c :: nat) < 0x80 \<Longrightarrow> utf8_width (c # s) = 1"
  by (simp add: utf8_width_def utf8_shapes_def)

lemma valid_utf8_ascii: "(of_char c :: nat) < 0x80 \<Longrightarrow> valid_utf8 (c # s) = valid_utf8 s"
  by (subst valid_utf8.simps) (simp add: utf8_width_ascii)

lemma valid_utf8_drop:
  "valid_utf8 s \<Longrightarrow> s \<noteq> [] \<Longrightarrow> utf8_width s \<noteq> 0 \<and> valid_utf8 (drop (utf8_width s) s)"
  by (subst (asm) valid_utf8.simps) (auto split: if_splits)

lemma hex4_00:
  "n < 256 \<Longrightarrow> hex4 (CHR ''0'' # CHR ''0'' # hex_digit (n div 16) # hex_digit (n mod 16) # r) = Some (n, r)"
  by (simp add: hex_digit_value from_hex_char_def [of "CHR ''0''"] Let_def)

lemma unicode_escape_00:
  "n < 128 \<Longrightarrow> unicode_escape (CHR ''0'' # CHR ''0'' # hex_digit (n div 16) # hex_digit (n mod 16) # r)
     = Some ([char_of n], r)"
  by (simp add: unicode_escape_def hex4_00 utf8_encode_def del: hex4.simps)

lemma string_unit_raw:
  assumes "c \<noteq> bslash" "\<not> (of_char c :: nat) < 0x20" "utf8_width (c # s) \<noteq> 0"
  shows "string_unit (c # s) = Some (take (utf8_width (c # s)) (c # s), drop (utf8_width (c # s)) (c # s))"
  using assms by (simp add: string_unit_def)

lemma string_unit_ascii:
  assumes "(of_char c :: nat) < 0x80"
  shows "string_unit (esc_ascii c @ r) = Some ([c], r)"
proof -
  have c: "char_of (of_char c :: nat) = c" by simp
  have "of_char c = n \<Longrightarrow> c = char_of n" for n :: nat using c by simp
  note n = this [of 8] this [of 9] this [of 10] this [of 12] this [of 13]
  show ?thesis
  proof (cases "c = dquote \<or> c = bslash \<or> of_char c \<in> {8, 9, 10, 12, 13::nat}")
    case True
    then show ?thesis
      by (auto simp: esc_ascii_def string_unit_def short_escape_def Let_def dest: n)
  next
    case False
    let ?n = "of_char c :: nat"
    show ?thesis
    proof (cases "?n < 0x20 \<or> c = CHR ''<'' \<or> c = CHR ''>'' \<or> c = CHR ''&''")
      case True
      have "esc_ascii c
          = [bslash, CHR ''u'', CHR ''0'', CHR ''0'', hex_digit (?n div 16), hex_digit (?n mod 16)]"
        using False True unfolding esc_ascii_def Let_def by (simp only: insert_iff simp_thms de_Morgan_disj if_True if_False)
      then show ?thesis
        using unicode_escape_00 [OF assms] by (simp add: string_unit_def)
    next
      case ne: False
      then have "esc_ascii c = [c]"
        using False unfolding esc_ascii_def Let_def by (simp only: insert_iff simp_thms de_Morgan_disj if_True if_False)
      then show ?thesis
        using False ne assms by (simp add: string_unit_raw utf8_width_ascii)
    qed
  qed
qed

lemma esc_ascii_head: "\<exists>c' t. esc_ascii c = c' # t \<and> c' \<noteq> dquote"
  by (auto simp: esc_ascii_def Let_def)

lemma string_unit_multi:
  assumes "\<not> (of_char c :: nat) < 0x80" "utf8_width (c # s) \<noteq> 0"
  shows "string_unit (esc_multi (take (utf8_width (c # s)) (c # s)) @ r)
           = Some (take (utf8_width (c # s)) (c # s), r)"
proof -
  let ?w = "utf8_width (c # s)"
  obtain t where t: "take ?w (c # s) = c # t"
    using assms by (cases ?w) auto
  have w: "utf8_width ((c # t) @ r) = ?w"
    using utf8_width_take [OF assms(2)] t by metis
  have len: "length (c # t) = ?w"
    using t utf8_width_le [of "c # s"] by (metis length_take min.absorb2)
  have "string_unit ((c # t) @ r) = Some (c # t, r)"
  proof -
    have "c \<noteq> bslash" "\<not> (of_char c :: nat) < 0x20" using assms(1) by auto
    then have "string_unit (c # (t @ r)) = Some (take ?w (c # (t @ r)), drop ?w (c # (t @ r)))"
      using string_unit_raw [of c "t @ r"] w assms(2) by simp
    then show ?thesis by (simp flip: len)
  qed
  moreover have "string_unit (bslash # ''u2028'' @ r) = Some (utf8_encode 0x2028, r)"
    by (simp add: string_unit_def unicode_escape_def from_hex_char_def Let_def)
  moreover have "string_unit (bslash # ''u2029'' @ r) = Some (utf8_encode 0x2029, r)"
    by (simp add: string_unit_def unicode_escape_def from_hex_char_def Let_def)
  ultimately show ?thesis
    by (simp add: t esc_multi_def)
qed

lemma esc_multi_head:
  assumes "\<not> (of_char c :: nat) < 0x80"
  shows "\<exists>c' t'. esc_multi (c # t) = c' # t' \<and> c' \<noteq> dquote"
proof -
  have "c \<noteq> dquote" using assms by auto
  then show ?thesis by (auto simp: esc_multi_def)
qed

lemma string_body_step:
  assumes "string_unit (e @ r) = Some (u, r)" "\<exists>c t. e = c # t \<and> c \<noteq> dquote"
  shows "string_body (Suc n) (e @ r) = map_option (\<lambda>(v, r'). (u @ v, r')) (string_body n r)"
  using assms by auto

lemma string_body_escape:
  "valid_utf8 s \<Longrightarrow> length (json_escape s) < n \<Longrightarrow>
   string_body n (json_escape s @ dquote # r) = Some (s, r)"
proof (induction s arbitrary: n rule: json_escape.induct)
  case 1
  then show ?case by (cases n) auto
next
  case (2 c s)
  then obtain m where n: "n = Suc m" by (cases n) auto
  show ?case
  proof (cases "(of_char c :: nat) < 0x80")
    case True
    have v: "valid_utf8 s" using 2(4) True by (simp add: valid_utf8_ascii)
    have "length (json_escape s) < m"
      using 2(5) True n esc_ascii_head [of c] by auto
    then have "string_body m (json_escape s @ dquote # r) = Some (s, r)"
      using 2(1) True v by blast
    then show ?thesis
      using string_body_step [OF string_unit_ascii [OF True] esc_ascii_head] True n
      by (simp del: string_body.simps)
  next
    case False
    let ?w = "utf8_width (c # s)"
    have w: "?w \<noteq> 0" and v: "valid_utf8 (drop ?w (c # s))"
      using valid_utf8_drop [OF 2(4)] by auto
    obtain t where t: "take ?w (c # s) = c # t"
      using w by (cases ?w) auto
    have h: "\<exists>c' t'. esc_multi (take ?w (c # s)) = c' # t' \<and> c' \<noteq> dquote"
      unfolding t by (rule esc_multi_head [OF False])
    have esc: "json_escape (c # s) = esc_multi (take ?w (c # s)) @ json_escape (drop ?w (c # s))"
      using False w by simp
    have "length (json_escape (drop ?w (c # s))) < m"
      using 2(5) n h esc by auto
    then have "string_body m (json_escape (drop ?w (c # s)) @ dquote # r) = Some (drop ?w (c # s), r)"
      using 2(3) False w v by blast
    then have "string_body n ((esc_multi (take ?w (c # s)) @ json_escape (drop ?w (c # s))) @ dquote # r)
        = Some (take ?w (c # s) @ drop ?w (c # s), r)"
      unfolding n append_assoc using string_body_step [OF string_unit_multi [OF False w] h]
      by (simp del: string_body.simps)
    then show ?thesis unfolding esc append_take_drop_id .
  qed
qed

section \<open>Round trip of numbers\<close>

lemma of_char_digit_char [simp]: "n < 10 \<Longrightarrow> (of_char (digit_char n) :: nat) = 48 + n"
  by (simp add: digit_char_def)

lemma digit_char_is_digit: "n < 10 \<Longrightarrow> is_digit (digit_char n)"
  by (simp add: is_digit_def)

lemma nat_dec_digits: "list_all is_digit (nat_dec n)"
proof (induction n rule: nat_dec.induct)
  case (1 n)
  then show ?case
    by (subst nat_dec.simps) (auto simp: digit_char_is_digit)
qed

lemma nat_dec_not_Nil [simp]: "nat_dec n \<noteq> []"
  by (subst nat_dec.simps) simp

lemma dec_nat_snoc: "dec_nat (s @ [c]) = 10 * dec_nat s + (of_char c - 48)"
  by (simp add: dec_nat_def)

lemma dec_nat_dec [simp]: "dec_nat (nat_dec n) = n"
proof (induction n rule: nat_dec.induct)
  case (1 n)
  then show ?case
    by (subst nat_dec.simps) (auto simp: dec_nat_snoc, simp add: dec_nat_def)
qed

lemma nat_dec_no_leading_zero: "hd (nat_dec n) = CHR ''0'' \<Longrightarrow> nat_dec n = ''0''"
proof (induction n rule: nat_dec.induct)
  case (1 n)
  show ?case
  proof (cases "n < 10")
    case True
    then show ?thesis using 1(2) by (simp add: nat_dec.simps)
  next
    case False
    have "nat_dec n = nat_dec (n div 10) @ [digit_char (n mod 10)]"
      using False by (subst nat_dec.simps) simp
    then have "hd (nat_dec (n div 10)) = CHR ''0''" using 1(2) by simp
    then have "nat_dec (n div 10) = ''0''" using 1(1) False by blast
    then have "dec_nat (nat_dec (n div 10)) = 0" by (simp add: dec_nat_def)
    then show ?thesis using False by simp
  qed
qed

lemma not_digit_minus [simp]: "\<not> is_digit CHR ''-''"
  by (simp add: is_digit_def)

lemma is_digit_0: "is_digit CHR ''0''"
  by (simp add: is_digit_def)

lemma hd_nat_dec_digit: "is_digit (hd (nat_dec n))"
  using nat_dec_digits [of n] by (cases "nat_dec n") auto

lemma hd_nat_dec_not_minus: "hd (nat_dec n) \<noteq> CHR ''-''"
  using hd_nat_dec_digit [of n] by auto

lemma dec_int_dec [simp]: "dec_int (int_dec i) = Some i"
  using hd_nat_dec_not_minus by (auto simp: int_dec_def dec_int_def Let_def nat_dec_digits)

lemma takeWhile_dec [simp]: "takeWhile is_digit (nat_dec n) = nat_dec n" "dropWhile is_digit (nat_dec n) = []"
  using nat_dec_digits [of n] by (simp_all add: list_all_iff)

lemma nat_dec_zero_tl: "hd (nat_dec n) = CHR ''0'' \<Longrightarrow> tl (nat_dec n) = []"
  by (drule nat_dec_no_leading_zero) simp

lemma json_number_int_dec: "json_number (int_dec i)"
  using hd_nat_dec_not_minus [of "nat i"] nat_dec_zero_tl is_digit_0
    nat_dec_digits [unfolded list_all_iff]
  by (simp add: json_number_def int_dec_def Let_def)

lemma int_dec_num_chars: "list_all is_num_char (int_dec i)"
  using nat_dec_digits by (auto simp: int_dec_def is_num_char_def list_all_iff)

section \<open>Round trip of values\<close>

fun json_wf :: "json \<Rightarrow> bool" where
  "json_wf (JNum l) = (json_number l \<and> list_all is_num_char l)"
| "json_wf (JStr s) = valid_utf8 s"
| "json_wf (JArr vs) = (\<forall>v \<in> set vs. json_wf v)"
| "json_wf (JObj kvs) = (\<forall>(k, v) \<in> set kvs. valid_utf8 k \<and> json_wf v)"
| "json_wf _ = True"

definition ends_number :: "bytes \<Rightarrow> bool" where
  "ends_number r = (case r of [] \<Rightarrow> True | c # _ \<Rightarrow> \<not> is_num_char c)"

definition is_ws :: "char \<Rightarrow> bool" where
  "is_ws c = (of_char c \<in> {9, 10, 13, 32 :: nat})"

lemma skip_ws_Cons: "\<not> is_ws c \<Longrightarrow> skip_ws (c # r) = c # r"
  by (simp add: skip_ws_def is_ws_def)

lemma skip_ws_Nil [simp]: "skip_ws [] = []"
  by (simp add: skip_ws_def)

lemma json_number_head: "json_number l \<Longrightarrow> \<exists>c t. l = c # t \<and> (is_digit c \<or> c = CHR ''-'')"
  by (cases l) (auto simp: json_number_def Let_def split: if_splits)

lemma digit_facts:
  assumes "is_digit c \<or> c = CHR ''-''"
  shows "\<not> is_ws c" "c \<notin> {dquote, CHR ''['', CHR ''{'', CHR '']'', CHR ''}''}"
    "c \<notin> {CHR ''n'', CHR ''t'', CHR ''f''}"
  using assms by (auto simp: is_ws_def is_digit_def)

lemma json_layout_head:
  "json_wf v \<Longrightarrow> \<exists>c t. json_layout nl sp d v = c # t \<and> \<not> is_ws c \<and> c \<notin> {CHR '']'', CHR ''}''}"
proof (cases v)
  case (JNum l)
  moreover assume "json_wf v"
  ultimately obtain c t where "l = c # t" "is_digit c \<or> c = CHR ''-''"
    using json_number_head [of l] by auto
  with JNum show ?thesis using digit_facts by auto
qed (auto simp: is_ws_def json_quote_def)

lemma json_print_not_Nil: "json_wf v \<Longrightarrow> json_print v \<noteq> []"
  using json_layout_head [of v "\<lambda>_. []" "[]" 0] by (auto simp: json_print_def)

definition ws_only :: "bytes \<Rightarrow> bool" where
  "ws_only w = list_all is_ws w"

lemma ws_only_Nil [simp]: "ws_only []"
  by (simp add: ws_only_def)

lemma skip_ws_append: "ws_only w \<Longrightarrow> skip_ws (w @ s) = skip_ws s"
  by (induction w) (auto simp: ws_only_def skip_ws_def is_ws_def)

lemma ends_number_ws: "ws_only w \<Longrightarrow> ends_number s \<Longrightarrow> ends_number (w @ s)"
  by (cases w) (auto simp: ws_only_def ends_number_def is_ws_def is_num_char_def is_digit_def)

lemma parse_atom_num:
  assumes l: "json_number l" "list_all is_num_char l" and r: "ends_number r"
  shows "parse_atom (l @ r) = Some (JNum l, r)"
proof -
  have "takeWhile is_num_char (l @ r) = l" "dropWhile is_num_char (l @ r) = r"
    using l(2) r by (auto simp: takeWhile_append dropWhile_append list_all_iff ends_number_def split: list.splits)
  moreover obtain c t where "l = c # t" "is_digit c \<or> c = CHR ''-''"
    using json_number_head [OF l(1)] by auto
  ultimately show ?thesis
    using l(1) digit_facts(3) [of c] by (auto simp: parse_atom_def has_prefix_def)
qed

lemma parse_atom_words:
  "parse_atom (''null'' @ r) = Some (JNull, r)"
  "parse_atom (''true'' @ r) = Some (JBool True, r)"
  "parse_atom (''false'' @ r) = Some (JBool False, r)"
  by (simp_all add: parse_atom_def has_prefix_def)

lemma string_body_quote:
  "valid_utf8 s \<Longrightarrow> string_body (Suc (length (json_escape s @ dquote # r))) (json_escape s @ dquote # r)
     = Some (s, r)"
  by (rule string_body_escape) simp_all

lemma parse_key_quote: "ws_only w \<Longrightarrow> valid_utf8 k \<Longrightarrow> parse_key (w @ json_quote k @ r) = Some (k, r)"
  using string_body_quote [of k r]
  by (simp add: parse_key_def json_quote_def skip_ws_append skip_ws_Cons is_ws_def del: string_body.simps)

text \<open>
  Each call of the parser consumes at least one byte of the text it is given, so the length of the
  text is enough fuel.
\<close>

lemma ends_number_bracket: "ends_number (CHR '']'' # r)" "ends_number (CHR ''}'' # r)"
  by (simp_all add: ends_number_def is_num_char_def is_digit_def)

lemma parse_layout:
  fixes nl :: "nat \<Rightarrow> bytes" and sp :: bytes
  assumes "\<forall>d. ws_only (nl d)" "ws_only sp"
  shows "json_wf v \<Longrightarrow> ends_number r \<Longrightarrow> ws_only w \<Longrightarrow> length (json_layout nl sp d v) \<le> n \<Longrightarrow>
      parse_value n (w @ json_layout nl sp d v @ r) = Some (v, r)"
    and "\<forall>v \<in> set vs. json_wf v \<Longrightarrow> vs \<noteq> [] \<Longrightarrow> ws_only w \<Longrightarrow> length (layout_elems nl sp d vs) \<le> n \<Longrightarrow>
      parse_elems n (w @ layout_elems nl sp d vs @ r) = Some (vs, r)"
    and "\<forall>(k, v) \<in> set kvs. valid_utf8 k \<and> json_wf v \<Longrightarrow> kvs \<noteq> [] \<Longrightarrow> ws_only w \<Longrightarrow>
      length (layout_members nl sp d kvs) \<le> n \<Longrightarrow>
      parse_members n (w @ layout_members nl sp d kvs @ r) = Some (kvs, r)"
  using assms
proof (induction nl sp d v and nl sp d vs and nl sp d kvs arbitrary: n r w and n r w and n r w
    rule: json_layout_layout_elems_layout_members.induct)
  case (1 nl sp d)
  then show ?case using parse_atom_words(1) [of r]
    by (cases n) (auto simp: skip_ws_append skip_ws_Cons is_ws_def)
next
  case (2 nl sp d b)
  then show ?case using parse_atom_words(2,3) [of r]
    by (cases n; cases b) (auto simp: skip_ws_append skip_ws_Cons is_ws_def)
next
  case (3 nl sp d l)
  obtain c t where l: "l = c # t" "is_digit c \<or> c = CHR ''-''"
    using json_number_head [of l] 3 by auto
  then show ?case using 3 parse_atom_num [of l r] digit_facts(1,2) [of c]
    by (cases n) (auto simp: skip_ws_append skip_ws_Cons)
next
  case (4 nl sp d s)
  then show ?case using string_body_quote [of s r]
    by (cases n) (auto simp: skip_ws_append skip_ws_Cons is_ws_def json_quote_def simp del: string_body.simps)
next
  case (5 nl sp d vs)
  then obtain m where n: "n = Suc m" by (cases n) auto
  show ?case
  proof (cases vs)
    case Nil
    then show ?thesis using 5 by (simp add: n skip_ws_append skip_ws_Cons is_ws_def)
  next
    case (Cons v ws)
    obtain c t where c: "json_layout nl sp (Suc d) v = c # t" "\<not> is_ws c" "c \<notin> {CHR '']'', CHR ''}''}"
      using json_layout_head [of v nl sp "Suc d"] 5(2) Cons by auto
    then obtain t' where t': "layout_elems nl sp d vs = c # t'"
      using Cons by (cases ws) auto
    have "parse_elems m ([] @ layout_elems nl sp d vs @ r) = Some (vs, r)"
      using 5(2-7) n Cons by (intro 5(1)) auto
    then show ?thesis
      using t' c(2,3) 5(4-7) Cons by (simp add: n skip_ws_append skip_ws_Cons is_ws_def)
  qed
next
  case (6 nl sp d kvs)
  then obtain m where n: "n = Suc m" by (cases n) auto
  show ?case
  proof (cases kvs)
    case Nil
    then show ?thesis using 6 by (simp add: n skip_ws_append skip_ws_Cons is_ws_def)
  next
    case (Cons kv ws)
    then obtain t' where t': "layout_members nl sp d kvs = dquote # t'"
      by (cases kv; cases ws) (auto simp: json_quote_def)
    have "parse_members m ([] @ layout_members nl sp d kvs @ r) = Some (kvs, r)"
      using 6(2-7) n Cons by (intro 6(1)) auto
    then show ?thesis
      using t' 6(4-7) Cons by (simp add: n skip_ws_append skip_ws_Cons is_ws_def)
  qed
next
  case (7 nl sp d)
  then show ?case by simp
next
  case (8 nl sp d v)
  then obtain m where n: "n = Suc m" by (cases n) auto
  have "parse_value m (w @ json_layout nl sp (Suc d) v @ nl d @ '']'' @ r) = Some (v, nl d @ '']'' @ r)"
    using 8(2-7) n
    by (intro 8(1)) (auto intro!: ends_number_ws ends_number_bracket)
  then show ?case using 8(6) by (simp add: n skip_ws_append skip_ws_Cons is_ws_def)
next
  case (9 nl sp d v v' vs)
  then obtain m where n: "n = Suc m" by (cases n) auto
  let ?rest = "layout_elems nl sp d (v' # vs) @ r"
  have "parse_value m (w @ json_layout nl sp (Suc d) v @ '','' @ nl (Suc d) @ ?rest)
      = Some (v, '','' @ nl (Suc d) @ ?rest)"
    using 9(3-8) n by (intro 9(1)) (auto simp: ends_number_def is_num_char_def is_digit_def)
  moreover have "parse_elems m (nl (Suc d) @ ?rest) = Some (v' # vs, r)"
    using 9(3-8) n by (intro 9(2)) auto
  ultimately show ?case by (simp add: n skip_ws_Cons is_ws_def)
next
  case (10 nl sp d)
  then show ?case by simp
next
  case (11 nl sp d k v)
  then obtain m where n: "n = Suc m" by (cases n) (auto simp: json_quote_def)
  have "parse_value m (sp @ json_layout nl sp (Suc d) v @ nl d @ ''}'' @ r) = Some (v, nl d @ ''}'' @ r)"
    using 11(2-7) n
    by (intro 11(1)) (auto intro!: ends_number_ws ends_number_bracket)
  then show ?case using 11(2-7) parse_key_quote by (simp add: n skip_ws_append skip_ws_Cons is_ws_def)
next
  case (12 nl sp d k v m' ms)
  then obtain m where n: "n = Suc m" by (cases n) (auto simp: json_quote_def)
  let ?rest = "layout_members nl sp d (m' # ms) @ r"
  have "parse_value m (sp @ json_layout nl sp (Suc d) v @ '','' @ nl (Suc d) @ ?rest)
      = Some (v, '','' @ nl (Suc d) @ ?rest)"
    using 12(3-8) n by (intro 12(1)) (auto simp: ends_number_def is_num_char_def is_digit_def)
  moreover have "parse_members m (nl (Suc d) @ ?rest) = Some (m' # ms, r)"
    using 12(3-8) n by (intro 12(2)) auto
  ultimately show ?case using 12(3-8) parse_key_quote by (simp add: n skip_ws_Cons is_ws_def)
qed

lemma parse_json_layout:
  assumes "\<forall>d. ws_only (nl d)" "ws_only sp" "json_wf v"
  shows "parse_json (json_layout nl sp d v) = Inr v"
  using parse_layout(1) [OF assms(1,2), of v "[]" "[]" d "2 * length (json_layout nl sp d v) + 2"] assms(3)
  by (simp add: parse_json_def ends_number_def del: parse_value.simps)

lemma parse_json_print: "json_wf v \<Longrightarrow> parse_json (json_print v) = Inr v"
  unfolding json_print_def by (rule parse_json_layout) simp_all

lemma parse_json_print_indent: "json_wf v \<Longrightarrow> parse_json (json_print_indent v) = Inr v"
  unfolding json_print_indent_def
  by (rule parse_json_layout) (simp_all add: ws_only_def is_ws_def list_all_iff)

section \<open>Decoding into fields\<close>

text \<open>
  \<open>json.Unmarshal\<close> into a struct walks the members in order; a member sets the field whose name its
  key equals up to case (the folds of ASCII letters include U+017F and U+212A), a later member
  overwrites an earlier one, unknown members are skipped, \<open>null\<close> leaves the field as it is and a
  value of the wrong type makes the call fail.
\<close>

fun fold_key :: "bytes \<Rightarrow> bytes" where
  "fold_key [] = []"
| "fold_key (c # s) =
     (if has_prefix (c # s) (map char_of [0xE2, 0x84, 0xAA::nat]) then CHR ''k'' # fold_key (drop 2 s)
      else if has_prefix (c # s) (map char_of [0xC5, 0xBF::nat]) then CHR ''s'' # fold_key (drop 1 s)
      else lower_char c # fold_key s)"

definition type_error :: goerr where
  "type_error = Errorf ''json: cannot unmarshal value into Go value'' []"

definition fold_members :: "json \<Rightarrow> (bytes \<times> json) list res" where
  "fold_members v =
     (case v of
        JObj kvs \<Rightarrow> Inr (map (\<lambda>(k, v). (fold_key k, v)) kvs)
      | JNull \<Rightarrow> Inr []
      | _ \<Rightarrow> Inl type_error)"

fun get_field :: "('a \<Rightarrow> json \<Rightarrow> 'a res) \<Rightarrow> 'a res \<Rightarrow> bytes \<Rightarrow> (bytes \<times> json) list \<Rightarrow> 'a res" where
  "get_field dec acc name [] = acc"
| "get_field dec acc name ((k, v) # ms) =
     get_field dec (if k = name then case_sum Inl (\<lambda>x. dec x v) acc else acc) name ms"

definition dec_str :: "bytes \<Rightarrow> json \<Rightarrow> bytes res" where
  "dec_str x v = (case v of JNull \<Rightarrow> Inr x | JStr s \<Rightarrow> Inr s | _ \<Rightarrow> Inl type_error)"

definition dec_bool :: "bool \<Rightarrow> json \<Rightarrow> bool res" where
  "dec_bool x v = (case v of JNull \<Rightarrow> Inr x | JBool b \<Rightarrow> Inr b | _ \<Rightarrow> Inl type_error)"

definition dec_range :: "int \<Rightarrow> int \<Rightarrow> int \<Rightarrow> json \<Rightarrow> int res" where
  "dec_range lo hi x v =
     (case v of
        JNull \<Rightarrow> Inr x
      | JNum l \<Rightarrow> (case dec_int l of Some i \<Rightarrow> if lo \<le> i \<and> i < hi then Inr i else Inl type_error
                                    | None \<Rightarrow> Inl type_error)
      | _ \<Rightarrow> Inl type_error)"

definition dec_int64 :: "int \<Rightarrow> json \<Rightarrow> int res" where
  "dec_int64 = dec_range (- (2 ^ 63)) (2 ^ 63)"

definition dec_uint32 :: "int \<Rightarrow> json \<Rightarrow> int res" where
  "dec_uint32 = dec_range 0 (2 ^ 32)"

fun traverse :: "('a \<Rightarrow> 'b res) \<Rightarrow> 'a list \<Rightarrow> 'b list res" where
  "traverse f [] = Inr []"
| "traverse f (x # xs) =
     (case f x of Inl e \<Rightarrow> Inl e
      | Inr y \<Rightarrow> (case traverse f xs of Inl e \<Rightarrow> Inl e | Inr ys \<Rightarrow> Inr (y # ys)))"

text \<open>A slice: \<open>null\<close> makes it nil, which is the empty list here.\<close>

definition dec_list :: "(json \<Rightarrow> 'a res) \<Rightarrow> 'a list \<Rightarrow> json \<Rightarrow> 'a list res" where
  "dec_list dec x v = (case v of JNull \<Rightarrow> Inr [] | JArr vs \<Rightarrow> traverse dec vs | _ \<Rightarrow> Inl type_error)"

abbreviation str_field :: "bytes \<Rightarrow> (bytes \<times> json) list \<Rightarrow> bytes res" where
  "str_field name ms \<equiv> get_field dec_str (Inr []) name ms"

abbreviation bool_field :: "bytes \<Rightarrow> (bytes \<times> json) list \<Rightarrow> bool res" where
  "bool_field name ms \<equiv> get_field dec_bool (Inr False) name ms"

abbreviation int64_field :: "bytes \<Rightarrow> (bytes \<times> json) list \<Rightarrow> int res" where
  "int64_field name ms \<equiv> get_field dec_int64 (Inr 0) name ms"

text \<open>The \<open>omitempty\<close> option.\<close>

definition omit_if :: "bool \<Rightarrow> bytes \<times> json \<Rightarrow> (bytes \<times> json) list" where
  "omit_if b kv = (if b then [] else [kv])"

abbreviation jint :: "int \<Rightarrow> json" where "jint i \<equiv> JNum (int_dec i)"

definition int64_range :: "int \<Rightarrow> bool" where
  "int64_range i = (- (2 ^ 63) \<le> i \<and> i < 2 ^ 63)"

definition unmarshal :: "(json \<Rightarrow> 'a res) \<Rightarrow> bytes \<Rightarrow> 'a res" where
  "unmarshal dec s = (case parse_json s of Inl e \<Rightarrow> Inl e | Inr v \<Rightarrow> dec v)"

named_theorems json_codec \<open>encoding and decoding of struct fields\<close>

lemma get_field_omit [json_codec]:
  "get_field dec acc name (omit_if b (k, v) @ ms) =
     get_field dec (if k = name \<and> \<not> b then case_sum Inl (\<lambda>x. dec x v) acc else acc) name ms"
  "get_field dec acc name (omit_if b (k, v)) =
     (if k = name \<and> \<not> b then case_sum Inl (\<lambda>x. dec x v) acc else acc)"
  by (simp_all add: omit_if_def)

lemma dec_simps [json_codec]:
  "dec_str x (JStr s) = Inr s" "dec_bool y (JBool b) = Inr b"
  "int64_range i \<Longrightarrow> dec_int64 j (jint i) = Inr i"
  "0 \<le> i \<Longrightarrow> i < 2 ^ 32 \<Longrightarrow> dec_uint32 j (jint i) = Inr i"
  "dec_list dec l (JArr vs) = traverse dec vs"
  by (simp_all add: dec_str_def dec_bool_def dec_int64_def dec_uint32_def dec_range_def dec_list_def
      int64_range_def)

lemma traverse_map: "(\<And>x. x \<in> set xs \<Longrightarrow> f (g x) = Inr (h x)) \<Longrightarrow> traverse f (map g xs) = Inr (map h xs)"
  by (induction xs) simp_all

lemma traverse_length: "traverse f xs = Inr ys \<Longrightarrow> length ys = length xs"
  by (induction xs arbitrary: ys) (auto split: sum.splits)

lemma json_wf_jint [simp]: "json_wf (jint i)"
  by (simp add: json_number_int_dec int_dec_num_chars)

lemma json_wf_obj:
  "json_wf (JObj (omit_if b (k, v) @ kvs)) \<longleftrightarrow> (b \<or> valid_utf8 k \<and> json_wf v) \<and> json_wf (JObj kvs)"
  "json_wf (JObj (omit_if b (k, v))) \<longleftrightarrow> b \<or> valid_utf8 k \<and> json_wf v"
  by (auto simp: omit_if_def)

lemma unmarshal_print_indent: "json_wf v \<Longrightarrow> unmarshal dec (json_print_indent v) = dec v"
  by (simp add: unmarshal_def parse_json_print_indent)

lemma unmarshal_print: "json_wf v \<Longrightarrow> unmarshal dec (json_print v) = dec v"
  by (simp add: unmarshal_def parse_json_print)

declare fold_key.simps [simp del]

definition plain_name :: "bytes \<Rightarrow> bool" where
  "plain_name s = list_all (\<lambda>c. c = CHR ''_'' \<or> 97 \<le> (of_char c :: nat) \<and> (of_char c :: nat) \<le> 122
     \<or> 48 \<le> (of_char c :: nat) \<and> (of_char c :: nat) \<le> 57) s"

lemma ascii_utf8: "list_all (\<lambda>c. (of_char c :: nat) < 128) s \<Longrightarrow> valid_utf8 s"
  by (induction s) (auto simp: valid_utf8_ascii)

lemma plain_name_utf8: "plain_name s \<Longrightarrow> valid_utf8 s"
  by (induction s) (auto simp: plain_name_def valid_utf8_ascii)

lemma plain_name_fold: "plain_name s \<Longrightarrow> fold_key s = s"
proof (induction s)
  case (Cons c s)
  then have c: "(of_char c :: nat) < 128" by (auto simp: plain_name_def)
  have "\<not> has_prefix (c # s) (map char_of [0xE2, 0x84, 0xAA::nat])"
    "\<not> has_prefix (c # s) (map char_of [0xC5, 0xBF::nat])"
    using c by (auto simp: has_prefix_def)
  moreover have "lower_char c = c"
    using Cons(2) by (auto simp: plain_name_def lower_char_def Let_def)
  ultimately show ?case using Cons by (simp add: plain_name_def fold_key.simps del: list.map)
qed (simp add: fold_key.simps)

lemma fold_members_obj [json_codec]:
  "fold_members (JObj kvs) = Inr (map (\<lambda>(k, v). (fold_key k, v)) kvs)"
  "map (\<lambda>(k, v). (fold_key k, v)) (omit_if b (k, v)) = omit_if b (fold_key k, v)"
  by (simp_all add: fold_members_def omit_if_def)

end
