(* ===== verification/GoPath.thy ===== *)
theory GoPath
  imports GoStrings
begin

text \<open>
  The lexical path functions of Go's \<open>path/filepath\<close> (on Unix, where \<open>path\<close> agrees): \<open>Clean\<close>,
  \<open>Join\<close>, \<open>Dir\<close>, \<open>Base\<close>, \<open>Rel\<close>, \<open>IsAbs\<close>. The laws are stated for \<open>abs_path ss\<close>, the cleaned
  absolute path with the segments \<open>ss\<close>, all of them normal (non-empty, no separator, not a dot
  segment).
\<close>

section \<open>Definitions\<close>

abbreviation sep :: char where "sep \<equiv> CHR ''/''"

fun clean_aux :: "bool \<Rightarrow> string list \<Rightarrow> string list \<Rightarrow> string list" where
  "clean_aux rooted st [] = rev st"
| "clean_aux rooted st (s # ss) =
     (if s = [] \<or> s = ''.'' then clean_aux rooted st ss
      else if s = ''..'' then
        (case st of
           [] \<Rightarrow> if rooted then clean_aux rooted [] ss else clean_aux rooted [''..''] ss
         | t # st' \<Rightarrow> if t = ''..'' then clean_aux rooted (''..'' # st) ss
                     else clean_aux rooted st' ss)
      else clean_aux rooted (s # st) ss)"

definition is_abs :: "string \<Rightarrow> bool" where
  "is_abs p = has_prefix p ''/''"

definition clean :: "string \<Rightarrow> string" where
  "clean p =
     (if p = [] then ''.''
      else let body = join_with ''/'' (clean_aux (is_abs p) [] (split_on sep p))
           in if is_abs p then sep # body else if body = [] then ''.'' else body)"

definition join_path :: "string list \<Rightarrow> string" where
  "join_path elems =
     (case dropWhile (\<lambda>e. e = []) elems of [] \<Rightarrow> [] | es \<Rightarrow> clean (join_with ''/'' es))"

definition up_to_last_sep :: "string \<Rightarrow> string" where
  "up_to_last_sep p = rev (dropWhile (\<lambda>c. c \<noteq> sep) (rev p))"

definition after_last_sep :: "string \<Rightarrow> string" where
  "after_last_sep p = rev (takeWhile (\<lambda>c. c \<noteq> sep) (rev p))"

definition dir :: "string \<Rightarrow> string" where
  "dir p = clean (up_to_last_sep p)"

definition base :: "string \<Rightarrow> string" where
  "base p =
     (if p = [] then ''.''
      else let q = after_last_sep (trim_right p ''/'') in if q = [] then ''/'' else q)"

definition path_segs :: "string \<Rightarrow> string list" where
  "path_segs p = filter (\<lambda>s. s \<noteq> []) (split_on sep p)"

fun strip_common :: "string list \<Rightarrow> string list \<Rightarrow> string list \<times> string list" where
  "strip_common (x # xs) (y # ys) = (if x = y then strip_common xs ys else (x # xs, y # ys))"
| "strip_common xs ys = (xs, ys)"

definition rel_path :: "string \<Rightarrow> string \<Rightarrow> string res" where
  "rel_path basepath targpath =
     (let b = clean basepath; t = clean targpath
      in if t = b then Inr ''.''
         else let b1 = (if b = ''.'' then [] else b)
              in if is_abs b1 \<noteq> is_abs t
                 then Inl (Errorf ''Rel: can't make %s relative to %s'' [AStr targpath, AStr basepath])
                 else case strip_common (path_segs b1) (path_segs t) of
                        (bs, ts) \<Rightarrow>
                          if bs \<noteq> [] \<and> hd bs = ''..''
                          then Inl (Errorf ''Rel: can't make %s relative to %s''
                                     [AStr targpath, AStr basepath])
                          else Inr (join_with ''/'' (replicate (length bs) ''..'' @ ts)))"

section \<open>Normal segments\<close>

definition norm_seg :: "string \<Rightarrow> bool" where
  "norm_seg s = (s \<noteq> [] \<and> s \<noteq> ''.'' \<and> s \<noteq> ''..'' \<and> sep \<notin> set s)"

definition abs_path :: "string list \<Rightarrow> string" where
  "abs_path ss = sep # join_with ''/'' ss"

lemma norm_segD:
  "norm_seg s \<Longrightarrow> s \<noteq> []" "norm_seg s \<Longrightarrow> s \<noteq> ''.''" "norm_seg s \<Longrightarrow> s \<noteq> ''..''"
  "norm_seg s \<Longrightarrow> sep \<notin> set s"
  by (simp_all add: norm_seg_def)

lemma clean_aux_norm:
  "list_all norm_seg ss \<Longrightarrow> clean_aux r st (ss @ ts) = clean_aux r (rev ss @ st) ts"
  by (induction ss arbitrary: st) (auto simp: norm_seg_def)

lemma clean_aux_norm_nil: "list_all norm_seg ss \<Longrightarrow> clean_aux r st ss = rev st @ ss"
  using clean_aux_norm [of ss r st "[]"] by simp

lemma split_join_norm:
  "list_all norm_seg ss \<Longrightarrow> ss \<noteq> [] \<Longrightarrow> split_on sep (join_with ''/'' ss) = ss"
  by (rule split_on_join) (auto simp: list_all_iff norm_seg_def)

lemma split_abs_path:
  "list_all norm_seg ss \<Longrightarrow> split_on sep (abs_path ss) = [] # (if ss = [] then [[]] else ss)"
  by (simp add: abs_path_def split_join_norm)

lemma is_abs_abs_path [simp, path_simps]: "is_abs (abs_path ss)"
  by (simp add: is_abs_def abs_path_def has_prefix_def)

lemma abs_path_not_Nil [simp]: "abs_path ss \<noteq> []"
  by (simp add: abs_path_def)

lemma clean_abs_path [simp, path_simps]: "list_all norm_seg ss \<Longrightarrow> clean (abs_path ss) = abs_path ss"
  by (cases "ss = []") (simp_all add: clean_def split_abs_path clean_aux_norm_nil abs_path_def [symmetric]
      Let_def, simp_all add: abs_path_def)

lemma path_segs_abs_path [simp, path_simps]: "list_all norm_seg ss \<Longrightarrow> path_segs (abs_path ss) = ss"
proof -
  assume "list_all norm_seg ss"
  then have "filter (\<lambda>s. s \<noteq> []) ss = ss" by (auto simp: filter_id_conv list_all_iff norm_seg_def)
  with \<open>list_all norm_seg ss\<close> show ?thesis by (simp add: path_segs_def split_abs_path)
qed

lemma abs_path_inj:
  "list_all norm_seg ss \<Longrightarrow> list_all norm_seg ts \<Longrightarrow> abs_path ss = abs_path ts \<longleftrightarrow> ss = ts"
  by (metis path_segs_abs_path)

lemma clean_abs_append:
  assumes "list_all norm_seg ss" "list_all norm_seg (split_on sep r)"
  shows "clean (abs_path ss @ sep # r) = abs_path (ss @ split_on sep r)"
proof -
  have "split_on sep (abs_path ss @ sep # r) = split_on sep (abs_path ss) @ split_on sep r"
    by (rule split_on_append)
  then have sp: "split_on sep (abs_path ss @ sep # r) =
      [] # (if ss = [] then [[]] else ss) @ split_on sep r"
    by (simp add: split_abs_path assms(1))
  have "is_abs (abs_path ss @ sep # r)"
    by (simp add: is_abs_def abs_path_def has_prefix_def)
  with sp show ?thesis
    by (cases "ss = []") (simp_all add: clean_def Let_def clean_aux_norm_nil assms abs_path_def
        clean_aux_norm [OF assms(1), where ts = "split_on sep r", simplified])
qed

lemma join_path_abs [path_simps]:
  assumes "list_all norm_seg ss" "list_all norm_seg (split_on sep r)"
  shows "join_path [abs_path ss, r] = abs_path (ss @ split_on sep r)"
  using clean_abs_append [OF assms] by (simp add: join_path_def)

lemma join_path_seg [path_simps]:
  assumes "list_all norm_seg ss" "norm_seg s"
  shows "join_path [abs_path ss, s] = abs_path (ss @ [s])"
  using join_path_abs [of ss s] assms by (simp add: split_on_no_sep norm_seg_def)

lemma abs_path_snoc: "abs_path (ss @ [x]) = (if ss = [] then [sep] else abs_path ss @ [sep]) @ x"
proof (cases "ss = []")
  case False
  then have "join_with ''/'' (ss @ [x]) = join_with ''/'' ss @ sep # x"
  proof (induction ss)
    case (Cons a ss)
    then show ?case by (cases "ss = []") (simp_all add: join_with_Cons)
  qed simp
  with False show ?thesis by (simp add: abs_path_def)
qed (simp add: abs_path_def)

lemma last_sep_split:
  assumes "sep \<notin> set x"
  shows "up_to_last_sep (p @ sep # x) = p @ [sep]" "after_last_sep (p @ sep # x) = x"
  using assms by (auto simp: up_to_last_sep_def after_last_sep_def dropWhile_append takeWhile_append
      dropWhile_eq_Nil_conv)

lemma clean_trailing:
  assumes "list_all norm_seg ss"
  shows "clean (abs_path ss @ [sep]) = abs_path ss"
proof -
  have "split_on sep (abs_path ss @ [sep]) = [] # (if ss = [] then [[]] else ss) @ [[]]"
    using split_on_append [of sep "abs_path ss" "[]"] by (simp add: split_abs_path assms)
  moreover have "is_abs (abs_path ss @ [sep])"
    by (simp add: is_abs_def abs_path_def has_prefix_def)
  ultimately show ?thesis
    by (cases "ss = []") (simp_all add: clean_def Let_def abs_path_def
        clean_aux_norm [OF assms, where ts = "[[]]", simplified])
qed

lemma dir_abs_path [path_simps]:
  assumes "list_all norm_seg ss" "norm_seg x"
  shows "dir (abs_path (ss @ [x])) = abs_path ss"
proof (cases "ss = []")
  case True
  have "up_to_last_sep (abs_path [x]) = [sep]"
    using last_sep_split(1) [of x "[]"] assms(2) by (simp add: abs_path_def norm_seg_def)
  with True show ?thesis
    by (simp add: dir_def clean_def is_abs_def has_prefix_def abs_path_def Let_def)
next
  case False
  then have "up_to_last_sep (abs_path (ss @ [x])) = abs_path ss @ [sep]"
    using last_sep_split(1) [of x "abs_path ss"] assms(2) by (simp add: abs_path_snoc norm_seg_def)
  then show ?thesis by (simp add: dir_def clean_trailing assms)
qed

lemma base_abs_path [path_simps]:
  assumes "norm_seg x"
  shows "base (abs_path (ss @ [x])) = x"
proof -
  obtain p where p: "abs_path (ss @ [x]) = p @ sep # x"
  proof (cases "ss = []")
    case True
    then show ?thesis using that [of "[]"] by (simp add: abs_path_def)
  next
    case False
    then show ?thesis using that [of "abs_path ss"] by (simp add: abs_path_snoc)
  qed
  have "trim_right (p @ sep # x) ''/'' = p @ sep # x"
    using assms by (cases x rule: rev_cases) (auto simp: trim_right_def norm_seg_def)
  then show ?thesis
    using assms last_sep_split(2) [of x p] by (simp add: base_def p Let_def norm_seg_def)
qed

lemma strip_common_append [simp]: "strip_common (p @ xs) (p @ ys) = strip_common xs ys"
  by (induction p) auto

lemma rel_path_abs [path_simps]:
  assumes "list_all norm_seg bs" "list_all norm_seg ts" "bs \<noteq> ts"
  shows "rel_path (abs_path bs) (abs_path ts) =
    (case strip_common bs ts of (b, t) \<Rightarrow> Inr (join_with ''/'' (replicate (length b) ''..'' @ t)))"
proof -
  have up: "b \<noteq> [] \<Longrightarrow> hd b \<noteq> ''..''" if "strip_common bs ts = (b, t)" for b t
  proof -
    have "set (fst (strip_common xs ys)) \<subseteq> set xs" for xs ys :: "string list"
      by (induction xs ys rule: strip_common.induct) auto
    from this [of bs ts] that have "set b \<subseteq> set bs" by simp
    then show "b \<noteq> [] \<Longrightarrow> hd b \<noteq> ''..''"
      using assms(1) by (auto simp: list_all_iff norm_seg_def dest: hd_in_set)
  qed
  have "abs_path bs \<noteq> ''.''" by (simp add: abs_path_def)
  with assms up show ?thesis
    by (auto simp: rel_path_def Let_def abs_path_inj split: prod.splits)
qed

lemma abs_path_extend: "abs_path (ds @ [b]) @ y = abs_path (ds @ [b @ y])"
proof (induction ds)
  case (Cons a ds)
  then show ?case by (cases ds) (simp_all add: abs_path_def)
qed (simp add: abs_path_def)

end
