(* ===== verification/MappingDb.thy ===== *)
theory MappingDb
  imports Store Json GoPath
begin

text \<open>
  \<open>internal/mapping/mapping.go\<close>: the records of shared revisions and the database of them, one
  JSON document per commit hash. The datastore and \<open>ds.NewKey\<close> are the fields of the argument \<open>M\<close>;
  the locale \<open>mapping_db\<close> states what the database relies on and proves that it implements a finite
  map from commit hashes to entries. An instant is kept as its RFC 3339 text, the form in which
  \<open>time.Time\<close> is encoded, and a nil slice is the empty list.
\<close>

section \<open>Data\<close>

record file_manifest =
  fm_path :: string
  fm_blob :: string
  fm_size :: int
  fm_sha256 :: string
  fm_mode :: int
  fm_mtime :: int
  fm_lfs :: bool
  fm_xet :: string
  fm_src :: string

record entry =
  repo_id :: string
  repo_type :: string
  commit_hash :: string
  actual_cid :: string
  dummy_cid :: string
  files :: "file_manifest list"
  total_size :: int
  added_at :: string
  origin :: string

text \<open>\<open>SrcPath\<close> is tagged \<open>json:"-"\<close>: it does not survive encoding.\<close>

definition strip_src :: "file_manifest \<Rightarrow> file_manifest" where
  "strip_src f = f\<lparr>fm_src := []\<rparr>"

definition strip_entry :: "entry \<Rightarrow> entry" where
  "strip_entry e = e\<lparr>files := map strip_src (files e)\<rparr>"

section \<open>Encoding\<close>

definition zero_time :: string where
  "zero_time = ''0001-01-01T00:00:00Z''"

definition num_at :: "string \<Rightarrow> nat \<Rightarrow> nat \<Rightarrow> nat" where
  "num_at s i n = dec_nat (take n (drop i s))"

definition days_in :: "nat \<Rightarrow> nat \<Rightarrow> nat" where
  "days_in y m =
     (if m = 2 then if y mod 4 = 0 \<and> (y mod 100 \<noteq> 0 \<or> y mod 400 = 0) then 29 else 28
      else if m \<in> {4, 6, 9, 11} then 30 else 31)"

definition zone_ok :: "string \<Rightarrow> bool" where
  "zone_ok z =
     (z = ''Z'' \<or> length z = 6 \<and> hd z \<in> set ''+-'' \<and> z ! 3 = CHR '':''
        \<and> list_all (\<lambda>i. is_digit (z ! i)) [1, 2, 4, 5] \<and> num_at z 1 2 < 24 \<and> num_at z 4 2 < 60)"

definition frac_rest :: "string \<Rightarrow> string" where
  "frac_rest t =
     (if t \<noteq> [] \<and> hd t = CHR ''.'' \<and> tl t \<noteq> [] \<and> is_digit (hd (tl t)) then dropWhile is_digit (tl t) else t)"

definition rfc3339 :: "string \<Rightarrow> bool" where
  "rfc3339 s =
     (20 \<le> length s
      \<and> list_all (\<lambda>i. is_digit (s ! i)) [0, 1, 2, 3, 5, 6, 8, 9, 11, 12, 14, 15, 17, 18]
      \<and> s ! 4 = CHR ''-'' \<and> s ! 7 = CHR ''-'' \<and> s ! 10 = CHR ''T'' \<and> s ! 13 = CHR '':'' \<and> s ! 16 = CHR '':''
      \<and> 1 \<le> num_at s 5 2 \<and> num_at s 5 2 \<le> 12
      \<and> 1 \<le> num_at s 8 2 \<and> num_at s 8 2 \<le> days_in (num_at s 0 4) (num_at s 5 2)
      \<and> num_at s 11 2 < 24 \<and> num_at s 14 2 < 60 \<and> num_at s 17 2 < 60
      \<and> zone_ok (frac_rest (drop 19 s)))"

definition dec_time :: "string \<Rightarrow> json \<Rightarrow> string res" where
  "dec_time x v =
     (case v of JNull \<Rightarrow> Inr x | JStr s \<Rightarrow> if rfc3339 s then Inr s else Inl type_error | _ \<Rightarrow> Inl type_error)"

definition enc_manifest :: "file_manifest \<Rightarrow> json" where
  "enc_manifest f =
     JObj ([(''path'', JStr (fm_path f)), (''blob_name'', JStr (fm_blob f)), (''size'', jint (fm_size f)),
            (''sha256'', JStr (fm_sha256 f))]
           @ omit_if (fm_mode f = 0) (''mode'', jint (fm_mode f))
           @ omit_if (fm_mtime f = 0) (''mtime'', jint (fm_mtime f))
           @ omit_if (\<not> fm_lfs f) (''lfs'', JBool (fm_lfs f))
           @ omit_if (fm_xet f = []) (''xet_hash'', JStr (fm_xet f)))"

definition dec_manifest :: "json \<Rightarrow> file_manifest res" where
  "dec_manifest v =
     bind_res (fold_members v) (\<lambda>ms.
      bind_res (str_field ''path'' ms) (\<lambda>p.
      bind_res (str_field ''blob_name'' ms) (\<lambda>b.
      bind_res (int64_field ''size'' ms) (\<lambda>sz.
      bind_res (str_field ''sha256'' ms) (\<lambda>sha.
      bind_res (get_field dec_uint32 (Inr 0) ''mode'' ms) (\<lambda>mode.
      bind_res (int64_field ''mtime'' ms) (\<lambda>mt.
      bind_res (bool_field ''lfs'' ms) (\<lambda>l.
      bind_res (str_field ''xet_hash'' ms) (\<lambda>x.
        Inr \<lparr>fm_path = p, fm_blob = b, fm_size = sz, fm_sha256 = sha, fm_mode = mode, fm_mtime = mt,
             fm_lfs = l, fm_xet = x, fm_src = []\<rparr>)))))))))"

text \<open>An entry without files is encoded with the empty array. Go writes \<open>null\<close> for a nil slice and \<open>[]\<close> for an
  empty one; the two decode to no files alike, here and in the code, so the difference is not in the model of an entry.\<close>

definition enc_entry :: "entry \<Rightarrow> json" where
  "enc_entry e =
     JObj [(''repo_id'', JStr (repo_id e)), (''repo_type'', JStr (repo_type e)),
           (''commit_hash'', JStr (commit_hash e)), (''actual_cid'', JStr (actual_cid e)),
           (''dummy_cid'', JStr (dummy_cid e)), (''files'', JArr (map enc_manifest (files e))),
           (''total_size'', jint (total_size e)), (''added_at'', JStr (added_at e)),
           (''origin'', JStr (origin e))]"

definition dec_entry :: "json \<Rightarrow> entry res" where
  "dec_entry v =
     bind_res (fold_members v) (\<lambda>ms.
      bind_res (str_field ''repo_id'' ms) (\<lambda>r.
      bind_res (str_field ''repo_type'' ms) (\<lambda>t.
      bind_res (str_field ''commit_hash'' ms) (\<lambda>c.
      bind_res (str_field ''actual_cid'' ms) (\<lambda>a.
      bind_res (str_field ''dummy_cid'' ms) (\<lambda>d.
      bind_res (get_field (dec_list dec_manifest) (Inr []) ''files'' ms) (\<lambda>fs.
      bind_res (int64_field ''total_size'' ms) (\<lambda>sz.
      bind_res (get_field dec_time (Inr zero_time) ''added_at'' ms) (\<lambda>at.
      bind_res (str_field ''origin'' ms) (\<lambda>og.
        Inr \<lparr>repo_id = r, repo_type = t, commit_hash = c, actual_cid = a, dummy_cid = d, files = fs,
             total_size = sz, added_at = at, origin = og\<rparr>))))))))))"

text \<open>\<open>json.Marshal\<close> fails on an instant that has no RFC 3339 text.\<close>

definition marshal_entry :: "entry \<Rightarrow> bytes res" where
  "marshal_entry e =
     (if rfc3339 (added_at e) then Inr (json_print (enc_entry e))
      else Inl (Errorf ''json: error calling MarshalJSON for type time.Time'' []))"

definition unmarshal_entry :: "bytes \<Rightarrow> entry res" where
  "unmarshal_entry = unmarshal dec_entry"

section \<open>Operations\<close>

record 's maplib =
  mds :: "'s dsops"
  new_key :: "string \<Rightarrow> string"

definition map_key :: "'s maplib \<Rightarrow> string \<Rightarrow> string" where
  "map_key M commit = new_key M (''/'' @ commit)"

definition map_put :: "'s maplib \<Rightarrow> 's \<Rightarrow> entry \<Rightarrow> unit res \<times> 's" where
  "map_put M s e =
     (if commit_hash e = [] then (Inl (Errorf ''mapping entry requires a commit hash'' []), s)
      else case marshal_entry e of
             Inl err \<Rightarrow> (Inl (Wrapf ''marshal mapping entry: %w'' [] err), s)
           | Inr data \<Rightarrow> dput (mds M) s (map_key M (commit_hash e)) data)"

text \<open>\<open>Get\<close> compares with \<open>ds.ErrNotFound\<close> itself, not with \<open>errors.Is\<close>.\<close>

definition map_get :: "'s maplib \<Rightarrow> 's \<Rightarrow> string \<Rightarrow> entry option res" where
  "map_get M s commit =
     (case dget (mds M) s (map_key M commit) of
        Inl err \<Rightarrow> if err = Sentinel ErrNotFound then Inr None else Inl err
      | Inr data \<Rightarrow>
          (case unmarshal_entry data of
             Inl err \<Rightarrow> Inl (Wrapf ''unmarshal mapping entry for %s: %w'' [AStr commit] err)
           | Inr e \<Rightarrow> Inr (Some e)))"

definition map_has :: "'s maplib \<Rightarrow> 's \<Rightarrow> string \<Rightarrow> bool res" where
  "map_has M s commit = dhas (mds M) s (map_key M commit)"

definition map_delete :: "'s maplib \<Rightarrow> 's \<Rightarrow> string \<Rightarrow> unit res \<times> 's" where
  "map_delete M s commit = ddelete (mds M) s (map_key M commit)"

fun decode_entries :: "dsentry list \<Rightarrow> entry list res" where
  "decode_entries [] = Inr []"
| "decode_entries (r # rs) =
     (if e_value r = [] then decode_entries rs
      else case unmarshal_entry (e_value r) of
             Inl err \<Rightarrow> Inl (Wrapf ''unmarshal mapping entry: %w'' [] err)
           | Inr e \<Rightarrow>
               (case decode_entries rs of Inl err \<Rightarrow> Inl err | Inr es \<Rightarrow> Inr (e # es)))"

text \<open>
  \<open>sort.Slice\<close> by repository, then commit. The comparison is bytewise, HOL's lexicographic order
  on characters. Entries that compare equal keep the query's order here.
\<close>

definition map_list :: "'s maplib \<Rightarrow> 's \<Rightarrow> entry list res" where
  "map_list M s =
     (case dquery (mds M) s empty_query of
        Inl err \<Rightarrow> Inl err
      | Inr rs \<Rightarrow>
          (case decode_entries rs of
             Inl err \<Rightarrow> Inl err
           | Inr es \<Rightarrow> Inr (sort_key (\<lambda>e. (repo_id e, commit_hash e)) es)))"

section \<open>Round trip of the encoding\<close>

text \<open>The values Go can hold in the fields, with text that JSON carries unchanged.\<close>

definition manifest_wf :: "file_manifest \<Rightarrow> bool" where
  "manifest_wf f = (valid_utf8 (fm_path f) \<and> valid_utf8 (fm_blob f) \<and> valid_utf8 (fm_sha256 f)
     \<and> valid_utf8 (fm_xet f) \<and> int64_range (fm_size f) \<and> int64_range (fm_mtime f)
     \<and> 0 \<le> fm_mode f \<and> fm_mode f < 2 ^ 32)"

lemma is_hex_utf8: "is_hex s \<Longrightarrow> valid_utf8 s"
  by (rule ascii_utf8) (fastforce simp: is_hex_def list_all_iff from_hex_char_def Let_def split: if_splits)

lemma strip_src_simps:
  "manifest_wf (strip_src f) = manifest_wf f" "strip_src \<circ> strip_src = strip_src"
  by (simp_all add: manifest_wf_def strip_src_def fun_eq_iff)

definition entry_wf :: "entry \<Rightarrow> bool" where
  "entry_wf e = (valid_utf8 (repo_id e) \<and> valid_utf8 (repo_type e) \<and> valid_utf8 (commit_hash e)
     \<and> valid_utf8 (actual_cid e) \<and> valid_utf8 (dummy_cid e) \<and> valid_utf8 (origin e)
     \<and> valid_utf8 (added_at e) \<and> int64_range (total_size e) \<and> list_all manifest_wf (files e))"

lemma plain_names: "list_all plain_name ns \<Longrightarrow> list_all (\<lambda>s. fold_key s = s \<and> valid_utf8 s) ns"
  by (auto simp: list_all_iff plain_name_fold plain_name_utf8)

lemma manifest_names:
  "list_all plain_name [''path'', ''blob_name'', ''size'', ''sha256'', ''mode'', ''mtime'', ''lfs'',
     ''xet_hash'']"
  by code_simp

lemma entry_names:
  "list_all plain_name [''repo_id'', ''repo_type'', ''commit_hash'', ''actual_cid'', ''dummy_cid'',
     ''files'', ''total_size'', ''added_at'', ''origin'']"
  by code_simp

lemmas field_name_facts [json_codec] =
  plain_names [OF manifest_names, unfolded list.pred_inject]
  plain_names [OF entry_names, unfolded list.pred_inject]

lemma dec_enc_manifest: "manifest_wf f \<Longrightarrow> dec_manifest (enc_manifest f) = Inr (strip_src f)"
  by (simp add: manifest_wf_def dec_manifest_def enc_manifest_def json_codec strip_src_def)

lemma json_wf_manifest: "manifest_wf f \<Longrightarrow> json_wf (enc_manifest f)"
  by (auto simp: manifest_wf_def enc_manifest_def omit_if_def json_codec json_number_int_dec
      int_dec_num_chars)

lemma dec_enc_entry:
  "entry_wf e \<Longrightarrow> rfc3339 (added_at e) \<Longrightarrow> dec_entry (enc_entry e) = Inr (strip_entry e)"
  by (simp add: entry_wf_def dec_entry_def enc_entry_def json_codec strip_entry_def dec_time_def
      traverse_map [where h = strip_src] dec_enc_manifest list_all_iff)

lemma json_wf_entry: "entry_wf e \<Longrightarrow> json_wf (enc_entry e)"
  by (simp add: entry_wf_def enc_entry_def json_codec json_wf_manifest json_number_int_dec
      int_dec_num_chars list.pred_set [of manifest_wf])

lemma entry_codec:
  "entry_wf e \<Longrightarrow> marshal_entry e = Inr d \<Longrightarrow> d \<noteq> [] \<and> unmarshal_entry d = Inr (strip_entry e)"
  using json_print_not_Nil [OF json_wf_entry [of e]]
  by (auto simp: marshal_entry_def unmarshal_entry_def unmarshal_print json_wf_entry dec_enc_entry
      split: if_splits)

section \<open>The database as a map\<close>

definition plain_key :: "string \<Rightarrow> bool" where
  "plain_key c = (c \<noteq> [] \<and> c \<noteq> ''.'' \<and> c \<noteq> ''..'' \<and> CHR ''/'' \<notin> set c)"

text \<open>Every record of the bucket is the encoding of an entry stored under its own commit hash.\<close>

definition map_wf :: "'s maplib \<Rightarrow> 's \<Rightarrow> bool" where
  "map_wf M s = (\<forall>k v. valid_key k \<longrightarrow> dget (mds M) s k = Inr v \<longrightarrow>
     (\<exists>e. v \<noteq> [] \<and> unmarshal_entry v = Inr e \<and> plain_key (commit_hash e)
        \<and> k = map_key M (commit_hash e)))"

text \<open>The abstract state: which entry each commit hash has.\<close>

definition map_abs :: "'s maplib \<Rightarrow> 's \<Rightarrow> string \<Rightarrow> entry option" where
  "map_abs M s c = (case map_get M s c of Inr (Some e) \<Rightarrow> Some e | _ \<Rightarrow> None)"

lemma commit_hash_strip [simp]: "commit_hash (strip_entry e) = commit_hash e"
  by (simp add: strip_entry_def)

locale mapping_db = datastore "mds M" for M :: "'s maplib" +
  assumes key_plain: "plain_key c \<Longrightarrow> new_key M (CHR ''/'' # c) = CHR ''/'' # c"
    and key_valid: "valid_key (new_key M (CHR ''/'' # c))"
begin

lemma map_key_valid [simp]: "valid_key (map_key M c)"
  by (simp add: map_key_def key_valid)

lemma map_key_inj: "plain_key c \<Longrightarrow> plain_key c' \<Longrightarrow> map_key M c = map_key M c' \<longleftrightarrow> c = c'"
  by (simp add: map_key_def key_plain)

lemma map_put_effect:
  assumes "map_put M s e = (Inr (), s')" "entry_wf e" "plain_key (commit_hash e)" "plain_key c"
  shows "map_get M s' c = (if c = commit_hash e then Inr (Some (strip_entry e)) else map_get M s c)"
proof -
  from assms(1) obtain d where d: "marshal_entry e = Inr d"
    and p: "dput (mds M) s (map_key M (commit_hash e)) d = (Inr (), s')"
    by (auto simp: map_put_def split: if_splits sum.splits)
  show ?thesis
    using get_put [OF map_key_valid map_key_valid p, of c] entry_codec [OF assms(2) d]
      map_key_inj [OF assms(4,3)] by (simp add: map_get_def)
qed

lemma map_delete_effect:
  assumes "map_delete M s c = (Inr (), s')" "plain_key c" "plain_key c'"
  shows "map_get M s' c' = (if c' = c then Inr None else map_get M s c')"
  using get_delete [OF map_key_valid map_key_valid assms(1) [unfolded map_delete_def], of c']
    map_key_inj [OF assms(3,2)] by (simp add: map_get_def)

lemma map_put_err: "map_put M s e = (Inl err, s') \<Longrightarrow> s' = s"
  by (auto simp: map_put_def split: if_splits sum.splits dest: put_err)

lemma map_delete_err: "map_delete M s c = (Inl err, s') \<Longrightarrow> s' = s"
  by (auto simp: map_delete_def dest: delete_err)

lemma map_wf_put:
  assumes "map_wf M s" "map_put M s e = (Inr (), s')" "entry_wf e" "plain_key (commit_hash e)"
  shows "map_wf M s'"
proof -
  from assms(2) obtain d where d: "marshal_entry e = Inr d"
    and p: "dput (mds M) s (map_key M (commit_hash e)) d = (Inr (), s')"
    by (auto simp: map_put_def split: if_splits sum.splits)
  show ?thesis unfolding map_wf_def
  proof (intro allI impI)
    fix k v assume k: "valid_key k" and v: "dget (mds M) s' k = Inr v"
    show "\<exists>e. v \<noteq> [] \<and> unmarshal_entry v = Inr e \<and> plain_key (commit_hash e) \<and> k = map_key M (commit_hash e)"
    proof (cases "k = map_key M (commit_hash e)")
      case True
      with v get_put [OF map_key_valid k p] have "v = d" by simp
      with True entry_codec [OF assms(3) d] assms(4) show ?thesis by auto
    next
      case False
      with v get_put [OF map_key_valid k p] have "dget (mds M) s k = Inr v" by simp
      with assms(1) k show ?thesis by (simp add: map_wf_def)
    qed
  qed
qed

lemma map_wf_delete:
  assumes "map_wf M s" "map_delete M s c = (Inr (), s')"
  shows "map_wf M s'"
  using assms get_delete [OF map_key_valid _ assms(2) [unfolded map_delete_def]]
  by (auto simp: map_wf_def split: if_splits)

lemma decode_entries_ok:
  "decode_entries rs = Inr es \<Longrightarrow>
     set es = {e. \<exists>r \<in> set rs. e_value r \<noteq> [] \<and> unmarshal_entry (e_value r) = Inr e}"
  by (induction rs arbitrary: es) (auto split: if_splits sum.splits)

lemma decode_entries_total:
  "\<forall>r \<in> set rs. \<exists>e. unmarshal_entry (e_value r) = Inr e \<Longrightarrow> \<exists>es. decode_entries rs = Inr es"
  by (induction rs) (auto split: sum.splits)

lemma query_value: "dquery (mds M) s empty_query = Inr rs \<Longrightarrow> r \<in> set rs \<Longrightarrow>
    valid_key (e_key r) \<and> dget (mds M) s (e_key r) = Inr (e_value r)"
  using query_get [of s rs] by fastforce

lemma map_get_Some_iff:
  assumes "map_wf M s" "plain_key c"
  shows "map_get M s c = Inr (Some e) \<longleftrightarrow>
    commit_hash e = c \<and> (\<exists>v. dget (mds M) s (map_key M c) = Inr v \<and> unmarshal_entry v = Inr e)"
proof -
  have "commit_hash e = c" if v: "dget (mds M) s (map_key M c) = Inr v" "unmarshal_entry v = Inr e" for v
    using assms(1) v map_key_valid [of c] map_key_inj [OF assms(2)] by (force simp: map_wf_def)
  then show ?thesis by (auto simp: map_get_def split: sum.splits if_splits)
qed

lemma map_list_spec:
  assumes "map_wf M s" "dquery (mds M) s empty_query = Inr rs"
  shows "\<exists>es. map_list M s = Inr es \<and> sorted (map (\<lambda>e. (repo_id e, commit_hash e)) es)
    \<and> set es = {e. plain_key (commit_hash e) \<and> map_get M s (commit_hash e) = Inr (Some e)}"
proof -
  have rs: "\<exists>e. e_value r \<noteq> [] \<and> unmarshal_entry (e_value r) = Inr e \<and> plain_key (commit_hash e)
      \<and> e_key r = map_key M (commit_hash e)" if "r \<in> set rs" for r
    using query_value [OF assms(2) that] assms(1) by (auto simp: map_wf_def)
  then obtain es where es: "decode_entries rs = Inr es"
    using decode_entries_total by blast
  have "set es = {e. plain_key (commit_hash e) \<and> map_get M s (commit_hash e) = Inr (Some e)}"
  proof (intro set_eqI iffI)
    fix e assume "e \<in> set es"
    then obtain r where r: "r \<in> set rs" "unmarshal_entry (e_value r) = Inr e"
      using decode_entries_ok [OF es] by auto
    with rs [OF r(1)] have "plain_key (commit_hash e)" "e_key r = map_key M (commit_hash e)" by auto
    with r query_value [OF assms(2) r(1)] show "e \<in> {e. plain_key (commit_hash e)
        \<and> map_get M s (commit_hash e) = Inr (Some e)}"
      by (auto simp: map_get_Some_iff [OF assms(1)])
  next
    fix e assume "e \<in> {e. plain_key (commit_hash e) \<and> map_get M s (commit_hash e) = Inr (Some e)}"
    then obtain v where v: "dget (mds M) s (map_key M (commit_hash e)) = Inr v" "unmarshal_entry v = Inr e"
      by (auto simp: map_get_Some_iff [OF assms(1)])
    then have "(map_key M (commit_hash e), v) \<in> (\<lambda>e. (e_key e, e_value e)) ` set rs"
      using query_get [OF assms(2)] by simp
    then obtain r where "r \<in> set rs" "e_value r = v" by auto
    with v rs show "e \<in> set es" using decode_entries_ok [OF es] by fastforce
  qed
  then show ?thesis by (simp add: map_list_def assms(2) es)
qed

end

section \<open>Histories of the database\<close>

text \<open>
  Any sequence of \<open>Put\<close> and \<open>Delete\<close> calls on an empty bucket, successful or not, with the map it
  stands for.
\<close>

inductive map_run :: "'s maplib \<Rightarrow> 's \<Rightarrow> (string \<rightharpoonup> entry) \<Rightarrow> bool" for M :: "'s maplib" where
  start: "\<forall>k. valid_key k \<longrightarrow> dget (mds M) s k = Inl (Sentinel ErrNotFound) \<Longrightarrow> map_run M s Map.empty"
| put: "map_run M s m \<Longrightarrow> map_put M s e = (Inr (), s') \<Longrightarrow> entry_wf e \<Longrightarrow> plain_key (commit_hash e) \<Longrightarrow>
    map_run M s' (m(commit_hash e \<mapsto> strip_entry e))"
| put_fails: "map_run M s m \<Longrightarrow> map_put M s e = (Inl err, s') \<Longrightarrow> map_run M s' m"
| delete: "map_run M s m \<Longrightarrow> map_delete M s c = (Inr (), s') \<Longrightarrow> plain_key c \<Longrightarrow>
    map_run M s' (m(c := None))"
| delete_fails: "map_run M s m \<Longrightarrow> map_delete M s c = (Inl err, s') \<Longrightarrow> map_run M s' m"

context mapping_db
begin

lemma map_run_wf: "map_run M s m \<Longrightarrow> map_wf M s"
proof (induction rule: map_run.induct)
  case (start s)
  then show ?case by (simp add: map_wf_def)
qed (auto intro: map_wf_put map_wf_delete dest: map_put_err map_delete_err)

lemma map_run_dom: "map_run M s m \<Longrightarrow> m c = Some e \<Longrightarrow> plain_key c \<and> commit_hash e = c"
  by (induction arbitrary: c e rule: map_run.induct) (auto split: if_splits)

lemma map_run_get: "map_run M s m \<Longrightarrow> plain_key c \<Longrightarrow> map_get M s c = Inr (m c)"
proof (induction rule: map_run.induct)
  case (start s)
  then show ?case by (simp add: map_get_def)
next
  case (put s m e s')
  then show ?case by (simp add: map_put_effect [OF put(2-4)])
next
  case (delete s m d s')
  then show ?case by (simp add: map_delete_effect [OF delete(2,3)])
qed (auto dest: map_put_err map_delete_err)

lemma decode_entries_map:
  "decode_entries rs = Inr es \<Longrightarrow> \<forall>r \<in> set rs. e_value r \<noteq> [] \<Longrightarrow>
     list_all2 (\<lambda>r e. unmarshal_entry (e_value r) = Inr e) rs es"
  by (induction rs arbitrary: es) (auto split: sum.splits)

lemma map_run_list:
  assumes run: "map_run M s m" and q: "dquery (mds M) s empty_query = Inr rs"
  shows "\<exists>es. map_list M s = Inr es \<and> sorted (map (\<lambda>e. (repo_id e, commit_hash e)) es)
    \<and> distinct (map commit_hash es) \<and> set es = ran m"
proof -
  note wf = map_run_wf [OF run]
  have val: "\<exists>e. e_value r \<noteq> [] \<and> unmarshal_entry (e_value r) = Inr e \<and> plain_key (commit_hash e)
      \<and> e_key r = map_key M (commit_hash e)" if "r \<in> set rs" for r
    using query_value [OF q that] wf by (auto simp: map_wf_def)
  obtain es0 where es0: "decode_entries rs = Inr es0"
    using decode_entries_total val by blast
  then have rel: "list_all2 (\<lambda>r e. unmarshal_entry (e_value r) = Inr e) rs es0"
    using val by (intro decode_entries_map) auto
  have "map e_key rs = map (\<lambda>e. map_key M (commit_hash e)) es0"
  proof (rule nth_equalityI)
    show "length (map e_key rs) = length (map (\<lambda>e. map_key M (commit_hash e)) es0)"
      using rel by (simp add: list_all2_lengthD)
  next
    fix i assume "i < length (map e_key rs)"
    then show "map e_key rs ! i = map (\<lambda>e. map_key M (commit_hash e)) es0 ! i"
      using rel val [of "rs ! i"] by (fastforce simp: list_all2_conv_all_nth)
  qed
  then have "distinct (map commit_hash es0)"
    using query_distinct [OF q] by (auto simp: distinct_map inj_on_def)
  moreover obtain es where es: "map_list M s = Inr es" "sorted (map (\<lambda>e. (repo_id e, commit_hash e)) es)"
      "set es = {e. plain_key (commit_hash e) \<and> map_get M s (commit_hash e) = Inr (Some e)}"
    using map_list_spec [OF wf q] by blast
  moreover have "mset es = mset es0" using es(1) q es0 by (auto simp: map_list_def)
  ultimately have "distinct (map commit_hash es)"
    by (metis mset_eq_imp_distinct_iff mset_map)
  moreover have "set es = ran m"
  proof (intro set_eqI iffI)
    fix e assume "e \<in> set es"
    then have "m (commit_hash e) = Some e"
      using es(3) map_run_get [OF run, of "commit_hash e"] by simp
    then show "e \<in> ran m" by (auto simp: ran_def)
  next
    fix e assume "e \<in> ran m"
    then obtain c where "m c = Some e" by (auto simp: ran_def)
    with map_run_dom [OF run] have "plain_key (commit_hash e)" "m (commit_hash e) = Some e" by auto
    then show "e \<in> set es" using es(3) map_run_get [OF run] by simp
  qed
  ultimately show ?thesis using es by blast
qed

end

section \<open>The node's database\<close>

definition node_maps :: "memdb maplib" where
  "node_maps = \<lparr>mds = bolt_ds mem_bolt (\<lambda>_ es. es) BucketMap, new_key = clean\<rparr>"

lemma mds_node_maps [simp]: "mds node_maps = bolt_ds mem_bolt (\<lambda>_ es. es) BucketMap"
  by (simp add: node_maps_def)

lemma clean_rooted: "valid_key (clean (CHR ''/'' # c))"
  by (simp add: valid_key_def clean_def is_abs_def has_prefix_def Let_def)

interpretation node_db: mapping_db node_maps
proof (unfold_locales)
  fix c assume "plain_key c"
  then show "new_key node_maps (CHR ''/'' # c) = CHR ''/'' # c"
    using clean_abs_path [of "[c]"] by (simp add: node_maps_def plain_key_def norm_seg_def abs_path_def)
next
  fix c
  show "valid_key (new_key node_maps (CHR ''/'' # c))"
    by (simp add: node_maps_def clean_rooted)
qed (simp_all add: mem_map.get_put mem_map.put_err mem_map.get_delete mem_map.delete_err mem_map.has_get
      mem_map.query_get mem_map.query_distinct)

lemma node_map_put:
  assumes "BucketMap \<in> set (fst db)" "plain_key (commit_hash e)" "rfc3339 (added_at e)"
  shows "map_put node_maps db e
    = (Inr (), (fst db, ((BucketMap, commit_hash e), json_print (enc_entry e)) # snd db))"
proof -
  have "map_key node_maps (commit_hash e) = CHR ''/'' # commit_hash e"
    using node_db.key_plain [OF assms(2)] by (simp add: map_key_def)
  with assms show ?thesis
    by (auto simp: map_put_def marshal_entry_def plain_key_def bolt_ds_def ds_put_def db_update_def
        mem_bolt_def raw_def trim_prefix_def has_prefix_def)
qed

section \<open>Properties\<close>

text \<open>\<open>json.Marshal\<close> of an entry followed by \<open>json.Unmarshal\<close> gives the entry back, less the
  untransmitted \<open>SrcPath\<close> of its files.\<close>

theorem entry_roundtrip:
  assumes "entry_wf e" and "marshal_entry e = Inr d"
  shows "unmarshal_entry d = Inr (strip_entry e)"
  using entry_codec [OF assms] by simp

definition sample_manifest :: file_manifest where
  "sample_manifest = \<lparr>fm_path = ''config.json'', fm_blob = ''abc'', fm_size = 3, fm_sha256 = ''00'',
     fm_mode = 420, fm_mtime = 0, fm_lfs = True, fm_xet = [], fm_src = ''/tmp/x''\<rparr>"

definition sample_entry :: entry where
  "sample_entry = \<lparr>repo_id = ''org/<m>'', repo_type = ''model'', commit_hash = ''c0ffee'',
     actual_cid = ''bafy'', dummy_cid = ''bafk'', files = [sample_manifest], total_size = 3,
     added_at = ''2024-02-29T10:11:12.5Z'', origin = ''ingest''\<rparr>"

lemma sample_facts:
  "entry_wf sample_entry" "rfc3339 (added_at sample_entry)" "plain_key (commit_hash sample_entry)"
  by (simp add: entry_wf_def manifest_wf_def sample_entry_def sample_manifest_def ascii_utf8
      int64_range_def, code_simp, simp add: sample_entry_def plain_key_def)

theorem entry_roundtrip_witness:
  "unmarshal_entry (json_print (enc_entry sample_entry)) = Inr (strip_entry sample_entry)"
  by (rule entry_roundtrip [OF sample_facts(1)]) (simp add: marshal_entry_def sample_facts)

text \<open>C5: the database implements a map: after any sequence of \<open>Put\<close> and \<open>Delete\<close> calls, failed ones
  included, \<open>Get\<close> of a commit hash returns exactly what the map says, and never an error.\<close>

theorem map_get_refines:
  assumes "mapping_db M" and "map_run M s m" and "plain_key c"
  shows "map_get M s c = Inr (m c)"
  using mapping_db.map_run_get [OF assms] .

definition empty_db :: memdb where "empty_db = ([BucketMap], [])"

lemma empty_db_run: "map_run node_maps empty_db Map.empty"
  by (rule map_run.start)
     (simp add: bolt_ds_def ds_get_def db_view_def mem_bolt_def empty_db_def mem_get_def)

lemma sample_put:
  "map_put node_maps empty_db sample_entry
     = (Inr (), ([BucketMap], [((BucketMap, ''c0ffee''), json_print (enc_entry sample_entry))]))"
  using node_map_put [of empty_db sample_entry] sample_facts
  by (simp add: empty_db_def) (simp add: sample_entry_def)

theorem map_get_refines_witness:
  "map_get node_maps (snd (map_put node_maps empty_db sample_entry)) ''c0ffee''
     = Inr (Some (strip_entry sample_entry))"
proof -
  have c: "commit_hash sample_entry = ''c0ffee''" by (simp add: sample_entry_def)
  note run = map_run.put [OF empty_db_run sample_put sample_facts(1,3), unfolded c]
  have "plain_key ''c0ffee''" by (simp add: plain_key_def)
  from map_get_refines [OF node_db.mapping_db_axioms run this] show ?thesis
    by (simp add: sample_put)
qed

text \<open>After any such sequence \<open>List\<close> returns every entry of the map exactly once, sorted by
  repository and commit hash, whenever the datastore answers the query.\<close>

theorem map_list_refines:
  assumes "mapping_db M" and "map_run M s m" and "dquery (mds M) s empty_query = Inr rs"
  shows "\<exists>es. map_list M s = Inr es \<and> sorted (map (\<lambda>e. (repo_id e, commit_hash e)) es)
    \<and> distinct (map commit_hash es) \<and> set es = ran m"
  using mapping_db.map_run_list [OF assms] .

theorem map_list_refines_witness:
  "\<exists>es. map_list node_maps (snd (map_put node_maps empty_db sample_entry)) = Inr es
    \<and> set es = {strip_entry sample_entry}"
proof -
  let ?s = "snd (map_put node_maps empty_db sample_entry)"
  have run: "map_run node_maps ?s [commit_hash sample_entry \<mapsto> strip_entry sample_entry]"
    using map_run.put [OF empty_db_run sample_put sample_facts(1,3)] by (simp add: sample_put)
  have "\<exists>rs. dquery (mds node_maps) ?s empty_query = Inr rs"
    by (simp add: sample_put bolt_ds_def ds_query_def db_view_def mem_bolt_def)
  then show ?thesis
    using map_list_refines [OF node_db.mapping_db_axioms run] by auto
qed

end
