(* ===== verification/Wire.thy ===== *)
theory Wire
  imports Protoio MappingDb
begin

text \<open>
  \<open>internal/wire/wire.go\<close>: the messages of the map protocol and of the control socket, with their
  JSON encodings, and the status bytes of the block protocol. Every message survives a
  \<open>WriteJSON\<close>/\<open>ReadJSON\<close> pair.
\<close>

section \<open>Messages\<close>

definition BlockOK :: char where "BlockOK = CHR 0x00"
definition BlockNotFound :: char where "BlockNotFound = CHR 0x01"

record map_request =
  mq_commit :: string
  mq_repo :: string

record map_response =
  mr_ok :: bool
  mr_error :: string
  mr_commit :: string
  mr_repo :: string
  mr_type :: string
  mr_actual :: string
  mr_dummy :: string
  mr_total :: int
  mr_files :: "file_manifest list"

definition CmdPull :: string where "CmdPull = ''pull''"
definition CmdIngest :: string where "CmdIngest = ''ingest''"
definition CmdStatus :: string where "CmdStatus = ''status''"
definition CmdList :: string where "CmdList = ''list''"
definition CmdEvict :: string where "CmdEvict = ''evict''"
definition CmdShutdown :: string where "CmdShutdown = ''shutdown''"

record control_request =
  cr_cmd :: string
  cr_repo :: string
  cr_type :: string
  cr_commit :: string
  cr_ref :: string
  cr_peers :: "string list"
  cr_connect :: "string list"
  cr_force :: bool
  cr_from :: string
  cr_token :: string

record control_event =
  ce_type :: string
  ce_message :: string
  ce_bytes :: int
  ce_total :: int

section \<open>Encodings\<close>

definition omit_str :: "bytes \<Rightarrow> bytes \<Rightarrow> (bytes \<times> json) list" where
  "omit_str name s = omit_if (s = []) (name, JStr s)"

definition omit_strs :: "bytes \<Rightarrow> bytes list \<Rightarrow> (bytes \<times> json) list" where
  "omit_strs name ss = omit_if (ss = []) (name, JArr (map JStr ss))"

abbreviation strs_field :: "bytes \<Rightarrow> (bytes \<times> json) list \<Rightarrow> bytes list res" where
  "strs_field name ms \<equiv> get_field (dec_list (dec_str [])) (Inr []) name ms"

definition enc_map_request :: "map_request \<Rightarrow> json" where
  "enc_map_request q = JObj ((''commit_hash'', JStr (mq_commit q)) # omit_str ''repo_id'' (mq_repo q))"

definition dec_map_request :: "json \<Rightarrow> map_request res" where
  "dec_map_request v =
     bind_res (fold_members v) (\<lambda>ms.
     bind_res (str_field ''commit_hash'' ms) (\<lambda>c.
     bind_res (str_field ''repo_id'' ms) (\<lambda>r.
       Inr \<lparr>mq_commit = c, mq_repo = r\<rparr>)))"

definition enc_map_response :: "map_response \<Rightarrow> json" where
  "enc_map_response r =
     JObj ((''ok'', JBool (mr_ok r)) # omit_str ''error'' (mr_error r)
           @ omit_str ''commit_hash'' (mr_commit r) @ omit_str ''repo_id'' (mr_repo r)
           @ omit_str ''repo_type'' (mr_type r) @ omit_str ''actual_cid'' (mr_actual r)
           @ omit_str ''dummy_cid'' (mr_dummy r)
           @ omit_if (mr_total r = 0) (''total_size'', jint (mr_total r))
           @ omit_if (mr_files r = []) (''files'', JArr (map enc_manifest (mr_files r))))"

definition dec_map_response :: "json \<Rightarrow> map_response res" where
  "dec_map_response v =
     bind_res (fold_members v) (\<lambda>ms.
     bind_res (bool_field ''ok'' ms) (\<lambda>okf.
     bind_res (str_field ''error'' ms) (\<lambda>er.
     bind_res (str_field ''commit_hash'' ms) (\<lambda>c.
     bind_res (str_field ''repo_id'' ms) (\<lambda>r.
     bind_res (str_field ''repo_type'' ms) (\<lambda>t.
     bind_res (str_field ''actual_cid'' ms) (\<lambda>a.
     bind_res (str_field ''dummy_cid'' ms) (\<lambda>d.
     bind_res (int64_field ''total_size'' ms) (\<lambda>sz.
     bind_res (get_field (dec_list dec_manifest) (Inr []) ''files'' ms) (\<lambda>fs.
       Inr \<lparr>mr_ok = okf, mr_error = er, mr_commit = c, mr_repo = r, mr_type = t, mr_actual = a,
            mr_dummy = d, mr_total = sz, mr_files = fs\<rparr>))))))))))"

definition enc_control_request :: "control_request \<Rightarrow> json" where
  "enc_control_request r =
     JObj ((''cmd'', JStr (cr_cmd r)) # omit_str ''repo_id'' (cr_repo r)
           @ omit_str ''repo_type'' (cr_type r) @ omit_str ''commit'' (cr_commit r)
           @ omit_str ''ref'' (cr_ref r) @ omit_strs ''peers'' (cr_peers r)
           @ omit_strs ''connect'' (cr_connect r)
           @ omit_if (\<not> cr_force r) (''force'', JBool (cr_force r))
           @ omit_str ''from'' (cr_from r) @ omit_str ''token'' (cr_token r))"

definition dec_control_request :: "json \<Rightarrow> control_request res" where
  "dec_control_request v =
     bind_res (fold_members v) (\<lambda>ms.
     bind_res (str_field ''cmd'' ms) (\<lambda>cmd.
     bind_res (str_field ''repo_id'' ms) (\<lambda>r.
     bind_res (str_field ''repo_type'' ms) (\<lambda>t.
     bind_res (str_field ''commit'' ms) (\<lambda>c.
     bind_res (str_field ''ref'' ms) (\<lambda>rf.
     bind_res (strs_field ''peers'' ms) (\<lambda>ps.
     bind_res (strs_field ''connect'' ms) (\<lambda>cs.
     bind_res (bool_field ''force'' ms) (\<lambda>fo.
     bind_res (str_field ''from'' ms) (\<lambda>fr.
     bind_res (str_field ''token'' ms) (\<lambda>tok.
       Inr \<lparr>cr_cmd = cmd, cr_repo = r, cr_type = t, cr_commit = c, cr_ref = rf, cr_peers = ps,
            cr_connect = cs, cr_force = fo, cr_from = fr, cr_token = tok\<rparr>)))))))))))"

definition enc_control_event :: "control_event \<Rightarrow> json" where
  "enc_control_event e =
     JObj ((''type'', JStr (ce_type e)) # omit_str ''message'' (ce_message e)
           @ omit_if (ce_bytes e = 0) (''bytes'', jint (ce_bytes e))
           @ omit_if (ce_total e = 0) (''total'', jint (ce_total e)))"

definition dec_control_event :: "json \<Rightarrow> control_event res" where
  "dec_control_event v =
     bind_res (fold_members v) (\<lambda>ms.
     bind_res (str_field ''type'' ms) (\<lambda>t.
     bind_res (str_field ''message'' ms) (\<lambda>m.
     bind_res (int64_field ''bytes'' ms) (\<lambda>b.
     bind_res (int64_field ''total'' ms) (\<lambda>n.
       Inr \<lparr>ce_type = t, ce_message = m, ce_bytes = b, ce_total = n\<rparr>)))))"

section \<open>Round trips\<close>

definition map_request_wf :: "map_request \<Rightarrow> bool" where
  "map_request_wf q = (valid_utf8 (mq_commit q) \<and> valid_utf8 (mq_repo q))"

definition map_response_wf :: "map_response \<Rightarrow> bool" where
  "map_response_wf r = (valid_utf8 (mr_error r) \<and> valid_utf8 (mr_commit r) \<and> valid_utf8 (mr_repo r)
     \<and> valid_utf8 (mr_type r) \<and> valid_utf8 (mr_actual r) \<and> valid_utf8 (mr_dummy r)
     \<and> int64_range (mr_total r) \<and> list_all manifest_wf (mr_files r))"

definition control_request_wf :: "control_request \<Rightarrow> bool" where
  "control_request_wf r = (list_all valid_utf8 ([cr_cmd r, cr_repo r, cr_type r, cr_commit r, cr_ref r,
     cr_from r, cr_token r] @ cr_peers r @ cr_connect r))"

definition control_event_wf :: "control_event \<Rightarrow> bool" where
  "control_event_wf e = (valid_utf8 (ce_type e) \<and> valid_utf8 (ce_message e)
     \<and> int64_range (ce_bytes e) \<and> int64_range (ce_total e))"

lemma wire_names:
  "list_all plain_name [''ok'', ''error'', ''cmd'', ''commit'', ''ref'', ''peers'', ''connect'', ''force'',
     ''from'', ''token'', ''type'', ''message'', ''bytes'', ''total'']"
  by code_simp

lemmas wire_name_facts [json_codec] = plain_names [OF wire_names, unfolded list.pred_inject]

lemma traverse_strs [json_codec]: "traverse (dec_str []) (map JStr ss) = Inr ss"
  by (simp add: traverse_map [where h = id] dec_str_def)

lemmas wire_omits = omit_str_def omit_strs_def

lemma dec_enc_map_request: "dec_map_request (enc_map_request q) = Inr q"
  by (simp add: dec_map_request_def enc_map_request_def wire_omits json_codec)

lemma dec_enc_map_response:
  "map_response_wf r \<Longrightarrow> dec_map_response (enc_map_response r) = Inr (r\<lparr>mr_files := map strip_src (mr_files r)\<rparr>)"
  by (simp add: map_response_wf_def dec_map_response_def enc_map_response_def wire_omits json_codec
      traverse_map [where h = strip_src] dec_enc_manifest list_all_iff)

lemma dec_enc_control_request: "dec_control_request (enc_control_request r) = Inr r"
  by (simp add: dec_control_request_def enc_control_request_def wire_omits json_codec)

lemma dec_enc_control_event: "control_event_wf e \<Longrightarrow> dec_control_event (enc_control_event e) = Inr e"
  by (simp add: control_event_wf_def dec_control_event_def enc_control_event_def wire_omits json_codec)

lemmas json_wf_simps = omit_if_def wire_omits json_codec json_number_int_dec int_dec_num_chars

lemma json_wf_map_request: "map_request_wf q \<Longrightarrow> json_wf (enc_map_request q)"
  by (auto simp: map_request_wf_def enc_map_request_def json_wf_simps)

lemma json_wf_map_response: "map_response_wf r \<Longrightarrow> json_wf (enc_map_response r)"
  by (auto simp: map_response_wf_def enc_map_response_def json_wf_simps json_wf_manifest
      list.pred_set [of manifest_wf])

lemma json_wf_control_request: "control_request_wf r \<Longrightarrow> json_wf (enc_control_request r)"
  by (auto simp: control_request_wf_def enc_control_request_def json_wf_simps list.pred_set [of valid_utf8])

lemma json_wf_control_event: "control_event_wf e \<Longrightarrow> json_wf (enc_control_event e)"
  by (auto simp: control_event_wf_def enc_control_event_def json_wf_simps)

section \<open>Messages over a connection\<close>

definition jmarshal :: "('v \<Rightarrow> json) \<Rightarrow> 'v \<Rightarrow> bytes res" where
  "jmarshal enc v = Inr (json_print (enc v))"

lemma json_frame_roundtrip:
  assumes "json_wf (enc v)" "dec (enc v) = Inr v'"
    and "write_json (jmarshal enc) c v = (Inr (), c')"
    and "rd_buf d = drop (length (wr_buf c)) (wr_buf c') @ rest"
  shows "read_json (unmarshal dec) d = (Inr v', d\<lparr>rd_buf := rest\<rparr>)"
proof -
  have w: "wr_buf c' = wr_buf c @ frame_bytes (json_print (enc v)) \<and> length (json_print (enc v)) \<le> MaxFrame"
    using assms(3) write_frame_ok by (auto simp: write_json_def jmarshal_def)
  then have "read_frame d = (Inr (json_print (enc v)), d\<lparr>rd_buf := rest\<rparr>)"
    using assms(4) by (intro read_frame_frame_bytes) auto
  then show ?thesis
    using assms(1,2) by (simp add: read_json_def unmarshal_print)
qed

text \<open>A \<open>MapResponse\<close> that one side wrote with \<open>WriteJSON\<close> is what \<open>ReadJSON\<close> returns to the other
  side, less the untransmitted \<open>SrcPath\<close> of its files, and the bytes after the frame stay unread.\<close>

theorem map_response_roundtrip:
  assumes "map_response_wf r" and "write_json (jmarshal enc_map_response) c r = (Inr (), c')"
    and "rd_buf d = drop (length (wr_buf c)) (wr_buf c') @ rest"
  shows "read_json (unmarshal dec_map_response) d
    = (Inr (r\<lparr>mr_files := map strip_src (mr_files r)\<rparr>), d\<lparr>rd_buf := rest\<rparr>)"
  by (rule json_frame_roundtrip [where enc = enc_map_response and dec = dec_map_response, OF json_wf_map_response [OF assms(1)]
        dec_enc_map_response [OF assms(1)] assms(2,3)])

definition sample_response :: map_response where
  "sample_response = \<lparr>mr_ok = True, mr_error = [], mr_commit = ''c0ffee'', mr_repo = ''org/m'',
     mr_type = ''model'', mr_actual = ''bafy'', mr_dummy = ''bafk'', mr_total = 3,
     mr_files = [sample_manifest]\<rparr>"

definition fresh_conn :: "bytes \<Rightarrow> conn" where
  "fresh_conn input = \<lparr>rd_buf = input, rd_end = Sentinel EOF, wr_buf = [], wr_room = None,
     wr_err = Sentinel ErrClosed\<rparr>"

lemma write_json_fresh:
  "length (json_print (enc v)) \<le> MaxFrame \<Longrightarrow>
   write_json (jmarshal enc) (fresh_conn i) v
     = (Inr (), fresh_conn i\<lparr>wr_buf := frame_bytes (json_print (enc v))\<rparr>)"
  by (simp add: write_json_def jmarshal_def write_frame_unlimited fresh_conn_def)

theorem map_response_roundtrip_witness:
  "read_json (unmarshal dec_map_response)
     (fresh_conn (wr_buf (snd (write_json (jmarshal enc_map_response) (fresh_conn []) sample_response)) @ ''x''))
   = (Inr (sample_response\<lparr>mr_files := [strip_src sample_manifest]\<rparr>), fresh_conn ''x'')"
proof -
  have "length (json_print (enc_map_response sample_response)) < 1000" by code_simp
  then have w: "write_json (jmarshal enc_map_response) (fresh_conn []) sample_response
      = (Inr (), fresh_conn []\<lparr>wr_buf := frame_bytes (json_print (enc_map_response sample_response))\<rparr>)"
    by (intro write_json_fresh) (simp add: MaxFrame_def)
  have wf: "map_response_wf sample_response"
    by (simp add: map_response_wf_def manifest_wf_def sample_response_def sample_manifest_def ascii_utf8
        int64_range_def)
  have f: "mr_files sample_response = [sample_manifest]" by (simp add: sample_response_def)
  show ?thesis unfolding w
    by (subst map_response_roundtrip [OF wf w, of _ "''x''"]) (simp_all add: fresh_conn_def f)
qed

text \<open>Every \<open>ControlRequest\<close> and \<open>ControlEvent\<close> written with \<open>WriteJSON\<close> is read back unchanged.\<close>

theorem control_roundtrip:
  assumes "control_request_wf q" and "control_event_wf e"
    and "write_json (jmarshal enc_control_request) c q = (Inr (), c')"
    and "write_json (jmarshal enc_control_event) b e = (Inr (), b')"
    and "rd_buf d = drop (length (wr_buf c)) (wr_buf c') @ rest"
    and "rd_buf d' = drop (length (wr_buf b)) (wr_buf b') @ rest'"
  shows "read_json (unmarshal dec_control_request) d = (Inr q, d\<lparr>rd_buf := rest\<rparr>)
    \<and> read_json (unmarshal dec_control_event) d' = (Inr e, d'\<lparr>rd_buf := rest'\<rparr>)"
  using json_frame_roundtrip [where enc = enc_control_request and dec = dec_control_request, OF json_wf_control_request [OF assms(1)]
      dec_enc_control_request assms(3,5)]
    json_frame_roundtrip [where enc = enc_control_event and dec = dec_control_event, OF json_wf_control_event [OF assms(2)]
      dec_enc_control_event [OF assms(2)] assms(4,6)] by simp

theorem control_roundtrip_witness:
  "let q = \<lparr>cr_cmd = CmdPull, cr_repo = ''org/m'', cr_type = [], cr_commit = [], cr_ref = ''main'',
        cr_peers = [''p1'', ''p2''], cr_connect = [], cr_force = True, cr_from = ''p2p,hf'', cr_token = []\<rparr>;
       e = \<lparr>ce_type = ''done'', ce_message = ''ok'', ce_bytes = 0, ce_total = 7\<rparr>
   in read_json (unmarshal dec_control_request) (fresh_conn (frame_bytes (json_print (enc_control_request q))))
        = (Inr q, fresh_conn [])
      \<and> read_json (unmarshal dec_control_event) (fresh_conn (frame_bytes (json_print (enc_control_event e))))
        = (Inr e, fresh_conn [])"
proof -
  define q where "q = \<lparr>cr_cmd = CmdPull, cr_repo = ''org/m'', cr_type = [], cr_commit = [], cr_ref = ''main'',
    cr_peers = [''p1'', ''p2''], cr_connect = [], cr_force = True, cr_from = ''p2p,hf'', cr_token = []\<rparr>"
  define e where "e = \<lparr>ce_type = ''done'', ce_message = ''ok'', ce_bytes = 0, ce_total = 7\<rparr>"
  have "length (json_print (enc_control_request q)) < 1000" unfolding q_def by code_simp
  then have wq: "write_json (jmarshal enc_control_request) (fresh_conn []) q
      = (Inr (), fresh_conn []\<lparr>wr_buf := frame_bytes (json_print (enc_control_request q))\<rparr>)"
    by (intro write_json_fresh) (simp add: MaxFrame_def)
  have "length (json_print (enc_control_event e)) < 1000" unfolding e_def by code_simp
  then have we: "write_json (jmarshal enc_control_event) (fresh_conn []) e
      = (Inr (), fresh_conn []\<lparr>wr_buf := frame_bytes (json_print (enc_control_event e))\<rparr>)"
    by (intro write_json_fresh) (simp add: MaxFrame_def)
  have wf: "control_request_wf q" "control_event_wf e"
    by (simp_all add: control_request_wf_def control_event_wf_def q_def e_def CmdPull_def ascii_utf8
        int64_range_def)
  show ?thesis unfolding Let_def q_def [symmetric] e_def [symmetric]
    using control_roundtrip [OF wf wq we, of "fresh_conn (frame_bytes (json_print (enc_control_request q)))"
      "[]" "fresh_conn (frame_bytes (json_print (enc_control_event e)))" "[]"]
    by (simp add: fresh_conn_def)
qed

end
