(* ===== verification/Sources.thy ===== *)
theory Sources
  imports GoStrings
begin

text \<open>
  \<open>internal/pull/sources.go\<close>: where a pull may fetch content from. The loop of \<open>ParseSources\<close> is
  the recursion \<open>parse_tokens\<close> over the comma-separated tokens.
\<close>

section \<open>Definitions\<close>

record sources =
  P2P :: bool
  HF :: bool

definition default_sources :: sources where
  "default_sources = \<lparr>P2P = True, HF = True\<rparr>"

definition p2p_words :: "string list" where
  "p2p_words = [''p2p'', ''ipfs'', ''swarm'', ''peer'']"

definition hf_words :: "string list" where
  "hf_words = [''hf'', ''huggingface'', ''hugging-face'', ''hub'']"

fun parse_tokens :: "string list \<Rightarrow> sources \<Rightarrow> sources res" where
  "parse_tokens [] s = Inr s"
| "parse_tokens (tok # toks) s =
     (let w = to_lower (trim_space tok) in
      if w \<in> set p2p_words then parse_tokens toks (s\<lparr>P2P := True\<rparr>)
      else if w \<in> set hf_words then parse_tokens toks (s\<lparr>HF := True\<rparr>)
      else if w = [] then parse_tokens toks s
      else Inl (Errorf ''unknown source %q: want p2p, hf, or p2p,hf'' [AStr tok]))"

definition parse_sources :: "string \<Rightarrow> sources res" where
  "parse_sources spec =
     (if trim_space spec = [] then Inr default_sources
      else case parse_tokens (split_on (CHR '','') spec) \<lparr>P2P = False, HF = False\<rparr> of
             Inl e \<Rightarrow> Inl e
           | Inr s \<Rightarrow>
               if \<not> P2P s \<and> \<not> HF s
               then Inl (Errorf ''at least one of p2p, hf must be selected'' []) else Inr s)"

definition sources_string :: "sources \<Rightarrow> string" where
  "sources_string s =
     join_with '','' ((if P2P s then [''p2p''] else []) @ (if HF s then [''hf''] else []))"

definition sources_resolve :: "sources \<Rightarrow> sources" where
  "sources_resolve s = (if P2P s \<or> HF s then s else default_sources)"

section \<open>The meaning of a token list\<close>

definition token_word :: "string \<Rightarrow> string" where
  "token_word tok = to_lower (trim_space tok)"

lemma words_disjoint [simp]:
  "[] \<notin> set p2p_words" "[] \<notin> set hf_words" "w \<in> set p2p_words \<Longrightarrow> w \<notin> set hf_words"
  by (auto simp: p2p_words_def hf_words_def)

text \<open>The loop succeeds exactly when every token is a known word or blank, and then its flags are
  the initial ones plus the sources named.\<close>

lemma parse_tokens_iff:
  "parse_tokens toks s0 = Inr s \<longleftrightarrow>
     list_all (\<lambda>t. token_word t \<in> set ([] # p2p_words @ hf_words)) toks
     \<and> (P2P s \<longleftrightarrow> P2P s0 \<or> list_ex (\<lambda>t. token_word t \<in> set p2p_words) toks)
     \<and> (HF s \<longleftrightarrow> HF s0 \<or> list_ex (\<lambda>t. token_word t \<in> set hf_words) toks)"
proof (induction toks s0 rule: parse_tokens.induct)
  case (1 s0)
  show ?case by (cases s; cases s0) auto
next
  case (2 tok toks s0)
  then show ?case
    using words_disjoint(3) [of "token_word tok"]
    by (auto simp: Let_def token_word_def simp del: words_disjoint(3))
qed

section \<open>Properties\<close>

text \<open>Printing a source selection and parsing it again gives the selection a pull would use: both
  sides of the control socket agree on one spelling, the unset selection included.\<close>

theorem sources_roundtrip: "parse_sources (sources_string s) = Inr (sources_resolve s)"
proof (cases s)
  case (fields p h)
  have "parse_sources (sources_string \<lparr>P2P = True, HF = True\<rparr>) = Inr (sources_resolve \<lparr>P2P = True, HF = True\<rparr>)"
    "parse_sources (sources_string \<lparr>P2P = True, HF = False\<rparr>) = Inr (sources_resolve \<lparr>P2P = True, HF = False\<rparr>)"
    "parse_sources (sources_string \<lparr>P2P = False, HF = True\<rparr>) = Inr (sources_resolve \<lparr>P2P = False, HF = True\<rparr>)"
    "parse_sources (sources_string \<lparr>P2P = False, HF = False\<rparr>) = Inr (sources_resolve \<lparr>P2P = False, HF = False\<rparr>)"
    by (simp_all add: parse_sources_def sources_string_def sources_resolve_def default_sources_def
          p2p_words_def hf_words_def ascii_eval)
  then show ?thesis unfolding fields by (cases p; cases h) (simp_all only:)
qed

text \<open>\<open>ParseSources\<close> accepts exactly the specs whose every token is a known word or blank and that
  select at least one source; a blank spec is the default and a typo is always an error.\<close>

theorem parse_sources_accepts:
  "parse_sources spec = Inr s \<longleftrightarrow>
     (if trim_space spec = [] then s = default_sources
      else (\<forall>t \<in> set (split_on (CHR '','') spec). token_word t \<in> set ([] # p2p_words @ hf_words))
         \<and> (P2P s \<longleftrightarrow> (\<exists>t \<in> set (split_on (CHR '','') spec). token_word t \<in> set p2p_words))
         \<and> (HF s \<longleftrightarrow> (\<exists>t \<in> set (split_on (CHR '','') spec). token_word t \<in> set hf_words))
         \<and> (P2P s \<or> HF s))"
proof (cases "trim_space spec = []")
  case True
  then show ?thesis by (auto simp: parse_sources_def)
next
  case False
  have pick: "(case r of Inl e \<Rightarrow> Inl e
      | Inr s' \<Rightarrow> if \<not> P2P s' \<and> \<not> HF s' then Inl d else Inr s') = Inr s
    \<longleftrightarrow> r = Inr s \<and> (P2P s \<or> HF s)" for r :: "sources res" and d
    by (cases r) auto
  show ?thesis
    using False unfolding parse_sources_def if_not_P [OF False] pick parse_tokens_iff
    by (simp only: list_all_iff list_ex_iff sources.simps simp_thms conj_assoc)
qed

theorem parse_sources_accepts_witness:
  "parse_sources ''HF, swarm'' = Inr \<lparr>P2P = True, HF = True\<rparr>
   \<and> \<not> ok (parse_sources ''p2p,fh'')"
proof (intro conjI notI)
  have "trim_space ''HF, swarm'' \<noteq> []" "split_on (CHR '','') ''HF, swarm'' = [''HF'', '' swarm'']"
    "token_word ''HF'' = ''hf''" "token_word '' swarm'' = ''swarm''"
    by (simp_all add: token_word_def ascii_eval
          has_prefix_def char_of_def bit_0)
  then show "parse_sources ''HF, swarm'' = Inr \<lparr>P2P = True, HF = True\<rparr>"
    by (simp add: parse_sources_accepts p2p_words_def hf_words_def)
next
  have "trim_space ''p2p,fh'' \<noteq> []" "split_on (CHR '','') ''p2p,fh'' = [''p2p'', ''fh'']"
    "token_word ''fh'' = ''fh''"
    by (simp_all add: token_word_def ascii_eval)
  moreover assume "ok (parse_sources ''p2p,fh'')"
  ultimately show False
    by (auto simp: ok_iff parse_sources_accepts p2p_words_def hf_words_def)
qed

end
