(* ===== verification/Blocks.thy ===== *)
theory Blocks
  imports Store Dummy
begin

text \<open>
  The interfaces of boxo that the program is built on: a block store (\<open>blockstore.Blockstore\<close>, and
  \<open>filestore.FileManager\<close>, which stores references under the same keys), \<open>merkledag\<close>'s decoding of
  a block into its links, and the filestore's reference records. All of it is third-party code:
  the operations are fields of the records below, over an abstract state, with their documented
  laws in the locale \<open>blockstore\<close>. Both stores are keyed by the multihash of a CID, not by the CID.
  The files that references point to are not part of that state: \<open>bs_get\<close> of a file manager stands for the reference
  record it holds (\<open>getDataObj\<close>), and nothing is assumed about how it relates to \<open>bs_has\<close>.
  \<open>key_blocks\<close> builds such a store on a datastore, the way boxo does.
\<close>

section \<open>Interfaces\<close>

record 's blockops =
  bs_has :: "'s \<Rightarrow> cid \<Rightarrow> bool res"
  bs_get :: "'s \<Rightarrow> cid \<Rightarrow> bytes res"
  bs_get_size :: "'s \<Rightarrow> cid \<Rightarrow> int res"
  bs_put :: "'s \<Rightarrow> cid \<Rightarrow> bytes \<Rightarrow> unit res \<times> 's"
  bs_delete :: "'s \<Rightarrow> cid \<Rightarrow> unit res \<times> 's"

text \<open>
  \<open>decode_links\<close> is \<open>merkledag.DecodeProtobuf\<close> followed by \<open>Links()\<close>, \<open>data_obj_path\<close> the protobuf
  decoding of a filestore record followed by \<open>GetFilePath\<close>.
\<close>

record 's boxo =
  decode_links :: "bytes \<Rightarrow> cid list res"
  new_file_manager :: "'s dsops \<Rightarrow> string \<Rightarrow> 's blockops"
  data_obj_path :: "bytes \<Rightarrow> string res"

locale blockstore =
  fixes L :: cidlib and bs :: "'s blockops"
  assumes has_delete: "bs_delete bs s c = (Inr (), s') \<Longrightarrow>
      bs_has bs s' c' = (if cid_hash L c' = cid_hash L c then Inr False else bs_has bs s c')"
    and get_delete: "bs_delete bs s c = (Inr (), s') \<Longrightarrow> cid_hash L c' \<noteq> cid_hash L c \<Longrightarrow>
      bs_get bs s' c' = bs_get bs s c'"
    and delete_err: "bs_delete bs s c = (Inl e, s') \<Longrightarrow> s' = s"

section \<open>The links between stored blocks\<close>

text \<open>What a traversal can follow from a CID: nothing when the block is missing, unreadable or no
  dag-pb node.\<close>

definition links_of :: "'s boxo \<Rightarrow> 's blockops \<Rightarrow> 's \<Rightarrow> cid \<Rightarrow> cid list" where
  "links_of X bs s c =
     (case bs_has bs s c of
        Inr True \<Rightarrow>
          (case bs_get bs s c of
             Inl _ \<Rightarrow> []
           | Inr d \<Rightarrow> (case decode_links X d of Inl _ \<Rightarrow> [] | Inr ls \<Rightarrow> filter cid_defined ls))
      | _ \<Rightarrow> [])"

definition links_to :: "'s boxo \<Rightarrow> 's blockops \<Rightarrow> 's \<Rightarrow> (cid \<times> cid) set" where
  "links_to X bs s = {(c, d). d \<in> set (links_of X bs s c)}"

definition reachable :: "'s boxo \<Rightarrow> 's blockops \<Rightarrow> 's \<Rightarrow> cid \<Rightarrow> cid set" where
  "reachable X bs s c = {d. (c, d) \<in> (links_to X bs s)\<^sup>*}"

definition present :: "'s blockops \<Rightarrow> 's \<Rightarrow> cid set" where
  "present bs s = {c. bs_has bs s c = Inr True}"

section \<open>A block store on a datastore\<close>

definition key_blocks :: "cidlib \<Rightarrow> 's dsops \<Rightarrow> 's blockops" where
  "key_blocks L D =
     \<lparr>bs_has = (\<lambda>s c. dhas D s (''/'' @ hex_encode (cid_hash L c))),
      bs_get = (\<lambda>s c. dget D s (''/'' @ hex_encode (cid_hash L c))),
      bs_get_size = (\<lambda>s c. case dget D s (''/'' @ hex_encode (cid_hash L c)) of
         Inl e \<Rightarrow> Inl e | Inr d \<Rightarrow> Inr (int (length d))),
      bs_put = (\<lambda>s c d. case dhas D s (''/'' @ hex_encode (cid_hash L c)) of
         Inr True \<Rightarrow> (Inr (), s) | _ \<Rightarrow> dput D s (''/'' @ hex_encode (cid_hash L c)) d),
      bs_delete = (\<lambda>s c. ddelete D s (''/'' @ hex_encode (cid_hash L c)))\<rparr>"

lemma hex_encode_inj [simp]: "hex_encode a = hex_encode b \<longleftrightarrow> a = b"
  by (metis hex_decode_encode sum.inject(2))

lemma valid_block_key [simp]: "valid_key (CHR ''/'' # k)"
  by (simp add: valid_key_def has_prefix_def)

lemma links_of_cong:
  "bs_has bs s' c = bs_has bs s c \<Longrightarrow> bs_get bs s' c = bs_get bs s c \<Longrightarrow>
     links_of X bs s' c = links_of X bs s c"
  by (auto simp: links_of_def split: sum.split bool.split)

lemma reachable_refl [simp]: "c \<in> reachable X bs s c"
  by (simp add: reachable_def)

lemma reachable_step: "d \<in> reachable X bs s c \<Longrightarrow> e \<in> set (links_of X bs s d) \<Longrightarrow> e \<in> reachable X bs s c"
  by (auto simp: reachable_def links_to_def intro: rtrancl.rtrancl_into_rtrancl)

lemma reachable_link: "d \<in> set (links_of X bs s c) \<Longrightarrow> e \<in> reachable X bs s d \<Longrightarrow> e \<in> reachable X bs s c"
  by (auto simp: reachable_def links_to_def intro: converse_rtrancl_into_rtrancl)

lemma reachable_closed:
  assumes "c \<in> A" "\<And>x. x \<in> A \<Longrightarrow> set (links_of X bs s x) \<subseteq> A"
  shows "reachable X bs s c \<subseteq> A"
proof
  fix d assume "d \<in> reachable X bs s c"
  then have "(c, d) \<in> (links_to X bs s)\<^sup>*" by (simp add: reachable_def)
  then show "d \<in> A" by induction (use assms in \<open>auto simp: links_to_def\<close>)
qed

end
