(* ===== verification/FileSys.thy ===== *)
theory FileSys
  imports GoPath
begin

text \<open>
  The operating system as Go's \<open>os\<close> package shows it: a tree of directories, regular files and
  symbolic links, POSIX path resolution with a bound of 40 links, and the calls the program makes.
  Every call consumes one tick of \<open>ticks\<close> and first consults \<open>faults\<close>, which is arbitrary: where
  it answers an error the call fails with it and changes nothing, except that a failing write may
  have written a part of the data (\<open>partials\<close>). A theorem over all states thus
  covers every pattern of I/O failures. \<open>rands\<close> supplies the random suffixes of temporary names and
  \<open>mtimes\<close> the modification times, both arbitrary as well.
  Creation modes are recorded as requested (the umask is zero); a process changes files only
  through these calls.
\<close>

section \<open>State\<close>

datatype fnode = FDir | FFile bytes nat | FLink string

type_synonym path = "string list"

record os =
  nodes :: "(path \<times> fnode) list"
  cwd :: path
  ticks :: nat
  faults :: "nat \<Rightarrow> sentinel option"
  rands :: "nat \<Rightarrow> string"
  mtimes :: "path \<Rightarrow> nat \<Rightarrow> int"
  partials :: "nat \<Rightarrow> nat"

definition lookup :: "os \<Rightarrow> path \<Rightarrow> fnode option" where
  "lookup os p = (if p = [] then Some FDir else map_of (nodes os) p)"

definition set_node :: "os \<Rightarrow> path \<Rightarrow> fnode \<Rightarrow> os" where
  "set_node os p n = os\<lparr>nodes := (p, n) # filter (\<lambda>(q, _). q \<noteq> p) (nodes os)\<rparr>"

definition del_node :: "os \<Rightarrow> path \<Rightarrow> os" where
  "del_node os p = os\<lparr>nodes := filter (\<lambda>(q, _). q \<noteq> p) (nodes os)\<rparr>"

definition below :: "path \<Rightarrow> path \<Rightarrow> bool" where
  "below p q = (take (length p) q = p)"

definition del_tree :: "os \<Rightarrow> path \<Rightarrow> os" where
  "del_tree os p = os\<lparr>nodes := filter (\<lambda>(q, _). \<not> below p q) (nodes os)\<rparr>"

definition children :: "os \<Rightarrow> path \<Rightarrow> string list" where
  "children os p =
     sort (remdups (map last (filter (\<lambda>q. q \<noteq> [] \<and> butlast q = p) (map fst (nodes os)))))"

section \<open>Path resolution\<close>

fun walk_path ::
  "nat \<Rightarrow> (path \<Rightarrow> fnode option) \<Rightarrow> bool \<Rightarrow> path \<Rightarrow> string list \<Rightarrow> sentinel + path" where
  "walk_path n lk follow cur [] = Inr cur"
| "walk_path n lk follow cur (s # ss) =
     (if s = [] \<or> s = ''.'' then walk_path n lk follow cur ss
      else if s = ''..'' then walk_path n lk follow (butlast cur) ss
      else case lk (cur @ [s]) of
             None \<Rightarrow> if ss = [] then Inr (cur @ [s]) else Inl ErrNotExist
           | Some FDir \<Rightarrow> walk_path n lk follow (cur @ [s]) ss
           | Some (FFile _ _) \<Rightarrow> if ss = [] then Inr (cur @ [s]) else Inl ENOTDIR
           | Some (FLink t) \<Rightarrow>
               if ss = [] \<and> \<not> follow then Inr (cur @ [s])
               else (case n of
                       0 \<Rightarrow> Inl ELOOP
                     | Suc m \<Rightarrow> walk_path m lk follow (if is_abs t then [] else cur)
                                 (split_on sep t @ ss)))"

definition resolve :: "os \<Rightarrow> bool \<Rightarrow> string \<Rightarrow> sentinel + path" where
  "resolve os follow p =
     (if p = [] then Inl ErrNotExist
      else walk_path 40 (lookup os) follow (if is_abs p then [] else cwd os) (split_on sep p))"

section \<open>Calls\<close>

definition tick :: "os \<Rightarrow> os" where
  "tick os = os\<lparr>ticks := Suc (ticks os)\<rparr>"

definition syscall :: "os \<Rightarrow> (os \<Rightarrow> 'a res \<times> os) \<Rightarrow> 'a res \<times> os" where
  "syscall os f =
     (case faults os (ticks os) of
        Some e \<Rightarrow> (Inl (Sentinel e), tick os)
      | None \<Rightarrow> f (tick os))"

definition at_path :: "os \<Rightarrow> bool \<Rightarrow> string \<Rightarrow> (path \<Rightarrow> fnode \<Rightarrow> 'a res \<times> os) \<Rightarrow> 'a res \<times> os" where
  "at_path os follow p f =
     (case resolve os follow p of
        Inl e \<Rightarrow> (Inl (Sentinel e), os)
      | Inr q \<Rightarrow> (case lookup os q of
                     None \<Rightarrow> (Inl (Sentinel ErrNotExist), os)
                   | Some n \<Rightarrow> f q n))"

record finfo =
  fi_node :: fnode
  fi_mtime :: int

definition info_of :: "os \<Rightarrow> path \<Rightarrow> fnode \<Rightarrow> finfo" where
  "info_of os q n = \<lparr>fi_node = n, fi_mtime = mtimes os q (ticks os)\<rparr>"

definition os_stat :: "os \<Rightarrow> string \<Rightarrow> finfo res \<times> os" where
  "os_stat os p = syscall os (\<lambda>os. at_path os True p (\<lambda>q n. (Inr (info_of os q n), os)))"

definition os_lstat :: "os \<Rightarrow> string \<Rightarrow> finfo res \<times> os" where
  "os_lstat os p = syscall os (\<lambda>os. at_path os False p (\<lambda>q n. (Inr (info_of os q n), os)))"

definition is_dir :: "fnode \<Rightarrow> bool" where
  "is_dir n = (case n of FDir \<Rightarrow> True | _ \<Rightarrow> False)"

definition is_regular :: "fnode \<Rightarrow> bool" where
  "is_regular n = (case n of FFile _ _ \<Rightarrow> True | _ \<Rightarrow> False)"

fun node_size :: "fnode \<Rightarrow> int" where
  "node_size (FFile d _) = int (length d)"
| "node_size (FLink t) = int (length t)"
| "node_size FDir = 0"

fun node_perm :: "fnode \<Rightarrow> nat" where
  "node_perm (FFile _ m) = m mod 512"
| "node_perm _ = 511"

definition os_readlink :: "os \<Rightarrow> string \<Rightarrow> string res \<times> os" where
  "os_readlink os p =
     syscall os (\<lambda>os. at_path os False p (\<lambda>_ n.
       (case n of FLink t \<Rightarrow> Inr t | _ \<Rightarrow> Inl (Sentinel EINVAL), os)))"

definition os_readfile :: "os \<Rightarrow> string \<Rightarrow> bytes res \<times> os" where
  "os_readfile os p =
     syscall os (\<lambda>os. at_path os True p (\<lambda>_ n.
       (case n of FFile d _ \<Rightarrow> Inr d | _ \<Rightarrow> Inl (Sentinel EISDIR), os)))"

text \<open>An open file is the path it was resolved to. Reading it to the end yields the bytes read and, when a
  read fails, the error that ended it; the bytes read before are not taken back.\<close>

definition os_open :: "os \<Rightarrow> string \<Rightarrow> path res \<times> os" where
  "os_open os p = syscall os (\<lambda>os. at_path os True p (\<lambda>q _. (Inr q, os)))"

definition file_stat :: "os \<Rightarrow> path \<Rightarrow> finfo res \<times> os" where
  "file_stat os q =
     syscall os (\<lambda>os. case lookup os q of
       None \<Rightarrow> (Inl (Sentinel ErrNotExist), os)
     | Some n \<Rightarrow> (Inr (info_of os q n), os))"

definition file_read_all :: "os \<Rightarrow> path \<Rightarrow> (bytes \<times> goerr option) \<times> os" where
  "file_read_all os q =
     (case (faults os (ticks os), lookup os q) of
        (Some e, Some (FFile d _)) \<Rightarrow> (take (partials os (ticks os)) d, Some (Sentinel e))
      | (None, Some (FFile d _)) \<Rightarrow> (d, None)
      | _ \<Rightarrow> ([], Some (Sentinel EISDIR)), tick os)"

text \<open>\<open>os.ReadDir\<close>: the entries in name order, each with its own (unfollowed) node.\<close>

definition os_readdir :: "os \<Rightarrow> string \<Rightarrow> (string \<times> fnode) list res \<times> os" where
  "os_readdir os p =
     syscall os (\<lambda>os. at_path os True p (\<lambda>q n.
       (case n of
          FDir \<Rightarrow> Inr (map (\<lambda>c. (c, the (lookup os (q @ [c])))) (children os q))
        | _ \<Rightarrow> Inl (Sentinel ENOTDIR), os)))"

text \<open>The directory that holds a final path component must exist.\<close>

definition parent_ok :: "os \<Rightarrow> path \<Rightarrow> bool" where
  "parent_ok os q = (q \<noteq> [] \<and> lookup os (butlast q) = Some FDir)"

definition os_mkdir1 :: "os \<Rightarrow> string \<Rightarrow> unit res \<times> os" where
  "os_mkdir1 os p =
     syscall os (\<lambda>os.
       case resolve os True p of
         Inl e \<Rightarrow> (Inl (Sentinel e), os)
       | Inr q \<Rightarrow>
           (case lookup os q of
              Some FDir \<Rightarrow> (Inr (), os)
            | Some _ \<Rightarrow> (Inl (Sentinel ENOTDIR), os)
            | None \<Rightarrow>
                if resolve os False p = Inr q \<and> parent_ok os q
                then (Inr (), set_node os q FDir)
                else (Inl (Sentinel ErrExist), os)))"

text \<open>\<open>os.MkdirAll\<close>: every prefix of the path in turn.\<close>

fun mkdirs :: "os \<Rightarrow> path \<Rightarrow> string list \<Rightarrow> unit res \<times> os" where
  "mkdirs os cur [] = (Inr (), os)"
| "mkdirs os cur (s # ss) =
     (case os_mkdir1 os (abs_path (cur @ [s])) of
        (Inl e, os1) \<Rightarrow> (Inl e, os1)
      | (Inr _, os1) \<Rightarrow> mkdirs os1 (cur @ [s]) ss)"

definition os_mkdir_all :: "os \<Rightarrow> string \<Rightarrow> unit res \<times> os" where
  "os_mkdir_all os p = mkdirs os (if is_abs p then [] else cwd os) (path_segs p)"

text \<open>\<open>os.OpenFile\<close> with \<open>O_CREATE|O_TRUNC|O_WRONLY\<close>: the result is the open file's path.\<close>

definition os_create :: "os \<Rightarrow> string \<Rightarrow> nat \<Rightarrow> path res \<times> os" where
  "os_create os p mode =
     syscall os (\<lambda>os.
       case resolve os True p of
         Inl e \<Rightarrow> (Inl (Sentinel e), os)
       | Inr q \<Rightarrow>
           (case lookup os q of
              Some (FFile _ m) \<Rightarrow> (Inr q, set_node os q (FFile [] m))
            | Some _ \<Rightarrow> (Inl (Sentinel EISDIR), os)
            | None \<Rightarrow> if parent_ok os q then (Inr q, set_node os q (FFile [] mode))
                      else (Inl (Sentinel ErrNotExist), os)))"

definition append_to :: "os \<Rightarrow> path \<Rightarrow> bytes \<Rightarrow> os" where
  "append_to os q d =
     (case lookup os q of Some (FFile c m) \<Rightarrow> set_node os q (FFile (c @ d) m) | _ \<Rightarrow> os)"

definition os_write :: "os \<Rightarrow> path \<Rightarrow> bytes \<Rightarrow> unit res \<times> os" where
  "os_write os q d =
     (case faults os (ticks os) of
        Some e \<Rightarrow> (Inl (Sentinel e), append_to (tick os) q (take (partials os (ticks os)) d))
      | None \<Rightarrow> (Inr (), append_to (tick os) q d))"

definition os_close :: "os \<Rightarrow> path \<Rightarrow> unit res \<times> os" where
  "os_close os q = syscall os (\<lambda>os. (Inr (), os))"

definition os_chmod :: "os \<Rightarrow> string \<Rightarrow> nat \<Rightarrow> unit res \<times> os" where
  "os_chmod os p mode =
     syscall os (\<lambda>os. at_path os True p (\<lambda>q n.
       (Inr (), case n of FFile d _ \<Rightarrow> set_node os q (FFile d mode) | _ \<Rightarrow> os)))"

definition os_remove :: "os \<Rightarrow> string \<Rightarrow> unit res \<times> os" where
  "os_remove os p =
     syscall os (\<lambda>os. at_path os False p (\<lambda>q n.
       if n = FDir \<and> (q = [] \<or> children os q \<noteq> []) then (Inl (Sentinel ENOTEMPTY), os)
       else (Inr (), del_node os q)))"

definition os_remove_all :: "os \<Rightarrow> string \<Rightarrow> unit res \<times> os" where
  "os_remove_all os p =
     syscall os (\<lambda>os.
       case resolve os False p of
         Inl ErrNotExist \<Rightarrow> (Inr (), os)
       | Inl e \<Rightarrow> (Inl (Sentinel e), os)
       | Inr q \<Rightarrow> if q = [] then (Inl (Sentinel EINVAL), os) else (Inr (), del_tree os q))"

text \<open>\<open>os.Rename\<close> of a regular file or link (the program renames nothing else).\<close>

definition os_rename :: "os \<Rightarrow> string \<Rightarrow> string \<Rightarrow> unit res \<times> os" where
  "os_rename os src dst =
     syscall os (\<lambda>os. at_path os False src (\<lambda>q n.
       case resolve os False dst of
         Inl e \<Rightarrow> (Inl (Sentinel e), os)
       | Inr r \<Rightarrow>
           if n = FDir then (Inl (Sentinel EINVAL), os)
           else if \<not> parent_ok os r then (Inl (Sentinel ErrNotExist), os)
           else if lookup os r = Some FDir then (Inl (Sentinel EISDIR), os)
           else (Inr (), if q = r then os else set_node (del_node os q) r n)))"

definition os_symlink :: "os \<Rightarrow> string \<Rightarrow> string \<Rightarrow> unit res \<times> os" where
  "os_symlink os target p =
     syscall os (\<lambda>os.
       case resolve os False p of
         Inl e \<Rightarrow> (Inl (Sentinel e), os)
       | Inr q \<Rightarrow>
           if lookup os q \<noteq> None then (Inl (Sentinel ErrExist), os)
           else if \<not> parent_ok os q then (Inl (Sentinel ErrNotExist), os)
           else (Inr (), set_node os q (FLink target)))"

definition rand_suffix :: "os \<Rightarrow> string \<times> os" where
  "rand_suffix os = (rands os (ticks os), tick os)"

text \<open>
  \<open>os.CreateTemp\<close> with the pattern \<open>prefix*\<close>: a name that does not exist yet, mode 0600. Go gives up
  after 10000 collisions.
\<close>

fun create_temp :: "nat \<Rightarrow> os \<Rightarrow> string \<Rightarrow> string \<Rightarrow> (string \<times> path) res \<times> os" where
  "create_temp 0 os d prefix = (Inl (Sentinel ErrExist), os)"
| "create_temp (Suc k) os d prefix =
     (case rand_suffix os of
        (sfx, os1) \<Rightarrow>
          (let name = join_path [d, prefix @ sfx]
           in case syscall os1 (\<lambda>os.
                    case resolve os False name of
                      Inl e \<Rightarrow> (Inl (Sentinel e), os)
                    | Inr q \<Rightarrow>
                        if lookup os q \<noteq> None then (Inl (Sentinel ErrExist), os)
                        else if \<not> parent_ok os q then (Inl (Sentinel ErrNotExist), os)
                        else (Inr q, set_node os q (FFile [] 384))) of
                (Inl e, os2) \<Rightarrow> if e = Sentinel ErrExist then create_temp k os2 d prefix else (Inl e, os2)
              | (Inr q, os2) \<Rightarrow> (Inr (name, q), os2)))"

definition os_create_temp :: "os \<Rightarrow> string \<Rightarrow> string \<Rightarrow> (string \<times> path) res \<times> os" where
  "os_create_temp os d prefix =
     (if contains_char prefix sep then (Inl (Errorf ''pattern contains path separator'' []), os)
      else create_temp 10000 os d prefix)"

definition os_fchmod :: "os \<Rightarrow> path \<Rightarrow> nat \<Rightarrow> unit res \<times> os" where
  "os_fchmod os q mode =
     syscall os (\<lambda>os.
       (Inr (), case lookup os q of Some (FFile d _) \<Rightarrow> set_node os q (FFile d mode) | _ \<Rightarrow> os))"

section \<open>Node laws\<close>

lemma lookup_root [simp]: "lookup os [] = Some FDir"
  by (simp add: lookup_def)

lemma lookup_set_node [simp]:
  "p \<noteq> [] \<Longrightarrow> lookup (set_node os p n) q = (if q = p then Some n else lookup os q)"
  by (simp add: lookup_def set_node_def map_of_filter_key)

lemma lookup_del_node [simp]:
  "p \<noteq> [] \<Longrightarrow> lookup (del_node os p) q = (if q = p then None else lookup os q)"
  by (simp add: lookup_def del_node_def map_of_filter_key)

lemma lookup_del_tree [simp]:
  "p \<noteq> [] \<Longrightarrow> lookup (del_tree os p) q = (if below p q then None else lookup os q)"
  by (auto simp: lookup_def del_tree_def map_of_filter_key below_def)

lemma lookup_tick [simp]: "lookup (tick os) q = lookup os q"
  by (simp add: lookup_def tick_def)

lemma cwd_simps [simp]:
  "cwd (tick os) = cwd os" "cwd (set_node os p n) = cwd os" "cwd (del_node os p) = cwd os"
  by (simp_all add: tick_def set_node_def del_node_def)

lemma env_simps [simp]:
  "faults (tick os) = faults os" "faults (set_node os p n) = faults os" "faults (del_node os p) = faults os"
  "ticks (tick os) = Suc (ticks os)" "ticks (set_node os p n) = ticks os" "ticks (del_node os p) = ticks os"
  "rands (tick os) = rands os" "rands (set_node os p n) = rands os" "rands (del_node os p) = rands os"
  by (simp_all add: tick_def set_node_def del_node_def)

lemma resolve_tick [simp]: "resolve (tick os) f p = resolve os f p"
proof -
  have "lookup (tick os) = lookup os" by (rule ext) simp
  then show ?thesis by (simp add: resolve_def)
qed

lemma parent_ok_tick [simp]: "parent_ok (tick os) q = parent_ok os q"
  by (simp add: parent_ok_def)

lemma mem_children:
  "c \<in> set (children os p) \<longleftrightarrow> (\<exists>n. map_of (nodes os) (p @ [c]) = Some n)"
proof -
  have "c \<in> set (children os p) \<longleftrightarrow> p @ [c] \<in> fst ` set (nodes os)"
    by (force simp: children_def append_butlast_last_id image_iff intro!: bexI [of _ "(p @ [c], _)"])
  then show ?thesis by (metis map_of_eq_None_iff not_None_eq)
qed

section \<open>Plain paths\<close>

text \<open>
  A path is plain in a state when every prefix of it that exists is a real directory, and every
  directory above an existing one exists: resolution then is lexical.
\<close>

definition plain :: "os \<Rightarrow> path \<Rightarrow> bool" where
  "plain os ss = (list_all norm_seg ss \<and> (\<forall>i \<le> length ss. lookup os (take i ss) \<in> {None, Some FDir}))"

definition dir_at :: "os \<Rightarrow> path \<Rightarrow> bool" where
  "dir_at os ss = (list_all norm_seg ss \<and> (\<forall>i \<le> length ss. lookup os (take i ss) = Some FDir))"

lemma dir_at_plain: "dir_at os ss \<Longrightarrow> plain os ss"
  by (simp add: dir_at_def plain_def)

lemma walk_dirs:
  assumes "list_all norm_seg ss" "\<forall>i \<le> length ss. lk (cur @ take i ss) = Some FDir"
  shows "walk_path n lk f cur (ss @ ts) = walk_path n lk f (cur @ ss) ts"
  using assms
proof (induction ss arbitrary: cur)
  case Nil
  then show ?case by simp
next
  case (Cons s ss)
  from Cons.prems(2) have "lk (cur @ [s]) = Some FDir" by (auto dest: spec [of _ 1])
  moreover have "\<forall>i \<le> length ss. lk ((cur @ [s]) @ take i ss) = Some FDir"
    using Cons.prems(2) by (auto dest: spec [of _ "Suc _"])
  ultimately show ?case using Cons.prems(1) Cons.IH [of "cur @ [s]"]
    by (simp add: norm_seg_def)
qed

lemma dir_at_snoc: "dir_at os (ss @ [x]) \<longleftrightarrow> dir_at os ss \<and> norm_seg x \<and> lookup os (ss @ [x]) = Some FDir"
  by (auto simp: dir_at_def less_Suc_eq_le le_Suc_eq)

lemma dir_at_lookup: "dir_at os ss \<Longrightarrow> lookup os ss = Some FDir"
  by (auto simp: dir_at_def dest: spec [of _ "length ss"])

lemma dir_at_Nil [simp]: "dir_at os []"
  by (simp add: dir_at_def)

lemma dir_at_append: "dir_at os (a @ b) \<Longrightarrow> dir_at os a"
  by (induction b rule: rev_induct) (auto simp: dir_at_snoc simp flip: append_assoc)

lemma split_abs_walk:
  "list_all norm_seg ss \<Longrightarrow> walk_path n lk f [] (split_on sep (abs_path ss)) = walk_path n lk f [] ss"
  by (simp add: split_abs_path)

lemma resolve_dir:
  assumes "dir_at os ss"
  shows "resolve os f (abs_path ss) = Inr ss"
  using assms walk_dirs [of ss "lookup os" "[]" 40 f "[]"]
  by (simp add: resolve_def split_abs_walk dir_at_def del: split_on.simps)

lemma resolve_in_dir:
  assumes "dir_at os ss" "norm_seg x" "\<And>t. f \<Longrightarrow> lookup os (ss @ [x]) \<noteq> Some (FLink t)"
  shows "resolve os f (abs_path (ss @ [x])) = Inr (ss @ [x])"
proof -
  have "resolve os f (abs_path (ss @ [x])) = walk_path 40 (lookup os) f ss [x]"
    using assms walk_dirs [of ss "lookup os" "[]" 40 f "[x]"]
    by (simp add: resolve_def split_abs_walk dir_at_def del: split_on.simps walk_path.simps)
  also have "\<dots> = Inr (ss @ [x])"
    using assms(2,3) by (auto simp: norm_seg_def split: option.splits fnode.splits)
  finally show ?thesis .
qed

section \<open>Effects of the calls\<close>

text \<open>
  What a call does to the tree, as an update of \<open>lookup\<close>; \<open>same_fs os os'\<close> says that nothing visible
  changed, \<open>fs_upd os q n os'\<close> that exactly the node at \<open>q\<close> did.
\<close>

definition env_eq :: "os \<Rightarrow> os \<Rightarrow> bool" where
  "env_eq os os' = (cwd os' = cwd os \<and> faults os' = faults os \<and> rands os' = rands os)"

lemma env_eq_refl [simp]: "env_eq os os"
  by (simp add: env_eq_def)

lemma env_eq_trans: "env_eq a b \<Longrightarrow> env_eq b c \<Longrightarrow> env_eq a c"
  by (simp add: env_eq_def)

lemma env_eq_simps [simp]:
  "env_eq os (tick os') = env_eq os os'" "env_eq os (set_node os' p n) = env_eq os os'"
  "env_eq os (del_node os' p) = env_eq os os'"
  by (simp_all add: env_eq_def)

definition same_fs :: "os \<Rightarrow> os \<Rightarrow> bool" where
  "same_fs os os' = (lookup os' = lookup os \<and> env_eq os os')"

definition fs_upd :: "os \<Rightarrow> path \<Rightarrow> fnode option \<Rightarrow> os \<Rightarrow> bool" where
  "fs_upd os q n os' = (lookup os' = (lookup os)(q := n) \<and> env_eq os os')"

lemma fs_refl [simp]: "same_fs os os"
  by (simp add: same_fs_def)

lemma fs_tick [simp]: "same_fs os (tick os)"
  by (auto simp: same_fs_def)

lemma fs_trans: "same_fs a b \<Longrightarrow> same_fs b c \<Longrightarrow> same_fs a c"
  by (simp add: same_fs_def env_eq_def)

lemma fs_fs_upd: "same_fs a b \<Longrightarrow> fs_upd b q n c \<Longrightarrow> fs_upd a q n c"
  by (simp add: same_fs_def fs_upd_def env_eq_def)

lemma fs_upd_fs: "fs_upd a q n b \<Longrightarrow> same_fs b c \<Longrightarrow> fs_upd a q n c"
  by (simp add: same_fs_def fs_upd_def env_eq_def)

lemma fs_upd_upd: "fs_upd a q m b \<Longrightarrow> fs_upd b q n c \<Longrightarrow> fs_upd a q n c"
  by (simp add: fs_upd_def env_eq_def)

lemma fs_upd_same: "fs_upd a q n b \<Longrightarrow> n = lookup a q \<Longrightarrow> same_fs a b"
  by (auto simp: same_fs_def fs_upd_def)

lemma fs_set_node: "q \<noteq> [] \<Longrightarrow> fs_upd os q (Some n) (set_node os q n)"
  by (auto simp: fs_upd_def)

lemma fs_del_node: "q \<noteq> [] \<Longrightarrow> fs_upd os q None (del_node os q)"
  by (auto simp: fs_upd_def)

lemma resolve_cong: "same_fs os os' \<Longrightarrow> resolve os' f p = resolve os f p"
  by (simp add: same_fs_def resolve_def env_eq_def)

lemma dir_at_cong: "same_fs os os' \<Longrightarrow> dir_at os' ds = dir_at os ds"
  by (simp add: same_fs_def dir_at_def)

lemma dir_at_upd: "fs_upd os q n os' \<Longrightarrow> lookup os q \<noteq> Some FDir \<Longrightarrow> dir_at os ds \<Longrightarrow> dir_at os' ds"
  by (auto simp: fs_upd_def dir_at_def)

lemma norm_append: "norm_seg x \<Longrightarrow> sep \<notin> set y \<Longrightarrow> 3 \<le> length y \<Longrightarrow> norm_seg (x @ y)"
  by (auto simp: norm_seg_def append_eq_Cons_conv)

lemma at_path_fs:
  assumes "at_path os b p f = (r, os')" "\<And>q n. f q n = (r, os') \<Longrightarrow> same_fs os os'"
  shows "same_fs os os'"
  using assms by (auto simp: at_path_def split: sum.splits option.splits)

lemma syscall_fs:
  assumes "syscall os f = (r, os')" "\<And>o1. f (tick os) = (r, o1) \<Longrightarrow> same_fs (tick os) o1"
  shows "same_fs os os'"
  using assms fs_trans [OF fs_tick] by (auto simp: syscall_def split: option.splits)

lemma read_calls_fs:
  "os_stat os p = (r1, os') \<Longrightarrow> same_fs os os'" "os_lstat os p = (r1, os') \<Longrightarrow> same_fs os os'"
  "os_readlink os p = (r2, os') \<Longrightarrow> same_fs os os'" "os_readfile os p = (r2, os') \<Longrightarrow> same_fs os os'"
  "os_readdir os p = (r3, os') \<Longrightarrow> same_fs os os'" "os_close os q = (r4, os') \<Longrightarrow> same_fs os os'"
  unfolding os_stat_def os_lstat_def os_readlink_def os_readfile_def os_readdir_def os_close_def
  by (erule syscall_fs; auto elim!: at_path_fs)+

lemma append_to_upd:
  "lookup os q = Some (FFile c m) \<Longrightarrow> q \<noteq> [] \<Longrightarrow> fs_upd os q (Some (FFile (c @ d) m)) (append_to os q d)"
  by (simp add: append_to_def fs_set_node)

lemma os_write_upd:
  assumes "os_write os q d = (r, os')" "lookup os q = Some (FFile c m)" "q \<noteq> []"
  shows "\<exists>w. fs_upd os q (Some (FFile (c @ w) m)) os' \<and> (ok r \<longrightarrow> w = d)"
proof -
  have l: "lookup (tick os) q = Some (FFile c m)" using assms(2) by simp
  show ?thesis
    using assms(1) fs_fs_upd [OF fs_tick append_to_upd [OF l assms(3)]]
    by (fastforce simp: os_write_def split: option.splits)
qed

lemma os_fchmod_upd:
  assumes "os_fchmod os q mode = (r, os')" "lookup os q = Some (FFile c m)" "q \<noteq> []"
  shows "fs_upd os q (Some (FFile c (if ok r then mode else m))) os'"
  using assms fs_fs_upd [OF fs_tick fs_set_node [OF assms(3)]]
  by (auto simp: os_fchmod_def syscall_def fs_upd_def split: option.splits)

lemma parent_ok_in_dir: "dir_at os ds \<Longrightarrow> parent_ok os (ds @ [x])"
  by (simp add: parent_ok_def dir_at_lookup)

lemma os_create_file:
  assumes "os_create os (abs_path (ds @ [a])) mode = (r, os')" "dir_at os ds" "norm_seg a"
    "\<forall>n. lookup os (ds @ [a]) = Some n \<longrightarrow> is_regular n"
  shows "case r of Inl _ \<Rightarrow> same_fs os os'
    | Inr tf \<Rightarrow> tf = ds @ [a] \<and> (\<exists>m. fs_upd os (ds @ [a]) (Some (FFile [] m)) os')"
proof (cases "faults os (ticks os)")
  case (Some e)
  then show ?thesis using assms(1) by (auto simp: os_create_def syscall_def)
next
  case None
  have res: "resolve (tick os) True (abs_path (ds @ [a])) = Inr (ds @ [a])"
    unfolding resolve_tick by (rule resolve_in_dir [OF assms(2,3)]) (use assms(4) in \<open>auto simp: is_regular_def\<close>)
  obtain m where "r = Inr (ds @ [a])" "os' = set_node (tick os) (ds @ [a]) (FFile [] m)"
    using assms None res parent_ok_in_dir [OF assms(2), of a]
    by (cases "lookup os (ds @ [a])")
       (auto simp: os_create_def syscall_def is_regular_def split: fnode.splits)
  then show ?thesis using fs_fs_upd [OF fs_tick fs_set_node, of "ds @ [a]" os] by auto
qed

lemma create_temp_upd:
  assumes "create_temp k os (abs_path ds) pre = (r, os')" "dir_at os ds"
    and "\<And>n. norm_seg (pre @ rands os n)"
  shows "case r of
      Inl e \<Rightarrow> same_fs os os'
    | Inr (name, q) \<Rightarrow> \<exists>n. q = ds @ [pre @ rands os n] \<and> name = abs_path q \<and> lookup os q = None
        \<and> fs_upd os q (Some (FFile [] 384)) os'"
  using assms
proof (induction k arbitrary: os)
  case 0
  then show ?case by auto
next
  case (Suc k)
  let ?o1 = "tick os" let ?o2 = "tick ?o1" let ?x = "pre @ rands os (ticks os)"
  let ?q = "ds @ [?x]"
  have ds: "list_all norm_seg ds" using Suc.prems(2) by (simp add: dir_at_def)
  have x: "norm_seg ?x" by (rule Suc.prems(3))
  have name: "join_path [abs_path ds, ?x] = abs_path ?q" by (rule join_path_seg [OF ds x])
  have res: "resolve ?o2 False (abs_path ?q) = Inr ?q"
    using resolve_in_dir [of os ds ?x False] Suc.prems(2) x by simp
  have fs2: "same_fs os ?o2" by (rule fs_trans [OF fs_tick fs_tick])
  have IH: ?case if c: "create_temp k ?o2 (abs_path ds) pre = (r, os')"
  proof -
    have d2: "dir_at ?o2 ds" using Suc.prems(2) dir_at_cong [OF fs2] by simp
    have n2: "norm_seg (pre @ rands ?o2 n)" for n using Suc.prems(3) by simp
    show ?thesis
    proof (cases r)
      case (Inl e)
      then show ?thesis using Suc.IH [OF c d2 n2] fs_trans [OF fs2] by simp
    next
      case (Inr nq)
      then show ?thesis using Suc.IH [OF c d2 n2] fs_fs_upd [OF fs2] by (cases nq) auto
    qed
  qed
  have par: "parent_ok ?o2 ?q" using parent_ok_in_dir [OF Suc.prems(2)] by simp
  show ?case
  proof (cases "faults os (Suc (ticks os))")
    case None
    show ?thesis
    proof (cases "lookup os ?q")
      case found: None
      then have "r = Inr (abs_path ?q, ?q)" "os' = set_node ?o2 ?q (FFile [] 384)"
        using Suc.prems(1) None name res par by (simp_all add: rand_suffix_def syscall_def)
      moreover have "fs_upd os ?q (Some (FFile [] 384)) (set_node ?o2 ?q (FFile [] 384))"
        by (rule fs_fs_upd [OF fs_trans [OF fs_tick fs_tick] fs_set_node]) simp
      ultimately show ?thesis using found by auto
    next
      case (Some n)
      then show ?thesis
        using Suc.prems(1) None name res par by (intro IH) (simp add: rand_suffix_def syscall_def)
    qed
  next
    case (Some e)
    show ?thesis
    proof (cases "e = ErrExist")
      case True
      then show ?thesis using Suc.prems(1) Some name
        by (intro IH) (simp add: rand_suffix_def syscall_def)
    next
      case False
      then have "r = Inl (Sentinel e)" "os' = ?o2"
        using Suc.prems(1) Some name by (simp_all add: rand_suffix_def syscall_def)
      then show ?thesis using fs_trans [OF fs_tick fs_tick, of os] by simp
    qed
  qed
qed

lemma os_rename_in_dir:
  assumes "os_rename os (abs_path (ds @ [a])) (abs_path (ds @ [b])) = (r, os')"
    and "dir_at os ds" "norm_seg a" "norm_seg b" "a \<noteq> b"
    and "lookup os (ds @ [a]) = Some (FFile d m)" "lookup os (ds @ [b]) \<noteq> Some FDir"
  shows "if ok r then lookup os' = (lookup os)(ds @ [a] := None, ds @ [b] := Some (FFile d m)) \<and> env_eq os os'
    else same_fs os os'"
  using assms resolve_in_dir [OF assms(2,3), of False] resolve_in_dir [OF assms(2,4), of False]
    parent_ok_in_dir [OF assms(2), of b]
  by (auto simp: os_rename_def syscall_def at_path_def fun_eq_iff split: option.splits if_splits)

lemma os_remove_in_dir:
  assumes "os_remove os (abs_path (ds @ [a])) = (r, os')" "dir_at os ds" "norm_seg a"
    and "lookup os (ds @ [a]) = Some (FFile d m)"
  shows "fs_upd os (ds @ [a]) (if ok r then None else Some (FFile d m)) os'"
  using assms resolve_in_dir [OF assms(2,3), of False]
  by (auto simp: os_remove_def syscall_def at_path_def fs_upd_def fun_eq_iff split: option.splits if_splits)

text \<open>\<open>MkdirAll\<close> only turns missing prefixes of its path into directories.\<close>

definition dirs_added :: "os \<Rightarrow> path \<Rightarrow> os \<Rightarrow> bool" where
  "dirs_added os ss os' = (env_eq os os' \<and> (\<forall>q. lookup os' q = lookup os q
     \<or> lookup os q = None \<and> lookup os' q = Some FDir \<and> (\<exists>r. ss = q @ r)))"

lemma dirs_added_cases:
  assumes "dirs_added os ss os'"
  obtains "lookup os' q = lookup os q"
  | r where "lookup os q = None" "lookup os' q = Some FDir" "ss = q @ r"
  using assms by (auto simp: dirs_added_def)

lemma dirs_added_outside:
  assumes "dirs_added os ss os'" "length ss < length q"
  shows "lookup os' q = lookup os q"
proof (rule dirs_added_cases [OF assms(1), of q])
  fix r assume "ss = q @ r"
  then have "length ss = length q + length r" by (metis length_append)
  with assms(2) show ?thesis by simp
qed

lemma dirs_added_trans:
  assumes ab: "dirs_added a (cur @ [s]) b" and bc: "dirs_added b (cur @ s # ss) c"
  shows "dirs_added a (cur @ s # ss) c"
  unfolding dirs_added_def
proof (intro conjI allI)
  show "env_eq a c" using ab bc env_eq_trans by (auto simp: dirs_added_def)
next
  fix q
  show "lookup c q = lookup a q
      \<or> lookup a q = None \<and> lookup c q = Some FDir \<and> (\<exists>r. cur @ s # ss = q @ r)"
  proof (rule dirs_added_cases [OF ab, of q])
    assume b: "lookup b q = lookup a q"
    show ?thesis by (rule dirs_added_cases [OF bc, of q]) (simp_all add: b)
  next
    fix r assume b: "lookup a q = None" "lookup b q = Some FDir" "cur @ [s] = q @ r"
    have "cur @ s # ss = (cur @ [s]) @ ss" by simp
    then have "cur @ s # ss = q @ (r @ ss)" using b(3) by simp
    moreover have "lookup c q = Some FDir" by (rule dirs_added_cases [OF bc, of q]) (simp_all add: b)
    ultimately show ?thesis using b by blast
  qed
qed

lemma mkdir1_in_dir:
  assumes "os_mkdir1 os (abs_path (ds @ [x])) = (r, os')" "dir_at os ds" "norm_seg x"
    and "lookup os (ds @ [x]) \<in> {None, Some FDir}"
  shows "dirs_added os (ds @ [x]) os' \<and> (ok r \<longrightarrow> dir_at os' (ds @ [x])) \<and> (\<not> ok r \<longrightarrow> same_fs os os')"
proof -
  have r: "resolve os f (abs_path (ds @ [x])) = Inr (ds @ [x])" for f
    using assms(4) by (intro resolve_in_dir [OF assms(2,3)]) auto
  have d: "dir_at (set_node (tick os) (ds @ [x]) FDir) (ds @ [x])"
    using assms(2,3) by (auto simp: dir_at_def less_Suc_eq_le le_Suc_eq)
  show ?thesis
  proof (cases "faults os (ticks os)")
    case (Some e)
    then show ?thesis using assms(1) by (auto simp: os_mkdir1_def syscall_def dirs_added_def)
  next
    case None
    with assms r d parent_ok_in_dir [OF assms(2), of x] show ?thesis
      by (auto simp: os_mkdir1_def syscall_def dirs_added_def dir_at_snoc dir_at_cong [OF fs_tick]
          split: if_splits)
  qed
qed

lemma mkdirs_effect:
  assumes "mkdirs os cur ss = (r, os')" "dir_at os cur" "list_all norm_seg ss"
    and "\<forall>i \<le> length ss. lookup os (cur @ take i ss) \<in> {None, Some FDir}"
  shows "dirs_added os (cur @ ss) os' \<and> (ok r \<longrightarrow> dir_at os' (cur @ ss))"
  using assms
proof (induction ss arbitrary: os cur)
  case Nil
  then show ?case by (auto simp: dirs_added_def)
next
  case (Cons s ss)
  obtain r1 o1 where m: "os_mkdir1 os (abs_path (cur @ [s])) = (r1, o1)" by (meson surj_pair)
  have s: "norm_seg s" "lookup os (cur @ [s]) \<in> {None, Some FDir}"
    using Cons.prems(3,4) by (auto dest: spec [of _ 1])
  note e = mkdir1_in_dir [OF m Cons.prems(2) s]
  show ?case
  proof (cases r1)
    case (Inl err)
    then have "r = Inl err" "os' = o1" using Cons.prems(1) m by simp_all
    then show ?thesis using e Inl by (auto simp: dirs_added_def same_fs_def)
  next
    case (Inr u)
    then have "mkdirs o1 (cur @ [s]) ss = (r, os')" using Cons.prems(1) m by simp
    moreover have "\<forall>i \<le> length ss. lookup o1 ((cur @ [s]) @ take i ss) \<in> {None, Some FDir}"
    proof (intro allI impI)
      fix i assume "i \<le> length ss"
      then have "lookup os (cur @ take (Suc i) (s # ss)) \<in> {None, Some FDir}"
        using Cons.prems(4) by (auto dest: spec [of _ "Suc i"])
      then show "lookup o1 ((cur @ [s]) @ take i ss) \<in> {None, Some FDir}"
        using e unfolding dirs_added_def by (metis append.assoc append_Cons append_Nil insertCI take_Suc_Cons)
    qed
    ultimately have "dirs_added o1 ((cur @ [s]) @ ss) os' \<and> (ok r \<longrightarrow> dir_at os' ((cur @ [s]) @ ss))"
      using e Inr Cons.prems(3) by (intro Cons.IH) auto
    then show ?thesis using e dirs_added_trans [of os cur s o1 ss os'] by simp
  qed
qed

lemma mkdir_all_effect:
  assumes "os_mkdir_all os (abs_path ss) = (r, os')" "plain os ss"
  shows "dirs_added os ss os' \<and> (ok r \<longrightarrow> dir_at os' ss)"
  using mkdirs_effect [of os "[]" ss r os'] assms
  by (auto simp: os_mkdir_all_def plain_def is_abs_abs_path)

lemma dirs_added_dir_at: "dirs_added os ss os' \<Longrightarrow> dir_at os ds \<Longrightarrow> dir_at os' ds"
  by (auto simp: dirs_added_def dir_at_def) (metis option.distinct(1))

end
