(* ===== verification/HfPaths.thy ===== *)
theory HfPaths
  imports FileSys MappingDb
begin

text \<open>
  The naming layer of \<open>internal/hfcache/cache.go\<close>: repository types, the directories of one
  repository inside the hub cache, the mapping between repository ids and directory names, the
  checks that keep manifest paths inside the snapshot, and the two sorts.
\<close>

section \<open>Repository types\<close>

type_synonym repotype = string

definition Model :: repotype where "Model = ''model''"
definition Dataset :: repotype where "Dataset = ''dataset''"
definition Space :: repotype where "Space = ''space''"

definition dir_prefix :: "repotype \<Rightarrow> string" where
  "dir_prefix t =
     (if t = Model then ''models--'' else if t = Dataset then ''datasets--''
      else if t = Space then ''spaces--'' else ''models--'')"

definition api_path :: "repotype \<Rightarrow> string" where
  "api_path t =
     (if t = Model then ''models'' else if t = Dataset then ''datasets''
      else if t = Space then ''spaces'' else ''models'')"

definition parse_repo_type :: "string \<Rightarrow> repotype res" where
  "parse_repo_type s =
     (let l = to_lower (trim_space s)
      in if l \<in> {'''', ''model'', ''models''} then Inr Model
         else if l \<in> {''dataset'', ''datasets''} then Inr Dataset
         else if l \<in> {''space'', ''spaces''} then Inr Space
         else Inl (Errorf ''unknown repo type %q (want model, dataset or space)'' [AStr s]))"

section \<open>Paths\<close>

record paths =
  p_hub :: string
  p_repo :: string
  p_type :: repotype
  p_dir :: string
  p_blobs :: string
  p_snapshots :: string
  p_refs :: string
  p_trees :: string

definition repo_from_dir_name :: "string \<Rightarrow> (string \<times> repotype) option" where
  "repo_from_dir_name name =
     map_option (\<lambda>t. (replace_all (trim_prefix name (dir_prefix t)) ''--'' ''/'', t))
       (find (\<lambda>t. has_prefix name (dir_prefix t)) [Model, Dataset, Space])"

definition repo_dir_name :: "string \<Rightarrow> repotype \<Rightarrow> string" where
  "repo_dir_name r t = dir_prefix t @ replace_all r ''/'' ''--''"

definition new_paths :: "string \<Rightarrow> string \<Rightarrow> repotype \<Rightarrow> paths" where
  "new_paths hub r t =
     (let d = join_path [hub, repo_dir_name r t]
      in \<lparr>p_hub = hub, p_repo = r, p_type = t, p_dir = d,
          p_blobs = join_path [d, ''blobs''], p_snapshots = join_path [d, ''snapshots''],
          p_refs = join_path [d, ''refs''], p_trees = join_path [d, ''trees'']\<rparr>)"

definition snapshot_dir :: "paths \<Rightarrow> string \<Rightarrow> string" where
  "snapshot_dir p commit = join_path [p_snapshots p, commit]"

definition ref_path :: "paths \<Rightarrow> string \<Rightarrow> string" where
  "ref_path p ref = join_path [p_refs p, ref]"

definition blob_path :: "paths \<Rightarrow> string \<Rightarrow> string" where
  "blob_path p name = join_path [p_blobs p, name]"

definition tree_path :: "paths \<Rightarrow> string \<Rightarrow> string" where
  "tree_path p commit = join_path [p_trees p, commit @ ''.json'']"

definition paths_exists :: "paths \<Rightarrow> os \<Rightarrow> bool \<times> os" where
  "paths_exists p os =
     (case os_stat os (p_dir p) of
        (Inl _, os1) \<Rightarrow> (False, os1)
      | (Inr i, os1) \<Rightarrow> (is_dir (fi_node i), os1))"

definition current_commit :: "paths \<Rightarrow> string \<Rightarrow> os \<Rightarrow> string res \<times> os" where
  "current_commit p ref0 os =
     (let ref = (if ref0 = [] then ''main'' else ref0)
      in case os_readfile os (ref_path p ref) of
           (Inl e, os1) \<Rightarrow> (Inl e, os1)
         | (Inr data, os1) \<Rightarrow>
             (let commit = trim_space data
              in if length commit \<noteq> 40
                 then (Inl (Errorf ''refs/%s contains %q, not a 40 char commit hash'' [AStr ref, AStr commit]), os1)
                 else if \<not> ok (hex_decode commit)
                 then (Inl (Errorf ''refs/%s contains %q, not a hex commit hash'' [AStr ref, AStr commit]), os1)
                 else (Inr commit, os1)))"

section \<open>Safe names\<close>

definition safe_blob_name :: "string \<Rightarrow> bool" where
  "safe_blob_name name =
     (if name = [] \<or> name = ''.'' \<or> name = ''..'' then False
      else \<not> contains_any name [CHR ''/'', CHR 0x5C])"

definition safe_rel_path :: "string \<Rightarrow> bool" where
  "safe_rel_path p =
     (if p = [] \<or> has_prefix p ''/'' \<or> contains_char p (CHR 0x5C) then False
      else list_all (\<lambda>s. \<not> (s = [] \<or> s = ''.'' \<or> s = ''..'')) (split_on sep p))"

definition under :: "string \<Rightarrow> string \<Rightarrow> bool" where
  "under root path =
     (case rel_path root path of
        Inl _ \<Rightarrow> False
      | Inr rel \<Rightarrow> rel \<noteq> ''..'' \<and> \<not> has_prefix rel ''../'')"

definition bookkeeping_dirs :: "string list" where
  "bookkeeping_dirs = [''.git'', ''.cache'']"

definition is_inside_bookkeeping :: "string \<Rightarrow> bool" where
  "is_inside_bookkeeping rel = list_ex (\<lambda>d. rel = d \<or> has_prefix rel (d @ ''/'')) bookkeeping_dirs"

section \<open>Sorting\<close>

text \<open>
  The two sorts are the same insertion sort, on arrays: the inner loop moves the element at \<open>j\<close>
  down while it is smaller than its left neighbour, the outer loop does so for \<open>i = 1, 2, \<dots>\<close>.
\<close>

fun sift_down :: "('a \<Rightarrow> string) \<Rightarrow> nat \<Rightarrow> 'a list \<Rightarrow> 'a list" where
  "sift_down key 0 s = s"
| "sift_down key (Suc j) s =
     (if key (s ! Suc j) < key (s ! j) then sift_down key j (s[Suc j := s ! j, j := s ! Suc j]) else s)"

fun sort_from :: "('a \<Rightarrow> string) \<Rightarrow> nat \<Rightarrow> nat \<Rightarrow> 'a list \<Rightarrow> 'a list" where
  "sort_from key i 0 s = s"
| "sort_from key i (Suc k) s = sort_from key (Suc i) k (sift_down key i s)"

definition sort_strings :: "string list \<Rightarrow> string list" where
  "sort_strings s = sort_from (\<lambda>x. x) 1 (length s - 1) s"

definition sort_manifests :: "file_manifest list \<Rightarrow> file_manifest list" where
  "sort_manifests f = sort_from fm_path 1 (length f - 1) f"

section \<open>Listing the cache\<close>

fun list_repos_loop :: "(string \<times> fnode) list \<Rightarrow> string list" where
  "list_repos_loop [] = []"
| "list_repos_loop ((name, n) # es) =
     (if \<not> is_dir n then list_repos_loop es
      else if has_prefix name ''models--''
      then replace_all (trim_prefix name ''models--'') ''--'' ''/'' # list_repos_loop es
      else if has_prefix name ''datasets--''
      then replace_all (trim_prefix name ''datasets--'') ''--'' ''/'' # list_repos_loop es
      else if has_prefix name ''spaces--''
      then replace_all (trim_prefix name ''spaces--'') ''--'' ''/'' # list_repos_loop es
      else list_repos_loop es)"

definition list_repos :: "string \<Rightarrow> os \<Rightarrow> string list res \<times> os" where
  "list_repos hub os =
     (case os_readdir os hub of
        (Inl e, os1) \<Rightarrow> if errors_is e ErrNotExist then (Inr [], os1) else (Inl e, os1)
      | (Inr es, os1) \<Rightarrow> (Inr (sort_strings (list_repos_loop es)), os1))"

section \<open>The sorts\<close>

lemma sift_down_insert:
  assumes "sorted (map key xs)"
  shows "sift_down key (length xs) (xs @ x # ys) =
    filter (\<lambda>y. key y \<le> key x) xs @ x # filter (\<lambda>y. key x < key y) xs @ ys"
  using assms
proof (induction xs arbitrary: ys rule: rev_induct)
  case Nil
  then show ?case by simp
next
  case (snoc z zs)
  show ?case
  proof (cases "key x < key z")
    case True
    have "sift_down key (length (zs @ [z])) ((zs @ [z]) @ x # ys) = sift_down key (length zs) (zs @ x # z # ys)"
      using True by (simp add: nth_append list_update_append)
    then show ?thesis using snoc True by (simp add: sorted_append)
  next
    case False
    then have "\<forall>y \<in> set (zs @ [z]). key y \<le> key x"
      using snoc.prems by (auto simp: sorted_append)
    then have "filter (\<lambda>y. key y \<le> key x) (zs @ [z]) = zs @ [z]" "filter (\<lambda>y. key x < key y) (zs @ [z]) = []"
      by (auto simp: filter_id_conv filter_empty_conv leD)
    then show ?thesis using False by (simp add: nth_append)
  qed
qed

lemma insert_is_sort_key:
  assumes "sorted (map key xs)"
  shows "filter (\<lambda>y. key y \<le> key x) xs @ x # filter (\<lambda>y. key x < key y) xs = sort_key key (xs @ [x])"
proof (rule properties_for_sort_key [symmetric])
  have "mset (filter (\<lambda>y. key y \<le> key x) xs) + mset (filter (\<lambda>y. key x < key y) xs) = mset xs"
    using multiset_partition [of "mset xs" "\<lambda>y. key y \<le> key x"] by (simp add: not_le)
  then show "mset (filter (\<lambda>y. key y \<le> key x) xs @ x # filter (\<lambda>y. key x < key y) xs) = mset (xs @ [x])"
    by simp
next
  fix k
  show "filter (\<lambda>y. key k = key y) (filter (\<lambda>y. key y \<le> key x) xs @ x # filter (\<lambda>y. key x < key y) xs)
    = filter (\<lambda>y. key k = key y) (xs @ [x])"
  proof (cases "key k \<le> key x")
    case True
    then have "filter (\<lambda>y. key x < key y \<and> key k = key y) xs = []"
      "filter (\<lambda>y. key y \<le> key x \<and> key k = key y) xs = filter (\<lambda>y. key k = key y) xs"
      by (auto simp: filter_empty_conv intro!: filter_cong)
    then show ?thesis by (simp add: conj_commute)
  next
    case False
    then have "filter (\<lambda>y. key y \<le> key x \<and> key k = key y) xs = []"
      "filter (\<lambda>y. key x < key y \<and> key k = key y) xs = filter (\<lambda>y. key k = key y) xs"
      by (auto simp: filter_empty_conv intro!: filter_cong)
    then show ?thesis using False by (auto simp: conj_commute)
  qed
next
  have "sorted (map key (filter (\<lambda>y. key y \<le> key x) xs))" "sorted (map key (filter (\<lambda>y. key x < key y) xs))"
    using assms by (simp_all add: sorted_filter)
  then show "sorted (map key (filter (\<lambda>y. key y \<le> key x) xs @ x # filter (\<lambda>y. key x < key y) xs))"
    by (auto simp: sorted_append intro: order_trans less_imp_le)
qed

lemma sort_key_stable': "filter (\<lambda>y. k = key y) (sort_key key xs) = filter (\<lambda>y. k = key y) xs"
  using sort_key_stable [of key k xs] by (simp only: eq_commute [of k])

lemma sort_key_append: "sort_key key (sort_key key xs @ ys) = sort_key key (xs @ ys)"
  by (rule properties_for_sort_key) (simp_all add: sort_key_stable')

lemma sort_from_correct:
  "sorted (map key xs) \<Longrightarrow> sort_from key (length xs) (length ys) (xs @ ys) = sort_key key (xs @ ys)"
proof (induction ys arbitrary: xs)
  case Nil
  then show ?case by (simp add: sort_key_id_if_sorted)
next
  case (Cons y ys)
  let ?xs = "sort_key key (xs @ [y])"
  have "sift_down key (length xs) (xs @ y # ys) = ?xs @ ys"
    using Cons.prems by (simp add: sift_down_insert flip: insert_is_sort_key)
  moreover have "sort_from key (length ?xs) (length ys) (?xs @ ys) = sort_key key (?xs @ ys)"
    by (rule Cons.IH) simp
  ultimately show ?case using sort_key_append [of key "xs @ [y]" ys] by simp
qed

lemma sort_from_sort_key: "sort_from key 1 (length s - 1) s = sort_key key s"
  using sort_from_correct [of key "[hd s]" "tl s"] by (cases s) simp_all

lemma sort_strings_eq: "sort_strings s = sort s"
  unfolding sort_strings_def by (rule sort_from_sort_key)

lemma sort_manifests_eq: "sort_manifests f = sort_key fm_path f"
  unfolding sort_manifests_def by (rule sort_from_sort_key)

section \<open>Directory names\<close>

text \<open>The ids for which the directory name determines the id: neither \<open>--\<close> nor \<open>-/\<close> occurs.\<close>

fun unambiguous_id :: "string \<Rightarrow> bool" where
  "unambiguous_id (c # d # s) =
     (\<not> (c = CHR ''-'' \<and> (d = CHR ''-'' \<or> d = sep)) \<and> unambiguous_id (d # s))"
| "unambiguous_id s = True"

lemma replace_sep: "replace_all s ''/'' ''--'' = concat (map (\<lambda>c. if c = sep then ''--'' else [c]) s)"
proof (induction s)
  case Nil
  then show ?case by (simp add: replace_all.simps)
next
  case (Cons c s)
  then show ?case by (subst replace_all.simps) (auto simp: has_prefix_def)
qed

lemma replace_dashes_simps:
  "replace_all [] ''--'' ''/'' = []"
  "replace_all (CHR ''-'' # CHR ''-'' # s) ''--'' ''/'' = sep # replace_all s ''--'' ''/''"
  "c \<noteq> CHR ''-'' \<Longrightarrow> replace_all (c # s) ''--'' ''/'' = c # replace_all s ''--'' ''/''"
  "d \<noteq> CHR ''-'' \<Longrightarrow> replace_all (c # d # s) ''--'' ''/'' = c # replace_all (d # s) ''--'' ''/''"
  "replace_all [c] ''--'' ''/'' = [c]"
  by (subst replace_all.simps, simp add: has_prefix_def replace_all.simps)+

lemma dashes_back:
  "unambiguous_id r \<Longrightarrow> replace_all (concat (map (\<lambda>c. if c = sep then ''--'' else [c]) r)) ''--'' ''/'' = r"
proof (induction r rule: unambiguous_id.induct)
  case (1 c d s)
  then show ?case by (cases "c = CHR ''-''") (auto simp: replace_dashes_simps)
qed (auto simp: replace_dashes_simps)

lemma replace_dashes_hd:
  "sep \<notin> set s \<Longrightarrow> s \<noteq> [] \<Longrightarrow> replace_all s ''--'' ''/'' \<noteq> [] \<and>
     (hd s \<noteq> CHR ''-'' \<longrightarrow> hd (replace_all s ''--'' ''/'') = hd s)"
  by (simp add: replace_all.simps [of s] has_prefix_def split: list.split)

lemma dashes_unambiguous: "sep \<notin> set s \<Longrightarrow> unambiguous_id (replace_all s ''--'' ''/'')"
proof (induction s rule: length_induct)
  case (1 s)
  consider "s = []" | c where "s = [c]" | t where "s = CHR ''-'' # CHR ''-'' # t"
    | c d t where "s = c # d # t" "c \<noteq> CHR ''-''" | d t where "s = CHR ''-'' # d # t" "d \<noteq> CHR ''-''"
    by (cases s; cases "tl s") auto
  then show ?case
  proof cases
    case (3 t)
    then have "unambiguous_id (replace_all t ''--'' ''/'')" using 1 by auto
    then show ?thesis using 3 by (cases "replace_all t ''--'' ''/''") (auto simp: replace_dashes_simps)
  next
    case (4 c d t)
    then have "unambiguous_id (replace_all (d # t) ''--'' ''/'')" using 1 by auto
    then show ?thesis using 4 by (cases "replace_all (d # t) ''--'' ''/''") (auto simp: replace_dashes_simps)
  next
    case (5 d t)
    then have "unambiguous_id (replace_all (d # t) ''--'' ''/'')" using 1 by auto
    moreover have "hd (replace_all (d # t) ''--'' ''/'') = d" "d \<noteq> sep"
      using 5 1 replace_dashes_hd [of "d # t"] by auto
    ultimately show ?thesis using 5
      by (cases "replace_all (d # t) ''--'' ''/''") (auto simp: replace_dashes_simps)
  qed (auto simp: replace_dashes_simps)
qed

lemma dashes_roundtrip: "replace_all (replace_all r ''/'' ''--'') ''--'' ''/'' = r \<longleftrightarrow> unambiguous_id r"
proof
  assume "replace_all (replace_all r ''/'' ''--'') ''--'' ''/'' = r"
  moreover have "sep \<notin> set (replace_all r ''/'' ''--'')" by (auto simp: replace_sep)
  ultimately show "unambiguous_id r" using dashes_unambiguous by metis
qed (simp add: replace_sep dashes_back)

lemma dir_prefix_find:
  assumes "t \<in> {Model, Dataset, Space}"
  shows "find (\<lambda>u. has_prefix (dir_prefix t @ s) (dir_prefix u)) [Model, Dataset, Space] = Some t"
  using assms by (auto simp: Model_def Dataset_def Space_def dir_prefix_def has_prefix_def)

lemma repo_from_dir_name_of:
  "t \<in> {Model, Dataset, Space} \<Longrightarrow>
   repo_from_dir_name (dir_prefix t @ s) = Some (replace_all s ''--'' ''/'', t)"
  by (simp only: repo_from_dir_name_def dir_prefix_find) simp

lemma list_repos_loop_spec:
  "list_repos_loop es =
     map fst (List.map_filter (\<lambda>(name, n). if is_dir n then repo_from_dir_name name else None) es)"
  by (induction es rule: list_repos_loop.induct)
     (auto simp: map_filter_def repo_from_dir_name_def Model_def Dataset_def Space_def dir_prefix_def)

section \<open>Safe names\<close>

lemma norm_split: "x \<in> set (split_on sep p) \<Longrightarrow> norm_seg x \<longleftrightarrow> x \<noteq> [] \<and> x \<noteq> ''.'' \<and> x \<noteq> ''..''"
  using split_on_no_sep_elem [of x sep p] by (auto simp: norm_seg_def)

lemma safe_rel_path_segs: "safe_rel_path p \<Longrightarrow> list_all norm_seg (split_on sep p)"
  by (auto simp: safe_rel_path_def list_all_iff norm_split split: if_splits)

lemma safe_blob_name_seg: "safe_blob_name n \<Longrightarrow> norm_seg n"
  by (auto simp: safe_blob_name_def norm_seg_def contains_any_def list_ex_iff split: if_splits)

lemma strip_common_prefix: "strip_common a (a @ b) = ([], b)"
  using strip_common_append [of a "[]" b] by simp

lemma strip_common_not_prefix:
  "take (length a) b \<noteq> a \<Longrightarrow> \<exists>x xs ys. strip_common a b = (x # xs, ys)"
proof (induction a arbitrary: b)
  case (Cons x a)
  then show ?case by (cases b) auto
qed simp

lemma join_dotdot:
  "join_with ''/'' (''..'' # xs) = ''..'' \<or> has_prefix (join_with ''/'' (''..'' # xs)) ''../''"
  by (cases xs) (auto simp: has_prefix_def)

lemma join_norm_hd:
  assumes "norm_seg x" "list_all norm_seg xs"
  shows "join_with ''/'' (x # xs) \<noteq> ''..'' \<and> \<not> has_prefix (join_with ''/'' (x # xs)) ''../''"
proof -
  let ?j = "join_with ''/'' (x # xs)"
  have split: "split_on sep ?j = x # xs"
    using assms by (intro split_on_join) (auto simp: list_all_iff norm_seg_def)
  show ?thesis
  proof (intro conjI notI)
    assume "?j = ''..''"
    then have "x # xs = split_on sep ''..''" using split by (simp only:)
    then show False using assms(1) by (auto simp: norm_seg_def)
  next
    assume "has_prefix ?j ''../''"
    then obtain r where "?j = ''..'' @ sep # r" by (auto simp: has_prefix_iff)
    then have "''..'' # split_on sep r = x # xs" using split split_on_append_sep [of sep "''..''" r] by simp
    then show False using assms(1) by (auto simp: norm_seg_def)
  qed
qed

lemma under_abs:
  assumes "list_all norm_seg a" "list_all norm_seg b"
  shows "under (abs_path a) (abs_path b) \<longleftrightarrow> take (length a) b = a"
proof (cases "a = b")
  case True
  then show ?thesis using assms by (simp add: under_def rel_path_def has_prefix_def)
next
  case False
  show ?thesis
  proof (cases "take (length a) b = a")
    case True
    then obtain c where c: "b = a @ c" by (metis append_take_drop_id)
    with False obtain x xs where x: "c = x # xs" by (cases c) auto
    then show ?thesis using assms c False True join_norm_hd [of x xs]
      by (simp add: under_def rel_path_abs strip_common_prefix)
  next
    case ne: False
    obtain x xs ys where "strip_common a b = (x # xs, ys)"
      using strip_common_not_prefix [OF ne] by blast
    then show ?thesis using assms False ne join_dotdot [of "replicate (length xs) ''..'' @ ys"]
      by (simp add: under_def rel_path_abs)
  qed
qed

lemma split_hd_prefix:
  assumes "sep \<notin> set d"
  shows "hd (split_on sep r) = d \<longleftrightarrow> r = d \<or> has_prefix r (d @ ''/'')"
proof
  assume h: "hd (split_on sep r) = d"
  show "r = d \<or> has_prefix r (d @ ''/'')"
  proof (cases "sep \<in> set r")
    case True
    then obtain a b where ab: "r = a @ sep # b" "sep \<notin> set a" by (auto dest: split_list_first)
    then show ?thesis using h split_on_append_sep [of sep a b] by (simp add: has_prefix_def)
  qed (use h in \<open>simp add: split_on_no_sep\<close>)
next
  assume "r = d \<or> has_prefix r (d @ ''/'')"
  then show "hd (split_on sep r) = d"
    using assms split_on_append_sep [of sep d] by (auto simp: has_prefix_iff split_on_no_sep)
qed

section \<open>Properties\<close>

text \<open>The hand-written insertion sorts of strings and manifests are sorting functions: they return
  the stable sort of their input, by value and by \<open>Path\<close> respectively.\<close>

theorem insertion_sorts_correct:
  "sort_strings s = sort s \<and> sort_manifests f = sort_key fm_path f"
  by (simp add: sort_strings_eq sort_manifests_eq)

text \<open>C9: \<open>RepoFromDirName\<close> inverts \<open>RepoDirName\<close> for the three repository types exactly on the ids that
  contain neither \<open>--\<close> nor \<open>-/\<close>.\<close>

theorem repo_dir_name_roundtrip:
  assumes "t \<in> {Model, Dataset, Space}"
  shows "repo_from_dir_name (repo_dir_name r t) = Some (r, t) \<longleftrightarrow> unambiguous_id r"
  using repo_from_dir_name_of [OF assms] dashes_roundtrip by (simp add: repo_dir_name_def)

theorem repo_dir_name_roundtrip_witness:
  "repo_from_dir_name (repo_dir_name ''org/my-model'' Dataset) = Some (''org/my-model'', Dataset)
   \<and> repo_from_dir_name (repo_dir_name ''org-/m'' Dataset) \<noteq> Some (''org-/m'', Dataset)"
  using repo_dir_name_roundtrip [of Dataset "''org/my-model''"] repo_dir_name_roundtrip [of Dataset "''org-/m''"]
  by simp

text \<open>C8: a manifest that passes \<open>SafeRelPath\<close> and \<open>SafeBlobName\<close> names a link strictly inside the
  snapshot directory and a blob directly inside the blobs directory, by segments that are all
  ordinary names.\<close>

theorem safe_names_inside:
  assumes "list_all norm_seg snap" and "list_all norm_seg blobs"
    and "safe_rel_path p" and "safe_blob_name b"
  shows "join_path [abs_path snap, p] = abs_path (snap @ split_on sep p)
    \<and> list_all norm_seg (snap @ split_on sep p) \<and> split_on sep p \<noteq> []
    \<and> join_path [abs_path blobs, b] = abs_path (blobs @ [b]) \<and> norm_seg b
    \<and> under (abs_path snap) (join_path [abs_path snap, p])
    \<and> under (abs_path blobs) (join_path [abs_path blobs, b])"
  using assms safe_rel_path_segs [OF assms(3)] safe_blob_name_seg [OF assms(4)]
  by (simp add: join_path_abs join_path_seg under_abs)

theorem safe_names_inside_witness:
  "join_path [''/hub/snapshots/c'', ''sub/config.json''] = ''/hub/snapshots/c/sub/config.json''"
  using safe_names_inside [of "[''hub'', ''snapshots'', ''c'']" "[''hub'', ''blobs'']" "''sub/config.json''" "''ab12''"]
  by (simp add: abs_path_def norm_seg_def safe_rel_path_def safe_blob_name_def has_prefix_def
      contains_char_def contains_any_def)

text \<open>On cleaned absolute paths \<open>under\<close> decides exactly whether one path is at or below the other.\<close>

theorem under_correct:
  assumes "list_all norm_seg a" and "list_all norm_seg b"
  shows "under (abs_path a) (abs_path b) \<longleftrightarrow> (\<exists>c. b = a @ c)"
  using under_abs [OF assms] by (metis append_eq_conv_conj append_take_drop_id)

theorem under_correct_witness:
  "under ''/hub/blobs'' ''/hub/blobs/x'' \<and> \<not> under ''/hub/blobs'' ''/hub/blobs2/x''"
  using under_correct [of "[''hub'', ''blobs'']" "[''hub'', ''blobs'', ''x'']"]
    under_correct [of "[''hub'', ''blobs'']" "[''hub'', ''blobs2'', ''x'']"]
  by (simp add: abs_path_def norm_seg_def)

text \<open>\<open>isInsideBookkeeping\<close> holds exactly when the first segment of the path is \<open>.git\<close> or
  \<open>.cache\<close>, so files such as \<open>.gitattributes\<close> are kept.\<close>

theorem bookkeeping_first_segment:
  "is_inside_bookkeeping rel \<longleftrightarrow> hd (split_on sep rel) \<in> {''.git'', ''.cache''}"
  using split_hd_prefix [of "''.git''" rel] split_hd_prefix [of "''.cache''" rel]
  by (auto simp: is_inside_bookkeeping_def bookkeeping_dirs_def)

text \<open>\<open>CurrentCommit\<close> only ever returns 40 hexadecimal digits, and leaves the file system as it
  was.\<close>

theorem current_commit_hex:
  assumes "current_commit p ref os = (Inr c, os')"
  shows "length c = 40 \<and> is_hex c \<and> nodes os' = nodes os"
  using assms
  by (auto simp: current_commit_def Let_def os_readfile_def syscall_def at_path_def hex_decode_ok_iff tick_def
      split: prod.splits sum.splits option.splits if_splits fnode.splits)

definition ref_os :: os where
  "ref_os = \<lparr>nodes = [([''r''], FDir), ([''r'', ''main''], FFile (replicate 40 (CHR ''a'') @ [CHR 0x0A]) 420)],
     cwd = [], ticks = 0, faults = (\<lambda>_. None), rands = (\<lambda>_. []), mtimes = (\<lambda>_ _. 0),
     partials = (\<lambda>_. 0)\<rparr>"

definition ref_paths :: paths where
  "ref_paths = \<lparr>p_hub = [], p_repo = [], p_type = Model, p_dir = [], p_blobs = [], p_snapshots = [],
     p_refs = ''/r'', p_trees = []\<rparr>"

theorem current_commit_hex_witness:
  "fst (current_commit ref_paths [] ref_os) = Inr (replicate 40 (CHR ''a''))
   \<and> is_hex (replicate 40 (CHR ''a''))"
proof -
  have e: "fst (current_commit ref_paths [] ref_os) = Inr (replicate 40 (CHR ''a''))" by code_simp
  then obtain os' where "current_commit ref_paths [] ref_os = (Inr (replicate 40 (CHR ''a'')), os')"
    by (cases "current_commit ref_paths [] ref_os") simp
  from current_commit_hex [OF this] e show ?thesis by simp
qed

text \<open>\<open>ListRepos\<close> returns, in order, the ids of exactly those entries of the hub directory that are
  directories and that \<open>RepoFromDirName\<close> recognises, and an empty list where there is no hub.\<close>

theorem list_repos_correct:
  assumes "list_repos hub os = (Inr rs, os')"
  shows "sorted rs \<and> ((\<exists>e. fst (os_readdir os hub) = Inl e \<and> errors_is e ErrNotExist \<and> rs = [])
    \<or> (\<exists>es. fst (os_readdir os hub) = Inr es \<and> mset rs = image_mset fst
        (mset (List.map_filter (\<lambda>(name, n). if is_dir n then repo_from_dir_name name else None) es))))"
  using assms
  by (auto simp: list_repos_def list_repos_loop_spec sort_strings_eq
      split: prod.splits sum.splits if_splits)

theorem list_repos_correct_witness:
  "fst (list_repos ''/x'' (ref_os\<lparr>nodes := [([''x''], FDir), ([''x'', ''models--b''], FDir),
     ([''x'', ''datasets--a--c''], FDir), ([''x'', ''models--f''], FFile [] 0)]\<rparr>)) = Inr [''a/c'', ''b'']
   \<and> sorted [''a/c'', ''b'']"
proof -
  let ?os = "ref_os\<lparr>nodes := [([''x''], FDir), ([''x'', ''models--b''], FDir),
     ([''x'', ''datasets--a--c''], FDir), ([''x'', ''models--f''], FFile [] 0)]\<rparr>"
  have e: "fst (list_repos ''/x'' ?os) = Inr [''a/c'', ''b'']" by code_simp
  then obtain os' where "list_repos ''/x'' ?os = (Inr [''a/c'', ''b''], os')"
    by (cases "list_repos ''/x'' ?os") simp
  from list_repos_correct [OF this] e show ?thesis by blast
qed

end
