(* ===== verification/HfTree.thy ===== *)
theory HfTree
  imports HfPaths
begin

text \<open>
  \<open>internal/hfcache/tree.go\<close> and the atomic writes of \<open>cache.go\<close>: the metadata file
  \<open>trees/<commit>.json\<close> of a revision, written by merging into what is already there, and read back
  to enrich a manifest. A Go map is an association list with one entry per key.
\<close>

section \<open>Atomic writes\<close>

definition discard_temp :: "os \<Rightarrow> path \<Rightarrow> string \<Rightarrow> os" where
  "discard_temp os q name = snd (os_remove (snd (os_close os q)) name)"

definition write_atomic :: "os \<Rightarrow> string \<Rightarrow> bytes \<Rightarrow> nat \<Rightarrow> unit res \<times> os" where
  "write_atomic os target data mode =
     (case os_create_temp os (dir target) (base target @ ''.tmp-'') of
        (Inl e, os1) \<Rightarrow> (Inl e, os1)
      | (Inr (name, q), os1) \<Rightarrow>
          (case os_write os1 q data of
             (Inl e, os2) \<Rightarrow> (Inl e, discard_temp os2 q name)
           | (Inr _, os2) \<Rightarrow>
               (case os_fchmod os2 q mode of
                  (Inl e, os3) \<Rightarrow> (Inl e, discard_temp os3 q name)
                | (Inr _, os3) \<Rightarrow>
                    (case os_close os3 q of
                       (Inl e, os4) \<Rightarrow> (Inl e, snd (os_remove os4 name))
                     | (Inr _, os4) \<Rightarrow> os_rename os4 name target))))"

definition write_ref :: "paths \<Rightarrow> string \<Rightarrow> string \<Rightarrow> os \<Rightarrow> unit res \<times> os" where
  "write_ref p ref commit os =
     (case os_mkdir_all os (p_refs p) of
        (Inl e, os1) \<Rightarrow> (Inl e, os1)
      | (Inr _, os1) \<Rightarrow> write_atomic os1 (ref_path p ref) (commit @ [CHR 0x0A]) 420)"

section \<open>The document\<close>

definition TreeFormatVersion :: int where "TreeFormatVersion = 1"

record tree_file =
  tf_size :: int
  tf_blob :: string
  tf_lfs_sha :: string
  tf_lfs_size :: int
  tf_xet :: string

record tree =
  t_version :: int
  t_files :: "(string \<times> tree_file) list"

definition map_set :: "'k \<Rightarrow> 'v \<Rightarrow> ('k \<times> 'v) list \<Rightarrow> ('k \<times> 'v) list" where
  "map_set k v m = (k, v) # filter (\<lambda>(q, _). q \<noteq> k) m"

definition enc_tree_file :: "tree_file \<Rightarrow> json" where
  "enc_tree_file f =
     JObj ([(''size'', jint (tf_size f)), (''blob_id'', JStr (tf_blob f))]
           @ omit_if (tf_lfs_sha f = []) (''lfs_sha256'', JStr (tf_lfs_sha f))
           @ omit_if (tf_lfs_size f = 0) (''lfs_size'', jint (tf_lfs_size f))
           @ omit_if (tf_xet f = []) (''xet_hash'', JStr (tf_xet f)))"

definition dec_tree_file :: "json \<Rightarrow> tree_file res" where
  "dec_tree_file v =
     bind_res (fold_members v) (\<lambda>ms.
     bind_res (int64_field ''size'' ms) (\<lambda>sz.
     bind_res (str_field ''blob_id'' ms) (\<lambda>b.
     bind_res (str_field ''lfs_sha256'' ms) (\<lambda>ls.
     bind_res (int64_field ''lfs_size'' ms) (\<lambda>lz.
     bind_res (str_field ''xet_hash'' ms) (\<lambda>x.
       Inr \<lparr>tf_size = sz, tf_blob = b, tf_lfs_sha = ls, tf_lfs_size = lz, tf_xet = x\<rparr>))))))"

text \<open>Map keys come out sorted; reading a map sets its keys one after the other.\<close>

definition enc_tree :: "tree \<Rightarrow> json" where
  "enc_tree t =
     JObj [(''format_version'', jint (t_version t)),
           (''files'', JObj (map (\<lambda>(k, f). (k, enc_tree_file f)) (sort_key fst (t_files t))))]"

fun dec_files :: "(string \<times> tree_file) list \<Rightarrow> (bytes \<times> json) list \<Rightarrow> (string \<times> tree_file) list res" where
  "dec_files m [] = Inr m"
| "dec_files m ((k, v) # kvs) =
     bind_res (dec_tree_file v) (\<lambda>f. dec_files (map_set k f m) kvs)"

definition dec_file_map :: "(string \<times> tree_file) list \<Rightarrow> json \<Rightarrow> (string \<times> tree_file) list res" where
  "dec_file_map m v =
     (case v of JNull \<Rightarrow> Inr [] | JObj kvs \<Rightarrow> dec_files m kvs | _ \<Rightarrow> Inl type_error)"

definition dec_tree :: "json \<Rightarrow> tree res" where
  "dec_tree v =
     bind_res (fold_members v) (\<lambda>ms.
     bind_res (int64_field ''format_version'' ms) (\<lambda>n.
     bind_res (get_field dec_file_map (Inr []) ''files'' ms) (\<lambda>fm.
       Inr \<lparr>t_version = n, t_files = fm\<rparr>)))"

section \<open>Operations\<close>

definition read_tree :: "paths \<Rightarrow> string \<Rightarrow> os \<Rightarrow> tree option res \<times> os" where
  "read_tree p commit os =
     (let target = tree_path p commit
      in case os_readfile os target of
           (Inl e, os1) \<Rightarrow>
             if errors_is e ErrNotExist then (Inr None, os1)
             else (Inl (Wrapf ''read %s: %w'' [AStr target] e), os1)
         | (Inr data, os1) \<Rightarrow>
             (case unmarshal dec_tree data of
                Inl e \<Rightarrow> (Inl (Wrapf ''parse %s: %w'' [AStr target] e), os1)
              | Inr t \<Rightarrow> (Inr (Some t), os1)))"

text \<open>One round of the loop over the manifest.\<close>

definition merge_file :: "(string \<times> tree_file) list \<Rightarrow> file_manifest \<Rightarrow> (string \<times> tree_file) list" where
  "merge_file doc f =
     (let nt = \<lparr>tf_size = fm_size f, tf_blob = fm_blob f, tf_lfs_sha = [], tf_lfs_size = 0, tf_xet = []\<rparr>;
          nt = (case map_of doc (fm_path f) of
                  None \<Rightarrow> nt
                | Some prev \<Rightarrow> nt\<lparr>tf_lfs_sha := tf_lfs_sha prev, tf_lfs_size := tf_lfs_size prev,
                                 tf_xet := tf_xet prev\<rparr>);
          nt = (if fm_lfs f then nt\<lparr>tf_lfs_sha := fm_sha256 f, tf_lfs_size := fm_size f\<rparr> else nt);
          nt = (if fm_xet f \<noteq> [] then nt\<lparr>tf_xet := fm_xet f\<rparr> else nt)
      in map_set (fm_path f) nt doc)"

definition write_tree :: "paths \<Rightarrow> string \<Rightarrow> file_manifest list \<Rightarrow> os \<Rightarrow> unit res \<times> os" where
  "write_tree p commit fs os =
     (case os_mkdir_all os (p_trees p) of
        (Inl e, os1) \<Rightarrow> (Inl (Wrapf ''create trees dir: %w'' [] e), os1)
      | (Inr _, os1) \<Rightarrow>
          (case read_tree p commit os1 of
             (existing, os2) \<Rightarrow>
               (let doc0 = (case existing of Inr (Some t) \<Rightarrow> foldl (\<lambda>m (k, f). map_set k f m) [] (t_files t)
                                           | _ \<Rightarrow> []);
                    doc = \<lparr>t_version = TreeFormatVersion, t_files = foldl merge_file doc0 fs\<rparr>
                in case write_atomic os2 (tree_path p commit) (json_print_indent (enc_tree doc)) 384 of
                     (Inl e, os3) \<Rightarrow> (Inl (Wrapf ''write %s: %w'' [AStr (tree_path p commit)] e), os3)
                   | (Inr _, os3) \<Rightarrow> (Inr (), os3))))"

definition enrich_file :: "tree \<Rightarrow> file_manifest \<Rightarrow> file_manifest" where
  "enrich_file t f =
     (case map_of (t_files t) (fm_path f) of
        None \<Rightarrow> f
      | Some tf \<Rightarrow>
          (let f1 = (if tf_lfs_sha tf \<noteq> [] \<or> tf_xet tf \<noteq> [] then f\<lparr>fm_lfs := True\<rparr> else f)
           in if tf_xet tf \<noteq> [] then f1\<lparr>fm_xet := tf_xet tf\<rparr> else f1))"

definition enrich_from_tree :: "paths \<Rightarrow> string \<Rightarrow> file_manifest list \<Rightarrow> os \<Rightarrow> file_manifest list \<times> os" where
  "enrich_from_tree p commit fs os =
     (case read_tree p commit os of
        (Inr (Some t), os1) \<Rightarrow> (map (enrich_file t) fs, os1)
      | (_, os1) \<Rightarrow> (fs, os1))"

section \<open>Atomic writes: the effect\<close>

text \<open>What a call may do: the target is replaced or kept, and only a new temporary file may remain.\<close>

definition temp_name :: "string \<Rightarrow> string \<Rightarrow> bool" where
  "temp_name x y = has_prefix y (x @ ''.tmp-'')"

definition atomic_effect :: "os \<Rightarrow> path \<Rightarrow> string \<Rightarrow> bytes \<Rightarrow> nat \<Rightarrow> bool \<Rightarrow> os \<Rightarrow> bool" where
  "atomic_effect os ds x data mode success os' =
     (if success then fs_upd os (ds @ [x]) (Some (FFile data mode)) os'
      else same_fs os os' \<or> (\<exists>y d m. temp_name x y \<and> lookup os (ds @ [y]) = None
                          \<and> fs_upd os (ds @ [y]) (Some (FFile d m)) os'))"

lemma discard_temp_effect:
  assumes "dir_at os ds" "norm_seg a" "lookup os (ds @ [a]) = Some (FFile d m)"
    "discard_temp os q (abs_path (ds @ [a])) = os'"
  shows "\<exists>n. fs_upd os (ds @ [a]) n os' \<and> n \<in> {None, Some (FFile d m)}"
proof -
  obtain r1 o1 where c: "os_close os q = (r1, o1)" by (meson surj_pair)
  obtain r2 o2 where r: "os_remove o1 (abs_path (ds @ [a])) = (r2, o2)" by (meson surj_pair)
  have fs1: "same_fs os o1" using read_calls_fs(6) [OF c] .
  have "fs_upd o1 (ds @ [a]) (if ok r2 then None else Some (FFile d m)) o2"
    using assms fs1 dir_at_cong [OF fs1] by (intro os_remove_in_dir [OF r]) (auto simp: same_fs_def)
  then have "fs_upd os (ds @ [a]) (if ok r2 then None else Some (FFile d m)) o2"
    by (rule fs_fs_upd [OF fs1])
  then show ?thesis using assms(4) c r by (auto simp: discard_temp_def split: if_splits)
qed

lemma atomic_effect_temp:
  assumes "fs_upd os (ds @ [y]) n os'" "temp_name x y" "lookup os (ds @ [y]) = None"
    "n \<in> {None, Some (FFile d m)}"
  shows "atomic_effect os ds x data mode False os'"
proof (cases n)
  case None
  then show ?thesis using assms fs_upd_same [OF assms(1)] by (simp add: atomic_effect_def)
next
  case (Some f)
  then show ?thesis using assms by (auto simp: atomic_effect_def)
qed

lemma write_atomic_effect:
  assumes run: "write_atomic os (abs_path (ds @ [x])) data mode = (r, os')"
    and ds: "dir_at os ds" and x: "norm_seg x" and nd: "lookup os (ds @ [x]) \<noteq> Some FDir"
    and rnd: "\<And>n. sep \<notin> set (rands os n)"
  shows "atomic_effect os ds x data mode (ok r) os'"
proof -
  let ?t = "abs_path (ds @ [x])" let ?pre = "x @ ''.tmp-''"
  have nds: "list_all norm_seg ds" using ds by (simp add: dir_at_def)
  have db: "dir ?t = abs_path ds" "base ?t = x" using dir_abs_path [OF nds x] base_abs_path [OF x] by simp_all
  have nopre: "\<not> contains_char ?pre sep" using x by (simp add: contains_char_def norm_seg_def)
  have npre: "norm_seg (?pre @ rands os n)" for n
    using norm_append [OF x, of "''.tmp-'' @ rands os n"] rnd [of n] by simp
  obtain r1 o1 where c: "create_temp 10000 os (abs_path ds) ?pre = (r1, o1)" by (meson surj_pair)
  note ct = create_temp_upd [OF c ds npre]
  show ?thesis
  proof (cases r1)
    case (Inl e)
    then show ?thesis using run ct nopre c
      by (auto simp: write_atomic_def db os_create_temp_def atomic_effect_def)
  next
    case (Inr nq)
    then obtain n where nq: "nq = (abs_path (ds @ [?pre @ rands os n]), ds @ [?pre @ rands os n])"
      and free: "lookup os (ds @ [?pre @ rands os n]) = None"
      and u1: "fs_upd os (ds @ [?pre @ rands os n]) (Some (FFile [] 384)) o1"
      using ct by (cases nq) auto
    define y where "y = ?pre @ rands os n"
    define q where "q = ds @ [y]"
    have y: "norm_seg y" "temp_name x y" "y \<noteq> x"
      using npre by (auto simp: y_def temp_name_def has_prefix_def)
    have fq: "lookup os q = None" and qn: "q \<noteq> []" using free by (simp_all add: q_def y_def)
    have u1: "fs_upd os q (Some (FFile [] 384)) o1" using u1 by (simp add: q_def y_def)
    obtain r2 o2 where w: "os_write o1 q data = (r2, o2)" by (meson surj_pair)
    obtain wd where w2: "fs_upd o1 q (Some (FFile ([] @ wd) 384)) o2" "ok r2 \<longrightarrow> wd = data"
      using os_write_upd [OF w _ qn] u1 by (auto simp: fs_upd_def)
    have u2: "fs_upd os q (Some (FFile wd 384)) o2" using fs_upd_upd [OF u1 w2(1)] by simp
    have d: "dir_at ob ds" if "fs_upd os q m ob" for m ob
      using dir_at_upd [OF that] fq ds by simp
    have temp: "atomic_effect os ds x data mode False oc"
      if "fs_upd os q (Some (FFile a m)) ob" "discard_temp ob q (abs_path q) = oc" for ob oc a m
    proof -
      have "\<exists>k. fs_upd ob (ds @ [y]) k oc \<and> k \<in> {None, Some (FFile a m)}"
        using discard_temp_effect [OF d [OF that(1)] y(1), of a m q oc] that by (simp add: fs_upd_def q_def)
      then show ?thesis
        using fs_upd_upd [OF that(1) [unfolded q_def]] fq y(2)
        by (auto intro!: atomic_effect_temp simp: q_def)
    qed
    obtain r3 o3 where f: "os_fchmod o2 q mode = (r3, o3)" by (meson surj_pair)
    have u3: "fs_upd os q (Some (FFile wd (if ok r3 then mode else 384))) o3"
      using fs_upd_upd [OF u2 os_fchmod_upd [OF f _ qn]] u2 by (simp add: fs_upd_def)
    obtain r4 o4 where cl: "os_close o3 q = (r4, o4)" by (meson surj_pair)
    have u4: "fs_upd os q (Some (FFile wd (if ok r3 then mode else 384))) o4"
      using fs_upd_fs [OF u3 read_calls_fs(6) [OF cl]] .
    obtain r5 o5 where rm: "os_remove o4 (abs_path q) = (r5, o5)" by (meson surj_pair)
    obtain r6 o6 where rn: "os_rename o4 (abs_path q) ?t = (r6, o6)" by (meson surj_pair)
    have run': "(r, os') =
      (case r2 of Inl e \<Rightarrow> (Inl e, discard_temp o2 q (abs_path q))
       | Inr _ \<Rightarrow> (case r3 of Inl e \<Rightarrow> (Inl e, discard_temp o3 q (abs_path q))
                   | Inr _ \<Rightarrow> (case r4 of Inl e \<Rightarrow> (Inl e, o5) | Inr _ \<Rightarrow> (r6, o6))))"
    proof -
      have "os_create_temp os (abs_path ds) ?pre = (Inr (abs_path q, q), o1)"
        using c Inr nq nopre by (simp add: os_create_temp_def q_def y_def)
      then show ?thesis
        using run w f cl rm rn unfolding write_atomic_def db by (auto split: sum.splits)
    qed
    have rem: "atomic_effect os ds x data mode False o5"
    proof -
      have "fs_upd o4 (ds @ [y]) (if ok r5 then None else Some (FFile wd (if ok r3 then mode else 384))) o5"
        using rm d [OF u4] y(1) u4 by (intro os_remove_in_dir) (simp_all add: fs_upd_def q_def)
      then show ?thesis
        using fs_upd_upd [OF u4 [unfolded q_def]] fq y(2)
        by (intro atomic_effect_temp [where n = "if ok r5 then None else _"]) (auto simp: q_def)
    qed
    have ren: "atomic_effect os ds x data mode (ok r6) o6" if "ok r2" "ok r3"
    proof -
      have u: "fs_upd os q (Some (FFile data mode)) o4" using u4 w2(2) that by simp
      have "if ok r6 then lookup o6 = (lookup o4)(ds @ [y] := None, ds @ [x] := Some (FFile data mode))
          \<and> env_eq o4 o6 else same_fs o4 o6"
        using rn d [OF u] y x nd u by (intro os_rename_in_dir) (auto simp: fs_upd_def q_def)
      then show ?thesis
        using u fq y env_eq_trans
        by (auto simp: atomic_effect_def fs_upd_def same_fs_def q_def fun_eq_iff split: if_splits)
    qed
    show ?thesis
      using run' temp [OF u2] temp [OF u3] rem ren by (auto split: sum.splits)
  qed
qed

section \<open>Encoding of the document\<close>

lemma tree_names:
  "list_all plain_name [''size'', ''blob_id'', ''lfs_sha256'', ''lfs_size'', ''xet_hash'', ''format_version'',
     ''files'']"
  by code_simp

lemmas tree_name_facts [json_codec] = plain_names [OF tree_names, unfolded list.pred_inject]

definition tree_file_wf :: "tree_file \<Rightarrow> bool" where
  "tree_file_wf f = (int64_range (tf_size f) \<and> int64_range (tf_lfs_size f) \<and> valid_utf8 (tf_blob f)
     \<and> valid_utf8 (tf_lfs_sha f) \<and> valid_utf8 (tf_xet f))"

definition tree_wf :: "tree \<Rightarrow> bool" where
  "tree_wf t = (int64_range (t_version t) \<and> distinct (map fst (t_files t))
     \<and> (\<forall>(k, f) \<in> set (t_files t). valid_utf8 k \<and> tree_file_wf f))"

lemma dec_enc_tree_file: "tree_file_wf f \<Longrightarrow> dec_tree_file (enc_tree_file f) = Inr f"
  by (simp add: tree_file_wf_def dec_tree_file_def enc_tree_file_def json_codec)

lemma json_wf_tree_file: "tree_file_wf f \<Longrightarrow> json_wf (enc_tree_file f)"
  by (auto simp: tree_file_wf_def enc_tree_file_def omit_if_def json_codec json_number_int_dec
      int_dec_num_chars)

lemma map_of_map_set [simp]: "map_of (map_set k v m) = (map_of m)(k \<mapsto> v)"
  by (rule ext) (simp add: map_set_def map_of_filter_key)

lemma distinct_map_set: "distinct (map fst m) \<Longrightarrow> distinct (map fst (map_set k v m))"
  by (auto simp: map_set_def distinct_map_filter)

lemma dec_files_enc:
  "\<forall>(k, f) \<in> set fs. tree_file_wf f \<Longrightarrow> distinct (map fst fs) \<Longrightarrow> fst ` set fs \<inter> fst ` set m = {} \<Longrightarrow>
   \<exists>m'. dec_files m (map (\<lambda>(k, f). (k, enc_tree_file f)) fs) = Inr m' \<and> map_of m' = map_of m ++ map_of fs"
proof (induction fs arbitrary: m)
  case Nil
  then show ?case by simp
next
  case (Cons kf fs)
  obtain k f where kf: "kf = (k, f)" by (cases kf)
  have "fst ` set fs \<inter> fst ` set (map_set k f m) = {}"
    using Cons.prems kf by (auto simp: map_set_def)
  then obtain m' where "dec_files (map_set k f m) (map (\<lambda>(k, f). (k, enc_tree_file f)) fs) = Inr m'"
    "map_of m' = map_of (map_set k f m) ++ map_of fs"
    using Cons.IH [of "map_set k f m"] Cons.prems by (auto simp del: map_of_map_set)
  moreover have "map_of fs k = None"
    using Cons.prems(2) kf by (simp add: map_of_eq_None_iff)
  ultimately show ?case
    using Cons.prems(1) kf by (auto simp: dec_enc_tree_file map_add_def fun_eq_iff split: option.splits)
qed

lemma dec_enc_tree:
  assumes "tree_wf t"
  shows "\<exists>t'. unmarshal dec_tree (json_print_indent (enc_tree t)) = Inr t'
    \<and> t_version t' = t_version t \<and> map_of (t_files t') = map_of (t_files t)"
proof -
  let ?fs = "sort_key fst (t_files t)"
  have d: "distinct (map fst (t_files t))" using assms by (simp add: tree_wf_def)
  then have ds: "distinct (map fst ?fs)" by (metis mset_eq_imp_distinct_iff mset_map mset_sort)
  have "json_wf (enc_tree t)"
    using assms json_wf_tree_file
    by (auto simp: tree_wf_def enc_tree_def json_codec json_number_int_dec int_dec_num_chars)
  moreover obtain m' where "dec_files [] (map (\<lambda>(k, f). (k, enc_tree_file f)) ?fs) = Inr m'"
    and m': "map_of m' = map_of ?fs"
    using dec_files_enc [of ?fs "[]"] assms ds by (auto simp: tree_wf_def)
  moreover have "map_of ?fs = map_of (t_files t)"
    using map_of_inject_set [OF ds d] by simp
  ultimately show ?thesis
    using assms by (simp add: unmarshal_print_indent dec_tree_def enc_tree_def json_codec tree_wf_def
        dec_file_map_def)
qed

section \<open>Merging\<close>

lemma merge_file_other: "q \<noteq> fm_path f \<Longrightarrow> map_of (merge_file doc f) q = map_of doc q"
  by (simp add: merge_file_def Let_def)

definition prev_file :: "(string \<rightharpoonup> tree_file) \<Rightarrow> string \<Rightarrow> tree_file" where
  "prev_file m q = (case m q of Some f \<Rightarrow> f
     | None \<Rightarrow> \<lparr>tf_size = 0, tf_blob = [], tf_lfs_sha = [], tf_lfs_size = 0, tf_xet = []\<rparr>)"

text \<open>The record a manifest entry and an earlier record of the same path are merged into.\<close>

definition merged :: "tree_file \<Rightarrow> file_manifest \<Rightarrow> tree_file" where
  "merged prev f =
     \<lparr>tf_size = fm_size f, tf_blob = fm_blob f,
      tf_lfs_sha = (if fm_lfs f then fm_sha256 f else tf_lfs_sha prev),
      tf_lfs_size = (if fm_lfs f then fm_size f else tf_lfs_size prev),
      tf_xet = (if fm_xet f = [] then tf_xet prev else fm_xet f)\<rparr>"

lemma merge_file_same:
  "map_of (merge_file doc f) (fm_path f) = Some (merged (prev_file (map_of doc) (fm_path f)) f)"
  by (auto simp: merge_file_def Let_def merged_def prev_file_def split: option.split)

lemma merge_files_other:
  "q \<notin> fm_path ` set fs \<Longrightarrow> map_of (foldl merge_file doc fs) q = map_of doc q"
  by (induction fs arbitrary: doc) (auto simp: merge_file_other)

lemma merge_files_same:
  assumes "distinct (map fm_path fs)" "f \<in> set fs"
  shows "map_of (foldl merge_file doc fs) (fm_path f)
    = Some (merged (prev_file (map_of doc) (fm_path f)) f)"
  using assms
proof (induction fs arbitrary: doc)
  case (Cons g fs)
  show ?case
  proof (cases "f = g")
    case True
    with Cons.prems have "fm_path g \<notin> fm_path ` set fs" by auto
    with True show ?thesis by (simp add: merge_files_other merge_file_same)
  next
    case False
    with Cons.prems have "f \<in> set fs" by simp
    moreover from this Cons.prems have "fm_path f \<noteq> fm_path g" by (simp, metis image_eqI)
    ultimately show ?thesis using Cons by (simp add: prev_file_def merge_file_other)
  qed
qed simp

lemma distinct_merge: "distinct (map fst doc) \<Longrightarrow> distinct (map fst (foldl merge_file doc fs))"
  by (induction fs arbitrary: doc) (auto simp: merge_file_def Let_def distinct_map_set)

lemma foldl_map_set:
  "distinct (map fst xs) \<Longrightarrow> map_of (foldl (\<lambda>m (k, f). map_set k f m) m xs) = map_of m ++ map_of xs"
proof (induction xs arbitrary: m)
  case (Cons kf xs)
  obtain k f where kf: "kf = (k, f)" by (cases kf)
  have "map_of xs k = None" using Cons.prems kf by (simp add: map_of_eq_None_iff)
  then show ?case using Cons kf by (auto simp: map_add_def fun_eq_iff split: option.splits)
qed simp

definition entries_wf :: "(string \<times> tree_file) list \<Rightarrow> bool" where
  "entries_wf m = (distinct (map fst m) \<and> (\<forall>(k, f) \<in> set m. valid_utf8 k \<and> tree_file_wf f))"

lemma entries_wf_set: "entries_wf m \<Longrightarrow> valid_utf8 k \<Longrightarrow> tree_file_wf f \<Longrightarrow> entries_wf (map_set k f m)"
  by (auto simp: entries_wf_def distinct_map_set) (auto simp: map_set_def)

lemma entries_wf_copy: "entries_wf xs \<Longrightarrow> entries_wf m \<Longrightarrow> entries_wf (foldl (\<lambda>m (k, f). map_set k f m) m xs)"
  by (induction xs arbitrary: m) (auto simp: entries_wf_def [of "_ # _"] intro: entries_wf_set
      dest: entries_wf_def [THEN iffD2, OF conjI])

lemma merge_file_eq: "merge_file doc f = map_set (fm_path f) (merged (prev_file (map_of doc) (fm_path f)) f) doc"
  by (auto simp: merge_file_def Let_def merged_def prev_file_def split: option.split)

lemma merged_wf: "tree_file_wf prev \<Longrightarrow> manifest_wf f \<Longrightarrow> tree_file_wf (merged prev f)"
  by (simp add: tree_file_wf_def manifest_wf_def merged_def)

lemma prev_file_wf: "entries_wf m \<Longrightarrow> tree_file_wf (prev_file (map_of m) q)"
  by (auto simp: prev_file_def entries_wf_def tree_file_wf_def int64_range_def split: option.split
      dest!: map_of_SomeD)

lemma merge_files_wf:
  "entries_wf doc \<Longrightarrow> \<forall>f \<in> set fs. manifest_wf f \<Longrightarrow> entries_wf (foldl merge_file doc fs)"
proof (induction fs arbitrary: doc)
  case (Cons f fs)
  then have "entries_wf (merge_file doc f)"
    by (auto simp: merge_file_eq manifest_wf_def intro!: entries_wf_set merged_wf prev_file_wf)
  with Cons show ?case by simp
qed simp

section \<open>Reading and writing the document\<close>

definition stored_tree :: "os \<Rightarrow> path \<Rightarrow> tree option" where
  "stored_tree os q =
     (case lookup os q of
        Some (FFile d _) \<Rightarrow> (case unmarshal dec_tree d of Inr t \<Rightarrow> Some t | Inl _ \<Rightarrow> None)
      | _ \<Rightarrow> None)"

definition stored_files :: "os \<Rightarrow> path \<Rightarrow> string \<rightharpoonup> tree_file" where
  "stored_files os q = (case stored_tree os q of None \<Rightarrow> Map.empty | Some t \<Rightarrow> map_of (t_files t))"

definition no_faults :: "os \<Rightarrow> bool" where
  "no_faults os = (\<forall>n. faults os n = None)"

lemma json_name: "sep \<notin> set c \<Longrightarrow> norm_seg (c @ ''.json'')"
  by (auto simp: norm_seg_def append_eq_Cons_conv)

lemma read_tree_at:
  assumes "dir_at os ts" "p_trees p = abs_path ts" "sep \<notin> set commit" "no_faults os"
    and "lookup os (ts @ [commit @ ''.json'']) \<in> {None} \<union> range (\<lambda>(d, m). Some (FFile d m))"
  shows "\<exists>r. read_tree p commit os = (r, tick os) \<and> (case stored_tree os (ts @ [commit @ ''.json'']) of
      Some t \<Rightarrow> r = Inr (Some t) | None \<Rightarrow> r = Inr None \<or> (\<exists>e. r = Inl e))"
proof -
  have x: "norm_seg (commit @ ''.json'')" using json_name [OF assms(3)] .
  have ts: "list_all norm_seg ts" using assms(1) by (simp add: dir_at_def)
  have t: "tree_path p commit = abs_path (ts @ [commit @ ''.json''])"
    using join_path_seg [OF ts x] by (simp add: tree_path_def assms(2))
  have r: "resolve os True (abs_path (ts @ [commit @ ''.json''])) = Inr (ts @ [commit @ ''.json''])"
    using assms(5) by (intro resolve_in_dir [OF assms(1) x]) auto
  show ?thesis
    using assms(4,5)
    by (auto simp: read_tree_def t os_readfile_def syscall_def no_faults_def at_path_def r stored_tree_def
        split: option.splits sum.splits)
qed

lemma copy_stored:
  assumes "\<And>t. st = Some t \<Longrightarrow> entries_wf (t_files t)"
  defines "doc \<equiv> (case st of Some t \<Rightarrow> foldl (\<lambda>m (k, f). map_set k f m) [] (t_files t) | None \<Rightarrow> [])"
  shows "entries_wf doc \<and> map_of doc = (case st of None \<Rightarrow> Map.empty | Some t \<Rightarrow> map_of (t_files t))"
proof (cases st)
  case None
  then show ?thesis by (simp add: doc_def entries_wf_def)
next
  case (Some t)
  with assms(1) have t: "entries_wf (t_files t)" by blast
  then have "map_of doc = map_of (t_files t)" using Some foldl_map_set [of "t_files t" "[]"]
    by (simp add: doc_def entries_wf_def)
  moreover have "entries_wf doc" using Some entries_wf_copy [OF t, of "[]"] by (simp add: doc_def entries_wf_def)
  ultimately show ?thesis using Some by simp
qed

text \<open>Reading under any faults: nothing changes, and a record that is returned is the stored one.\<close>

lemma read_tree_stored:
  assumes "dir_at os ts" "p_trees p = abs_path ts" "sep \<notin> set commit"
    and "lookup os (ts @ [commit @ ''.json'']) \<in> {None} \<union> range (\<lambda>(d, m). Some (FFile d m))"
    and "read_tree p commit os = (r, os')"
  shows "same_fs os os'" and "r = Inr (Some t) \<Longrightarrow> stored_tree os (ts @ [commit @ ''.json'']) = Some t"
proof -
  have x: "norm_seg (commit @ ''.json'')" using json_name [OF assms(3)] .
  have ts: "list_all norm_seg ts" using assms(1) by (simp add: dir_at_def)
  have t: "tree_path p commit = abs_path (ts @ [commit @ ''.json''])"
    using join_path_seg [OF ts x] by (simp add: tree_path_def assms(2))
  have rs: "resolve os True (abs_path (ts @ [commit @ ''.json''])) = Inr (ts @ [commit @ ''.json''])"
    using assms(4) by (intro resolve_in_dir [OF assms(1) x]) auto
  show "same_fs os os'"
    using assms(5) read_calls_fs(4) by (auto simp: read_tree_def Let_def split: prod.splits sum.splits if_splits)
  show "stored_tree os (ts @ [commit @ ''.json'']) = Some t" if "r = Inr (Some t)"
    using assms(4,5) that
    by (auto simp: read_tree_def Let_def t os_readfile_def syscall_def at_path_def rs stored_tree_def
        split: option.splits sum.splits if_splits)
qed

text \<open>What \<open>WriteTree\<close> gets to see of the stored record: nothing when it cannot be read or parsed.\<close>

definition record_read :: "paths \<Rightarrow> string \<Rightarrow> os \<Rightarrow> string \<rightharpoonup> tree_file" where
  "record_read p commit os =
     (case fst (read_tree p commit (snd (os_mkdir_all os (p_trees p)))) of
        Inr (Some t) \<Rightarrow> map_of (t_files t)
      | _ \<Rightarrow> Map.empty)"

lemma record_read_stored:
  fixes ts commit
  defines "q \<equiv> ts @ [commit @ ''.json'']"
  assumes p: "p_trees p = abs_path ts" "plain os ts" "sep \<notin> set commit"
    and node: "lookup os q \<in> {None} \<union> range (\<lambda>(d, m). Some (FFile d m))"
    and mk: "ok (fst (os_mkdir_all os (p_trees p)))"
  shows "record_read p commit os = stored_files os q \<or> record_read p commit os = Map.empty \<and> \<not> no_faults os"
proof -
  obtain r1 o1 where m: "os_mkdir_all os (p_trees p) = (r1, o1)" by (meson surj_pair)
  have "dirs_added os ts o1 \<and> dir_at o1 ts" using mkdir_all_effect [of os ts r1 o1] m p(1,2) mk by simp
  then have d: "dirs_added os ts o1" "dir_at o1 ts" by simp_all
  have l: "lookup o1 q = lookup os q" by (rule dirs_added_outside [OF d(1)]) (simp add: q_def)
  then have st: "stored_tree o1 q = stored_tree os q" by (simp add: stored_tree_def)
  obtain r o2 where rd: "read_tree p commit o1 = (r, o2)" by (meson surj_pair)
  have n1: "lookup o1 (ts @ [commit @ ''.json'']) \<in> {None} \<union> range (\<lambda>(d, m). Some (FFile d m))"
    using node l by (simp add: q_def)
  show ?thesis
  proof (cases "\<exists>t. r = Inr (Some t)")
    case True
    then obtain t where t: "r = Inr (Some t)" by blast
    then have "stored_tree os q = Some t"
      using read_tree_stored(2) [OF d(2) p(1,3) n1 rd t] st by (simp add: q_def)
    with t rd m show ?thesis by (simp add: record_read_def stored_files_def)
  next
    case False
    then have e: "record_read p commit os = Map.empty"
      using rd m by (auto simp: record_read_def split: sum.splits option.splits)
    show ?thesis
    proof (cases "no_faults os")
      case True
      then have "no_faults o1" using d(1) by (auto simp: dirs_added_def env_eq_def no_faults_def)
      from read_tree_at [OF d(2) p(1,3) this n1] False rd st have "stored_tree os q = None"
        by (auto simp: q_def split: option.splits)
      with e show ?thesis by (simp add: stored_files_def)
    qed (use e in simp)
  qed
qed

text \<open>The outcome of \<open>WriteTree\<close> under any faults.\<close>

lemma write_tree_outcome:
  fixes ts commit
  defines "q \<equiv> ts @ [commit @ ''.json'']"
  assumes p: "p_trees p = abs_path ts" "plain os ts" "sep \<notin> set commit"
    and rnd: "\<And>n. sep \<notin> set (rands os n)"
    and node: "lookup os q \<in> {None} \<union> range (\<lambda>(d, m). Some (FFile d m))"
    and old: "\<And>t. stored_tree os q = Some t \<Longrightarrow> entries_wf (t_files t)"
    and new: "\<forall>f \<in> set fs. manifest_wf f"
    and run: "write_tree p commit fs os = (r, os')"
  shows "if ok r then ok (fst (os_mkdir_all os (p_trees p)))
           \<and> (\<exists>t doc. stored_tree os' q = Some t \<and> map_of doc = record_read p commit os
                \<and> map_of (t_files t) = map_of (foldl merge_file doc fs))
         else lookup os' q = lookup os q"
proof -
  obtain r1 o1 where mk: "os_mkdir_all os (p_trees p) = (r1, o1)" by (meson surj_pair)
  have d1: "dirs_added os ts o1" "ok r1 \<Longrightarrow> dir_at o1 ts" using mkdir_all_effect [of os ts r1 o1] mk p by auto
  have l1: "lookup o1 q = lookup os q" by (rule dirs_added_outside [OF d1(1)]) (simp add: q_def)
  show ?thesis
  proof (cases r1)
    case (Inl e)
    with run mk l1 show ?thesis by (auto simp: write_tree_def)
  next
    case (Inr u)
    then have dir1: "dir_at o1 ts" using d1(2) by simp
    have x: "norm_seg (commit @ ''.json'')" using json_name [OF p(3)] .
    have nts: "list_all norm_seg ts" using dir1 by (simp add: dir_at_def)
    have target: "tree_path p commit = abs_path q"
      using join_path_seg [OF nts x] by (simp add: tree_path_def p(1) q_def)
    obtain r2 o2 where rd: "read_tree p commit o1 = (r2, o2)" by (meson surj_pair)
    have n1: "lookup o1 (ts @ [commit @ ''.json'']) \<in> {None} \<union> range (\<lambda>(d, m). Some (FFile d m))"
      using node l1 by (simp add: q_def)
    note rs = read_tree_stored [OF dir1 p(1,3) n1 rd]
    let ?st = "case r2 of Inr (Some t) \<Rightarrow> Some t | _ \<Rightarrow> None"
    let ?old = "case ?st of Some t \<Rightarrow> foldl (\<lambda>m (k, f). map_set k f m) [] (t_files t) | None \<Rightarrow> []"
    let ?doc = "\<lparr>t_version = TreeFormatVersion, t_files = foldl merge_file ?old fs\<rparr>"
    have "entries_wf (t_files t)" if "?st = Some t" for t
      using that rs(2) [of t] l1 old by (auto simp: stored_tree_def q_def split: sum.splits option.splits)
    then have doc0: "entries_wf ?old" "map_of ?old = (case ?st of None \<Rightarrow> Map.empty | Some t \<Rightarrow> map_of (t_files t))"
      using copy_stored [of ?st] by auto
    have rec: "map_of ?old = record_read p commit os"
      unfolding doc0(2) using rd mk by (auto simp: record_read_def split: sum.splits option.splits)
    have "(case r2 of Inr (Some t) \<Rightarrow> foldl (\<lambda>m (k, f). map_set k f m) [] (t_files t) | _ \<Rightarrow> []) = ?old"
      by (auto split: sum.splits option.splits)
    moreover obtain r3 o3 where
      wr: "write_atomic o2 (abs_path q) (json_print_indent (enc_tree ?doc)) 384 = (r3, o3)" by (meson surj_pair)
    ultimately have fin: "ok r = ok r3" "os' = o3"
      using run mk Inr rd by (auto simp: write_tree_def target Let_def split: sum.splits prod.splits)
    have "rands o2 = rands os" using rs(1) d1(1) by (simp add: same_fs_def dirs_added_def env_eq_def)
    then have eff: "atomic_effect o2 ts (commit @ ''.json'') (json_print_indent (enc_tree ?doc)) 384 (ok r3) o3"
      using write_atomic_effect [OF wr [unfolded q_def] _ x] dir1 dir_at_cong [OF rs(1), of ts] n1 rs(1) rnd
      by (auto simp: same_fs_def)
    have l2: "lookup o2 q = lookup os q" using rs(1) l1 by (simp add: same_fs_def)
    have "entries_wf (t_files ?doc)" using merge_files_wf [OF doc0(1) new] by simp
    then have "tree_wf ?doc" by (simp add: tree_wf_def entries_wf_def TreeFormatVersion_def int64_range_def)
    from dec_enc_tree [OF this] obtain t where
      t: "unmarshal dec_tree (json_print_indent (enc_tree ?doc)) = Inr t" "map_of (t_files t) = map_of (t_files ?doc)"
      by blast
    show ?thesis
    proof (cases "ok r3")
      case True
      with eff have "lookup o3 q = Some (FFile (json_print_indent (enc_tree ?doc)) 384)"
        by (simp add: atomic_effect_def fs_upd_def q_def)
      then have "stored_tree os' q = Some t" using t(1) fin(2) by (simp add: stored_tree_def)
      then have "\<exists>t doc. stored_tree os' q = Some t \<and> map_of doc = record_read p commit os
          \<and> map_of (t_files t) = map_of (foldl merge_file doc fs)"
        using t(2) rec by (intro exI [of _ t] exI [of _ ?old]) simp
      with True fin(1) mk Inr show ?thesis by simp
    next
      case False
      with eff consider "same_fs o2 o3" | y d m where "temp_name (commit @ ''.json'') y" "fs_upd o2 (ts @ [y]) (Some (FFile d m)) o3"
        by (auto simp: atomic_effect_def)
      then have "lookup o3 q = lookup o2 q"
        by cases (auto simp: same_fs_def fs_upd_def q_def temp_name_def has_prefix_def)
      with False fin l2 show ?thesis by simp
    qed
  qed
qed

text \<open>Nothing is lost by merging: Xet hashes stay, and so do LFS hashes unless the manifest has an LFS file without one.\<close>

lemma merged_keeps:
  "tf_xet prev \<noteq> [] \<Longrightarrow> tf_xet (merged prev f) \<noteq> []"
  "tf_lfs_sha prev \<noteq> [] \<Longrightarrow> fm_lfs f \<longrightarrow> fm_sha256 f \<noteq> [] \<Longrightarrow> tf_lfs_sha (merged prev f) \<noteq> []"
  by (simp_all add: merged_def)

section \<open>Properties\<close>

text \<open>C7: \<open>writeAtomic\<close> is all or nothing under any pattern of I/O failures: on success the target holds
  exactly the new bytes and mode and nothing else changed; on an error every existing file, the target
  included, is untouched, and at most one new temporary file is left.\<close>

theorem write_atomic_all_or_nothing:
  assumes "write_atomic os (abs_path (ds @ [x])) data mode = (r, os')"
    and "dir_at os ds" and "norm_seg x" and "lookup os (ds @ [x]) \<noteq> Some FDir"
    and "\<forall>n. sep \<notin> set (rands os n)"
  shows "(ok r \<longrightarrow> lookup os' = (lookup os)(ds @ [x] \<mapsto> FFile data mode))
    \<and> (\<not> ok r \<longrightarrow> (\<forall>q. lookup os q \<noteq> None \<or> q = ds @ [x] \<longrightarrow> lookup os' q = lookup os q)
         \<and> (\<exists>y. \<forall>q. lookup os' q \<noteq> lookup os q \<longrightarrow> q = ds @ [y] \<and> has_prefix y (x @ ''.tmp-'')))"
proof -
  have e: "atomic_effect os ds x data mode (ok r) os'"
    using write_atomic_effect [OF assms(1-4)] assms(5) by blast
  show ?thesis
  proof (cases "ok r")
    case True
    then show ?thesis using e by (simp add: atomic_effect_def fs_upd_def)
  next
    case False
    with e consider "same_fs os os'" | y d m where "temp_name x y" "lookup os (ds @ [y]) = None"
        "fs_upd os (ds @ [y]) (Some (FFile d m)) os'"
      by (auto simp: atomic_effect_def)
    then show ?thesis
    proof cases
      case 1
      then show ?thesis using False by (simp add: same_fs_def)
    next
      case 2
      then have "y \<noteq> x" by (auto simp: temp_name_def has_prefix_def)
      with 2 False show ?thesis by (auto simp: fs_upd_def temp_name_def)
    qed
  qed
qed

definition demo_os :: os where
  "demo_os = \<lparr>nodes = [([''r''], FDir), ([''r'', ''main''], FFile ''old'' 420)],
     cwd = [], ticks = 0, faults = (\<lambda>n. if n = 2 then Some EIO else None), rands = (\<lambda>_. ''7''),
     mtimes = (\<lambda>_ _. 0), partials = (\<lambda>_. 1)\<rparr>"

lemma demo_dir: "dir_at demo_os [''r'']"
  by (auto simp: dir_at_def demo_os_def lookup_def norm_seg_def le_Suc_eq)

theorem write_atomic_all_or_nothing_witness:
  "let (r, os') = write_atomic demo_os (abs_path [''r'', ''main'']) ''new'' 420
   in ok r \<or> lookup os' [''r'', ''main''] = Some (FFile ''old'' 420)"
proof -
  obtain r os' where w: "write_atomic demo_os (abs_path ([''r''] @ [''main''])) ''new'' 420 = (r, os')"
    by (meson surj_pair)
  have n: "norm_seg ''main''" "lookup demo_os ([''r''] @ [''main'']) = Some (FFile ''old'' 420)"
    "\<forall>n. sep \<notin> set (rands demo_os n)"
    by (simp_all add: norm_seg_def lookup_def demo_os_def)
  from write_atomic_all_or_nothing [OF w demo_dir n(1) _ n(3)] n(2) w show ?thesis by auto
qed

text \<open>C6: what \<open>WriteTree\<close> does to the record of a commit, under any pattern of I/O failures. If it reports an
  error the stored record is untouched. If it succeeds the new record is the one it could read, with the manifest merged
  in: for every file of the manifest its size and blob, with the LFS and Xet data of the manifest or, where that has none, of
  the earlier record; every other path as it was; so no Xet hash that was read is lost, and no LFS hash unless the manifest
  itself declares an LFS file without a hash. What it could read is the stored record, except that a record that does not
  parse, or that a failing system call keeps it from reading, counts as empty and is replaced.\<close>

theorem write_tree_keeps_metadata:
  assumes "p_trees p = abs_path ts" and "plain os ts" and "sep \<notin> set commit"
    and "\<forall>n. sep \<notin> set (rands os n)"
    and "lookup os (ts @ [commit @ ''.json'']) \<in> {None} \<union> range (\<lambda>(d, m). Some (FFile d m))"
    and "\<forall>t. stored_tree os (ts @ [commit @ ''.json'']) = Some t \<longrightarrow> entries_wf (t_files t)"
    and "\<forall>f \<in> set fs. manifest_wf f" and "distinct (map fm_path fs)"
    and "write_tree p commit fs os = (r, os')"
  shows "(\<not> ok r \<longrightarrow> lookup os' (ts @ [commit @ ''.json'']) = lookup os (ts @ [commit @ ''.json'']))
    \<and> (ok r \<longrightarrow>
        (record_read p commit os = stored_files os (ts @ [commit @ ''.json''])
         \<or> record_read p commit os = Map.empty \<and> \<not> no_faults os)
        \<and> (\<exists>t. stored_tree os' (ts @ [commit @ ''.json'']) = Some t
            \<and> (\<forall>f \<in> set fs. map_of (t_files t) (fm_path f) = Some (merged (prev_file (record_read p commit os) (fm_path f)) f))
            \<and> (\<forall>x. x \<notin> fm_path ` set fs \<longrightarrow> map_of (t_files t) x = record_read p commit os x)
            \<and> (\<forall>x tf. record_read p commit os x = Some tf \<longrightarrow> (\<exists>tf'. map_of (t_files t) x = Some tf'
                \<and> (tf_xet tf \<noteq> [] \<longrightarrow> tf_xet tf' \<noteq> [])
                \<and> (tf_lfs_sha tf \<noteq> [] \<longrightarrow> (\<forall>f \<in> set fs. fm_path f = x \<and> fm_lfs f \<longrightarrow> fm_sha256 f \<noteq> []) \<longrightarrow>
                     tf_lfs_sha tf' \<noteq> [])))))"
proof -
  let ?q = "ts @ [commit @ ''.json'']" and ?m = "record_read p commit os"
  note out = write_tree_outcome [OF assms(1-3) _ assms(5) _ assms(7,9)]
  have out: "if ok r then ok (fst (os_mkdir_all os (p_trees p)))
      \<and> (\<exists>t doc. stored_tree os' ?q = Some t \<and> map_of doc = ?m \<and> map_of (t_files t) = map_of (foldl merge_file doc fs))
      else lookup os' ?q = lookup os ?q" using out assms(4,6) by blast
  show ?thesis
  proof (cases "ok r")
    case False
    with out show ?thesis by simp
  next
    case True
    with out obtain t doc where mk: "ok (fst (os_mkdir_all os (p_trees p)))" and t: "stored_tree os' ?q = Some t"
      "map_of doc = ?m" "map_of (t_files t) = map_of (foldl merge_file doc fs)" by auto
    have same: "map_of (t_files t) (fm_path f) = Some (merged (prev_file ?m (fm_path f)) f)" if "f \<in> set fs" for f
      using merge_files_same [OF assms(8) that, of doc] t(2,3) by simp
    have other: "map_of (t_files t) x = ?m x" if "x \<notin> fm_path ` set fs" for x
      using merge_files_other [OF that, of doc] t(2,3) by simp
    have kept: "\<exists>tf'. map_of (t_files t) x = Some tf' \<and> (tf_xet tf \<noteq> [] \<longrightarrow> tf_xet tf' \<noteq> [])
        \<and> (tf_lfs_sha tf \<noteq> [] \<longrightarrow> (\<forall>f \<in> set fs. fm_path f = x \<and> fm_lfs f \<longrightarrow> fm_sha256 f \<noteq> []) \<longrightarrow>
             tf_lfs_sha tf' \<noteq> [])" if "?m x = Some tf" for x tf
    proof (cases "x \<in> fm_path ` set fs")
      case True
      then obtain f where f: "f \<in> set fs" "fm_path f = x" by blast
      with same [OF f(1)] that merged_keeps [of tf f] show ?thesis by (auto simp: prev_file_def)
    qed (use that other in simp)
    show ?thesis
      using True t(1) same other kept record_read_stored [OF assms(1-3,5) mk] by blast
  qed
qed

definition tree_paths :: paths where
  "tree_paths = \<lparr>p_hub = [], p_repo = [], p_type = Model, p_dir = [], p_blobs = [], p_snapshots = [],
     p_refs = [], p_trees = ''/r''\<rparr>"

definition calm_os :: os where "calm_os = demo_os\<lparr>faults := (\<lambda>_. None)\<rparr>"

theorem write_tree_keeps_metadata_witness:
  "\<exists>os' t. write_tree tree_paths ''c'' [sample_manifest] calm_os = (Inr (), os')
    \<and> stored_tree os' [''r'', ''c.json''] = Some t
    \<and> map_of (t_files t) (fm_path sample_manifest) = Some \<lparr>tf_size = 3, tf_blob = ''abc'', tf_lfs_sha = ''00'',
        tf_lfs_size = 3, tf_xet = []\<rparr>"
proof -
  let ?w = "write_tree tree_paths ''c'' [sample_manifest] calm_os"
  have "ok (fst ?w)"
    unfolding write_tree_def write_atomic_def os_create_temp_def eval_nat_numeral create_temp.simps by code_simp
  then obtain os' where w: "?w = (Inr (), os')" by (cases ?w) (auto simp: ok_def split: sum.splits)
  have l: "lookup calm_os [''r'', ''c.json''] = None" by (simp add: lookup_def calm_os_def demo_os_def)
  have "plain calm_os [''r'']"
    by (auto simp: plain_def calm_os_def demo_os_def lookup_def norm_seg_def le_Suc_eq)
  moreover have "stored_tree calm_os [''r'', ''c.json''] = None" by (simp add: stored_tree_def l)
  moreover have "manifest_wf sample_manifest"
    by (simp add: manifest_wf_def sample_manifest_def ascii_utf8 int64_range_def)
  moreover have "fst (read_tree tree_paths ''c'' (snd (os_mkdir_all calm_os (p_trees tree_paths)))) = Inr None" by code_simp
  then have "record_read tree_paths ''c'' calm_os = Map.empty" by (simp add: record_read_def)
  ultimately obtain t where t: "stored_tree os' [''r'', ''c.json''] = Some t"
    "map_of (t_files t) (fm_path sample_manifest)
       = Some (merged (prev_file Map.empty (fm_path sample_manifest)) sample_manifest)"
    using w l write_tree_keeps_metadata [of tree_paths "[''r'']" calm_os "''c''" "[sample_manifest]" "Inr ()" os']
    by (auto simp: tree_paths_def abs_path_def calm_os_def demo_os_def)
  then show ?thesis using w by (auto simp: merged_def prev_file_def sample_manifest_def)
qed

text \<open>\<open>EnrichFromTree\<close> only adds metadata: it changes nothing but \<open>LFS\<close> and \<open>XetHash\<close>, never turns
  \<open>LFS\<close> off, never empties a Xet hash, and marks as LFS every file whose record has LFS or Xet data.\<close>

theorem enrich_only_adds:
  assumes "enrich_from_tree p commit fs os = (fs', os')"
  shows "same_fs os os' \<and> list_all2 (\<lambda>f f'. f' = f\<lparr>fm_lfs := fm_lfs f', fm_xet := fm_xet f'\<rparr>
      \<and> (fm_lfs f \<longrightarrow> fm_lfs f') \<and> (fm_xet f \<noteq> [] \<longrightarrow> fm_xet f' \<noteq> [])
      \<and> (\<forall>t tf. fst (read_tree p commit os) = Inr (Some t) \<and> map_of (t_files t) (fm_path f) = Some tf
            \<and> (tf_lfs_sha tf \<noteq> [] \<or> tf_xet tf \<noteq> []) \<longrightarrow> fm_lfs f')) fs fs'"
proof -
  obtain r o1 where rd: "read_tree p commit os = (r, o1)" by (meson surj_pair)
  have "same_fs os o1"
    using rd read_calls_fs(4) by (auto simp: read_tree_def Let_def split: prod.splits sum.splits if_splits)
  moreover have "os' = o1" using assms rd by (auto simp: enrich_from_tree_def split: sum.splits option.splits)
  moreover have "fs' = (case r of Inr (Some t) \<Rightarrow> map (enrich_file t) fs | _ \<Rightarrow> fs)"
    using assms rd by (auto simp: enrich_from_tree_def split: sum.splits option.splits)
  ultimately show ?thesis using rd
    by (auto simp: list_all2_conv_all_nth enrich_file_def Let_def split: option.splits sum.splits)
qed

definition xet_tree :: tree where
  "xet_tree = \<lparr>t_version = 1, t_files = [(''config.json'',
     \<lparr>tf_size = 3, tf_blob = ''abc'', tf_lfs_sha = [], tf_lfs_size = 0, tf_xet = ''x''\<rparr>)]\<rparr>"

definition xet_os :: os where
  "xet_os = calm_os\<lparr>nodes := [([''r''], FDir),
     ([''r'', ''c.json''], FFile (json_print_indent (enc_tree xet_tree)) 384)]\<rparr>"

theorem enrich_only_adds_witness:
  "fm_lfs (hd (fst (enrich_from_tree tree_paths ''c'' [sample_manifest\<lparr>fm_lfs := False\<rparr>] xet_os)))"
proof -
  let ?f = "sample_manifest\<lparr>fm_lfs := False\<rparr>"
  obtain fs' os' where e: "enrich_from_tree tree_paths ''c'' [?f] xet_os = (fs', os')"
    by (meson surj_pair)
  have "tree_wf xet_tree"
    by (simp add: tree_wf_def tree_file_wf_def xet_tree_def int64_range_def ascii_utf8)
  from dec_enc_tree [OF this] obtain t where
    t: "unmarshal dec_tree (json_print_indent (enc_tree xet_tree)) = Inr t" "map_of (t_files t) = map_of (t_files xet_tree)"
    by blast
  have d: "dir_at xet_os [''r'']"
    by (auto simp: dir_at_def xet_os_def lookup_def norm_seg_def le_Suc_eq)
  have p: "p_trees tree_paths = abs_path [''r'']" "sep \<notin> set ''c''" "no_faults xet_os"
    by (simp_all add: tree_paths_def abs_path_def no_faults_def xet_os_def calm_os_def)
  have l: "lookup xet_os ([''r''] @ [''c'' @ ''.json'']) = Some (FFile (json_print_indent (enc_tree xet_tree)) 384)"
    by (simp add: lookup_def xet_os_def)
  then have "stored_tree xet_os ([''r''] @ [''c'' @ ''.json'']) = Some t" using t(1) by (simp add: stored_tree_def)
  then have "fst (read_tree tree_paths ''c'' xet_os) = Inr (Some t)"
  proof -
    have "lookup xet_os ([''r''] @ [''c'' @ ''.json'']) \<in> {None} \<union> range (\<lambda>(d, m). Some (FFile d m))"
      using l by auto
    from read_tree_at [OF d p this] show ?thesis
      using \<open>stored_tree xet_os _ = Some t\<close> by auto
  qed
  with enrich_only_adds [OF e] t(2) have "\<forall>f' \<in> set fs'. fm_lfs f'" "length fs' = 1"
    by (auto simp: list_all2_Cons1 sample_manifest_def xet_tree_def)
  then show ?thesis using e by (cases fs') auto
qed

end
