(* ===== verification/HfCache.thy ===== *)
theory HfCache
  imports HfTree
begin

text \<open>
  The operations of \<open>internal/hfcache/cache.go\<close> on a snapshot: reading \<open>snapshots/<commit>\<close> into a
  manifest, deciding whether a download is complete, and recreating the symlink tree. SHA-256 is the
  argument \<open>sha\<close>. A directory walk recurses with fuel; each level descends into a node strictly below
  the one before, so one more than the number of nodes is enough (\<open>complete_walk_iff\<close>).
\<close>

section \<open>Reading a snapshot\<close>

definition hash_file :: "(bytes \<Rightarrow> bytes) \<Rightarrow> string \<Rightarrow> os \<Rightarrow> string res \<times> os" where
  "hash_file sha path os =
     (case os_readfile os path of
        (Inl e, os1) \<Rightarrow> (Inl e, os1)
      | (Inr d, os1) \<Rightarrow> (Inr (hex_encode (sha d)), os1))"

text \<open>The callback on an entry that is not a directory: the manifest entry to append, if any.\<close>

definition visit_file ::
  "(bytes \<Rightarrow> bytes) \<Rightarrow> paths \<Rightarrow> string \<Rightarrow> string \<Rightarrow> os \<Rightarrow> file_manifest list res \<times> os" where
  "visit_file sha p snap_dir path os =
     (case rel_path snap_dir path of
        Inl e \<Rightarrow> (Inl e, os)
      | Inr rel \<Rightarrow>
          if is_inside_bookkeeping rel then (Inr [], os)
          else (case os_stat os path of
             (Inl e, os1) \<Rightarrow> (Inl (Wrapf ''stat %s: %w'' [AStr rel] e), os1)
           | (Inr info, os1) \<Rightarrow>
               if \<not> is_regular (fi_node info) then (Inr [], os1)
               else (let name = base path in
                 case os_readlink os1 path of
                   (lnk, os2) \<Rightarrow>
                     (let resolved = (case lnk of
                            Inl _ \<Rightarrow> path
                          | Inr l \<Rightarrow> if is_abs l then l else join_path [dir path, l]);
                          blob0 = (if ok lnk \<and> under (p_blobs p) resolved then base resolved else name)
                      in case hash_file sha resolved os2 of
                           (Inl e, os3) \<Rightarrow> (Inl (Wrapf ''hash %s: %w'' [AStr rel] e), os3)
                         | (Inr digest, os3) \<Rightarrow>
                             (Inr [\<lparr>fm_path = rel,
                                    fm_blob = (if blob0 = name \<and> \<not> under (p_blobs p) resolved then digest else blob0),
                                    fm_size = node_size (fi_node info), fm_sha256 = digest,
                                    fm_mode = int (node_perm (fi_node info)), fm_mtime = fi_mtime info,
                                    fm_lfs = False, fm_xet = [], fm_src = resolved\<rparr>], os3)))))"

text \<open>\<open>filepath.WalkDir\<close> with the callback of \<open>ReadSnapshot\<close>.\<close>

fun snap_walk ::
  "nat \<Rightarrow> (bytes \<Rightarrow> bytes) \<Rightarrow> paths \<Rightarrow> string \<Rightarrow> string \<Rightarrow> string \<Rightarrow> fnode \<Rightarrow> os \<Rightarrow> file_manifest list res \<times> os"
  and snap_entries ::
  "nat \<Rightarrow> (bytes \<Rightarrow> bytes) \<Rightarrow> paths \<Rightarrow> string \<Rightarrow> string \<Rightarrow> (string \<times> fnode) list \<Rightarrow> os
     \<Rightarrow> file_manifest list res \<times> os" where
  "snap_walk 0 sha p sd path name n os = (Inl (Errorf ''walk too deep'' []), os)"
| "snap_walk (Suc k) sha p sd path name n os =
     (if is_dir n then
        (if name = ''.cache'' \<or> name = ''.git'' then (Inr [], os)
         else (case os_readdir os path of
                 (Inl e, os1) \<Rightarrow> (Inl e, os1)
               | (Inr es, os1) \<Rightarrow> snap_entries k sha p sd path es os1))
      else visit_file sha p sd path os)"
| "snap_entries k sha p sd path [] os = (Inr [], os)"
| "snap_entries k sha p sd path ((c, n) # es) os =
     (case snap_walk k sha p sd (join_path [path, c]) c n os of
        (Inl e, os1) \<Rightarrow> (Inl e, os1)
      | (Inr fs, os1) \<Rightarrow>
          (case snap_entries k sha p sd path es os1 of
             (Inl e, os2) \<Rightarrow> (Inl e, os2)
           | (Inr gs, os2) \<Rightarrow> (Inr (fs @ gs), os2)))"

definition read_snapshot :: "(bytes \<Rightarrow> bytes) \<Rightarrow> paths \<Rightarrow> string \<Rightarrow> os \<Rightarrow> file_manifest list res \<times> os" where
  "read_snapshot sha p commit os =
     (let sd = snapshot_dir p commit
      in case os_stat os sd of
           (Inl e, os1) \<Rightarrow> (Inl (Wrapf ''snapshot %s: %w'' [AStr commit] e), os1)
         | (Inr _, os1) \<Rightarrow>
             (case os_lstat os1 sd of
                (Inl e, os2) \<Rightarrow> (Inl e, os2)
              | (Inr i, os2) \<Rightarrow>
                  (case snap_walk (length (nodes os) + 2) sha p sd sd (base sd) (fi_node i) os2 of
                     (Inl e, os3) \<Rightarrow> (Inl e, os3)
                   | (Inr fs, os3) \<Rightarrow> (Inr (sort_manifests fs), os3))))"

section \<open>Completeness of a download\<close>

fun complete_walk :: "nat \<Rightarrow> string \<Rightarrow> os \<Rightarrow> bool \<times> os"
  and complete_entries :: "nat \<Rightarrow> string \<Rightarrow> (string \<times> fnode) list \<Rightarrow> os \<Rightarrow> bool \<times> os" where
  "complete_walk 0 d os = (False, os)"
| "complete_walk (Suc k) d os =
     (case os_readdir os d of
        (Inl _, os1) \<Rightarrow> (False, os1)
      | (Inr es, os1) \<Rightarrow> complete_entries k d es os1)"
| "complete_entries k d [] os = (True, os)"
| "complete_entries k d ((c, n) # es) os =
     (let path = join_path [d, c]
      in if is_dir n then
           (case complete_walk k path os of
              (b, os1) \<Rightarrow> if b then complete_entries k d es os1 else (False, os1))
         else
           (case os_stat os path of
              (Inl _, os1) \<Rightarrow> (False, os1)
            | (Inr _, os1) \<Rightarrow> complete_entries k d es os1))"

definition snapshot_complete :: "paths \<Rightarrow> string \<Rightarrow> os \<Rightarrow> bool \<times> os" where
  "snapshot_complete p commit os =
     (let sd = snapshot_dir p commit
      in case os_readdir os sd of
           (Inl _, os1) \<Rightarrow> (False, os1)
         | (Inr es, os1) \<Rightarrow>
             if es = [] then (False, os1) else complete_walk (length (nodes os) + 2) sd os1)"

section \<open>Writing a snapshot\<close>

text \<open>
  What stands at the link's place: \<open>True\<close> when it is the wanted link already, \<open>False\<close> when the place
  is free or has been cleared.
\<close>

definition clear_stale :: "string \<Rightarrow> string \<Rightarrow> string \<Rightarrow> os \<Rightarrow> bool res \<times> os" where
  "clear_stale fpath rel link os =
     (case os_readlink os link of
        (Inr existing, os1) \<Rightarrow>
          if existing = rel then (Inr True, os1)
          else (case os_remove os1 link of
                  (Inl e, os2) \<Rightarrow> (Inl (Wrapf ''replace stale link %s: %w'' [AStr fpath] e), os2)
                | (Inr _, os2) \<Rightarrow> (Inr False, os2))
      | (Inl _, os1) \<Rightarrow>
          (case os_lstat os1 link of
             (Inl _, os2) \<Rightarrow> (Inr False, os2)
           | (Inr _, os2) \<Rightarrow>
               (case os_remove os2 link of
                  (Inl e, os3) \<Rightarrow> (Inl (Wrapf ''replace stale %s: %w'' [AStr fpath] e), os3)
                | (Inr _, os3) \<Rightarrow> (Inr False, os3))))"

text \<open>One round of the loop over the manifest.\<close>

definition link_file :: "paths \<Rightarrow> string \<Rightarrow> file_manifest \<Rightarrow> os \<Rightarrow> unit res \<times> os" where
  "link_file p snap_dir f os =
     (if \<not> safe_rel_path (fm_path f) \<or> \<not> safe_blob_name (fm_blob f)
      then (Inl (Errorf ''unsafe manifest path %q or blob name %q'' [AStr (fm_path f), AStr (fm_blob f)]), os)
      else
        (let link = join_path [snap_dir, fm_path f]; blob = blob_path p (fm_blob f)
         in case os_mkdir_all os (dir link) of
              (Inl e, os1) \<Rightarrow> (Inl (Wrapf ''create %s: %w'' [AStr (dir (fm_path f))] e), os1)
            | (Inr _, os1) \<Rightarrow>
                (case os_stat os1 blob of
                   (Inl e, os2) \<Rightarrow>
                     (Inl (Wrapf ''blob %s missing for %s: %w'' [AStr (fm_blob f), AStr (fm_path f)] e), os2)
                 | (Inr _, os2) \<Rightarrow>
                     (case rel_path (dir link) blob of
                        Inl e \<Rightarrow> (Inl e, os2)
                      | Inr rel \<Rightarrow>
                          (case clear_stale (fm_path f) rel link os2 of
                             (Inl e, os3) \<Rightarrow> (Inl e, os3)
                           | (Inr True, os3) \<Rightarrow> (Inr (), os3)
                           | (Inr False, os3) \<Rightarrow>
                               (case os_symlink os3 rel link of
                                  (Inl e, os4) \<Rightarrow> (Inl (Wrapf ''symlink %s: %w'' [AStr (fm_path f)] e), os4)
                                | (Inr _, os4) \<Rightarrow> (Inr (), os4)))))))"

fun link_files :: "paths \<Rightarrow> string \<Rightarrow> file_manifest list \<Rightarrow> os \<Rightarrow> unit res \<times> os" where
  "link_files p snap_dir [] os = (Inr (), os)"
| "link_files p snap_dir (f # fs) os =
     (case link_file p snap_dir f os of
        (Inl e, os1) \<Rightarrow> (Inl e, os1)
      | (Inr _, os1) \<Rightarrow> link_files p snap_dir fs os1)"

definition write_snapshot :: "paths \<Rightarrow> string \<Rightarrow> file_manifest list \<Rightarrow> string \<Rightarrow> os \<Rightarrow> unit res \<times> os" where
  "write_snapshot p commit fs ref0 os =
     (let ref = (if ref0 = [] then ''main'' else ref0); sd = snapshot_dir p commit
      in case os_mkdir_all os sd of
           (Inl e, os1) \<Rightarrow> (Inl (Wrapf ''create snapshot dir: %w'' [] e), os1)
         | (Inr _, os1) \<Rightarrow>
             (case link_files p sd fs os1 of
                (Inl e, os2) \<Rightarrow> (Inl e, os2)
              | (Inr _, os2) \<Rightarrow>
                  (case write_tree p commit fs os2 of
                     (Inl e, os3) \<Rightarrow> (Inl e, os3)
                   | (Inr _, os3) \<Rightarrow> write_ref p ref commit os3)))"

section \<open>Walking a well-formed tree\<close>

definition fs_wf :: "os \<Rightarrow> bool" where
  "fs_wf os = (\<forall>q n. q \<noteq> [] \<and> lookup os q = Some n \<longrightarrow> dir_at os (butlast q) \<and> norm_seg (last q))"

text \<open>A path whose resolution, links followed, ends at an existing node.\<close>

definition exists_at :: "os \<Rightarrow> string \<Rightarrow> bool" where
  "exists_at os p = (case resolve os True p of Inl _ \<Rightarrow> False | Inr q \<Rightarrow> lookup os q \<noteq> None)"

definition inner :: "os \<Rightarrow> path \<Rightarrow> path set" where
  "inner os q = {r. lookup os r \<noteq> None \<and> (\<exists>x t. r = q @ x # t)}"

definition links_ok :: "os \<Rightarrow> path \<Rightarrow> bool" where
  "links_ok os q = (\<forall>r n. r \<noteq> [] \<and> lookup os (q @ r) = Some n \<and> \<not> is_dir n \<longrightarrow> exists_at os (abs_path (q @ r)))"

lemma lookup_keys: "lookup os r \<noteq> None \<Longrightarrow> r \<noteq> [] \<Longrightarrow> r \<in> fst ` set (nodes os)"
  by (simp add: lookup_def map_of_eq_None_iff)

lemma inner_keys: "inner os q \<subseteq> fst ` set (nodes os)"
  using lookup_keys by (fastforce simp: inner_def)

lemma finite_inner [simp]: "finite (inner os q)"
  by (rule finite_subset [OF inner_keys]) simp

lemma card_inner_nodes: "card (inner os q) \<le> length (nodes os)"
proof -
  have "card (inner os q) \<le> card (fst ` set (nodes os))" by (rule card_mono [OF _ inner_keys]) simp
  also have "\<dots> \<le> card (set (nodes os))" by (rule card_image_le) simp
  also have "\<dots> \<le> length (nodes os)" by (rule card_length)
  finally show ?thesis .
qed

lemma card_inner_child:
  assumes "lookup os (q @ [c]) \<noteq> None"
  shows "card (inner os (q @ [c])) < card (inner os q)"
proof (rule psubset_card_mono)
  have "q @ [c] \<in> inner os q" "q @ [c] \<notin> inner os (q @ [c])" using assms by (auto simp: inner_def)
  moreover have "inner os (q @ [c]) \<subseteq> inner os q" by (auto simp: inner_def)
  ultimately show "inner os (q @ [c]) \<subset> inner os q" by blast
qed simp

lemma inner_cong: "same_fs os os' \<Longrightarrow> inner os' q = inner os q"
  by (simp add: inner_def same_fs_def)

lemma exists_at_cong: "same_fs os os' \<Longrightarrow> exists_at os' p = exists_at os p"
  by (simp add: exists_at_def resolve_cong) (simp add: same_fs_def split: sum.split)

lemma links_ok_cong: "same_fs os os' \<Longrightarrow> links_ok os' q = links_ok os q"
  by (simp add: links_ok_def exists_at_cong) (simp add: same_fs_def)

lemma fs_wf_cong: "same_fs os os' \<Longrightarrow> fs_wf os' = fs_wf os"
  by (simp add: fs_wf_def dir_at_cong) (simp add: same_fs_def)

lemma no_faults_cong: "same_fs os os' \<Longrightarrow> no_faults os' = no_faults os"
  by (simp add: no_faults_def same_fs_def env_eq_def)

lemma readdir_dir:
  assumes "dir_at os q" "no_faults os"
  shows "os_readdir os (abs_path q) = (Inr (map (\<lambda>c. (c, the (lookup os (q @ [c])))) (children os q)), tick os)"
  using assms resolve_dir [OF assms(1), of True] dir_at_lookup [OF assms(1)]
  by (simp add: os_readdir_def syscall_def no_faults_def at_path_def) (simp add: children_def tick_def)

lemma stat_exists:
  assumes "no_faults os"
  shows "\<exists>r. os_stat os p = (r, tick os) \<and> ok r = exists_at os p"
  using assms
  by (auto simp: os_stat_def syscall_def no_faults_def at_path_def exists_at_def split: sum.split option.split)

lemma children_lookup: "c \<in> set (children os q) \<longleftrightarrow> lookup os (q @ [c]) \<noteq> None"
  by (simp add: mem_children lookup_def)

definition entry_ok :: "os \<Rightarrow> path \<Rightarrow> string \<times> fnode \<Rightarrow> bool" where
  "entry_ok os q e = (if is_dir (snd e) then links_ok os (q @ [fst e]) else exists_at os (abs_path (q @ [fst e])))"

lemma is_dir_iff: "is_dir n \<longleftrightarrow> n = FDir"
  by (cases n) (auto simp: is_dir_def)

lemma links_ok_children:
  assumes "fs_wf os"
  shows "links_ok os q \<longleftrightarrow> (\<forall>c \<in> set (children os q). entry_ok os q (c, the (lookup os (q @ [c]))))"
    (is "?l \<longleftrightarrow> ?r")
proof
  assume l: ?l
  show ?r
  proof
    fix c assume "c \<in> set (children os q)"
    then obtain n where n: "lookup os (q @ [c]) = Some n" by (auto simp: children_lookup)
    show "entry_ok os q (c, the (lookup os (q @ [c])))"
    proof (cases "is_dir n")
      case True
      have "links_ok os (q @ [c])"
        using l unfolding links_ok_def by (metis append_assoc append_Cons append_Nil list.distinct(1))
      then show ?thesis using True n by (simp add: entry_ok_def)
    next
      case False
      then show ?thesis using l n unfolding links_ok_def entry_ok_def by (metis not_Cons_self2 option.sel prod.sel)
    qed
  qed
next
  assume r: ?r
  show ?l unfolding links_ok_def
  proof (intro allI impI)
    fix r n assume a: "r \<noteq> [] \<and> lookup os (q @ r) = Some n \<and> \<not> is_dir n"
    then obtain c t where ct: "r = c # t" by (cases r) auto
    show "exists_at os (abs_path (q @ r))"
    proof (cases t)
      case Nil
      with a ct r have "entry_ok os q (c, n)" by (auto simp: children_lookup dest!: bspec [of _ _ c])
      then show ?thesis using a ct Nil by (simp add: entry_ok_def)
    next
      case (Cons x xs)
      have "dir_at os (butlast (q @ r))" using assms a ct by (auto simp: fs_wf_def)
      then have "dir_at os ((q @ [c]) @ butlast t)" using ct Cons by (simp add: butlast_append)
      then have "lookup os (q @ [c]) = Some FDir" using dir_at_append dir_at_lookup by blast
      moreover from this have "entry_ok os q (c, FDir)" using r by (auto simp: children_lookup dest!: bspec [of _ _ c])
      ultimately have "links_ok os (q @ [c])" by (simp add: entry_ok_def is_dir_iff)
      then show ?thesis using a ct Cons unfolding links_ok_def
        by (metis append_assoc append_Cons append_Nil list.distinct(1))
    qed
  qed
qed

lemma complete_walk_iff:
  "\<lbrakk>d = abs_path q; dir_at os q; fs_wf os; no_faults os; card (inner os q) < k\<rbrakk> \<Longrightarrow>
     \<exists>os'. complete_walk k d os = (links_ok os q, os') \<and> same_fs os os'"
  "\<lbrakk>d = abs_path q; dir_at os q; fs_wf os; no_faults os; card (inner os q) \<le> k;
    \<forall>(c, n) \<in> set es. lookup os (q @ [c]) = Some n\<rbrakk> \<Longrightarrow>
     \<exists>os'. complete_entries k d es os = (list_all (entry_ok os q) es, os') \<and> same_fs os os'"
proof (induction k d os and k d es os arbitrary: q and q rule: complete_walk_complete_entries.induct)
  case (1 d os)
  then show ?case by simp
next
  case (2 k d os)
  let ?es = "map (\<lambda>c. (c, the (lookup os (q @ [c])))) (children os q)"
  have rd: "os_readdir os d = (Inr ?es, tick os)" using readdir_dir 2 by simp
  have "\<exists>os'. complete_entries k d ?es (tick os) = (list_all (entry_ok (tick os) q) ?es, os') \<and> same_fs (tick os) os'"
    using 2 by (intro 2(1) [OF rd [symmetric] refl])
      (auto simp: dir_at_cong [OF fs_tick] fs_wf_cong [OF fs_tick] no_faults_cong [OF fs_tick]
        inner_cong [OF fs_tick] children_lookup)
  moreover have "list_all (entry_ok (tick os) q) ?es = links_ok os q"
    unfolding links_ok_children [OF 2(4)]
    by (auto simp: list_all_iff entry_ok_def links_ok_cong [OF fs_tick] exists_at_cong [OF fs_tick])
  ultimately show ?case using rd fs_trans [OF fs_tick] by auto
next
  case (3 k d os)
  then show ?case by auto
next
  case (4 k d c n es os)
  have lk: "lookup os (q @ [c]) = Some n" using 4(9) by auto
  have seg: "norm_seg c" "list_all norm_seg q"
    using 4(6) lk by (auto simp: fs_wf_def dir_at_def)
  have path: "join_path [d, c] = abs_path (q @ [c])" using join_path_seg [OF seg(2,1)] 4(4) by simp
  have rest: "\<exists>os'. complete_entries k d es o1 = (list_all (entry_ok os q) es, os') \<and> same_fs os os'"
    if s: "same_fs os o1" and IH: "\<And>q. \<lbrakk>d = abs_path q; dir_at o1 q; fs_wf o1; no_faults o1; card (inner o1 q) \<le> k;
      \<forall>(c, n) \<in> set es. lookup o1 (q @ [c]) = Some n\<rbrakk> \<Longrightarrow>
      \<exists>os'. complete_entries k d es o1 = (list_all (entry_ok o1 q) es, os') \<and> same_fs o1 os'" for o1
  proof -
    have "entry_ok o1 q = entry_ok os q"
      by (rule ext) (simp add: entry_ok_def links_ok_cong [OF s] exists_at_cong [OF s])
    moreover have "\<forall>(c, n) \<in> set es. lookup o1 (q @ [c]) = Some n" using 4(9) s by (auto simp: same_fs_def)
    ultimately show ?thesis
      using IH [OF 4(4)] 4(5-8) s fs_trans [OF s]
      by (auto simp: dir_at_cong [OF s] fs_wf_cong [OF s] no_faults_cong [OF s] inner_cong [OF s])
  qed
  show ?case
  proof (cases "is_dir n")
    case True
    then have da: "dir_at os (q @ [c])" using 4(5) seg lk by (simp add: dir_at_snoc is_dir_iff)
    then have eo: "entry_ok os q (c, n) = links_ok os (q @ [c])" using True by (simp add: entry_ok_def)
    have "card (inner os (q @ [c])) < k" using card_inner_child [of os q c] lk 4(8) by simp
    then obtain o1 where w: "complete_walk k (join_path [d, c]) os = (links_ok os (q @ [c]), o1)" "same_fs os o1"
      using 4(1) [OF refl True path da 4(6,7)] by auto
    show ?thesis
    proof (cases "links_ok os (q @ [c])")
      case lo: True
      then show ?thesis
        using rest [OF w(2)] 4(2) [OF refl True w(1) [symmetric] lo] w True eo by auto
    next
      case False
      then show ?thesis using w True eo by auto
    qed
  next
    case False
    then have eo: "entry_ok os q (c, n) = exists_at os (abs_path (q @ [c]))" by (simp add: entry_ok_def)
    obtain r where st: "os_stat os (join_path [d, c]) = (r, tick os)" "ok r = exists_at os (abs_path (q @ [c]))"
      using stat_exists [OF 4(7)] path by metis
    show ?thesis
    proof (cases r)
      case (Inl e)
      then show ?thesis using st False eo by auto
    next
      case (Inr i)
      then show ?thesis using st False rest [OF fs_tick] 4(3) [OF refl False st(1) [unfolded Inr, symmetric] refl]
          eo by auto
    qed
  qed
qed

lemma snapshot_complete_iff:
  assumes "p_snapshots p = abs_path ss" and "dir_at os (ss @ [commit])" and "fs_wf os" and "no_faults os"
  shows "fst (snapshot_complete p commit os) \<longleftrightarrow>
    (\<exists>c. lookup os (ss @ [commit, c]) \<noteq> None)
    \<and> (\<forall>r n. r \<noteq> [] \<and> lookup os (ss @ commit # r) = Some n \<and> \<not> is_dir n \<longrightarrow>
         exists_at os (abs_path (ss @ commit # r)))"
proof -
  let ?q = "ss @ [commit]"
  have sd: "snapshot_dir p commit = abs_path ?q"
    using assms(1,2) join_path_seg [of ss commit] by (simp add: snapshot_dir_def dir_at_def)
  have "card (inner (tick os) ?q) < length (nodes os) + 2"
    using card_inner_nodes [of os ?q] by (simp add: inner_cong [OF fs_tick])
  then obtain os' where w: "complete_walk (length (nodes os) + 2) (abs_path ?q) (tick os) = (links_ok os ?q, os')"
    using complete_walk_iff(1) [OF refl, of "tick os" ?q "length (nodes os) + 2"] assms(2-4)
    by (auto simp: dir_at_cong [OF fs_tick] fs_wf_cong [OF fs_tick] no_faults_cong [OF fs_tick]
        links_ok_cong [OF fs_tick] simp del: complete_walk.simps)
  have "children os ?q = [] \<longleftrightarrow> (\<forall>c. lookup os (?q @ [c]) = None)"
    using children_lookup [of _ os ?q] by (metis all_not_in_conv set_empty2)
  then show ?thesis
    using readdir_dir [OF assms(2,4)] w
    by (simp add: snapshot_complete_def sd links_ok_def del: complete_walk.simps)
qed

text \<open>A call that succeeded does the same when no call fails.\<close>

definition unfailing :: "os \<Rightarrow> os" where
  "unfailing os = os\<lparr>faults := (\<lambda>_. None)\<rparr>"

lemma unfailing_simps [simp]:
  "lookup (unfailing os) = lookup os" "cwd (unfailing os) = cwd os" "nodes (unfailing os) = nodes os"
  "faults (unfailing os) = (\<lambda>_. None)" "tick (unfailing os) = unfailing (tick os)" "children (unfailing os) = children os"
  by (auto simp: unfailing_def lookup_def tick_def children_def fun_eq_iff)

lemma resolve_unfailing [simp]: "resolve (unfailing os) f p = resolve os f p"
  by (simp add: resolve_def)

lemma exists_at_unfailing [simp]: "exists_at (unfailing os) p = exists_at os p"
  by (simp add: exists_at_def split: sum.split)

lemma readdir_unfailing: "os_readdir os d = (Inr es, os1) \<Longrightarrow> os_readdir (unfailing os) d = (Inr es, unfailing os1)"
  by (auto simp: os_readdir_def syscall_def at_path_def split: option.splits sum.splits if_splits fnode.splits)

lemma stat_unfailing:
  "os_stat os p = (Inr i, os1) \<Longrightarrow> \<exists>i'. os_stat (unfailing os) p = (Inr i', unfailing os1)"
  by (auto simp: os_stat_def syscall_def at_path_def split: option.splits sum.splits)

lemma complete_walk_unfailing:
  "complete_walk k d os = (True, os1) \<Longrightarrow> complete_walk k d (unfailing os) = (True, unfailing os1)"
  "complete_entries k d es os = (True, os1) \<Longrightarrow> complete_entries k d es (unfailing os) = (True, unfailing os1)"
proof (induction k d os and k d es os arbitrary: os1 and os1 rule: complete_walk_complete_entries.induct)
  case (2 k d os)
  then obtain es o1 where r: "os_readdir os d = (Inr es, o1)" "complete_entries k d es o1 = (True, os1)"
    by (auto split: prod.splits sum.splits)
  from "2.IH" [OF r(1) [symmetric] refl r(2)] readdir_unfailing [OF r(1)] show ?case by simp
next
  case (4 k d c n es os)
  show ?case
  proof (cases "is_dir n")
    case True
    then obtain o1 where w: "complete_walk k (join_path [d, c]) os = (True, o1)" "complete_entries k d es o1 = (True, os1)"
      using "4.prems" by (auto simp: Let_def split: prod.splits if_splits)
    from "4.IH"(1) [OF refl True w(1)] "4.IH"(2) [OF refl True w(1) [symmetric]] w(2) True show ?thesis by simp
  next
    case False
    then obtain i o1 where st: "os_stat os (join_path [d, c]) = (Inr i, o1)" "complete_entries k d es o1 = (True, os1)"
      using "4.prems" by (auto simp: Let_def split: prod.splits sum.splits)
    from "4.IH"(3) [OF refl False st(1) [symmetric] refl st(2)] stat_unfailing [OF st(1)] False show ?thesis by auto
  qed
qed simp_all

lemma snapshot_complete_unfailing:
  assumes "fst (snapshot_complete p commit os)"
  shows "fst (snapshot_complete p commit (unfailing os))"
proof -
  obtain es o1 where rd: "os_readdir os (snapshot_dir p commit) = (Inr es, o1)" "es \<noteq> []"
    using assms by (auto simp: snapshot_complete_def Let_def split: prod.splits sum.splits if_splits)
  obtain b o2 where w: "complete_walk (length (nodes os) + 2) (snapshot_dir p commit) o1 = (b, o2)" by (meson surj_pair)
  with assms rd have b by (simp add: snapshot_complete_def Let_def del: complete_walk.simps)
  with complete_walk_unfailing(1) [of _ _ o1 o2] w have
    "complete_walk (length (nodes os) + 2) (snapshot_dir p commit) (unfailing o1) = (True, unfailing o2)"
    by (simp del: complete_walk.simps)
  with readdir_unfailing [OF rd(1)] rd(2) show ?thesis
    by (simp add: snapshot_complete_def Let_def del: complete_walk.simps)
qed

section \<open>Properties\<close>

text \<open>C11: \<open>SnapshotComplete\<close> holds only when the snapshot directory has an entry and every link and file
  anywhere below it leads, links followed, to an existing node, whichever system calls fail; and when none fails
  it holds exactly then. (An entry may be a directory: a snapshot that holds nothing but empty directories counts as
  complete.)\<close>

theorem snapshot_complete_correct:
  assumes "p_snapshots p = abs_path ss" and "dir_at os (ss @ [commit])" and "fs_wf os"
  defines "finalised \<equiv> (\<exists>c. lookup os (ss @ [commit, c]) \<noteq> None)
    \<and> (\<forall>r n. r \<noteq> [] \<and> lookup os (ss @ commit # r) = Some n \<and> \<not> is_dir n \<longrightarrow>
         exists_at os (abs_path (ss @ commit # r)))"
  shows "(fst (snapshot_complete p commit os) \<longrightarrow> finalised)
    \<and> (no_faults os \<longrightarrow> (fst (snapshot_complete p commit os) \<longleftrightarrow> finalised))"
proof -
  have "dir_at (unfailing os) (ss @ [commit])" "fs_wf (unfailing os)" "no_faults (unfailing os)"
    using assms(2,3) by (simp_all add: dir_at_def fs_wf_def no_faults_def)
  from snapshot_complete_iff [OF assms(1) this]
  have calm: "fst (snapshot_complete p commit (unfailing os)) \<longleftrightarrow> finalised"
    by (simp add: finalised_def)
  then have "finalised" if "fst (snapshot_complete p commit os)"
    using snapshot_complete_unfailing [OF that] by simp
  with snapshot_complete_iff [OF assms(1-3), folded finalised_def] show ?thesis by blast
qed

definition snap_os :: "string \<Rightarrow> os" where
  "snap_os target = \<lparr>nodes = [([''s''], FDir), ([''s'', ''c''], FDir), ([''b''], FDir), ([''b'', ''x''], FFile ''hi'' 420),
     ([''s'', ''c'', ''f''], FLink target)],
     cwd = [], ticks = 0, faults = (\<lambda>_. None), rands = (\<lambda>_. ''7''), mtimes = (\<lambda>_ _. 0), partials = (\<lambda>_. 0)\<rparr>"

definition snap_paths :: paths where
  "snap_paths = \<lparr>p_hub = [], p_repo = [], p_type = Model, p_dir = [], p_blobs = ''/b'', p_snapshots = ''/s'',
     p_refs = ''/refs'', p_trees = ''/trees''\<rparr>"

lemma snap_os_nodes:
  "lookup (snap_os t) q = (if q = [] \<or> q = [''s''] \<or> q = [''s'', ''c''] \<or> q = [''b''] then Some FDir
     else if q = [''b'', ''x''] then Some (FFile ''hi'' 420)
     else if q = [''s'', ''c'', ''f''] then Some (FLink t) else None)"
  by (simp add: lookup_def snap_os_def)

lemma snap_os_dirs: "dir_at (snap_os t) []" "dir_at (snap_os t) [''s'']" "dir_at (snap_os t) [''b'']"
  "dir_at (snap_os t) [''s'', ''c'']"
  by (auto simp: dir_at_def snap_os_nodes norm_seg_def le_Suc_eq)

lemma snap_os_wf: "fs_wf (snap_os t)" "no_faults (snap_os t)"
proof -
  have "dir_at (snap_os t) (butlast q) \<and> norm_seg (last q)" if "q \<noteq> []" "lookup (snap_os t) q = Some n" for q n
    using that snap_os_dirs [of t] by (auto simp: snap_os_nodes norm_seg_def split: if_splits)
  then show "fs_wf (snap_os t)" by (auto simp: fs_wf_def)
  show "no_faults (snap_os t)" by (simp add: no_faults_def snap_os_def)
qed

theorem snapshot_complete_correct_witness:
  "fst (snapshot_complete snap_paths ''c'' (snap_os ''../../b/x''))
   \<and> \<not> fst (snapshot_complete snap_paths ''c'' (snap_os ''../../b/y''))"
proof -
  have p: "p_snapshots snap_paths = abs_path [''s'']" by (simp add: snap_paths_def abs_path_def)
  have c: "fst (snapshot_complete snap_paths ''c'' (snap_os t)) \<longleftrightarrow>
      (\<exists>c. lookup (snap_os t) ([''s''] @ [''c'', c]) \<noteq> None)
      \<and> (\<forall>r n. r \<noteq> [] \<and> lookup (snap_os t) ([''s''] @ ''c'' # r) = Some n \<and> \<not> is_dir n \<longrightarrow>
           exists_at (snap_os t) (abs_path ([''s''] @ ''c'' # r)))" for t
    by (rule snapshot_complete_correct [THEN conjunct2, THEN mp, OF p])
       (use snap_os_dirs(4) [of t] snap_os_wf [of t] in simp_all)
  have yes: "exists_at (snap_os ''../../b/x'') (abs_path [''s'', ''c'', ''f''])"
    and no: "\<not> exists_at (snap_os ''../../b/y'') (abs_path [''s'', ''c'', ''f''])"
    by (simp_all add: exists_at_def resolve_def abs_path_def snap_os_nodes is_abs_def has_prefix_def
        eval_nat_numeral)
  from c [of "''../../b/x''"] c [of "''../../b/y''"] yes no show ?thesis
    by (auto simp: snap_os_nodes is_dir_iff)
qed

section \<open>Writing links\<close>

lemma remove_in_dir:
  assumes "os_remove os (abs_path (ds @ [a])) = (r, os')" "dir_at os ds" "norm_seg a"
    and "lookup os (ds @ [a]) \<noteq> Some FDir"
  shows "if ok r then fs_upd os (ds @ [a]) None os' else same_fs os os'"
  using assms resolve_in_dir [OF assms(2,3), of False]
  by (auto simp: os_remove_def syscall_def at_path_def fs_upd_def same_fs_def fun_eq_iff
      split: option.splits if_splits)

lemma symlink_in_dir:
  assumes "os_symlink os t (abs_path (ds @ [a])) = (r, os')" "dir_at os ds" "norm_seg a"
  shows "if ok r then fs_upd os (ds @ [a]) (Some (FLink t)) os' else same_fs os os'"
  using assms resolve_in_dir [OF assms(2,3), of False] parent_ok_in_dir [OF assms(2), of a]
  by (auto simp: os_symlink_def syscall_def fs_upd_def same_fs_def fun_eq_iff split: option.splits if_splits)

lemma readlink_in_dir:
  assumes "os_readlink os (abs_path (ds @ [a])) = (Inr t, os')" "dir_at os ds" "norm_seg a"
  shows "lookup os (ds @ [a]) = Some (FLink t)"
  using assms resolve_in_dir [OF assms(2,3), of False]
  by (auto simp: os_readlink_def syscall_def at_path_def split: option.splits fnode.splits)

lemma stat_ok_exists: "os_stat os p = (Inr i, os') \<Longrightarrow> exists_at os p"
  by (auto simp: os_stat_def syscall_def at_path_def exists_at_def split: option.splits sum.splits)

lemma clear_stale_effect:
  assumes "clear_stale fp t (abs_path (ds @ [x])) os = (r, os')"
    and d: "dir_at os ds" and x: "norm_seg x" and n: "lookup os (ds @ [x]) \<noteq> Some FDir"
  shows "case r of Inl e \<Rightarrow> same_fs os os'
    | Inr True \<Rightarrow> same_fs os os' \<and> lookup os (ds @ [x]) = Some (FLink t)
    | Inr False \<Rightarrow> same_fs os os' \<or> fs_upd os (ds @ [x]) None os'"
proof -
  obtain r1 o1 where rl: "os_readlink os (abs_path (ds @ [x])) = (r1, o1)" by (meson surj_pair)
  obtain r2 o2 where ls: "os_lstat o1 (abs_path (ds @ [x])) = (r2, o2)" by (meson surj_pair)
  have s1: "same_fs os o1" using read_calls_fs(3) [OF rl] .
  have s2: "same_fs os o2" using fs_trans [OF s1 read_calls_fs(2) [OF ls]] .
  have rm: "if ok q then fs_upd os (ds @ [x]) None oc else same_fs os oc"
    if "os_remove ob (abs_path (ds @ [x])) = (q, oc)" "same_fs os ob" for ob q oc
    using remove_in_dir [OF that(1) _ x] d n that(2) dir_at_cong [OF that(2)] fs_fs_upd [OF that(2)]
      fs_trans [OF that(2)] by (auto simp: same_fs_def split: if_splits)
  show ?thesis
    using assms(1) rl ls s1 s2 rm [OF _ s1] rm [OF _ s2] readlink_in_dir [of os ds x _ o1] d x
    by (fastforce simp: clear_stale_def split: sum.splits if_splits prod.splits)
qed

text \<open>
  A round adds the missing directories above the link and then leaves its place as it was, clears it,
  or puts the link there; when it succeeds the link is in place and the blob was found.
\<close>

lemma link_file_effect:
  assumes run: "link_file p (abs_path S) f os = (r, os')"
    and S: "list_all norm_seg S" and B: "p_blobs p = abs_path B" "list_all norm_seg B"
    and L: "split_on sep (fm_path f) = ds @ [x]"
    and D: "plain os (S @ ds)" and n: "lookup os (S @ ds @ [x]) \<noteq> Some FDir"
  shows "same_fs os os' \<and> \<not> ok r \<or> (\<exists>o1. dirs_added os (S @ ds) o1
    \<and> (same_fs o1 os' \<or> (\<exists>m. fs_upd o1 (S @ ds @ [x]) m os' \<and> (m = None \<or> (\<exists>t. m = Some (FLink t)))))
    \<and> (ok r \<longrightarrow> dir_at os' (S @ ds) \<and> exists_at o1 (abs_path (B @ [fm_blob f]))
         \<and> safe_rel_path (fm_path f) \<and> safe_blob_name (fm_blob f)
         \<and> (\<exists>t. rel_path (abs_path (S @ ds)) (abs_path (B @ [fm_blob f])) = Inr t
                \<and> lookup os' (S @ ds @ [x]) = Some (FLink t))))"
proof (cases "safe_rel_path (fm_path f) \<and> safe_blob_name (fm_blob f)")
  case False
  then show ?thesis using run by (auto simp: link_file_def)
next
  case True
  let ?D = "S @ ds" let ?L = "?D @ [x]"
  have segs: "list_all norm_seg ds" "norm_seg x" using safe_rel_path_segs True L by fastforce+
  have link: "join_path [abs_path S, fm_path f] = abs_path ?L"
    using join_path_abs [OF S, of "fm_path f"] safe_rel_path_segs [of "fm_path f"] True L by simp
  have dir: "dir (abs_path ?L) = abs_path ?D" using dir_abs_path [of ?D x] S segs by simp
  have blob: "blob_path p (fm_blob f) = abs_path (B @ [fm_blob f])"
    using join_path_seg [OF B(2), of "fm_blob f"] safe_blob_name_seg True by (simp add: blob_path_def B(1))
  obtain r1 o1 where mk: "os_mkdir_all os (abs_path ?D) = (r1, o1)" by (meson surj_pair)
  note e1 = mkdir_all_effect [OF mk D]
  have len: "lookup o1 ?L = lookup os ?L" using dirs_added_outside [of os ?D o1 ?L] e1 by simp
  obtain r2 o2 where st: "os_stat o1 (abs_path (B @ [fm_blob f])) = (r2, o2)" by (meson surj_pair)
  have s2: "same_fs o1 o2" using read_calls_fs(1) [OF st] .
  note run' = run [unfolded link_file_def Let_def link dir blob mk st prod.case]
  show ?thesis
  proof (cases "ok r1 \<and> ok r2")
    case False
    then show ?thesis using run' True e1 s2 by (auto simp: ok_def split: sum.splits)
  next
    case oks: True
    then have d1: "dir_at o1 ?D" using e1 by blast
    then have d2: "dir_at o2 ?D" by (simp add: dir_at_cong [OF s2])
    have ex: "exists_at o1 (abs_path (B @ [fm_blob f]))" using stat_ok_exists st oks by (auto simp: ok_iff)
    show ?thesis
    proof (cases "rel_path (abs_path ?D) (abs_path (B @ [fm_blob f]))")
      case (Inl e)
      then show ?thesis using run' True oks e1 s2 by (auto simp: ok_iff)
    next
      case (Inr t)
      obtain r3 o3 where cl: "clear_stale (fm_path f) t (abs_path ?L) o2 = (r3, o3)" by (meson surj_pair)
      have n2: "lookup o2 ?L \<noteq> Some FDir" using len n s2 by (simp add: same_fs_def)
      note e3 = clear_stale_effect [OF cl d2 segs(2) n2]
      obtain r4 o4 where sl: "os_symlink o3 t (abs_path ?L) = (r4, o4)" by (meson surj_pair)
      note run'' = run' [unfolded Inr sum.case cl prod.case sl]
      consider (err) e where "r3 = Inl e" | (keep) "r3 = Inr True" | (put) "r3 = Inr False"
        by (cases r3) auto
      then show ?thesis
      proof cases
        case err
        then have "same_fs o1 os'" "\<not> ok r" using run'' True oks e3 fs_trans [OF s2] by (auto simp: ok_iff)
        then show ?thesis using e1 by auto
      next
        case keep
        then have "same_fs o1 os'" "lookup os' ?L = Some (FLink t)"
          using run'' True oks e3 fs_trans [OF s2] by (auto simp: ok_iff same_fs_def)
        then show ?thesis using e1 ex d1 True Inr dir_at_cong by auto
      next
        case put
        then have s3: "same_fs o1 o3 \<or> fs_upd o1 ?L None o3"
          using e3 fs_trans [OF s2] fs_fs_upd [OF s2] by auto
        then have d3: "dir_at o3 ?D"
        proof
          assume "same_fs o1 o3"
          then show ?thesis using d1 by (simp add: dir_at_cong)
        next
          assume u: "fs_upd o1 ?L None o3"
          show ?thesis by (rule dir_at_upd [OF u _ d1]) (use len n in simp)
        qed
        have rr: "os' = o4" "ok r = ok r4" using run'' True oks put by (auto simp: ok_iff split: sum.splits)
        from symlink_in_dir [OF sl d3 segs(2)] s3
        have "(if ok r4 then fs_upd o1 ?L (Some (FLink t)) o4 else same_fs o1 o4 \<or> fs_upd o1 ?L None o4)"
        proof (elim disjE)
          assume "same_fs o1 o3"
          then show ?thesis using symlink_in_dir [OF sl d3 segs(2)]
            by (auto split: if_splits intro: fs_trans fs_fs_upd)
        next
          assume "fs_upd o1 ?L None o3"
          then show ?thesis using symlink_in_dir [OF sl d3 segs(2)]
            by (auto split: if_splits intro: fs_upd_upd fs_upd_fs)
        qed
        moreover from this have "ok r4 \<longrightarrow> dir_at o4 ?D \<and> lookup o4 ?L = Some (FLink t)"
          using dir_at_upd [of o1 ?L _ o4 ?D] d1 len n by (auto simp: fs_upd_def)
        ultimately show ?thesis using rr e1 ex True Inr
          by (intro disjI2 exI [of _ o1]) (auto split: if_splits)
      qed
    qed
  qed
qed

end
