(* ===== verification/HfSnapshot.thy ===== *)
theory HfSnapshot
  imports HfCache
begin

text \<open>
  Correctness of \<open>WriteSnapshot\<close>: after it succeeds, every file of the manifest is a link in the
  snapshot that leads to its blob, \<open>refs/<ref>\<close> holds the commit, and nothing outside the snapshot,
  \<open>trees\<close> and \<open>refs\<close> directories of the repository has changed.
\<close>

section \<open>Following a relative link\<close>

lemma strip_common_split: "strip_common a b = (a2, b2) \<Longrightarrow> \<exists>c. a = c @ a2 \<and> b = c @ b2"
proof (induction a b rule: strip_common.induct)
  case (1 x xs y ys)
  show ?case
  proof (cases "x = y")
    case True
    then obtain c where "xs = c @ a2" "ys = c @ b2" using 1 by auto
    then show ?thesis using True by (intro exI [of _ "x # c"]) simp
  qed (use 1 in auto)
qed auto

lemma walk_up: "walk_path n lk f (c @ d) (replicate (length d) ''..'' @ ts) = walk_path n lk f c ts"
proof (induction d rule: rev_induct)
  case (snoc x d)
  have "walk_path n lk f (c @ d @ [x]) (''..'' # replicate (length d) ''..'' @ ts)
      = walk_path n lk f (butlast (c @ d @ [x])) (replicate (length d) ''..'' @ ts)" by simp
  also have "butlast (c @ d @ [x]) = c @ d" by (simp add: butlast_append)
  finally show ?case using snoc by simp
qed simp

lemma walk_dirs_from:
  assumes "list_all norm_seg ss" "dir_at os (cur @ ss)"
  shows "walk_path n (lookup os) f cur (ss @ ts) = walk_path n (lookup os) f (cur @ ss) ts"
proof (rule walk_dirs [OF assms(1)])
  show "\<forall>i \<le> length ss. lookup os (cur @ take i ss) = Some FDir"
  proof (intro allI impI)
    fix i assume "i \<le> length ss"
    have "dir_at os ((cur @ take i ss) @ drop i ss)" using assms(2) by simp
    then show "lookup os (cur @ take i ss) = Some FDir" using dir_at_append dir_at_lookup by blast
  qed
qed

lemma resolve_relative_link:
  assumes D: "dir_at os D" and x: "norm_seg x" and l: "lookup os (D @ [x]) = Some (FLink t)"
    and B: "dir_at os B" and b: "norm_seg b" and f: "lookup os (B @ [b]) = Some (FFile c m)"
    and t: "rel_path (abs_path D) (abs_path (B @ [b])) = Inr t"
  shows "resolve os True (abs_path (D @ [x])) = Inr (B @ [b])"
proof -
  have nD: "list_all norm_seg D" and nB: "list_all norm_seg (B @ [b])" using D B b by (auto simp: dir_at_def)
  have ne: "D \<noteq> B @ [b]" using dir_at_lookup [OF D] f by auto
  obtain D2 B2 where sc: "strip_common D (B @ [b]) = (D2, B2)" by (meson surj_pair)
  then obtain C where C: "D = C @ D2" "B @ [b] = C @ B2" using strip_common_split by blast
  have "B2 \<noteq> []"
  proof
    assume "B2 = []"
    then have "dir_at os ((B @ [b]) @ D2)" using C D by simp
    then show False using dir_at_append dir_at_lookup f by fastforce
  qed
  then obtain B1 y where "B2 = B1 @ [y]" by (metis rev_exhaust)
  then have B1: "B2 = B1 @ [b]" "B = C @ B1" using C(2) by simp_all
  let ?ss = "replicate (length D2) ''..'' @ B2"
  have tt: "t = join_with ''/'' ?ss" using rel_path_abs [OF nD nB ne] sc t by simp
  have nB2: "list_all norm_seg B2" using nB unfolding C(2) by simp
  have nosep: "\<forall>s \<in> set ?ss. sep \<notin> set s"
  proof
    fix s assume "s \<in> set ?ss"
    then consider "s = ''..''" | "norm_seg s" using nB2 by (auto simp: list_all_iff)
    then show "sep \<notin> set s" by cases (simp_all add: norm_seg_def)
  qed
  have split: "split_on sep t = ?ss" unfolding tt using nosep \<open>B2 \<noteq> []\<close> by (intro split_on_join) auto
  have "\<not> is_abs t"
  proof
    assume "is_abs t"
    then obtain r where "t = sep # r" by (auto simp: is_abs_def has_prefix_iff)
    then have "?ss = [] # split_on sep r" using split by simp
    then have "[] \<in> set ?ss" by (metis list.set_intros(1))
    then have "norm_seg []" using nB2 by (auto simp: list_all_iff)
    then show False by (simp add: norm_seg_def)
  qed
  have "resolve os True (abs_path (D @ [x])) = walk_path 40 (lookup os) True [] (D @ [x])"
    using nD x by (simp add: resolve_def split_abs_walk)
  also have "\<dots> = walk_path 40 (lookup os) True D [x]"
    using walk_dirs_from [of D os "[]" 40 True "[x]"] nD D by simp
  also have "\<dots> = walk_path 39 (lookup os) True D (?ss @ [])"
    using x l split \<open>\<not> is_abs t\<close> by (simp add: norm_seg_def eval_nat_numeral)
  also have "\<dots> = walk_path 39 (lookup os) True C (B1 @ [b])"
    using walk_up [of 39 "lookup os" True C D2 "B2 @ []"] C(1) B1(1) by simp
  also have "\<dots> = walk_path 39 (lookup os) True B [b]"
    using walk_dirs_from [of B1 os C 39 True "[b]"] B B1(2) by (simp add: dir_at_def)
  also have "\<dots> = Inr (B @ [b])"
    using b f by (simp add: norm_seg_def eval_nat_numeral)
  finally show ?thesis .
qed

section \<open>All links\<close>

definition link_at :: "path \<Rightarrow> file_manifest \<Rightarrow> path" where
  "link_at S f = S @ split_on sep (fm_path f)"

definition link_ready :: "os \<Rightarrow> path \<Rightarrow> file_manifest \<Rightarrow> bool" where
  "link_ready os S f = (plain os (butlast (link_at S f)) \<and> lookup os (link_at S f) \<noteq> Some FDir)"

text \<open>No file of the manifest is at the same time a directory of another.\<close>

definition prefix_free :: "path \<Rightarrow> file_manifest list \<Rightarrow> bool" where
  "prefix_free S fs = (\<forall>f \<in> set fs. \<forall>g \<in> set fs. \<forall>y r. link_at S g \<noteq> link_at S f @ y # r)"

lemma link_at_snoc: "link_at S f = butlast (link_at S f) @ [last (split_on sep (fm_path f))]"
  by (simp add: link_at_def butlast_append)

text \<open>What a round may change.\<close>

definition links_changed :: "os \<Rightarrow> path \<Rightarrow> os \<Rightarrow> bool" where
  "links_changed os L os' = (env_eq os os' \<and> (\<forall>q. lookup os' q = lookup os q
     \<or> lookup os q = None \<and> lookup os' q = Some FDir \<and> (\<exists>y r. L = q @ y # r)
     \<or> q = L \<and> lookup os q \<noteq> Some FDir \<and> (lookup os' q = None \<or> (\<exists>t. lookup os' q = Some (FLink t)))))"

lemma links_changed_cases:
  assumes "links_changed os L os'"
  obtains "lookup os' q = lookup os q"
  | y r where "lookup os q = None" "lookup os' q = Some FDir" "L = q @ y # r"
  | "q = L" "lookup os q \<noteq> Some FDir" "lookup os' q = None"
  | t where "q = L" "lookup os q \<noteq> Some FDir" "lookup os' q = Some (FLink t)"
proof -
  have "lookup os' q = lookup os q
     \<or> lookup os q = None \<and> lookup os' q = Some FDir \<and> (\<exists>y r. L = q @ y # r)
     \<or> q = L \<and> lookup os q \<noteq> Some FDir \<and> (lookup os' q = None \<or> (\<exists>t. lookup os' q = Some (FLink t)))"
    using assms unfolding links_changed_def by blast
  then show ?thesis using that by blast
qed

lemma link_file_step:
  assumes run: "link_file p (abs_path S) f os = (r, os')"
    and S: "list_all norm_seg S" and B: "p_blobs p = abs_path B" "list_all norm_seg B"
    and ready: "link_ready os S f"
  shows "links_changed os (link_at S f) os' \<and> (ok r \<longrightarrow> dir_at os' (butlast (link_at S f))
    \<and> safe_rel_path (fm_path f) \<and> safe_blob_name (fm_blob f)
    \<and> (\<exists>t. rel_path (abs_path (butlast (link_at S f))) (abs_path (B @ [fm_blob f])) = Inr t
           \<and> lookup os' (link_at S f) = Some (FLink t))
    \<and> (\<exists>o1. dirs_added os (butlast (link_at S f)) o1 \<and> exists_at o1 (abs_path (B @ [fm_blob f]))))"
proof -
  obtain ds x where L: "split_on sep (fm_path f) = ds @ [x]" by (metis append_butlast_last_id split_on_not_Nil)
  have la: "link_at S f = S @ ds @ [x]" "butlast (link_at S f) = S @ ds"
    using L by (simp_all add: link_at_def butlast_append)
  have n: "lookup os (S @ ds @ [x]) \<noteq> Some FDir" and D: "plain os (S @ ds)"
    using ready la by (simp_all add: link_ready_def)
  note eff = link_file_effect [OF run S B L D n]
  have "links_changed os (link_at S f) os'"
  proof (cases "same_fs os os'")
    case True
    then show ?thesis by (simp add: links_changed_def same_fs_def)
  next
    case False
    with eff obtain o1 where d: "dirs_added os (S @ ds) o1"
      and u: "same_fs o1 os' \<or> (\<exists>m. fs_upd o1 (S @ ds @ [x]) m os' \<and> (m = None \<or> (\<exists>t. m = Some (FLink t))))"
      by blast
    have "env_eq os os'" using d u env_eq_trans by (auto simp: dirs_added_def same_fs_def fs_upd_def)
    moreover have nd: "lookup o1 q = lookup os q
      \<or> lookup os q = None \<and> lookup o1 q = Some FDir \<and> (\<exists>y r. S @ ds @ [x] = q @ y # r)" for q
    proof (rule dirs_added_cases [OF d, of q])
      fix r assume *: "lookup os q = None" "lookup o1 q = Some FDir" "S @ ds = q @ r"
      then have "S @ ds @ [x] = q @ (r @ [x])" by (metis append_assoc)
      moreover obtain y r' where "r @ [x] = y # r'" by (cases r) auto
      ultimately have "\<exists>y r'. S @ ds @ [x] = q @ y # r'" by metis
      then show ?thesis using *(1,2) by blast
    qed simp
    moreover have "lookup os' q = lookup os q
      \<or> lookup os q = None \<and> lookup os' q = Some FDir \<and> (\<exists>y r. S @ ds @ [x] = q @ y # r)
      \<or> q = S @ ds @ [x] \<and> lookup os q \<noteq> Some FDir \<and> (lookup os' q = None \<or> (\<exists>t. lookup os' q = Some (FLink t)))" for q
      using u nd [of q] n by (cases "q = S @ ds @ [x]") (auto simp: same_fs_def fs_upd_def)
    ultimately show ?thesis unfolding links_changed_def la by blast
  qed
  then show ?thesis using eff la by auto
qed

lemma links_changed_ready:
  assumes c: "links_changed os (link_at S f) os'" and g: "link_ready os S g"
    and "\<And>y r. link_at S g \<noteq> link_at S f @ y # r" "\<And>y r. link_at S f \<noteq> link_at S g @ y # r"
  shows "link_ready os' S g"
proof -
  have "lookup os' (take i (butlast (link_at S g))) \<in> {None, Some FDir}"
    if i: "i \<le> length (butlast (link_at S g))" for i
  proof -
    let ?q = "take i (butlast (link_at S g))"
    have "link_at S g = ?q @ (drop i (butlast (link_at S g)) @ [last (split_on sep (fm_path g))])"
      using link_at_snoc [of S g] by (metis append_assoc append_take_drop_id)
    then have "?q \<noteq> link_at S f" using assms(3)
      by (metis append_is_Nil_conv list.exhaust not_Cons_self2)
    moreover have "lookup os ?q \<in> {None, Some FDir}" using g i by (simp add: link_ready_def plain_def)
    ultimately show ?thesis by - (rule links_changed_cases [OF c, of ?q], auto)
  qed
  moreover have "lookup os' (link_at S g) \<noteq> Some FDir"
    by (rule links_changed_cases [OF c, of "link_at S g"]) (use g assms(4) in \<open>auto simp: link_ready_def\<close>)
  ultimately show ?thesis using g by (auto simp: link_ready_def plain_def)
qed

lemma links_changed_dir_at:
  assumes c: "links_changed os L os'" and d: "dir_at os D"
  shows "dir_at os' D"
proof -
  have "lookup os' (take i D) = Some FDir" if "lookup os (take i D) = Some FDir" for i
    by (rule links_changed_cases [OF c, of "take i D"]) (use that in auto)
  then show ?thesis using d by (auto simp: dir_at_def)
qed

text \<open>A path that no link of the manifest is at or below is not touched.\<close>

lemma links_changed_outside:
  assumes "links_changed os L os'" "\<And>r. L \<noteq> q @ r"
  shows "lookup os' q = lookup os q"
  by (rule links_changed_cases [OF assms(1), of q]) (use assms(2) [of "[]"] assms(2) in auto)

lemma exists_at_blob:
  assumes "exists_at os (abs_path (B @ [b]))" "dir_at os B" "norm_seg b" "\<And>t. lookup os (B @ [b]) \<noteq> Some (FLink t)"
  shows "lookup os (B @ [b]) \<noteq> None"
  using assms resolve_in_dir [OF assms(2,3), of True] by (auto simp: exists_at_def)

definition linked :: "os \<Rightarrow> path \<Rightarrow> path \<Rightarrow> file_manifest \<Rightarrow> bool" where
  "linked os S B f = (dir_at os (butlast (link_at S f)) \<and> safe_rel_path (fm_path f) \<and> safe_blob_name (fm_blob f)
     \<and> (\<exists>t. rel_path (abs_path (butlast (link_at S f))) (abs_path (B @ [fm_blob f])) = Inr t
            \<and> lookup os (link_at S f) = Some (FLink t))
     \<and> lookup os (B @ [fm_blob f]) \<noteq> None)"

lemma linked_changed:
  assumes "linked os S B g" "links_changed os (link_at S f) os'" "link_at S g \<noteq> link_at S f"
    "\<And>b r. link_at S f \<noteq> (B @ [b]) @ r"
  shows "linked os' S B g"
proof -
  have "lookup os' (link_at S g) = lookup os (link_at S g)"
    by (rule links_changed_cases [OF assms(2), of "link_at S g"]) (use assms(1,3) in \<open>auto simp: linked_def\<close>)
  moreover have "lookup os' (B @ [fm_blob g]) = lookup os (B @ [fm_blob g])"
    using links_changed_outside [OF assms(2)] assms(4) by blast
  ultimately show ?thesis using assms(1) links_changed_dir_at [OF assms(2)] by (auto simp: linked_def)
qed

lemma link_files_correct:
  assumes "link_files p (abs_path S) fs os = (Inr (), os')"
    and S: "list_all norm_seg S" and B: "p_blobs p = abs_path B" "dir_at os B"
    and "\<forall>f \<in> set fs. link_ready os S f" and "prefix_free S fs" and "distinct (map fm_path fs)"
    and sepr: "\<And>f r. link_at S f \<noteq> B @ r"
    and "\<forall>f \<in> set fs. \<forall>t. lookup os (B @ [fm_blob f]) \<noteq> Some (FLink t)"
  shows "(\<forall>f \<in> set fs. linked os' S B f) \<and> env_eq os os'
    \<and> (\<forall>q. (\<forall>f \<in> set fs. \<forall>r. link_at S f \<noteq> q @ r) \<longrightarrow> lookup os' q = lookup os q)
    \<and> (\<forall>D. dir_at os D \<longrightarrow> dir_at os' D)"
  using assms(1,4-7,9)
proof (induction fs arbitrary: os)
  case Nil
  then show ?case by simp
next
  case (Cons f fs)
  obtain r o1 where l: "link_file p (abs_path S) f os = (r, o1)" by (meson surj_pair)
  then have ok: "ok r" and rest: "link_files p (abs_path S) fs o1 = (Inr (), os')"
    using Cons.prems(1) by (auto split: sum.splits)
  have nB: "list_all norm_seg B" using Cons.prems(2) by (simp add: dir_at_def)
  note st = link_file_step [OF l S B(1) nB, of]
  have c: "links_changed os (link_at S f) o1" using st Cons.prems(3) by simp
  have sB: "\<And>b r. link_at S f \<noteq> (B @ [b]) @ r" using sepr by simp
  have lB: "lookup o1 (B @ [b]) = lookup os (B @ [b])" for b
    using links_changed_outside [OF c] sB by blast
  have f1: "linked o1 S B f"
  proof -
    obtain o2 where "dirs_added os (butlast (link_at S f)) o2" "exists_at o2 (abs_path (B @ [fm_blob f]))"
      and s: "safe_blob_name (fm_blob f)"
      using st Cons.prems(3) ok by auto
    moreover have "lookup o2 (B @ [fm_blob f]) = lookup os (B @ [fm_blob f])"
    proof (rule dirs_added_cases [OF \<open>dirs_added os _ o2\<close>, of "B @ [fm_blob f]"])
      fix r assume "butlast (link_at S f) = (B @ [fm_blob f]) @ r"
      then have "link_at S f = B @ (fm_blob f # r @ [last (split_on sep (fm_path f))])"
        using link_at_snoc [of S f] by simp
      then show ?thesis using sepr by blast
    qed simp
    ultimately have "lookup os (B @ [fm_blob f]) \<noteq> None"
      using exists_at_blob [of o2 B "fm_blob f"] dirs_added_dir_at Cons.prems(2,6) safe_blob_name_seg by auto
    then show ?thesis using st Cons.prems(3) ok lB by (auto simp: linked_def)
  qed
  have IH: "(\<forall>g \<in> set fs. linked os' S B g) \<and> env_eq o1 os'
    \<and> (\<forall>q. (\<forall>g \<in> set fs. \<forall>r. link_at S g \<noteq> q @ r) \<longrightarrow> lookup os' q = lookup o1 q)
    \<and> (\<forall>D. dir_at o1 D \<longrightarrow> dir_at os' D)"
  proof (rule Cons.IH [OF rest])
    show "dir_at o1 B" by (rule links_changed_dir_at [OF c Cons.prems(2)])
    show "\<forall>g \<in> set fs. link_ready o1 S g"
      using Cons.prems(3,4) by (auto intro!: links_changed_ready [OF c] simp: prefix_free_def)
    show "prefix_free S fs" using Cons.prems(4) by (auto simp: prefix_free_def)
    show "distinct (map fm_path fs)" using Cons.prems(5) by simp
    show "\<forall>g \<in> set fs. \<forall>t. lookup o1 (B @ [fm_blob g]) \<noteq> Some (FLink t)" using Cons.prems(6) lB by simp
  qed
  have lf: "lookup os' (link_at S f) = lookup o1 (link_at S f)"
  proof -
    have "link_at S g \<noteq> link_at S f @ r" if "g \<in> set fs" for g r
    proof (cases r)
      case Nil
      have "fm_path g \<noteq> fm_path f" using Cons.prems(5) that by (auto, metis image_eqI)
      then show ?thesis using Nil join_split_on by (metis append_Nil2 link_at_def same_append_eq)
    next
      case (Cons y ys)
      then show ?thesis using Cons.prems(4) that by (auto simp: prefix_free_def)
    qed
    then show ?thesis using IH by blast
  qed
  moreover have "lookup os' (B @ [fm_blob f]) = lookup o1 (B @ [fm_blob f])" using IH sepr by simp
  ultimately have "linked os' S B f" using f1 IH by (auto simp: linked_def)
  then show ?case using IH c env_eq_trans links_changed_outside [OF c] links_changed_dir_at [OF c]
    by (auto simp: links_changed_def [of os _ o1])
qed

section \<open>The tree and the ref\<close>

lemma write_tree_success:
  assumes run: "write_tree p commit fs os = (Inr (), os')"
    and p: "p_trees p = abs_path ts" "plain os ts" "sep \<notin> set commit"
    and n: "lookup os (ts @ [commit @ ''.json'']) \<noteq> Some FDir" and rnd: "\<And>n. sep \<notin> set (rands os n)"
  shows "\<exists>o1 d. dirs_added os ts o1 \<and> fs_upd o1 (ts @ [commit @ ''.json'']) (Some (FFile d 384)) os'"
proof -
  obtain r1 o1 where mk: "os_mkdir_all os (p_trees p) = (r1, o1)" by (meson surj_pair)
  with run have "ok r1" by (auto simp: write_tree_def split: sum.splits)
  with mkdir_all_effect [of os ts r1 o1] mk p have d1: "dirs_added os ts o1" "dir_at o1 ts" by auto
  have x: "norm_seg (commit @ ''.json'')" using json_name [OF p(3)] .
  have nts: "list_all norm_seg ts" using d1(2) by (simp add: dir_at_def)
  have target: "tree_path p commit = abs_path (ts @ [commit @ ''.json''])"
    using join_path_seg [OF nts x] by (simp add: tree_path_def p(1))
  obtain r2 o2 where rd: "read_tree p commit o1 = (r2, o2)" by (meson surj_pair)
  have s2: "same_fs o1 o2"
    using rd read_calls_fs(4) by (auto simp: read_tree_def Let_def split: prod.splits sum.splits if_splits)
  obtain d where w: "write_atomic o2 (abs_path (ts @ [commit @ ''.json''])) d 384 = (Inr (), os')"
    using run mk \<open>ok r1\<close> rd
    by (auto simp: write_tree_def target Let_def split: sum.splits prod.splits)
  have "dir_at o2 ts" using d1(2) by (simp add: dir_at_cong [OF s2])
  moreover have "lookup o2 (ts @ [commit @ ''.json'']) \<noteq> Some FDir"
    using n s2 dirs_added_outside [OF d1(1), of "ts @ [commit @ ''.json'']"] by (simp add: same_fs_def)
  moreover have "sep \<notin> set (rands o2 n)" for n
    using rnd d1(1) s2 by (auto simp: dirs_added_def same_fs_def env_eq_def)
  ultimately have "fs_upd o2 (ts @ [commit @ ''.json'']) (Some (FFile d 384)) os'"
    using write_atomic_effect [OF w _ x] by (simp add: atomic_effect_def)
  then show ?thesis using d1(1) fs_fs_upd [OF s2] by blast
qed

lemma write_ref_success:
  assumes run: "write_ref p ref commit os = (Inr (), os')"
    and p: "p_refs p = abs_path rs" "plain os rs" "norm_seg ref"
    and n: "lookup os (rs @ [ref]) \<noteq> Some FDir" and rnd: "\<And>n. sep \<notin> set (rands os n)"
  shows "\<exists>o1. dirs_added os rs o1 \<and> fs_upd o1 (rs @ [ref]) (Some (FFile (commit @ [CHR 0x0A]) 420)) os'"
proof -
  obtain r1 o1 where mk: "os_mkdir_all os (p_refs p) = (r1, o1)" by (meson surj_pair)
  with run have "ok r1" by (auto simp: write_ref_def split: sum.splits)
  with mkdir_all_effect [of os rs r1 o1] mk p have d1: "dirs_added os rs o1" "dir_at o1 rs" by auto
  have target: "ref_path p ref = abs_path (rs @ [ref])"
    using join_path_seg [of rs ref] d1(2) p by (simp add: ref_path_def dir_at_def)
  have w: "write_atomic o1 (abs_path (rs @ [ref])) (commit @ [CHR 0x0A]) 420 = (Inr (), os')"
    using run mk \<open>ok r1\<close> by (auto simp: write_ref_def target split: sum.splits)
  have "lookup o1 (rs @ [ref]) \<noteq> Some FDir" using n dirs_added_outside [OF d1(1), of "rs @ [ref]"] by simp
  moreover have "sep \<notin> set (rands o1 n)" for n using rnd d1(1) by (auto simp: dirs_added_def env_eq_def)
  ultimately show ?thesis
    using write_atomic_effect [OF w d1(2) p(3)] d1(1) by (auto simp: atomic_effect_def)
qed

lemma plain_dirs_added: "dirs_added os ss os' \<Longrightarrow> plain os ts \<Longrightarrow> plain os' ts"
proof -
  assume d: "dirs_added os ss os'" and p: "plain os ts"
  have "lookup os' (take i ts) \<in> {None, Some FDir}" if "lookup os (take i ts) \<in> {None, Some FDir}" for i
    by (rule dirs_added_cases [OF d, of "take i ts"]) (use that in auto)
  then show ?thesis using p by (auto simp: plain_def)
qed

lemma plain_cong: "(\<And>i. i \<le> length ts \<Longrightarrow> lookup os' (take i ts) = lookup os (take i ts)) \<Longrightarrow> plain os' ts = plain os ts"
  by (simp add: plain_def)

lemma link_ready_dirs_added:
  assumes "dirs_added os S os'" "link_ready os S f"
  shows "link_ready os' S f"
  using assms plain_dirs_added [OF assms(1)] dirs_added_outside [OF assms(1), of "link_at S f"]
  by (auto simp: link_ready_def link_at_def)

text \<open>One directory brought into existence and one file written into it.\<close>

definition file_put :: "os \<Rightarrow> path \<Rightarrow> string \<Rightarrow> fnode \<Rightarrow> os \<Rightarrow> bool" where
  "file_put os ts x n os' = (\<exists>o1. dirs_added os ts o1 \<and> fs_upd o1 (ts @ [x]) (Some n) os')"

lemma file_put_other:
  assumes "file_put os ts x n os'" "q \<noteq> ts @ [x]" "\<And>r. ts \<noteq> q @ r"
  shows "lookup os' q = lookup os q"
proof -
  obtain o1 where d: "dirs_added os ts o1" and u: "fs_upd o1 (ts @ [x]) (Some n) os'"
    using assms(1) by (auto simp: file_put_def)
  have "lookup o1 q = lookup os q" by (rule dirs_added_cases [OF d, of q]) (use assms(3) in auto)
  then show ?thesis using u assms(2) by (simp add: fs_upd_def)
qed

lemma file_put_dir_at:
  assumes "file_put os ts x n os'" "lookup os (ts @ [x]) \<noteq> Some FDir" "dir_at os D"
  shows "dir_at os' D"
proof -
  obtain o1 where d: "dirs_added os ts o1" and u: "fs_upd o1 (ts @ [x]) (Some n) os'"
    using assms(1) by (auto simp: file_put_def)
  have "lookup o1 (ts @ [x]) \<noteq> Some FDir" using dirs_added_outside [OF d, of "ts @ [x]"] assms(2) by simp
  then show ?thesis using dir_at_upd [OF u] dirs_added_dir_at [OF d assms(3)] by blast
qed

lemma file_put_env: "file_put os ts x n os' \<Longrightarrow> env_eq os os'"
  by (auto simp: file_put_def dirs_added_def fs_upd_def intro: env_eq_trans)

lemma file_put_at: "file_put os ts x n os' \<Longrightarrow> lookup os' (ts @ [x]) = Some n"
  by (auto simp: file_put_def fs_upd_def)

section \<open>The whole snapshot\<close>

text \<open>
  The preconditions: the cache directories above the writes are real directories or absent, nothing is a
  directory where a file goes, the blobs directory exists and the manifest's blobs are regular files
  where they exist, and the manifest is consistent.
\<close>

definition repo_path :: "path \<Rightarrow> string \<Rightarrow> repotype \<Rightarrow> path" where
  "repo_path H rid t = H @ [repo_dir_name rid t]"

definition snap_path :: "path \<Rightarrow> string \<Rightarrow> path" where
  "snap_path R commit = R @ [''snapshots'', commit]"

definition cache_ready :: "os \<Rightarrow> path \<Rightarrow> string \<Rightarrow> string \<Rightarrow> bool" where
  "cache_ready os R commit ref =
     (dir_at os (R @ [''blobs'']) \<and> plain os (snap_path R commit) \<and> plain os (R @ [''trees''])
      \<and> plain os (R @ [''refs'']) \<and> lookup os (R @ [''trees'', commit @ ''.json'']) \<noteq> Some FDir
      \<and> lookup os (R @ [''refs'', ref]) \<noteq> Some FDir \<and> (\<forall>n. sep \<notin> set (rands os n))
      \<and> norm_seg commit \<and> norm_seg ref)"

definition manifest_ready :: "os \<Rightarrow> path \<Rightarrow> string \<Rightarrow> file_manifest list \<Rightarrow> bool" where
  "manifest_ready os R commit fs =
     ((\<forall>f \<in> set fs. link_ready os (snap_path R commit) f
        \<and> lookup os (R @ [''blobs'', fm_blob f]) \<in> {None} \<union> range (\<lambda>(d, m). Some (FFile d m)))
      \<and> prefix_free (snap_path R commit) fs \<and> distinct (map fm_path fs))"

lemma new_paths_abs:
  assumes "list_all norm_seg H" "norm_seg (repo_dir_name rid t)"
  defines "R \<equiv> repo_path H rid t"
  shows "p_blobs (new_paths (abs_path H) rid t) = abs_path (R @ [''blobs''])"
    "p_snapshots (new_paths (abs_path H) rid t) = abs_path (R @ [''snapshots''])"
    "p_refs (new_paths (abs_path H) rid t) = abs_path (R @ [''refs''])"
    "p_trees (new_paths (abs_path H) rid t) = abs_path (R @ [''trees''])"
proof -
  have R: "join_path [abs_path H, repo_dir_name rid t] = abs_path R" "list_all norm_seg R"
    using assms by (simp_all add: join_path_seg R_def repo_path_def)
  have n: "norm_seg ''blobs''" "norm_seg ''snapshots''" "norm_seg ''refs''" "norm_seg ''trees''"
    by (simp_all add: norm_seg_def)
  show "p_blobs (new_paths (abs_path H) rid t) = abs_path (R @ [''blobs''])"
    "p_snapshots (new_paths (abs_path H) rid t) = abs_path (R @ [''snapshots''])"
    "p_refs (new_paths (abs_path H) rid t) = abs_path (R @ [''refs''])"
    "p_trees (new_paths (abs_path H) rid t) = abs_path (R @ [''trees''])"
    by (simp_all add: new_paths_def Let_def R join_path_seg [OF R(2)] n)
qed

lemma write_snapshot_stages:
  assumes run: "write_snapshot p commit fs ref0 os = (Inr (), os')"
    and S: "p_snapshots p = abs_path (R @ [''snapshots''])" and T: "p_trees p = abs_path (R @ [''trees''])"
    and F: "p_refs p = abs_path (R @ [''refs''])" and B: "p_blobs p = abs_path (R @ [''blobs''])"
    and ready: "cache_ready os R commit (if ref0 = [] then ''main'' else ref0)" "manifest_ready os R commit fs"
  shows "\<exists>o1 o2 o3 d. dirs_added os (snap_path R commit) o1
    \<and> (\<forall>f \<in> set fs. linked o2 (snap_path R commit) (R @ [''blobs'']) f)
    \<and> (\<forall>q. (\<forall>r. q \<noteq> snap_path R commit @ r) \<longrightarrow> lookup o2 q = lookup o1 q) \<and> dir_at o2 (R @ [''blobs''])
    \<and> file_put o2 (R @ [''trees'']) (commit @ ''.json'') (FFile d 384) o3
    \<and> file_put o3 (R @ [''refs'']) (if ref0 = [] then ''main'' else ref0) (FFile (commit @ [CHR 0x0A]) 420) os'"
proof -
  let ?ref = "if ref0 = [] then ''main'' else ref0" let ?S = "snap_path R commit" let ?B = "R @ [''blobs'']"
  have nR: "list_all norm_seg R" "norm_seg commit" "norm_seg ?ref" "sep \<notin> set commit"
    using ready(1) by (auto simp: cache_ready_def dir_at_def norm_seg_def)
  have nS: "list_all norm_seg ?S" using nR by (simp add: snap_path_def norm_seg_def)
  have sd: "snapshot_dir p commit = abs_path ?S"
    using join_path_seg [of "R @ [''snapshots'']" commit] nR by (simp add: snapshot_dir_def S snap_path_def norm_seg_def)
  obtain r1 o1 where mk: "os_mkdir_all os (abs_path ?S) = (r1, o1)" by (meson surj_pair)
  obtain r2 o2 where lf: "link_files p (abs_path ?S) fs o1 = (r2, o2)" by (meson surj_pair)
  obtain r3 o3 where wt: "write_tree p commit fs o2 = (r3, o3)" by (meson surj_pair)
  have oks: "ok r1" "r2 = Inr ()" "r3 = Inr ()" and wr: "write_ref p ?ref commit o3 = (Inr (), os')"
    using run mk lf wt by (auto simp: write_snapshot_def Let_def sd split: sum.splits)
  have d1: "dirs_added os ?S o1" using mkdir_all_effect [OF mk] ready(1) by (auto simp: cache_ready_def)
  have env1: "env_eq os o1" using d1 by (simp add: dirs_added_def)
  have apart: "?S @ x \<noteq> R @ [y] @ z" if "y \<noteq> ''snapshots''" for x y z using that by (simp add: snap_path_def)
  have out1: "lookup o1 (R @ [y] @ z) = lookup os (R @ [y] @ z)" if "y \<noteq> ''snapshots''" for y z
    by (rule dirs_added_cases [OF d1, of "R @ [y] @ z"]) (use that in \<open>auto simp: snap_path_def\<close>)
  note blobs = ready(2) [unfolded manifest_ready_def]
  have l2: "(\<forall>f \<in> set fs. linked o2 ?S ?B f) \<and> env_eq o1 o2
    \<and> (\<forall>q. (\<forall>f \<in> set fs. \<forall>r. link_at ?S f \<noteq> q @ r) \<longrightarrow> lookup o2 q = lookup o1 q)
    \<and> (\<forall>D. dir_at o1 D \<longrightarrow> dir_at o2 D)"
  proof (rule link_files_correct [OF lf [unfolded oks(2)] nS B])
    show "dir_at o1 ?B" using dirs_added_dir_at [OF d1] ready(1) by (simp add: cache_ready_def)
    show "\<forall>f \<in> set fs. link_ready o1 ?S f" using blobs link_ready_dirs_added [OF d1] by auto
    show "prefix_free ?S fs" "distinct (map fm_path fs)" using blobs by auto
    show "\<And>f r. link_at ?S f \<noteq> ?B @ r" by (simp add: link_at_def snap_path_def)
    show "\<forall>f \<in> set fs. \<forall>t. lookup o1 (?B @ [fm_blob f]) \<noteq> Some (FLink t)"
    proof (intro ballI allI notI)
      fix f t assume f: "f \<in> set fs" and l: "lookup o1 (?B @ [fm_blob f]) = Some (FLink t)"
      then have "lookup os (R @ [''blobs'', fm_blob f]) = Some (FLink t)"
        using out1 [of "''blobs''" "[fm_blob f]"] by simp
      then show False using blobs f by fastforce
    qed
  qed
  have d1S: "dir_at o1 ?S" using mkdir_all_effect [OF mk] ready(1) oks(1) by (auto simp: cache_ready_def)
  have out2: "lookup o2 q = lookup o1 q" if q: "\<forall>r. q \<noteq> ?S @ r" for q
  proof (cases "\<exists>r. ?S = q @ r")
    case True
    then obtain r where r: "?S = q @ r" by blast
    have "dir_at o1 q" using dir_at_append d1S unfolding r .
    then show ?thesis using l2 dir_at_lookup by metis
  next
    case False
    have "link_at ?S f \<noteq> q @ r" for f r
    proof
      assume "link_at ?S f = q @ r"
      then show False using q False by (auto simp: link_at_def append_eq_append_conv2)
    qed
    then show ?thesis using l2 by blast
  qed
  have short: "lookup o2 q = lookup o1 q" if "length q \<le> length R + 1" for q
    using that by (intro out2) (auto simp: snap_path_def)
  have far: "lookup o2 (R @ [y] @ z) = lookup os (R @ [y] @ z)" if "y \<noteq> ''snapshots''" for y z
    using out1 [OF that] out2 [of "R @ [y] @ z"] that by (simp add: snap_path_def)
  have pl2: "plain o2 (R @ [y])" if "plain os (R @ [y])" for y
    using plain_dirs_added [OF d1 that] plain_cong [of "R @ [y]" o2 o1] short by simp
  have rnd: "sep \<notin> set (rands ob n)" if "env_eq os ob" for ob n
    using that ready(1) by (simp add: env_eq_def cache_ready_def)
  have env2: "env_eq os o2" using env_eq_trans [OF env1] l2 by blast
  obtain d where t3: "file_put o2 (R @ [''trees'']) (commit @ ''.json'') (FFile d 384) o3"
    using write_tree_success [OF wt [unfolded oks(3)] T pl2 nR(4)] far [of "''trees''" "[commit @ ''.json'']"] ready(1)
      rnd [OF env2] by (auto simp: file_put_def cache_ready_def)
  have env3: "env_eq os o3" using env_eq_trans [OF env2 file_put_env [OF t3]] .
  have n3: "lookup o2 ((R @ [''trees'']) @ [commit @ ''.json'']) \<noteq> Some FDir"
    using far [of "''trees''" "[commit @ ''.json'']"] ready(1) by (simp add: cache_ready_def)
  have o3: "lookup o3 (R @ [''refs''] @ z) = lookup o2 (R @ [''refs''] @ z)" for z
    by (rule file_put_other [OF t3]) simp_all
  have pl3: "plain o3 (R @ [''refs''])"
  proof -
    have "lookup o3 (take i (R @ [''refs''])) \<in> {None, Some FDir}" if i: "i \<le> length (R @ [''refs''])" for i
    proof (cases "i \<le> length R")
      case True
      have "dir_at os R" using ready(1) by (simp add: cache_ready_def dir_at_snoc)
      then have "dir_at o2 R" using l2 dirs_added_dir_at [OF d1] by blast
      then have "dir_at o3 R" using file_put_dir_at [OF t3 n3] by blast
      then show ?thesis using True by (simp add: dir_at_def)
    next
      case False
      then have "take i (R @ [''refs'']) = R @ [''refs''] @ []" using i by simp
      then show ?thesis using o3 [of "[]"] pl2 [of "''refs''"] ready(1)
        by (auto simp: cache_ready_def plain_def dest: spec [of _ "length R + 1"])
    qed
    then show ?thesis using nR(1) by (simp add: plain_def norm_seg_def)
  qed
  have "lookup o3 ((R @ [''refs'']) @ [?ref]) \<noteq> Some FDir"
    using o3 [of "[?ref]"] far [of "''refs''" "[?ref]"] ready(1) by (simp add: cache_ready_def)
  then have "file_put o3 (R @ [''refs'']) ?ref (FFile (commit @ [CHR 0x0A]) 420) os'"
    using write_ref_success [OF wr F pl3 nR(3)] rnd [OF env3] by (auto simp: file_put_def)
  moreover have "dir_at os ?B" using ready(1) by (simp add: cache_ready_def)
  then have "dir_at o2 ?B" using l2 dirs_added_dir_at [OF d1] by blast
  ultimately show ?thesis using d1 l2 out2 t3 by blast
qed

section \<open>Properties\<close>

text \<open>C10: after \<open>WriteSnapshot\<close> succeeds, every file of the manifest is a link that resolves to its blob,
  which exists and is unchanged; \<open>refs/<ref>\<close> holds the commit and a newline; and a path outside
  \<open>snapshots/<commit>\<close>, \<open>trees\<close> and \<open>refs\<close> of the repository is unchanged, unless it is a directory
  above the snapshot that was missing.\<close>

theorem write_snapshot_correct:
  assumes "list_all norm_seg H" and "norm_seg (repo_dir_name rid t)"
    and "cache_ready os (repo_path H rid t) commit (if ref = [] then ''main'' else ref)"
    and "manifest_ready os (repo_path H rid t) commit fs"
    and "write_snapshot (new_paths (abs_path H) rid t) commit fs ref os = (Inr (), os')"
  shows "(\<forall>f \<in> set fs. resolve os' True (abs_path (link_at (snap_path (repo_path H rid t) commit) f))
        = Inr (repo_path H rid t @ [''blobs'', fm_blob f])
      \<and> lookup os' (repo_path H rid t @ [''blobs'', fm_blob f]) \<noteq> None
      \<and> lookup os' (repo_path H rid t @ [''blobs'', fm_blob f]) = lookup os (repo_path H rid t @ [''blobs'', fm_blob f]))
    \<and> lookup os' (repo_path H rid t @ [''refs'', if ref = [] then ''main'' else ref])
        = Some (FFile (commit @ [CHR 0x0A]) 420)
    \<and> (\<forall>q. (\<forall>r. q \<noteq> snap_path (repo_path H rid t) commit @ r) \<longrightarrow>
         (\<forall>r. q \<noteq> repo_path H rid t @ ''trees'' # r) \<longrightarrow> (\<forall>r. q \<noteq> repo_path H rid t @ ''refs'' # r) \<longrightarrow>
         lookup os' q = lookup os q \<or> lookup os q = None \<and> lookup os' q = Some FDir)"
proof -
  let ?R = "repo_path H rid t" let ?S = "snap_path ?R commit" let ?ref = "if ref = [] then ''main'' else ref"
  note np = new_paths_abs [OF assms(1,2)]
  obtain o1 o2 o3 d where d1: "dirs_added os ?S o1" and lk: "\<forall>f \<in> set fs. linked o2 ?S (?R @ [''blobs'']) f"
    and out: "\<forall>q. (\<forall>r. q \<noteq> ?S @ r) \<longrightarrow> lookup o2 q = lookup o1 q" and B2: "dir_at o2 (?R @ [''blobs''])"
    and t3: "file_put o2 (?R @ [''trees'']) (commit @ ''.json'') (FFile d 384) o3"
    and r4: "file_put o3 (?R @ [''refs'']) ?ref (FFile (commit @ [CHR 0x0A]) 420) os'"
    using write_snapshot_stages [OF assms(5) np(2,4,3,1) assms(3,4)] by blast
  have keep: "lookup os' (?R @ y # z) = lookup o2 (?R @ y # z)" if "y \<noteq> ''trees''" "y \<noteq> ''refs''" for y z
    using file_put_other [OF t3, of "?R @ y # z"] file_put_other [OF r4, of "?R @ y # z"] that by simp
  have far: "lookup o2 (?R @ y # z) = lookup os (?R @ y # z)" if "y \<noteq> ''snapshots''" for y z
  proof -
    have "lookup o2 (?R @ y # z) = lookup o1 (?R @ y # z)" using out that by (simp add: snap_path_def)
    also have "\<dots> = lookup os (?R @ y # z)"
      by (rule dirs_added_cases [OF d1, of "?R @ y # z"]) (use that in \<open>auto simp: snap_path_def\<close>)
    finally show ?thesis .
  qed
  have n3: "lookup o2 ((?R @ [''trees'']) @ [commit @ ''.json'']) \<noteq> Some FDir"
    using far [of "''trees''" "[commit @ ''.json'']"] assms(3) by (simp add: cache_ready_def)
  have n4: "lookup o3 ((?R @ [''refs'']) @ [?ref]) \<noteq> Some FDir"
    using file_put_other [OF t3, of "(?R @ [''refs'']) @ [?ref]"] far [of "''refs''" "[?ref]"] assms(3)
    by (simp add: cache_ready_def)
  have dir: "dir_at os' D" if "dir_at o2 D" for D
    using file_put_dir_at [OF r4 n4 file_put_dir_at [OF t3 n3 that]] .
  have links: "resolve os' True (abs_path (link_at ?S f)) = Inr (?R @ [''blobs'', fm_blob f])
      \<and> lookup os' (?R @ [''blobs'', fm_blob f]) \<noteq> None
      \<and> lookup os' (?R @ [''blobs'', fm_blob f]) = lookup os (?R @ [''blobs'', fm_blob f])"
    if f: "f \<in> set fs" for f
  proof -
    note l = lk [rule_format, OF f, unfolded linked_def]
    have b: "lookup os' (?R @ [''blobs'', fm_blob f]) = lookup os (?R @ [''blobs'', fm_blob f])"
      using keep [of "''blobs''" "[fm_blob f]"] far [of "''blobs''" "[fm_blob f]"] by simp
    moreover have "lookup os (?R @ [''blobs'', fm_blob f]) \<noteq> None" using l far [of "''blobs''" "[fm_blob f]"] by simp
    ultimately obtain c m where c: "lookup os' ((?R @ [''blobs'']) @ [fm_blob f]) = Some (FFile c m)"
      using assms(4) f by (fastforce simp: manifest_ready_def)
    obtain u where u: "rel_path (abs_path (butlast (link_at ?S f))) (abs_path ((?R @ [''blobs'']) @ [fm_blob f])) = Inr u"
      "lookup o2 (link_at ?S f) = Some (FLink u)" using l by auto
    have u': "lookup os' (butlast (link_at ?S f) @ [last (split_on sep (fm_path f))]) = Some (FLink u)"
      using u(2) keep [of "''snapshots''" "commit # split_on sep (fm_path f)"] link_at_snoc [of ?S f]
      by (simp add: link_at_def snap_path_def)
    have x: "norm_seg (last (split_on sep (fm_path f)))" "norm_seg (fm_blob f)"
      using l safe_rel_path_segs [of "fm_path f"] safe_blob_name_seg by (auto simp: list_all_iff)
    have "resolve os' True (abs_path (link_at ?S f)) = Inr ((?R @ [''blobs'']) @ [fm_blob f])"
      using resolve_relative_link [OF dir x(1) u' dir [OF B2] x(2) c u(1)] l link_at_snoc [of ?S f] by simp
    then show ?thesis using b c by simp
  qed
  have "lookup os' q = lookup os q \<or> lookup os q = None \<and> lookup os' q = Some FDir"
    if q: "\<forall>r. q \<noteq> ?S @ r" "\<forall>r. q \<noteq> ?R @ ''trees'' # r" "\<forall>r. q \<noteq> ?R @ ''refs'' # r" for q
  proof (cases "\<exists>r. ?R = q @ r")
    case True
    then obtain r where r: "?R = q @ r" by blast
    have "dir_at os (?R @ [''blobs''])" using assms(3) by (simp add: cache_ready_def)
    then have q0: "dir_at os q" using dir_at_append unfolding r by simp
    have "dir_at o2 q" using dir_at_append B2 unfolding r by simp
    then have "dir_at os' q" using dir by blast
    then show ?thesis using q0 dir_at_lookup by metis
  next
    case False
    have "lookup o3 q = lookup o2 q"
      by (rule file_put_other [OF t3]) (use q False in \<open>auto simp: append_eq_append_conv2 Cons_eq_append_conv\<close>)
    moreover have "lookup os' q = lookup o3 q"
      by (rule file_put_other [OF r4]) (use q False in \<open>auto simp: append_eq_append_conv2 Cons_eq_append_conv\<close>)
    moreover have "lookup o2 q = lookup o1 q" using out q(1) by blast
    ultimately show ?thesis by - (rule dirs_added_cases [OF d1, of q], auto)
  qed
  then have "\<forall>q. (\<forall>r. q \<noteq> ?S @ r) \<longrightarrow> (\<forall>r. q \<noteq> ?R @ ''trees'' # r) \<longrightarrow> (\<forall>r. q \<noteq> ?R @ ''refs'' # r) \<longrightarrow>
      lookup os' q = lookup os q \<or> lookup os q = None \<and> lookup os' q = Some FDir" by blast
  moreover have "lookup os' (?R @ [''refs'', ?ref]) = Some (FFile (commit @ [CHR 0x0A]) 420)"
    using file_put_at [OF r4] by simp
  ultimately show ?thesis using links by blast
qed

definition fresh_os :: os where
  "fresh_os = \<lparr>nodes = [([''h''], FDir), ([''h'', ''models--m''], FDir), ([''h'', ''models--m'', ''blobs''], FDir),
     ([''h'', ''models--m'', ''blobs'', ''x''], FFile ''hi'' 420)],
     cwd = [], ticks = 0, faults = (\<lambda>_. None), rands = (\<lambda>_. ''7''), mtimes = (\<lambda>_ _. 0), partials = (\<lambda>_. 0)\<rparr>"

definition fresh_file :: file_manifest where
  "fresh_file = \<lparr>fm_path = ''d/f'', fm_blob = ''x'', fm_size = 2, fm_sha256 = [], fm_mode = 0, fm_mtime = 0,
     fm_lfs = False, fm_xet = [], fm_src = []\<rparr>"

lemma fresh_lookup:
  "lookup fresh_os q = (if q = [] \<or> q = [''h''] \<or> q = [''h'', ''models--m''] \<or> q = [''h'', ''models--m'', ''blobs'']
     then Some FDir else if q = [''h'', ''models--m'', ''blobs'', ''x''] then Some (FFile ''hi'' 420) else None)"
  by (simp add: lookup_def fresh_os_def)

lemma fresh_repo: "repo_path [''h''] ''m'' Model = [''h'', ''models--m'']"
  by (simp add: repo_path_def repo_dir_name_def dir_prefix_def Model_def replace_sep)

theorem write_snapshot_correct_witness:
  "\<exists>os'. write_snapshot (new_paths ''/h'' ''m'' Model) ''c'' [fresh_file] [] fresh_os = (Inr (), os')
    \<and> resolve os' True ''/h/models--m/snapshots/c/d/f'' = Inr [''h'', ''models--m'', ''blobs'', ''x'']
    \<and> lookup os' [''h'', ''models--m'', ''refs'', ''main''] = Some (FFile [CHR ''c'', CHR 0x0A] 420)"
proof -
  let ?w = "write_snapshot (new_paths ''/h'' ''m'' Model) ''c'' [fresh_file] [] fresh_os"
  have "ok (fst ?w)"
    unfolding write_snapshot_def write_ref_def write_tree_def write_atomic_def os_create_temp_def eval_nat_numeral
      create_temp.simps by code_simp
  then obtain os' where w: "?w = (Inr (), os')" by (cases ?w) (auto simp: ok_def split: sum.splits)
  have h: "abs_path [''h''] = ''/h''" by (simp add: abs_path_def)
  have n: "list_all norm_seg [''h'']" "norm_seg (repo_dir_name ''m'' Model)"
    by (simp_all add: norm_seg_def repo_dir_name_def dir_prefix_def Model_def replace_sep)
  have "cache_ready fresh_os [''h'', ''models--m''] ''c'' ''main''"
    by (auto simp: cache_ready_def dir_at_def plain_def snap_path_def norm_seg_def fresh_lookup fresh_os_def [THEN arg_cong [where f = rands]] le_Suc_eq)
  moreover have "manifest_ready fresh_os [''h'', ''models--m''] ''c'' [fresh_file]"
    by (auto simp: manifest_ready_def link_ready_def plain_def link_at_def snap_path_def fresh_file_def norm_seg_def
        fresh_lookup prefix_free_def le_Suc_eq)
  ultimately show ?thesis
    using write_snapshot_correct [OF n, of fresh_os "''c''" "[]" "[fresh_file]" os'] w
    by (auto simp: fresh_repo h link_at_def snap_path_def fresh_file_def abs_path_def)
qed

end
