(* ===== verification/Evict.thy ===== *)
theory Evict
  imports Blocks HfSnapshot
begin

text \<open>
  \<open>internal/evict/evict.go\<close>: removal of a shared revision. The block store, the filestore's file
  manager and the mapping share one database state \<open>'s\<close>; files live in the operating system's
  state; progress messages are a log. \<open>walk\<close> recurses through the stored blocks, so it has a depth
  bound \<open>n\<close> and answers \<open>None\<close> when the bound is too small; \<open>walk_total\<close> shows that one more than the
  number of stored blocks always suffices. Go iterates over a map in an arbitrary order, which is
  the argument \<open>order\<close>.
\<close>

section \<open>State\<close>

record 's target =
  t_mapping :: "'s maplib"
  t_mainbs :: "'s blockops"
  t_fstore :: "'s dsops"
  t_hub :: string

definition from_node :: "'s maplib \<Rightarrow> 's blockops \<Rightarrow> (bytes \<Rightarrow> 's dsops) \<Rightarrow> string \<Rightarrow> 's target" where
  "from_node mapping main_bs store_ds hub =
     \<lparr>t_mapping = mapping, t_mainbs = main_bs, t_fstore = store_ds ''filestore'', t_hub = hub\<rparr>"

record 's eworld =
  ev_db :: 's
  ev_os :: os
  ev_log :: "msg list"

definition short_hash :: "string \<Rightarrow> string" where
  "short_hash s = (if length s > 12 then take 12 s else s)"

section \<open>Traversal\<close>

fun walk :: "nat \<Rightarrow> 's boxo \<Rightarrow> 's blockops \<Rightarrow> 's \<Rightarrow> cid \<Rightarrow> cid list \<Rightarrow> cid list option"
  and walk_links :: "nat \<Rightarrow> 's boxo \<Rightarrow> 's blockops \<Rightarrow> 's \<Rightarrow> cid list \<Rightarrow> cid list \<Rightarrow> cid list option" where
  "walk 0 X bs s c out = None"
| "walk (Suc n) X bs s c out =
     (if c \<in> set out then Some out
      else let out1 = c # out in
        case bs_has bs s c of
          Inl _ \<Rightarrow> Some out1
        | Inr has \<Rightarrow>
            if \<not> has then Some out1
            else (case bs_get bs s c of
                    Inl _ \<Rightarrow> Some out1
                  | Inr d \<Rightarrow>
                      (case decode_links X d of
                         Inl _ \<Rightarrow> Some out1
                       | Inr ls \<Rightarrow> walk_links n X bs s ls out1)))"
| "walk_links n X bs s [] out = Some out"
| "walk_links n X bs s (l # ls) out =
     (if cid_defined l
      then case walk n X bs s l out of
             None \<Rightarrow> None | Some out1 \<Rightarrow> walk_links n X bs s ls out1
      else walk_links n X bs s ls out)"

text \<open>The loop over the other mappings: everything they still reference.\<close>

fun keep_of :: "nat \<Rightarrow> cidlib \<Rightarrow> 's boxo \<Rightarrow> 's blockops \<Rightarrow> 's \<Rightarrow> string \<Rightarrow> entry list \<Rightarrow> cid list \<Rightarrow> cid list option" where
  "keep_of n L X bs s commit [] keep = Some keep"
| "keep_of n L X bs s commit (e # es) keep =
     (if commit_hash e = commit then keep_of n L X bs s commit es keep
      else case cid_decode L (actual_cid e) of
             Inl _ \<Rightarrow> keep_of n L X bs s commit es keep
           | Inr oc \<Rightarrow>
               (case walk n X bs s oc keep of
                  None \<Rightarrow> None | Some keep1 \<Rightarrow> keep_of n L X bs s commit es keep1))"

section \<open>Deleting blocks\<close>

definition delete_cid :: "cidlib \<Rightarrow> 's blockops \<Rightarrow> 's blockops \<Rightarrow> cid \<Rightarrow> 's \<Rightarrow> unit res \<times> 's" where
  "delete_cid L fm bs c s =
     (if bs_has fm s c = Inr True
      then wrap_err ''delete filestore ref %s: %w'' [AStr (cid_string L c)] (bs_delete fm s c)
      else if bs_has bs s c = Inr True
      then wrap_err ''delete block %s: %w'' [AStr (cid_string L c)] (bs_delete bs s c)
      else (Inr (), s))"

fun delete_cids :: "cidlib \<Rightarrow> 's blockops \<Rightarrow> 's blockops \<Rightarrow> cid list \<Rightarrow> cid list \<Rightarrow> 's \<Rightarrow> unit res \<times> 's" where
  "delete_cids L fm bs keep [] s = (Inr (), s)"
| "delete_cids L fm bs keep (c # cs) s =
     (if c \<in> set keep then delete_cids L fm bs keep cs s
      else bind_st (delete_cid L fm bs c s) (\<lambda>_ s1. delete_cids L fm bs keep cs s1))"

section \<open>Files that are still referenced\<close>

fun referenced :: "'s boxo \<Rightarrow> string \<Rightarrow> dsentry list \<Rightarrow> string list" where
  "referenced X root [] = []"
| "referenced X root (r # rs) =
     (case data_obj_path X (e_value r) of
        Inl _ \<Rightarrow> referenced X root rs
      | Inr p \<Rightarrow>
          if p = [] then referenced X root rs
          else clean (if is_abs p then p else join_path [root, p]) # referenced X root rs)"

definition referenced_paths :: "'s boxo \<Rightarrow> 's dsops \<Rightarrow> 's \<Rightarrow> string \<Rightarrow> string list res" where
  "referenced_paths X fds s root =
     (case dquery fds s empty_query of Inl e \<Rightarrow> Inl e | Inr rs \<Rightarrow> Inr (referenced X root rs))"

fun remove_blobs :: "paths \<Rightarrow> string list \<Rightarrow> file_manifest list \<Rightarrow> os \<Rightarrow> unit res \<times> os" where
  "remove_blobs p remaining [] os = (Inr (), os)"
| "remove_blobs p remaining (f # fs) os =
     (if \<not> safe_blob_name (fm_blob f) then remove_blobs p remaining fs os
      else let blob = clean (blob_path p (fm_blob f)) in
        if blob \<in> set remaining then remove_blobs p remaining fs os
        else case os_remove os blob of
               (Inl e, os1) \<Rightarrow>
                 if errors_is e ErrNotExist then remove_blobs p remaining fs os1
                 else (Inl (Wrapf ''remove blob %s: %w'' [AStr blob] e), os1)
             | (Inr _, os1) \<Rightarrow> remove_blobs p remaining fs os1)"

text \<open>The cache plumbing of the revision; every error is ignored.\<close>

definition remove_plumbing :: "paths \<Rightarrow> string \<Rightarrow> os \<Rightarrow> os" where
  "remove_plumbing p commit os =
     (let os1 = snd (os_remove_all os (snapshot_dir p commit));
          os2 = snd (os_remove os1 (tree_path p commit))
      in case current_commit p ''main'' os2 of
           (Inr cur, os3) \<Rightarrow> if cur = commit then snd (os_remove os3 (ref_path p ''main'')) else os3
         | (Inl _, os3) \<Rightarrow> os3)"

section \<open>Commit and Repo\<close>

text \<open>Everything after the traversals.\<close>

definition evict_found ::
  "cidlib \<Rightarrow> 's boxo \<Rightarrow> (cid list \<Rightarrow> cid list) \<Rightarrow> 's target \<Rightarrow> entry \<Rightarrow> cid list \<Rightarrow> cid list \<Rightarrow> 's eworld \<Rightarrow>
     unit res \<times> 's eworld" where
  "evict_found L X order T e keep tgt w =
     (let p = new_paths (t_hub T) (repo_id e) (repo_type e);
          fm = new_file_manager X (t_fstore T) (t_hub T)
      in case delete_cids L fm (t_mainbs T) keep (order tgt) (ev_db w) of
           (Inl err, s1) \<Rightarrow> (Inl err, w\<lparr>ev_db := s1\<rparr>)
         | (Inr _, s1) \<Rightarrow>
             (case referenced_paths X (t_fstore T) s1 (t_hub T) of
                Inl err \<Rightarrow> (Inl err, w\<lparr>ev_db := s1\<rparr>)
              | Inr remaining \<Rightarrow>
                  (case remove_blobs p remaining (files e) (ev_os w) of
                     (Inl err, os1) \<Rightarrow> (Inl err, w\<lparr>ev_db := s1, ev_os := os1\<rparr>)
                   | (Inr _, os1) \<Rightarrow>
                       (case map_delete (t_mapping T) s1 (commit_hash e) of
                          (Inl err, s2) \<Rightarrow>
                            (Inl (Wrapf ''delete mapping: %w'' [] err), w\<lparr>ev_db := s2, ev_os := os1\<rparr>)
                        | (Inr _, s2) \<Rightarrow>
                            (Inr (), \<lparr>ev_db = s2, ev_os = remove_plumbing p (commit_hash e) os1,
                              ev_log = ev_log w @ [Sprintf ''evicted %s@%s''
                                [AStr (repo_id e), AStr (short_hash (commit_hash e))]]\<rparr>)))))"

definition evict_commit ::
  "nat \<Rightarrow> cidlib \<Rightarrow> 's boxo \<Rightarrow> (cid list \<Rightarrow> cid list) \<Rightarrow> 's target \<Rightarrow> entry \<Rightarrow> 's eworld \<Rightarrow>
     (unit res \<times> 's eworld) option" where
  "evict_commit n L X order T e w =
     (case map_list (t_mapping T) (ev_db w) of
        Inl err \<Rightarrow> Some (Inl err, w)
      | Inr others \<Rightarrow>
          (case keep_of n L X (t_mainbs T) (ev_db w) (commit_hash e) others [] of
             None \<Rightarrow> None
           | Some keep \<Rightarrow>
               (case cid_decode L (actual_cid e) of
                  Inl err \<Rightarrow> Some (Inl (Wrapf ''entry %s: bad actual cid: %w'' [AStr (repo_id e)] err), w)
                | Inr root \<Rightarrow>
                    (case walk n X (t_mainbs T) (ev_db w) root [] of
                       None \<Rightarrow> None
                     | Some tgt \<Rightarrow> Some (evict_found L X order T e keep tgt w)))))"

fun evict_entries ::
  "nat \<Rightarrow> cidlib \<Rightarrow> 's boxo \<Rightarrow> (cid list \<Rightarrow> cid list) \<Rightarrow> 's target \<Rightarrow> string \<Rightarrow> entry list \<Rightarrow> nat \<Rightarrow> 's eworld \<Rightarrow>
     (nat \<times> goerr option \<times> 's eworld) option" where
  "evict_entries fuel L X order T r [] n w = Some (n, None, w)"
| "evict_entries fuel L X order T r (e # es) n w =
     (if repo_id e \<noteq> r then evict_entries fuel L X order T r es n w
      else case evict_commit fuel L X order T e w of
             None \<Rightarrow> None
           | Some (Inl err, w1) \<Rightarrow> Some (n, Some err, w1)
           | Some (Inr _, w1) \<Rightarrow> evict_entries fuel L X order T r es (n + 1) w1)"

text \<open>\<open>Repo\<close> returns a count together with an error.\<close>

definition evict_repo ::
  "nat \<Rightarrow> cidlib \<Rightarrow> 's boxo \<Rightarrow> (cid list \<Rightarrow> cid list) \<Rightarrow> 's target \<Rightarrow> string \<Rightarrow> 's eworld \<Rightarrow>
     (nat \<times> goerr option \<times> 's eworld) option" where
  "evict_repo fuel L X order T r w =
     (case map_list (t_mapping T) (ev_db w) of
        Inl err \<Rightarrow> Some (0, Some err, w)
      | Inr entries \<Rightarrow>
          (case evict_entries fuel L X order T r entries 0 w of
             None \<Rightarrow> None
           | Some (n, Some err, w1) \<Rightarrow> Some (n, Some err, w1)
           | Some (n, None, w1) \<Rightarrow>
               if n = 0 then Some (0, Some (Errorf ''no shared revision for %s'' [AStr r]), w1)
               else Some (n, None, w1)))"

section \<open>What the traversal collects\<close>

lemma walk_step:
  "walk (Suc n) X bs s c out =
     (if c \<in> set out then Some out else walk_links n X bs s (links_of X bs s c) (c # out))"
proof -
  have skip: "walk_links n X bs s (filter cid_defined ls) out' = walk_links n X bs s ls out'" for ls out'
    by (induction ls arbitrary: out') (auto split: option.split)
  show ?thesis
    by (auto simp: links_of_def Let_def skip split: sum.splits)
qed

declare walk.simps(2) [simp del]

lemma links_defined: "l \<in> set (links_of X bs s c) \<Longrightarrow> cid_defined l"
  by (auto simp: links_of_def split: sum.splits bool.splits)

text \<open>Everything added is reachable from the roots, and every CID added has all its links in the
  result.\<close>

definition collected :: "'s boxo \<Rightarrow> 's blockops \<Rightarrow> 's \<Rightarrow> cid set \<Rightarrow> cid set \<Rightarrow> cid set \<Rightarrow> bool" where
  "collected X bs s roots A B =
     (roots \<union> A \<subseteq> B \<and> B \<subseteq> A \<union> (\<Union>r \<in> roots. reachable X bs s r)
      \<and> (\<forall>x \<in> B - A. set (links_of X bs s x) \<subseteq> B))"

lemma collected_refl: "roots \<subseteq> A \<Longrightarrow> collected X bs s roots A A"
  by (auto simp: collected_def)

lemma collected_trans:
  "collected X bs s R A B \<Longrightarrow> collected X bs s R' B C \<Longrightarrow> collected X bs s (R \<union> R') A C"
  unfolding collected_def by blast

lemma collected_node:
  assumes "collected X bs s (set (links_of X bs s c)) (insert c A) B"
  shows "collected X bs s {c} A B"
  using assms unfolding collected_def by (auto dest: reachable_link)

lemma walk_links_collected:
  assumes "\<And>c out out'. walk n X bs s c out = Some out' \<Longrightarrow> collected X bs s {c} (set out) (set out')"
  shows "walk_links n X bs s ls out = Some out' \<Longrightarrow>
    collected X bs s (set (filter cid_defined ls)) (set out) (set out')"
proof (induction ls arbitrary: out)
  case Nil
  then show ?case by (simp add: collected_refl)
next
  case (Cons l ls)
  show ?case
  proof (cases "cid_defined l")
    case True
    with Cons.prems obtain out1 where w: "walk n X bs s l out = Some out1"
      "walk_links n X bs s ls out1 = Some out'" by (auto split: option.splits)
    from collected_trans [OF assms [OF w(1)] Cons.IH [OF w(2)]] True show ?thesis by simp
  next
    case False
    with Cons show ?thesis by simp
  qed
qed

lemma walk_collected:
  "walk n X bs s c out = Some out' \<Longrightarrow> collected X bs s {c} (set out) (set out')"
proof (induction n arbitrary: c out out')
  case (Suc n)
  show ?case
  proof (cases "c \<in> set out")
    case True
    with Suc.prems show ?thesis by (simp add: walk_step collected_refl)
  next
    case False
    with Suc.prems have "walk_links n X bs s (links_of X bs s c) (c # out) = Some out'"
      by (simp add: walk_step)
    from walk_links_collected [OF Suc.IH this] show ?thesis
      by (intro collected_node) (simp add: links_defined filter_id_conv [THEN iffD2])
  qed
qed simp

text \<open>A set that holds the links of all its members.\<close>

definition link_closed :: "'s boxo \<Rightarrow> 's blockops \<Rightarrow> 's \<Rightarrow> cid set \<Rightarrow> bool" where
  "link_closed X bs s A = (\<forall>x \<in> A. set (links_of X bs s x) \<subseteq> A)"

lemma link_closed_reachable: "link_closed X bs s A \<Longrightarrow> c \<in> A \<Longrightarrow> reachable X bs s c \<subseteq> A"
  by (rule reachable_closed) (auto simp: link_closed_def)

lemma collected_closed:
  assumes "collected X bs s {c} A B" "link_closed X bs s A"
  shows "B = A \<union> reachable X bs s c \<and> link_closed X bs s B"
proof -
  have B: "link_closed X bs s B"
    using assms unfolding collected_def link_closed_def by blast
  with assms(1) link_closed_reachable [OF B, of c] show ?thesis
    unfolding collected_def by auto
qed

text \<open>From nothing, \<open>walk\<close> collects exactly the CIDs reachable from the root.\<close>

lemma walk_reachable: "walk n X bs s c [] = Some out \<Longrightarrow> set out = reachable X bs s c"
  using collected_closed [OF walk_collected, of n X bs s c "[]" out] by (simp add: link_closed_def)

lemma keep_of_spec:
  "keep_of n L X bs s commit es keep = Some keep' \<Longrightarrow> link_closed X bs s (set keep) \<Longrightarrow>
     set keep' = set keep \<union> (\<Union>e \<in> {e \<in> set es. commit_hash e \<noteq> commit}.
        case cid_decode L (actual_cid e) of Inl _ \<Rightarrow> {} | Inr c \<Rightarrow> reachable X bs s c)"
proof (induction es arbitrary: keep)
  case (Cons e es)
  consider "commit_hash e = commit" | x where "commit_hash e \<noteq> commit" "cid_decode L (actual_cid e) = Inl x"
    | c where "commit_hash e \<noteq> commit" "cid_decode L (actual_cid e) = Inr c"
    by (cases "cid_decode L (actual_cid e)") auto
  then show ?case
  proof cases
    case 1
    then have "{x. (x = e \<or> x \<in> set es) \<and> commit_hash x \<noteq> commit} = {x \<in> set es. commit_hash x \<noteq> commit}"
      by auto
    with 1 Cons show ?thesis by simp
  next
    case 2
    then have "{x. (x = e \<or> x \<in> set es) \<and> commit_hash x \<noteq> commit} = insert e {x \<in> set es. commit_hash x \<noteq> commit}"
      by auto
    with 2 Cons show ?thesis by simp
  next
    case 3
    with Cons.prems(1) obtain keep1 where w: "walk n X bs s c keep = Some keep1"
      "keep_of n L X bs s commit es keep1 = Some keep'" by (auto split: option.splits)
    note c = collected_closed [OF walk_collected [OF w(1)] Cons.prems(2)]
    from 3 have "{x. (x = e \<or> x \<in> set es) \<and> commit_hash x \<noteq> commit} = insert e {x \<in> set es. commit_hash x \<noteq> commit}"
      by auto
    with 3 Cons.IH [OF w(2)] c show ?thesis by auto
  qed
qed simp

text \<open>The traversal ends: a depth bound of one more than the number of stored blocks not yet seen
  always suffices.\<close>

lemma links_present: "links_of X bs s c \<noteq> [] \<Longrightarrow> c \<in> present bs s"
  by (auto simp: links_of_def present_def split: sum.splits bool.splits)

lemma walk_mono: "walk n X bs s c out = Some out' \<Longrightarrow> set out \<subseteq> set out'"
  using walk_collected [of n X bs s c out out'] by (auto simp: collected_def)

lemma walk_links_total:
  assumes "\<And>c out. card (present bs s - set out) < n \<Longrightarrow> \<exists>out'. walk n X bs s c out = Some out'"
    and "finite (present bs s)"
  shows "card (present bs s - set out) < n \<Longrightarrow> \<exists>out'. walk_links n X bs s ls out = Some out'"
proof (induction ls arbitrary: out)
  case (Cons l ls)
  obtain out1 where w: "walk n X bs s l out = Some out1" using assms(1) [OF Cons.prems] by blast
  have "card (present bs s - set out1) \<le> card (present bs s - set out)"
    using walk_mono [OF w] assms(2) by (intro card_mono) auto
  with Cons.prems Cons.IH [of out1] Cons.IH [of out] w show ?case by auto
qed simp

lemma walk_total:
  assumes "finite (present bs s)"
  shows "card (present bs s - set out) < n \<Longrightarrow> \<exists>out'. walk n X bs s c out = Some out'"
proof (induction n arbitrary: c out)
  case (Suc n)
  show ?case
  proof (cases "c \<in> set out \<or> links_of X bs s c = []")
    case True
    then show ?thesis by (auto simp: walk_step)
  next
    case False
    then have "c \<in> present bs s - set out" using links_present by auto
    moreover have "present bs s - set (c # out) = (present bs s - set out) - {c}" by auto
    ultimately have "card (present bs s - set (c # out)) < card (present bs s - set out)"
      using assms card_Diff1_less [of "present bs s - set out" c] by simp
    with Suc.prems have "card (present bs s - set (c # out)) < n" by linarith
    from walk_links_total [OF Suc.IH assms this] False show ?thesis by (simp add: walk_step)
  qed
qed simp

lemma keep_of_total:
  assumes "finite (present bs s)" "card (present bs s) < n"
  shows "\<exists>keep'. keep_of n L X bs s commit es keep = Some keep'"
proof (induction es arbitrary: keep)
  case (Cons e es)
  have "card (present bs s - set keep) < n"
    using assms card_mono [of "present bs s" "present bs s - set keep"] by auto
  with Cons walk_total [OF assms(1)] show ?case
    by (auto split: sum.split option.split) (metis option.distinct(1))
qed simp

section \<open>The contract of a target\<close>

definition target_fm :: "'s boxo \<Rightarrow> 's target \<Rightarrow> 's blockops" where
  "target_fm X T = new_file_manager X (t_fstore T) (t_hub T)"

definition same_blocks :: "'s blockops \<Rightarrow> 's \<Rightarrow> 's \<Rightarrow> bool" where
  "same_blocks bs s s' = (\<forall>c. bs_has bs s' c = bs_has bs s c \<and> bs_get bs s' c = bs_get bs s c)"

definition same_map :: "'s maplib \<Rightarrow> 's \<Rightarrow> 's \<Rightarrow> bool" where
  "same_map M s s' = (\<forall>k q. dget (mds M) s' k = dget (mds M) s k \<and> dquery (mds M) s' q = dquery (mds M) s q)"

text \<open>
  The evicted revision reaches the multihash of \<open>x\<close> under another CID that no other mapping reaches. The keep set
  is one of CIDs and the stores are keyed by multihash, so then the block of \<open>x\<close> is deleted with it.
\<close>

definition twin_lost :: "cidlib \<Rightarrow> 's boxo \<Rightarrow> 's target \<Rightarrow> entry \<Rightarrow> entry list \<Rightarrow> cid \<Rightarrow> 's eworld \<Rightarrow> bool" where
  "twin_lost L X T e es x w = (\<exists>root y. cid_decode L (actual_cid e) = Inr root
     \<and> y \<in> reachable X (t_mainbs T) (ev_db w) root \<and> y \<noteq> x \<and> cid_hash L y = cid_hash L x
     \<and> (\<forall>oe \<in> set es. \<forall>oc. commit_hash oe \<noteq> commit_hash e \<longrightarrow> cid_decode L (actual_cid oe) = Inr oc \<longrightarrow>
          y \<notin> reachable X (t_mainbs T) (ev_db w) oc))"

text \<open>The three buckets are independent: a change of one leaves the others as they are.\<close>

locale evict_target =
  maps: mapping_db "t_mapping T" + main: blockstore L "t_mainbs T" + refs: blockstore L "target_fm X T"
  for L :: cidlib and X :: "'s boxo" and T :: "'s target" +
  assumes refs_frame: "bs_delete (target_fm X T) s c = (Inr (), s') \<Longrightarrow>
      same_blocks (t_mainbs T) s s' \<and> same_map (t_mapping T) s s'"
    and main_frame: "bs_delete (t_mainbs T) s c = (Inr (), s') \<Longrightarrow>
      same_blocks (target_fm X T) s s' \<and> same_map (t_mapping T) s s'"
    and map_frame: "map_delete (t_mapping T) s k = (Inr (), s') \<Longrightarrow>
      same_blocks (t_mainbs T) s s' \<and> same_blocks (target_fm X T) s s'"
begin

lemma same_map_refl [simp]: "same_map M s s"
  by (simp add: same_map_def)

lemma same_map_trans: "same_map M s s1 \<Longrightarrow> same_map M s1 s2 \<Longrightarrow> same_map M s s2"
  by (simp add: same_map_def)

lemma same_map_get: "same_map M s s' \<Longrightarrow> map_get M s' c = map_get M s c"
  by (simp add: same_map_def map_get_def)

lemma same_map_wf: "same_map M s s' \<Longrightarrow> map_wf M s' = map_wf M s"
  by (simp add: same_map_def map_wf_def)

text \<open>What both stores answer for a CID.\<close>

definition view :: "'s \<Rightarrow> cid \<Rightarrow> bool res \<times> bytes res \<times> bool res \<times> bytes res" where
  "view s x = (bs_has (t_mainbs T) s x, bs_get (t_mainbs T) s x, bs_has (target_fm X T) s x, bs_get (target_fm X T) s x)"

lemma delete_cid_effect:
  assumes "delete_cid L (target_fm X T) (t_mainbs T) c s = (r, s')"
  shows "same_map (t_mapping T) s s'" and "cid_hash L x \<noteq> cid_hash L c \<Longrightarrow> view s' x = view s x"
    and "present (t_mainbs T) s' \<subseteq> present (t_mainbs T) s"
proof -
  consider "s' = s" | "bs_delete (target_fm X T) s c = (Inr (), s')" | "bs_delete (t_mainbs T) s c = (Inr (), s')"
  proof (cases "bs_delete (target_fm X T) s c"; cases "bs_delete (t_mainbs T) s c")
    fix a b a' b'
    assume d: "bs_delete (target_fm X T) s c = (a, b)" "bs_delete (t_mainbs T) s c = (a', b')"
    assume t: "s' = s \<Longrightarrow> thesis" "bs_delete (target_fm X T) s c = (Inr (), s') \<Longrightarrow> thesis"
      "bs_delete (t_mainbs T) s c = (Inr (), s') \<Longrightarrow> thesis"
    show thesis
      by (cases a; cases a')
         (use assms d t refs.delete_err [of s c _ b] main.delete_err [of s c _ b'] in
           \<open>auto simp: delete_cid_def split: if_splits\<close>)
  qed
  note cases = this
  show "same_map (t_mapping T) s s'"
    by (cases rule: cases) (auto dest: refs_frame main_frame)
  show "view s' x = view s x" if "cid_hash L x \<noteq> cid_hash L c"
    by (cases rule: cases)
       (use that in \<open>auto simp: view_def same_blocks_def refs.has_delete main.has_delete refs.get_delete main.get_delete
         dest: refs_frame main_frame\<close>)
  show "present (t_mainbs T) s' \<subseteq> present (t_mainbs T) s"
    by (cases rule: cases)
       (auto simp: present_def same_blocks_def main.has_delete dest: refs_frame split: if_splits)
qed

lemma delete_cids_effect:
  assumes "delete_cids L (target_fm X T) (t_mainbs T) keep cs s = (r, s')"
  shows "same_map (t_mapping T) s s'
    \<and> (\<forall>x. (\<forall>c \<in> set cs - set keep. cid_hash L x \<noteq> cid_hash L c) \<longrightarrow> view s' x = view s x)
    \<and> present (t_mainbs T) s' \<subseteq> present (t_mainbs T) s"
  using assms
proof (induction cs arbitrary: s)
  case (Cons c cs)
  show ?case
  proof (cases "c \<in> set keep")
    case True
    with Cons show ?thesis by auto
  next
    case False
    obtain r1 s1 where d: "delete_cid L (target_fm X T) (t_mainbs T) c s = (r1, s1)" by fastforce
    note e = delete_cid_effect [OF d]
    show ?thesis
    proof (cases r1)
      case (Inl x)
      with False Cons.prems d have "s' = s1" by simp
      with e False show ?thesis by auto
    next
      case (Inr x)
      with False Cons.prems d have "delete_cids L (target_fm X T) (t_mainbs T) keep cs s1 = (r, s')" by simp
      from Cons.IH [OF this] e False show ?thesis by (auto intro: same_map_trans)
    qed
  qed
qed simp

lemma delete_cid_ok:
  assumes "delete_cid L (target_fm X T) (t_mainbs T) c s = (Inr (), s')"
  shows "bs_has (target_fm X T) s' x =
      (if bs_has (target_fm X T) s c = Inr True \<and> cid_hash L x = cid_hash L c then Inr False
       else bs_has (target_fm X T) s x)"
    and "bs_has (t_mainbs T) s' x =
      (if bs_has (target_fm X T) s c \<noteq> Inr True \<and> bs_has (t_mainbs T) s c = Inr True
          \<and> cid_hash L x = cid_hash L c then Inr False
       else bs_has (t_mainbs T) s x)"
  using assms
  by (auto simp: delete_cid_def res_iff refs.has_delete main.has_delete same_blocks_def
      dest: refs_frame main_frame split: if_splits)

text \<open>After a successful run no CID of the list that was not to be kept is left where it was found.\<close>

lemma delete_cids_refs_gone:
  "delete_cids L (target_fm X T) (t_mainbs T) keep cs s = (Inr (), s') \<Longrightarrow>
     bs_has (target_fm X T) s x = Inr False
     \<or> bs_has (target_fm X T) s x = Inr True \<and> x \<in> set cs - set keep \<Longrightarrow>
     bs_has (target_fm X T) s' x = Inr False"
proof (induction cs arbitrary: s)
  case (Cons c cs)
  show ?case
  proof (cases "c \<in> set keep")
    case True
    with Cons.prems show ?thesis by (intro Cons.IH [of s]) auto
  next
    case False
    with Cons.prems(1) obtain s1 where d: "delete_cid L (target_fm X T) (t_mainbs T) c s = (Inr (), s1)"
      "delete_cids L (target_fm X T) (t_mainbs T) keep cs s1 = (Inr (), s')" by (auto simp: res_iff)
    with Cons.prems(2) show ?thesis
      by (intro Cons.IH [OF d(2)]) (auto simp: delete_cid_ok [OF d(1)])
  qed
qed auto

lemma delete_cids_main_gone:
  "delete_cids L (target_fm X T) (t_mainbs T) keep cs s = (Inr (), s') \<Longrightarrow>
     bs_has (target_fm X T) s x = Inr False \<Longrightarrow>
     bs_has (t_mainbs T) s x = Inr False
     \<or> bs_has (t_mainbs T) s x = Inr True \<and> x \<in> set cs - set keep \<Longrightarrow>
     bs_has (t_mainbs T) s' x = Inr False"
proof (induction cs arbitrary: s)
  case (Cons c cs)
  show ?case
  proof (cases "c \<in> set keep")
    case True
    with Cons.prems show ?thesis by (intro Cons.IH [of s]) auto
  next
    case False
    with Cons.prems(1) obtain s1 where d: "delete_cid L (target_fm X T) (t_mainbs T) c s = (Inr (), s1)"
      "delete_cids L (target_fm X T) (t_mainbs T) keep cs s1 = (Inr (), s')" by (auto simp: res_iff)
    with Cons.prems(2,3) show ?thesis
      by (intro Cons.IH [OF d(2)]) (auto simp: delete_cid_ok [OF d(1)])
  qed
qed auto

text \<open>The database after the part of \<open>Commit\<close> that follows the traversals.\<close>

lemma evict_found_db:
  assumes "evict_found L X order T e keep tgt w = (r, w')"
  obtains r1 s1 where
    "delete_cids L (target_fm X T) (t_mainbs T) keep (order tgt) (ev_db w) = (r1, s1)"
    "ev_db w' = s1 \<and> r \<noteq> Inr ()
     \<or> r1 = Inr () \<and> r = Inr () \<and> map_delete (t_mapping T) s1 (commit_hash e) = (Inr (), ev_db w')"
proof -
  obtain r1 s1 where d: "delete_cids L (target_fm X T) (t_mainbs T) keep (order tgt) (ev_db w) = (r1, s1)"
    by fastforce
  with assms have "ev_db w' = s1 \<and> r \<noteq> Inr ()
     \<or> r1 = Inr () \<and> r = Inr () \<and> map_delete (t_mapping T) s1 (commit_hash e) = (Inr (), ev_db w')"
    by (cases r1) (auto simp: evict_found_def target_fm_def Let_def dest: maps.map_delete_err
        split: sum.splits prod.splits)
  with d that show thesis by blast
qed

lemma evict_commit_cases:
  assumes "evict_commit n L X order T e w = Some (r, w')"
  obtains "w' = w" "r \<noteq> Inr ()"
  | es root keep tgt where "map_list (t_mapping T) (ev_db w) = Inr es"
      "cid_decode L (actual_cid e) = Inr root"
      "keep_of n L X (t_mainbs T) (ev_db w) (commit_hash e) es [] = Some keep"
      "set tgt = reachable X (t_mainbs T) (ev_db w) root"
      "evict_found L X order T e keep tgt w = (r, w')"
proof -
  note that
  with assms show thesis
    unfolding evict_commit_def by (fastforce dest: walk_reachable split: sum.splits option.splits)
qed

lemma keep_shared:
  assumes "keep_of n L X bs s commit es [] = Some keep" "e \<in> set es" "commit_hash e \<noteq> commit"
    "cid_decode L (actual_cid e) = Inr c" "x \<in> reachable X bs s c"
  shows "x \<in> set keep"
  using keep_of_spec [OF assms(1)] assms(2-) by (force simp: link_closed_def)

lemma evict_commit_total:
  assumes "finite (present (t_mainbs T) (ev_db w))" "card (present (t_mainbs T) (ev_db w)) < n"
  shows "\<exists>r w'. evict_commit n L X order T e w = Some (r, w')"
proof -
  have "\<exists>out. walk n X (t_mainbs T) (ev_db w) c [] = Some out" for c
    using walk_total [OF assms(1), of "[]" n] assms(2) by simp
  moreover have "\<exists>keep. keep_of n L X (t_mainbs T) (ev_db w) c es [] = Some keep" for c es
    by (rule keep_of_total [OF assms])
  ultimately show ?thesis
    unfolding evict_commit_def
    by (auto split: sum.split option.split) (metis option.distinct(1) surj_pair)+
qed

lemma evict_commit_view:
  assumes "evict_commit n L X order T e w = Some (r, w')" "\<And>xs. set (order xs) \<subseteq> set xs"
    and "map_list (t_mapping T) (ev_db w) = Inr es" "oe \<in> set es" "commit_hash oe \<noteq> commit_hash e"
    and "cid_decode L (actual_cid oe) = Inr oc" "x \<in> reachable X (t_mainbs T) (ev_db w) oc"
    and "\<not> twin_lost L X T e es x w"
  shows "view (ev_db w') x = view (ev_db w) x"
  using assms(1)
proof (cases rule: evict_commit_cases)
  case (2 es' root keep tgt)
  from 2(5) obtain r1 s1 where
    d: "delete_cids L (target_fm X T) (t_mainbs T) keep (order tgt) (ev_db w) = (r1, s1)"
    and m: "ev_db w' = s1 \<and> r \<noteq> Inr ()
      \<or> r1 = Inr () \<and> r = Inr () \<and> map_delete (t_mapping T) s1 (commit_hash e) = (Inr (), ev_db w')"
    by (rule evict_found_db)
  from m have same: "view (ev_db w') x = view s1 x"
    by (auto simp: view_def same_blocks_def dest!: map_frame)
  from 2(1) assms(3) have es: "es' = es" by simp
  have keep: "x \<in> set keep"
    using keep_shared [OF 2(3) [unfolded es] assms(4,5,6,7)] .
  have "cid_hash L x \<noteq> cid_hash L c" if c: "c \<in> set (order tgt) - set keep" for c
  proof
    assume "cid_hash L x = cid_hash L c"
    moreover have "c \<noteq> x" "c \<in> reachable X (t_mainbs T) (ev_db w) root"
      using c keep assms(2) [of tgt] 2(4) by auto
    ultimately obtain oe' oc' where "oe' \<in> set es" "commit_hash oe' \<noteq> commit_hash e"
      "cid_decode L (actual_cid oe') = Inr oc'" "c \<in> reachable X (t_mainbs T) (ev_db w) oc'"
      using assms(8) 2(2) unfolding twin_lost_def by metis
    from keep_shared [OF 2(3) [unfolded es] this] c show False by simp
  qed
  with delete_cids_effect [OF d] same show ?thesis by simp
qed simp

text \<open>What \<open>Commit\<close> deletes on success: each CID of the revision that no other mapping keeps.\<close>

lemma evict_commit_gone:
  assumes "evict_commit n L X order T e w = Some (Inr (), w')" "\<And>xs. set (order xs) = set xs"
    and "map_list (t_mapping T) (ev_db w) = Inr es" "cid_decode L (actual_cid e) = Inr root"
    and "x \<in> reachable X (t_mainbs T) (ev_db w) root"
    and "\<And>oe oc. oe \<in> set es \<Longrightarrow> commit_hash oe \<noteq> commit_hash e \<Longrightarrow> cid_decode L (actual_cid oe) = Inr oc \<Longrightarrow>
      x \<notin> reachable X (t_mainbs T) (ev_db w) oc"
  shows "bs_has (target_fm X T) (ev_db w) x = Inr True \<Longrightarrow> bs_has (target_fm X T) (ev_db w') x = Inr False"
    and "bs_has (target_fm X T) (ev_db w) x = Inr False \<Longrightarrow> bs_has (t_mainbs T) (ev_db w) x = Inr True \<Longrightarrow>
      bs_has (t_mainbs T) (ev_db w') x = Inr False"
  using assms(1)
proof (atomize (full), cases rule: evict_commit_cases)
  case (2 es' root' keep tgt)
  from 2(5) obtain r1 s1 where
    d: "delete_cids L (target_fm X T) (t_mainbs T) keep (order tgt) (ev_db w) = (r1, s1)"
    and m: "r1 = Inr ()" "map_delete (t_mapping T) s1 (commit_hash e) = (Inr (), ev_db w')"
    by (rule evict_found_db) auto
  from 2(1,2) assms(3,4) have eq: "es' = es" "root' = root" by simp_all
  have "x \<notin> set keep"
    using keep_of_spec [OF 2(3)] assms(6) by (auto simp: link_closed_def eq split: sum.splits)
  then have x: "x \<in> set (order tgt) - set keep" using 2(4) assms(2,5) by (simp add: eq)
  note d = d [unfolded m(1)]
  show "(bs_has (target_fm X T) (ev_db w) x = Inr True \<longrightarrow> bs_has (target_fm X T) (ev_db w') x = Inr False)
    \<and> (bs_has (target_fm X T) (ev_db w) x = Inr False \<longrightarrow> bs_has (t_mainbs T) (ev_db w) x = Inr True \<longrightarrow>
      bs_has (t_mainbs T) (ev_db w') x = Inr False)"
    using delete_cids_refs_gone [OF d, of x] delete_cids_main_gone [OF d, of x] x map_frame [OF m(2)]
    by (auto simp: same_blocks_def)
qed auto

lemma evict_commit_present:
  assumes "evict_commit n L X order T e w = Some (r, w')"
  shows "present (t_mainbs T) (ev_db w') \<subseteq> present (t_mainbs T) (ev_db w)"
  using assms
proof (cases rule: evict_commit_cases)
  case (2 es root keep tgt)
  from 2(5) obtain r1 s1 where
    d: "delete_cids L (target_fm X T) (t_mainbs T) keep (order tgt) (ev_db w) = (r1, s1)"
    and m: "ev_db w' = s1 \<and> r \<noteq> Inr ()
      \<or> r1 = Inr () \<and> r = Inr () \<and> map_delete (t_mapping T) s1 (commit_hash e) = (Inr (), ev_db w')"
    by (rule evict_found_db)
  from m have "present (t_mainbs T) (ev_db w') = present (t_mainbs T) s1"
    by (auto simp: present_def same_blocks_def dest!: map_frame)
  with delete_cids_effect [OF d] show ?thesis by simp
qed simp

lemma evict_commit_map:
  assumes "evict_commit n L X order T e w = Some (r, w')" "plain_key (commit_hash e)"
  shows "plain_key c \<Longrightarrow> map_get (t_mapping T) (ev_db w') c =
      (if r = Inr () \<and> c = commit_hash e then Inr None else map_get (t_mapping T) (ev_db w) c)"
    and "map_wf (t_mapping T) (ev_db w) \<Longrightarrow> map_wf (t_mapping T) (ev_db w')"
  using assms(1)
proof (atomize (full), cases rule: evict_commit_cases)
  case (2 es root keep tgt)
  from 2(5) obtain r1 s1 where
    d: "delete_cids L (target_fm X T) (t_mainbs T) keep (order tgt) (ev_db w) = (r1, s1)"
    and m: "ev_db w' = s1 \<and> r \<noteq> Inr ()
      \<or> r1 = Inr () \<and> r = Inr () \<and> map_delete (t_mapping T) s1 (commit_hash e) = (Inr (), ev_db w')"
    by (rule evict_found_db)
  have sm: "same_map (t_mapping T) (ev_db w) s1" using delete_cids_effect [OF d] by simp
  note eqs = same_map_get [OF sm, symmetric] same_map_wf [OF sm, symmetric]
  from m show "(plain_key c \<longrightarrow> map_get (t_mapping T) (ev_db w') c =
      (if r = Inr () \<and> c = commit_hash e then Inr None else map_get (t_mapping T) (ev_db w) c))
    \<and> (map_wf (t_mapping T) (ev_db w) \<longrightarrow> map_wf (t_mapping T) (ev_db w'))"
    by (auto simp: eqs maps.map_delete_effect [OF _ assms(2)] dest: maps.map_wf_delete)
qed auto

lemma evict_entries_map:
  assumes "evict_entries n L X order T rid es k w = Some (k', err, w')"
    "\<forall>e \<in> set es. plain_key (commit_hash e)" "distinct (map commit_hash es)"
  shows "\<exists>done. done \<subseteq> commit_hash ` {e \<in> set es. repo_id e = rid} \<and> k' = k + card done
    \<and> (err = None \<longrightarrow> done = commit_hash ` {e \<in> set es. repo_id e = rid})
    \<and> (\<forall>c. plain_key c \<longrightarrow> map_get (t_mapping T) (ev_db w') c =
         (if c \<in> done then Inr None else map_get (t_mapping T) (ev_db w) c))"
  using assms
proof (induction es arbitrary: k w)
  case Nil
  then show ?case by (auto intro: exI [of _ "{}"])
next
  case (Cons e es)
  let ?C = "\<lambda>es. commit_hash ` {e \<in> set es. repo_id e = rid}"
  show ?case
  proof (cases "repo_id e = rid")
    case False
    then have "?C (e # es) = ?C es" by auto
    with False Cons show ?thesis by simp
  next
    case True
    then have C: "?C (e # es) = insert (commit_hash e) (?C es)" by auto
    have pe: "plain_key (commit_hash e)" using Cons.prems(2) by simp
    from Cons.prems(1) True obtain r w1 where ev: "evict_commit n L X order T e w = Some (r, w1)"
      by (auto split: option.splits)
    note g = evict_commit_map(1) [OF ev pe]
    show ?thesis
    proof (cases r)
      case (Inl x)
      with Cons.prems(1) True ev have "k' = k" "err = Some x" "w' = w1" by auto
      with g Inl show ?thesis by (intro exI [of _ "{}"]) auto
    next
      case (Inr u)
      with Cons.prems(1) True ev have "evict_entries n L X order T rid es (k + 1) w1 = Some (k', err, w')"
        by simp
      from Cons.IH [OF this] Cons.prems(2,3) obtain D where D: "D \<subseteq> ?C es" "k' = k + 1 + card D"
        "err = None \<longrightarrow> D = ?C es"
        "\<forall>c. plain_key c \<longrightarrow> map_get (t_mapping T) (ev_db w') c =
           (if c \<in> D then Inr None else map_get (t_mapping T) (ev_db w1) c)" by auto
      have "commit_hash e \<notin> D" "finite D"
        using D(1) Cons.prems(3) finite_subset [OF D(1)] by auto
      with D C g Inr show ?thesis by (intro exI [of _ "insert (commit_hash e) D"]) auto
    qed
  qed
qed

lemma evict_entries_total:
  "finite (present (t_mainbs T) (ev_db w)) \<Longrightarrow> card (present (t_mainbs T) (ev_db w)) < n \<Longrightarrow>
     \<exists>k' err w'. evict_entries n L X order T rid es k w = Some (k', err, w')"
proof (induction es arbitrary: k w)
  case (Cons e es)
  obtain r w1 where ev: "evict_commit n L X order T e w = Some (r, w1)"
    using evict_commit_total [OF Cons.prems] by blast
  note p = evict_commit_present [OF ev]
  have "finite (present (t_mainbs T) (ev_db w1))" "card (present (t_mainbs T) (ev_db w1)) < n"
    using finite_subset [OF p Cons.prems(1)] card_mono [OF Cons.prems(1) p] Cons.prems(2) by simp_all
  from Cons.IH [OF this] Cons.IH [OF Cons.prems] ev show ?case by (cases r) auto
qed simp

end

section \<open>The node's own buckets\<close>

text \<open>
  The target of a node over the three buckets of one database. A block \<open>L\<close> followed by a CID string
  is taken as a dag-pb node with that one link, a reference record is the path itself.
\<close>

definition node_blocks :: "bytes \<Rightarrow> memdb blockops" where
  "node_blocks b = key_blocks ref_cids (bolt_ds mem_bolt (\<lambda>_ es. es) b)"

definition node_boxo :: "memdb boxo" where
  "node_boxo =
     \<lparr>decode_links = (\<lambda>d. if take 1 d = ''L'' then Inr [drop 1 d] else Inl (Errorf ''not a node'' [])),
      new_file_manager = (\<lambda>ds root. key_blocks ref_cids ds),
      data_obj_path = Inr\<rparr>"

definition node_target :: "memdb target" where
  "node_target = from_node node_maps (node_blocks BucketBlocks) (bolt_ds mem_bolt (\<lambda>_ es. es)) ''/hub''"

lemma node_target_simps [simp]:
  "t_mapping node_target = node_maps" "t_mainbs node_target = node_blocks BucketBlocks"
  "target_fm node_boxo node_target = node_blocks BucketFilestore"
  by (simp_all add: node_target_def from_node_def target_fm_def node_boxo_def node_blocks_def
      BucketFilestore_def)

definition block_key :: "cid \<Rightarrow> bytes" where
  "block_key c = hex_encode (cid_hash ref_cids c)"

lemma block_key_inj: "block_key c = block_key d \<longleftrightarrow> cid_hash ref_cids c = cid_hash ref_cids d"
  by (simp add: block_key_def)

lemma node_blocks_has: "bs_has (node_blocks b) s c = Inr (mem_get s b (block_key c) \<noteq> None)"
  by (auto simp: node_blocks_def key_blocks_def bolt_ds_def ds_has_def db_view_def mem_bolt_def raw_def
      trim_prefix_def has_prefix_def mem_get_def block_key_def)

lemma node_blocks_get: "bs_get (node_blocks b) s c =
    (case mem_get s b (block_key c) of None \<Rightarrow> Inl (Sentinel ErrNotFound) | Some v \<Rightarrow> Inr v)"
  by (auto simp: node_blocks_def key_blocks_def bolt_ds_def ds_get_def db_view_def mem_bolt_def raw_def
      trim_prefix_def has_prefix_def mem_get_def block_key_def split: option.splits)

lemma mem_delete: "ddelete (bolt_ds mem_bolt naive b) s k = (Inr (),
    if b \<in> set (fst s) then (fst s, filter (\<lambda>(bk, _). bk \<noteq> (b, raw k)) (snd s)) else s)"
  by (simp add: bolt_ds_def ds_delete_def db_update_def mem_bolt_def)

lemma mem_delete_get:
  "ddelete (bolt_ds mem_bolt naive b) s k = (r, s') \<Longrightarrow>
     fst s' = fst s \<and> r = Inr () \<and> mem_get s' b' k' = (if b' = b \<and> k' = raw k then None else mem_get s b' k')"
  by (auto simp: mem_delete mem_get_def map_of_filter_key [of "\<lambda>bk. bk \<noteq> (b, raw k)"] split: if_splits)

lemma node_blocks_delete: "bs_delete (node_blocks b) s c = (r, s') \<Longrightarrow>
    fst s' = fst s \<and> r = Inr () \<and> mem_get s' b' k' = (if b' = b \<and> k' = block_key c then None else mem_get s b' k')"
  using mem_delete_get [of "\<lambda>_ es. es" b s "CHR ''/'' # block_key c" r s' b' k']
  by (simp add: node_blocks_def key_blocks_def block_key_def raw_def trim_prefix_def has_prefix_def)

lemma node_same_map:
  assumes "fst s' = fst s" "\<And>k. mem_get s' BucketMap k = mem_get s BucketMap k"
  shows "same_map node_maps s s'"
proof -
  have "bucket_foreach mem_bolt s' BucketMap = bucket_foreach mem_bolt s BucketMap"
    using assms mem_foreach_keys [of BucketMap s] mem_foreach_keys [of BucketMap s']
    by (auto simp: mem_bolt_def sorted_list_of_set_sort_remdups [symmetric] simp del: set_map set_filter)
  moreover have "tx_begin mem_bolt db = Inr ()" "bucket_exists mem_bolt db b = (b \<in> set (fst db))"
    "bucket_get mem_bolt = mem_get" for db b
    by (simp_all add: mem_bolt_def)
  ultimately show ?thesis
    using assms by (simp add: same_map_def bolt_ds_def ds_get_def ds_query_def db_view_def)
qed

lemmas node_block_simps = node_blocks_has node_blocks_get same_blocks_def block_key_inj

lemma buckets_distinct [simp]:
  "BucketMap \<noteq> BucketBlocks" "BucketMap \<noteq> BucketFilestore" "BucketBlocks \<noteq> BucketFilestore"
  "BucketBlocks \<noteq> BucketMap" "BucketFilestore \<noteq> BucketMap" "BucketFilestore \<noteq> BucketBlocks"
  by (simp_all add: BucketMap_def BucketBlocks_def BucketFilestore_def)

interpretation node_bs: blockstore ref_cids "node_blocks b" for b
  by unfold_locales
     (auto simp: node_block_simps node_blocks_delete split: option.split dest: node_blocks_delete)

lemma node_delete_frame:
  assumes "bs_delete (node_blocks b) s c = (r, s')"
  shows "b' \<noteq> b \<Longrightarrow> same_blocks (node_blocks b') s s'" "b \<noteq> BucketMap \<Longrightarrow> same_map node_maps s s'"
  using node_blocks_delete [OF assms] by (auto simp: node_block_simps intro: node_same_map)

interpretation node_evict: evict_target ref_cids node_boxo node_target
proof (intro evict_target.intro evict_target_axioms.intro, unfold node_target_simps)
  fix s c s'
  assume d: "bs_delete (node_blocks BucketFilestore) s c = (Inr (), s')"
  show "same_blocks (node_blocks BucketBlocks) s s' \<and> same_map node_maps s s'"
    using node_delete_frame [OF d] by simp
next
  fix s c s'
  assume d: "bs_delete (node_blocks BucketBlocks) s c = (Inr (), s')"
  show "same_blocks (node_blocks BucketFilestore) s s' \<and> same_map node_maps s s'"
    using node_delete_frame [OF d] by simp
next
  fix s k s'
  assume "map_delete node_maps s k = (Inr (), s')"
  then show "same_blocks (node_blocks BucketBlocks) s s' \<and> same_blocks (node_blocks BucketFilestore) s s'"
    using mem_delete_get [of "\<lambda>_ es. es" BucketMap s "map_key node_maps k" "Inr ()" s']
    by (simp add: map_delete_def node_block_simps)
qed (rule node_db.mapping_db_axioms node_bs.blockstore_axioms)+

section \<open>A shared revision\<close>

text \<open>Two revisions with the same root \<open>abx\<close>; the database holds the mapping of the first.\<close>

definition shared_entry :: entry where
  "shared_entry = sample_entry\<lparr>actual_cid := cid_string ref_cids ''abx''\<rparr>"

definition shared_db :: memdb where
  "shared_db = ([BucketMap, BucketBlocks, BucketFilestore],
     [((BucketMap, commit_hash shared_entry), json_print (enc_entry shared_entry)),
      ((BucketBlocks, block_key ''abx''), ''x'')])"

definition shared_world :: "memdb eworld" where
  "shared_world = \<lparr>ev_db = shared_db, ev_os = calm_os, ev_log = []\<rparr>"

definition other_entry :: entry where
  "other_entry = shared_entry\<lparr>commit_hash := ''decade''\<rparr>"

lemma shared_entry_facts:
  "entry_wf shared_entry" "rfc3339 (added_at shared_entry)" "plain_key (commit_hash shared_entry)"
  "plain_key (commit_hash other_entry)" "commit_hash shared_entry \<noteq> commit_hash other_entry"
  using sample_facts
  by (simp_all add: shared_entry_def other_entry_def entry_wf_def ref_cids_def ascii_utf8 hex_digit_def
      sample_entry_def plain_key_def)

lemma shared_run: "map_run node_maps shared_db [commit_hash shared_entry \<mapsto> strip_entry shared_entry]"
proof -
  let ?db = "([BucketMap, BucketBlocks, BucketFilestore], [((BucketBlocks, block_key ''abx''), ''x'')])"
  have "map_run node_maps ?db Map.empty"
    by (rule map_run.start)
       (simp add: bolt_ds_def ds_get_def db_view_def mem_bolt_def mem_get_def)
  from map_run.put [OF this node_map_put shared_entry_facts(1,3)] shared_entry_facts show ?thesis
    by (simp add: shared_db_def)
qed

lemma shared_query: "\<exists>rs. dquery (mds node_maps) shared_db empty_query = Inr rs"
  by (simp add: bolt_ds_def ds_query_def db_view_def mem_bolt_def)

lemma shared_list: "map_list node_maps shared_db = Inr [strip_entry shared_entry]"
proof -
  obtain es where es: "map_list node_maps shared_db = Inr es" "distinct (map commit_hash es)"
      "set es = {strip_entry shared_entry}"
    using node_db.map_run_list [OF shared_run] shared_query by auto
  then have "es = [strip_entry shared_entry]"
    by (cases es; cases "tl es") (auto simp: distinct_map)
  with es show ?thesis by simp
qed

lemma shared_reachable [simp]: "reachable node_boxo (node_blocks BucketBlocks) shared_db ''abx'' = {''abx''}"
proof -
  have "links_of node_boxo (node_blocks BucketBlocks) shared_db ''abx'' = []"
    by (simp add: links_of_def node_block_simps mem_get_def shared_db_def node_boxo_def)
  then show ?thesis
    using reachable_closed [of "''abx''" "{''abx''}" node_boxo "node_blocks BucketBlocks" shared_db] by auto
qed

lemma node_present_finite: "finite (present (node_blocks b) s)"
proof -
  let ?N = "Max (insert 0 (length ` snd ` fst ` set (snd s)))"
  have "length c \<le> ?N + 2" if "c \<in> present (node_blocks b) s" for c
  proof -
    from that have "(b, block_key c) \<in> fst ` set (snd s)"
      by (auto simp: present_def node_blocks_has mem_get_def dest: map_of_SomeD split: if_splits
          intro!: rev_image_eqI)
    then have "block_key c \<in> snd ` fst ` set (snd s)" by force
    then have "length (block_key c) \<le> ?N" by (intro Max_ge) auto
    then show ?thesis by (simp add: block_key_def ref_cids_def)
  qed
  then have "present (node_blocks b) s \<subseteq> {c. set c \<subseteq> UNIV \<and> length c \<le> ?N + 2}" by auto
  then show ?thesis by (rule finite_subset) (rule finite_lists_length_le, simp)
qed

lemma shared_decode:
  "cid_decode ref_cids (actual_cid (strip_entry shared_entry)) = Inr ''abx''"
  "cid_decode ref_cids (actual_cid other_entry) = Inr ''abx''"
  by (simp_all add: shared_entry_def other_entry_def strip_entry_def ref_decode_string)

lemma shared_world_db [simp]: "ev_db shared_world = shared_db"
  by (simp add: shared_world_def)

section \<open>Properties\<close>

text \<open>C12: what evicting a revision does to the others, whether \<open>Commit\<close> succeeds or fails half-way: their
  mappings are as before, and every CID reachable from the root of another mapped revision has the block and the
  filestore reference it had, with one exception that the code really has: a CID whose multihash the evicted revision
  reaches under another CID (another codec or version) that no other mapping reaches.\<close>

theorem evict_keeps_shared:
  assumes "evict_target L X T"
    and "evict_commit n L X order T e w = Some (r, w')" "\<And>xs. set (order xs) \<subseteq> set xs"
    and "map_list (t_mapping T) (ev_db w) = Inr es" "oe \<in> set es" "commit_hash oe \<noteq> commit_hash e"
    and "cid_decode L (actual_cid oe) = Inr oc" "x \<in> reachable X (t_mainbs T) (ev_db w) oc"
    and "plain_key (commit_hash e)" "plain_key (commit_hash oe)"
  shows "map_get (t_mapping T) (ev_db w') (commit_hash oe) = map_get (t_mapping T) (ev_db w) (commit_hash oe)
    \<and> (bs_has (t_mainbs T) (ev_db w') x = bs_has (t_mainbs T) (ev_db w) x
       \<and> bs_get (t_mainbs T) (ev_db w') x = bs_get (t_mainbs T) (ev_db w) x
       \<and> bs_has (target_fm X T) (ev_db w') x = bs_has (target_fm X T) (ev_db w) x
       \<and> bs_get (target_fm X T) (ev_db w') x = bs_get (target_fm X T) (ev_db w) x
       \<or> twin_lost L X T e es x w)"
  using evict_target.evict_commit_view [OF assms(1-8)] assms(6)
    evict_target.evict_commit_map(1) [OF assms(1,2,9,10)]
  by (auto simp: evict_target.view_def [OF assms(1)])

theorem evict_keeps_shared_witness:
  "\<exists>r w'. evict_commit (Suc (card (present (node_blocks BucketBlocks) shared_db))) ref_cids node_boxo id
       node_target other_entry shared_world = Some (r, w')
     \<and> bs_get (node_blocks BucketBlocks) (ev_db w') ''abx'' = Inr ''x''"
proof -
  let ?n = "Suc (card (present (node_blocks BucketBlocks) shared_db))"
  obtain r w' where ev: "evict_commit ?n ref_cids node_boxo id node_target other_entry shared_world = Some (r, w')"
    using node_evict.evict_commit_total [of shared_world ?n id other_entry] by (auto simp: node_present_finite)
  have "bs_get (node_blocks BucketBlocks) shared_db ''abx'' = Inr ''x''"
    by (simp add: node_block_simps mem_get_def shared_db_def)
  moreover have "\<not> twin_lost ref_cids node_boxo node_target other_entry es ''abx'' shared_world" for es
    using shared_decode(2) by (auto simp: twin_lost_def)
  ultimately show ?thesis
    using ev evict_keeps_shared [OF node_evict.evict_target_axioms ev, of "[strip_entry shared_entry]"
      "strip_entry shared_entry" "''abx''" "''abx''"] shared_list shared_decode(1) shared_entry_facts
    by auto
qed

text \<open>C13: eviction ends, and on success it is complete: with a depth bound above the number of stored
  blocks \<open>Commit\<close> returns; when it returns no error the mapping of the commit is gone, and every CID
  reachable from the revision's root that no other mapping reaches has lost its filestore
  reference, or its block when it had no reference.\<close>

theorem evict_commit_removes:
  assumes "evict_target L X T" "\<And>xs. set (order xs) = set xs"
    and "finite (present (t_mainbs T) (ev_db w))" "card (present (t_mainbs T) (ev_db w)) < n"
    and "map_list (t_mapping T) (ev_db w) = Inr es" "cid_decode L (actual_cid e) = Inr root"
    and "plain_key (commit_hash e)"
  shows "\<exists>r w'. evict_commit n L X order T e w = Some (r, w') \<and> (r = Inr () \<longrightarrow>
      map_get (t_mapping T) (ev_db w') (commit_hash e) = Inr None
      \<and> (\<forall>x \<in> reachable X (t_mainbs T) (ev_db w) root.
           (\<forall>oe \<in> set es. \<forall>oc. commit_hash oe \<noteq> commit_hash e \<and> cid_decode L (actual_cid oe) = Inr oc \<longrightarrow>
              x \<notin> reachable X (t_mainbs T) (ev_db w) oc) \<longrightarrow>
           (bs_has (target_fm X T) (ev_db w) x = Inr True \<longrightarrow> bs_has (target_fm X T) (ev_db w') x = Inr False)
           \<and> (bs_has (target_fm X T) (ev_db w) x = Inr False \<and> bs_has (t_mainbs T) (ev_db w) x = Inr True \<longrightarrow>
              bs_has (t_mainbs T) (ev_db w') x = Inr False)))"
proof -
  obtain r w' where ev: "evict_commit n L X order T e w = Some (r, w')"
    using evict_target.evict_commit_total [OF assms(1,3,4)] by blast
  show ?thesis
  proof (intro exI conjI impI ballI)
    assume r: "r = Inr ()"
    show "map_get (t_mapping T) (ev_db w') (commit_hash e) = Inr None"
      using evict_target.evict_commit_map(1) [OF assms(1) ev assms(7,7)] r by simp
  qed (use ev evict_target.evict_commit_gone [OF assms(1) _ assms(2,5,6)] in blast)+
qed

theorem evict_commit_removes_witness:
  "\<exists>r w'. evict_commit (Suc (card (present (node_blocks BucketBlocks) shared_db))) ref_cids node_boxo id
       node_target (strip_entry shared_entry) shared_world = Some (r, w')
     \<and> (r = Inr () \<longrightarrow> map_get node_maps (ev_db w') (commit_hash shared_entry) = Inr None
         \<and> bs_has (node_blocks BucketBlocks) (ev_db w') ''abx'' = Inr False)"
proof -
  have h: "bs_has (node_blocks BucketFilestore) shared_db ''abx'' = Inr False"
    "bs_has (node_blocks BucketBlocks) shared_db ''abx'' = Inr True"
    by (simp_all add: node_block_simps mem_get_def shared_db_def)
  show ?thesis
    using evict_commit_removes [OF node_evict.evict_target_axioms, of id shared_world
      "Suc (card (present (node_blocks BucketBlocks) shared_db))" "[strip_entry shared_entry]"
      "strip_entry shared_entry" "''abx''"] h
    by (simp add: node_present_finite shared_list shared_decode shared_entry_facts)
qed

text \<open>C14: \<open>Repo\<close> reports the truth: it always returns, the count it returns is the number of mappings
  it removed, all of them of the named repository and no other mapping is touched; without an error
  every mapping of the repository is gone and there was at least one.\<close>

theorem evict_repo_refines:
  assumes "evict_target L X T" and "map_run (t_mapping T) (ev_db w) m"
    and "finite (present (t_mainbs T) (ev_db w))" "card (present (t_mainbs T) (ev_db w)) < n"
    and "dquery (mds (t_mapping T)) (ev_db w) empty_query = Inr rs"
  shows "\<exists>k err w' removed. evict_repo n L X order T rid w = Some (k, err, w')
    \<and> removed \<subseteq> {c. \<exists>e. m c = Some e \<and> repo_id e = rid} \<and> k = card removed
    \<and> (\<forall>c. plain_key c \<longrightarrow> map_get (t_mapping T) (ev_db w') c = Inr (if c \<in> removed then None else m c))
    \<and> (err = None \<longrightarrow> 0 < k \<and> removed = {c. \<exists>e. m c = Some e \<and> repo_id e = rid})"
proof -
  have mdb: "mapping_db (t_mapping T)" using assms(1) by (simp add: evict_target_def)
  obtain es where es: "map_list (t_mapping T) (ev_db w) = Inr es" "distinct (map commit_hash es)" "set es = ran m"
    using mapping_db.map_run_list [OF mdb assms(2,5)] by blast
  have dom: "m c = Some e \<Longrightarrow> plain_key c \<and> commit_hash e = c" for c e
    using mapping_db.map_run_dom [OF mdb assms(2)] by blast
  have C: "commit_hash ` {e \<in> set es. repo_id e = rid} = {c. \<exists>e. m c = Some e \<and> repo_id e = rid}"
    using dom by (force simp: es(3) ran_def)
  have plain: "\<forall>e \<in> set es. plain_key (commit_hash e)"
    using dom by (auto simp: es(3) ran_def)
  obtain k err w' where ev: "evict_entries n L X order T rid es 0 w = Some (k, err, w')"
    using evict_target.evict_entries_total [OF assms(1,3,4)] by blast
  from evict_target.evict_entries_map [OF assms(1) ev plain es(2)] obtain D where
    D: "D \<subseteq> {c. \<exists>e. m c = Some e \<and> repo_id e = rid}" "k = card D"
      "err = None \<longrightarrow> D = {c. \<exists>e. m c = Some e \<and> repo_id e = rid}"
      "\<forall>c. plain_key c \<longrightarrow> map_get (t_mapping T) (ev_db w') c =
         (if c \<in> D then Inr None else map_get (t_mapping T) (ev_db w) c)"
    unfolding C by auto
  let ?err = "if err = None \<and> k = 0 then Some (Errorf ''no shared revision for %s'' [AStr rid]) else err"
  have "evict_repo n L X order T rid w = Some (k, ?err, w')"
    by (auto simp: evict_repo_def es(1) ev split: option.split)
  with D mapping_db.map_run_get [OF mdb assms(2)] show ?thesis
    by (intro exI [of _ k] exI [of _ ?err] exI [of _ w'] exI [of _ D]) auto
qed

theorem evict_repo_refines_witness:
  "\<exists>k err w'. evict_repo (Suc (card (present (node_blocks BucketBlocks) shared_db))) ref_cids node_boxo id
       node_target ''other/repo'' shared_world = Some (k, err, w')
     \<and> k = 0 \<and> err \<noteq> None
     \<and> map_get node_maps (ev_db w') (commit_hash shared_entry) = Inr (Some (strip_entry shared_entry))"
proof -
  obtain rs where q: "dquery (mds node_maps) shared_db empty_query = Inr rs"
    using shared_query by blast
  have none: "{c. \<exists>e. [commit_hash shared_entry \<mapsto> strip_entry shared_entry] c = Some e
      \<and> repo_id e = ''other/repo''} = {}"
    by (auto simp: shared_entry_def sample_entry_def strip_entry_def)
  from evict_repo_refines [OF node_evict.evict_target_axioms, unfolded node_target_simps, of shared_world,
      unfolded shared_world_db, OF shared_run node_present_finite lessI q, of id "''other/repo''"]
  obtain k err w' D where ev: "evict_repo (Suc (card (present (node_blocks BucketBlocks) shared_db)))
      ref_cids node_boxo id node_target ''other/repo'' shared_world = Some (k, err, w')"
    and D: "D \<subseteq> {}" "k = card D" "err = None \<longrightarrow> 0 < k"
      "\<forall>c. plain_key c \<longrightarrow> map_get node_maps (ev_db w') c =
         Inr (if c \<in> D then None else [commit_hash shared_entry \<mapsto> strip_entry shared_entry] c)"
    unfolding none by blast
  then have "k = 0" "err \<noteq> None" "map_get node_maps (ev_db w') (commit_hash shared_entry)
      = Inr (Some (strip_entry shared_entry))" by (auto simp: shared_entry_facts)
  with ev show ?thesis by blast
qed

end
