(* ===== verification/Serve.thy ===== *)
theory Serve
  imports Wire Dummy FileSys
begin

text \<open>
  The two stream protocols of a node, both ends: the handlers of \<open>internal/node/node.go\<close>
  (\<open>handleMap\<close>, \<open>handleBlocks\<close>) and the block client of \<open>internal/pull/pull.go\<close> (\<open>blockClient\<close>).
  A stream is a connection with the flags a handler sets. The node's filestore is third-party code,
  the argument \<open>F\<close>; reading a block may read the file behind a reference, so it sees the operating
  system's state. The request loop of \<open>handleBlocks\<close> ends because every request consumes input.
\<close>

section \<open>Interfaces\<close>

record 's fstoreops =
  fs_get :: "'s \<Rightarrow> os \<Rightarrow> cid \<Rightarrow> bytes res"
  fs_has :: "'s \<Rightarrow> cid \<Rightarrow> bool res"
  fs_get_size :: "'s \<Rightarrow> os \<Rightarrow> cid \<Rightarrow> int res"
  fs_put :: "'s \<Rightarrow> cid \<Rightarrow> bytes \<Rightarrow> unit res \<times> 's"
  fs_put_ref :: "'s \<Rightarrow> cid \<Rightarrow> bytes \<Rightarrow> string \<Rightarrow> int \<Rightarrow> unit res \<times> 's"
  fs_delete :: "'s \<Rightarrow> cid \<Rightarrow> unit res \<times> 's"

record stream =
  st_conn :: conn
  st_limited :: bool
  st_reset :: bool
  st_closed :: bool

definition relayed :: "stream \<Rightarrow> bool" where
  "relayed s = st_limited s"

definition is_stream_end :: "goerr \<Rightarrow> bool" where
  "is_stream_end e =
     (errors_is e EOF \<or> errors_is e Canceled \<or> errors_is e ErrReset \<or> e = Sentinel DeadlineExceeded)"

definition is_not_found :: "goerr \<Rightarrow> bool" where
  "is_not_found e = errors_is e ErrNotFound"

section \<open>The map protocol\<close>

definition empty_response :: "string \<Rightarrow> map_response" where
  "empty_response commit =
     \<lparr>mr_ok = False, mr_error = [], mr_commit = commit, mr_repo = [], mr_type = [], mr_actual = [],
      mr_dummy = [], mr_total = 0, mr_files = []\<rparr>"

text \<open>The response to a request, as the handler's branches build it.\<close>

definition map_answer :: "cidlib \<Rightarrow> 's maplib \<Rightarrow> bool \<Rightarrow> 's \<Rightarrow> bool \<Rightarrow> map_request \<Rightarrow> map_response" where
  "map_answer L M relay_bulk db is_relayed req =
     (case from_commit L (mq_commit req) of
        Inl _ \<Rightarrow> (empty_response (mq_commit req))\<lparr>mr_error := ''commit hash must be 40 hex characters''\<rparr>
      | Inr _ \<Rightarrow>
          if is_relayed \<and> \<not> relay_bulk
          then (empty_response (mq_commit req))\<lparr>mr_error := ''peer will not stream bulk data over a circuit relay; it needs a publicly reachable address, or the seeder must run with --relay-bulk''\<rparr>
          else (case map_get M db (mq_commit req) of
                  Inl _ \<Rightarrow> (empty_response (mq_commit req))\<lparr>mr_error := ''lookup failed''\<rparr>
                | Inr None \<Rightarrow> (empty_response (mq_commit req))\<lparr>mr_error := ''commit not shared by this peer''\<rparr>
                | Inr (Some e) \<Rightarrow>
                    \<lparr>mr_ok = True, mr_error = [], mr_commit = mq_commit req, mr_repo = repo_id e,
                     mr_type = repo_type e, mr_actual = actual_cid e, mr_dummy = dummy_cid e,
                     mr_total = total_size e, mr_files = files e\<rparr>))"

definition handle_map :: "cidlib \<Rightarrow> 's maplib \<Rightarrow> bool \<Rightarrow> 's \<Rightarrow> stream \<Rightarrow> stream" where
  "handle_map L M relay_bulk db s =
     (case read_json (unmarshal dec_map_request) (st_conn s) of
        (Inl _, c1) \<Rightarrow> s\<lparr>st_conn := c1, st_closed := True\<rparr>
      | (Inr req, c1) \<Rightarrow>
          s\<lparr>st_conn := snd (write_json (jmarshal enc_map_response) c1
                       (map_answer L M relay_bulk db (relayed s) req)),
            st_closed := True\<rparr>)"

section \<open>The block protocol: requests\<close>

definition enc_block_request :: "string list \<Rightarrow> json" where
  "enc_block_request cids = JObj [(''cids'', JArr (map JStr cids))]"

definition dec_block_request :: "json \<Rightarrow> string list res" where
  "dec_block_request v = bind_res (fold_members v) (\<lambda>ms. strs_field ''cids'' ms)"

section \<open>The block protocol: server\<close>

definition maxBlockBatch :: nat where "maxBlockBatch = 1024"

text \<open>The loop over one batch; the first component says whether the stream goes on.\<close>

fun serve_cids :: "cidlib \<Rightarrow> 's fstoreops \<Rightarrow> 's \<Rightarrow> os \<Rightarrow> string list \<Rightarrow> stream \<Rightarrow> bool \<times> stream" where
  "serve_cids L F db os [] s = (True, s)"
| "serve_cids L F db os (w # rest) s =
     (let missing = (case write_frame (st_conn s) [BlockNotFound] of
                       (Inl _, c1) \<Rightarrow> (False, s\<lparr>st_conn := c1\<rparr>)
                     | (Inr _, c1) \<Rightarrow> serve_cids L F db os rest (s\<lparr>st_conn := c1\<rparr>))
      in case cid_decode L w of
           Inl _ \<Rightarrow> missing
         | Inr c \<Rightarrow>
             (case fs_get F db os c of
                Inl e \<Rightarrow> if \<not> is_not_found e then (False, s\<lparr>st_reset := True\<rparr>) else missing
              | Inr d \<Rightarrow>
                  (case write_frame (st_conn s) (BlockOK # d) of
                     (Inl _, c1) \<Rightarrow> (False, s\<lparr>st_conn := c1\<rparr>)
                   | (Inr _, c1) \<Rightarrow> serve_cids L F db os rest (s\<lparr>st_conn := c1\<rparr>))))"

lemma serve_cids_input: "rd_buf (st_conn (snd (serve_cids L F db os cs s))) = rd_buf (st_conn s)"
proof (induction cs arbitrary: s)
  case (Cons t0 cs)
  have w: "write_frame (st_conn s) d = (r, c1) \<Longrightarrow> rd_buf c1 = rd_buf (st_conn s)" for d r c1
    using write_frame_keeps_input [of "st_conn s" d] by simp
  show ?case
    by (auto simp: Let_def Cons split: sum.split prod.split dest: w)
qed simp

lemma read_full_shrinks: "read_full c n = (r, c') \<Longrightarrow> length (rd_buf c') \<le> length (rd_buf c)"
  by (auto simp: read_full_def split: if_splits)

lemma read_json_consumes:
  assumes "read_json um c = (Inr v, c')"
  shows "length (rd_buf c') < length (rd_buf c)"
proof -
  from assms obtain data where "read_frame c = (Inr data, c')"
    by (auto simp: read_json_def split: prod.splits sum.splits)
  then obtain h c1 n where h: "read_full c 4 = (Inr h, c1)" and r: "read_full c1 n = (Inr data, c')"
    by (auto simp: read_frame_def Let_def split: prod.splits sum.splits if_splits)
  have "length (rd_buf c1) < length (rd_buf c)" using read_full_ok [OF h] by auto
  with read_full_shrinks [OF r] show ?thesis by simp
qed

lemma serve_step_consumes:
  assumes "read_json um (st_conn s) = (Inr cids, c1)" "serve_cids L F db os cids (s\<lparr>st_conn := c1\<rparr>) = (b, s1)"
  shows "length (rd_buf (st_conn s1)) < length (rd_buf (st_conn s))"
  using read_json_consumes [OF assms(1)] serve_cids_input [of L F db os cids "s\<lparr>st_conn := c1\<rparr>"] assms(2)
  by simp

function serve_loop :: "cidlib \<Rightarrow> 's fstoreops \<Rightarrow> 's \<Rightarrow> os \<Rightarrow> stream \<Rightarrow> stream" where
  "serve_loop L F db os s =
     (case read_json (unmarshal dec_block_request) (st_conn s) of
        (Inl _, c1) \<Rightarrow> s\<lparr>st_conn := c1\<rparr>
      | (Inr cids, c1) \<Rightarrow>
          if length cids > maxBlockBatch then s\<lparr>st_conn := c1, st_reset := True\<rparr>
          else (case serve_cids L F db os cids (s\<lparr>st_conn := c1\<rparr>) of
                  (goes_on, s1) \<Rightarrow> if goes_on then serve_loop L F db os s1 else s1))"
  by pat_completeness auto
termination
  by (relation "measure (\<lambda>(_, _, _, _, s). length (rd_buf (st_conn s)))")
     (auto dest: serve_step_consumes [OF sym sym])

declare serve_loop.simps [simp del]

definition handle_blocks :: "cidlib \<Rightarrow> 's fstoreops \<Rightarrow> bool \<Rightarrow> 's \<Rightarrow> os \<Rightarrow> stream \<Rightarrow> stream" where
  "handle_blocks L F relay_bulk db os s =
     (if relayed s \<and> \<not> relay_bulk then s\<lparr>st_reset := True, st_closed := True\<rparr>
      else (serve_loop L F db os s)\<lparr>st_closed := True\<rparr>)"

text \<open>\<open>RegisterFilestoreRef\<close>; \<open>DecodeRawBlock\<close> is the argument \<open>wrap_raw\<close>.\<close>

definition register_filestore_ref ::
  "cidlib \<Rightarrow> 's fstoreops \<Rightarrow> (cid \<Rightarrow> bytes \<Rightarrow> unit res) \<Rightarrow> cid \<Rightarrow> bytes \<Rightarrow> string \<Rightarrow> int \<Rightarrow> 's \<Rightarrow> unit res \<times> 's" where
  "register_filestore_ref L F wrap_raw c data abs_file offset db =
     (if cid_type L c \<noteq> Raw
      then (Inl (Errorf ''filestore references require raw blocks, got codec %#x for %s''
                  [AInt (int (cid_type L c)), AStr (cid_string L c)]), db)
      else case wrap_raw c data of
             Inl e \<Rightarrow> (Inl (Wrapf ''wrap chunk %s as ipld node: %w'' [AStr (cid_string L c)] e), db)
           | Inr _ \<Rightarrow> fs_put_ref F db c data abs_file offset)"

section \<open>The block protocol: client\<close>

fun read_blocks :: "nat \<Rightarrow> conn \<Rightarrow> bytes option list res \<times> conn" where
  "read_blocks 0 c = (Inr [], c)"
| "read_blocks (Suc n) c =
     (case read_frame c of
        (Inl e, c1) \<Rightarrow> (Inl (Wrapf ''read block response: %w'' [] e), c1)
      | (Inr [], c1) \<Rightarrow> (Inl (Errorf ''peer sent an empty status frame'' []), c1)
      | (Inr (b # d), c1) \<Rightarrow>
          (case read_blocks n c1 of
             (Inl e, c2) \<Rightarrow> (Inl e, c2)
           | (Inr ds, c2) \<Rightarrow> (Inr ((if b \<noteq> BlockNotFound then Some d else None) # ds), c2)))"

definition fetch :: "cidlib \<Rightarrow> conn \<Rightarrow> cid list \<Rightarrow> bytes option list res \<times> conn" where
  "fetch L c cs =
     (if cs = [] then (Inr [], c)
      else case write_json (jmarshal enc_block_request) c (map (cid_string L) cs) of
             (Inl e, c1) \<Rightarrow> (Inl (Wrapf ''send block request: %w'' [] e), c1)
           | (Inr _, c1) \<Rightarrow> read_blocks (length cs) c1)"

section \<open>What the block protocol transfers\<close>

text \<open>The server's answer for a CID, its frame, and when the filestore can answer at all.\<close>

definition block_answer :: "'s fstoreops \<Rightarrow> 's \<Rightarrow> os \<Rightarrow> cid \<Rightarrow> bytes option" where
  "block_answer F db os c = (case fs_get F db os c of Inl _ \<Rightarrow> None | Inr d \<Rightarrow> Some d)"

definition status_frame :: "bytes option \<Rightarrow> bytes" where
  "status_frame a = frame_bytes (case a of None \<Rightarrow> [BlockNotFound] | Some d \<Rightarrow> BlockOK # d)"

definition answerable :: "'s fstoreops \<Rightarrow> 's \<Rightarrow> os \<Rightarrow> cid \<Rightarrow> bool" where
  "answerable F db os c = (case fs_get F db os c of Inl e \<Rightarrow> is_not_found e | Inr d \<Rightarrow> length d < MaxFrame)"

lemma MaxFrame_pos [simp]: "0 < MaxFrame" "Suc 0 \<le> MaxFrame"
  by (simp_all add: MaxFrame_def)

lemma serve_cids_output:
  assumes "wr_room (st_conn s) = None" "\<forall>c \<in> set cs. cid_decode L (cid_string L c) = Inr c \<and> answerable F db os c"
  shows "serve_cids L F db os (map (cid_string L) cs) s = (True, s\<lparr>st_conn := (st_conn s)\<lparr>wr_buf :=
    wr_buf (st_conn s) @ concat (map (\<lambda>c. status_frame (block_answer F db os c)) cs)\<rparr>\<rparr>)"
  using assms
proof (induction cs arbitrary: s)
  case (Cons c cs)
  have "write_frame (st_conn s) (case block_answer F db os c of None \<Rightarrow> [BlockNotFound] | Some d \<Rightarrow> BlockOK # d)
      = (Inr (), (st_conn s)\<lparr>wr_buf := wr_buf (st_conn s) @ status_frame (block_answer F db os c)\<rparr>)"
    unfolding status_frame_def using Cons.prems
    by (intro write_frame_unlimited) (auto simp: answerable_def block_answer_def Suc_le_eq split: sum.splits)
  then show ?case
    using Cons.prems Cons.IH [of "s\<lparr>st_conn := (st_conn s)\<lparr>wr_buf := wr_buf (st_conn s)
      @ status_frame (block_answer F db os c)\<rparr>\<rparr>"]
    by (auto simp: Let_def answerable_def block_answer_def split: sum.splits)
qed simp

lemma read_blocks_frames:
  assumes "rd_buf c = concat (map status_frame as) @ rest" "\<forall>d. Some d \<in> set as \<longrightarrow> length d < MaxFrame"
  shows "read_blocks (length as) c = (Inr as, c\<lparr>rd_buf := rest\<rparr>)"
  using assms
proof (induction as arbitrary: c)
  case (Cons a as)
  have "read_frame c = (Inr (case a of None \<Rightarrow> [BlockNotFound] | Some d \<Rightarrow> BlockOK # d),
      c\<lparr>rd_buf := concat (map status_frame as) @ rest\<rparr>)"
    using Cons.prems by (intro read_frame_frame_bytes) (auto simp: status_frame_def [of a] Suc_le_eq split: option.splits)
  moreover have "BlockOK \<noteq> BlockNotFound" by (simp add: BlockOK_def BlockNotFound_def)
  ultimately show ?case
    using Cons.IH [of "c\<lparr>rd_buf := concat (map status_frame as) @ rest\<rparr>"] Cons.prems
    by (auto split: option.split)
qed simp

lemma cids_name: "list_all plain_name [''cids'']"
  by code_simp

lemmas cids_name_facts [json_codec] = plain_names [OF cids_name, unfolded list.pred_inject]

lemma dec_enc_block_request: "dec_block_request (enc_block_request cs) = Inr cs"
  by (simp add: dec_block_request_def enc_block_request_def json_codec)

lemma json_wf_block_request: "list_all valid_utf8 cs \<Longrightarrow> json_wf (enc_block_request cs)"
  by (simp add: enc_block_request_def json_codec list_all_iff)

definition request_frame :: "cidlib \<Rightarrow> cid list \<Rightarrow> bytes" where
  "request_frame L cs = frame_bytes (json_print (enc_block_request (map (cid_string L) cs)))"

text \<open>A batch a client may send: not too many CIDs, in a frame that is not too large.\<close>

definition good_batch :: "cidlib \<Rightarrow> 's fstoreops \<Rightarrow> 's \<Rightarrow> os \<Rightarrow> cid list \<Rightarrow> bool" where
  "good_batch L F db os cs =
     (length cs \<le> maxBlockBatch \<and> length (json_print (enc_block_request (map (cid_string L) cs))) \<le> MaxFrame
      \<and> (\<forall>c \<in> set cs. valid_utf8 (cid_string L c) \<and> cid_decode L (cid_string L c) = Inr c \<and> answerable F db os c))"

lemma read_request:
  assumes "rd_buf c = request_frame L cs @ rest" "good_batch L F db os cs"
  shows "read_json (unmarshal dec_block_request) c = (Inr (map (cid_string L) cs), c\<lparr>rd_buf := rest\<rparr>)"
proof -
  have wf: "json_wf (enc_block_request (map (cid_string L) cs))"
    using assms(2) by (intro json_wf_block_request) (simp add: good_batch_def list_all_iff)
  show ?thesis
    by (rule write_json_read_json)
       (use assms wf in \<open>simp_all add: good_batch_def request_frame_def unmarshal_print dec_enc_block_request\<close>)
qed

lemma serve_loop_batches:
  assumes "wr_room (st_conn s) = None" "rd_end (st_conn s) = e"
    "rd_buf (st_conn s) = concat (map (request_frame L) batches)" "list_all (good_batch L F db os) batches"
  shows "st_reset (serve_loop L F db os s) = st_reset s
    \<and> wr_buf (st_conn (serve_loop L F db os s)) = wr_buf (st_conn s)
        @ concat (map (\<lambda>c. status_frame (block_answer F db os c)) (concat batches))"
  using assms
proof (induction batches arbitrary: s)
  case Nil
  then have "read_json (unmarshal dec_block_request) (st_conn s) = (Inl e, st_conn s)"
    by (simp add: read_json_def read_frame_def read_full_def)
  then show ?case by (simp add: serve_loop.simps)
next
  case (Cons cs batches)
  let ?c = "(st_conn s)\<lparr>rd_buf := concat (map (request_frame L) batches)\<rparr>"
  let ?s = "s\<lparr>st_conn := ?c\<lparr>wr_buf := wr_buf (st_conn s)
    @ concat (map (\<lambda>c. status_frame (block_answer F db os c)) cs)\<rparr>\<rparr>"
  have good: "good_batch L F db os cs" using Cons.prems(4) by simp
  have "read_json (unmarshal dec_block_request) (st_conn s) = (Inr (map (cid_string L) cs), ?c)"
    using Cons.prems(3) good by (intro read_request) simp_all
  moreover have "serve_cids L F db os (map (cid_string L) cs) (s\<lparr>st_conn := ?c\<rparr>) = (True, ?s)"
    using serve_cids_output [of "s\<lparr>st_conn := ?c\<rparr>" cs L F db os] Cons.prems(1) good
    by (simp add: good_batch_def)
  ultimately have "serve_loop L F db os s = serve_loop L F db os ?s"
    using good by (subst serve_loop.simps) (simp add: good_batch_def)
  then show ?case using Cons.IH [of ?s] Cons.prems by simp
qed

section \<open>Properties\<close>

text \<open>The block protocol delivers: whatever number of batches a client pipelines, the handler
  answers with one frame per requested CID, in request order, and \<open>Fetch\<close> on those answers returns,
  for each CID of a batch, the bytes the server's filestore has for it or nothing when it has none.\<close>

theorem block_exchange:
  assumes "list_all (good_batch L F db os) (pre @ cs # post)" "cs \<noteq> []"
    and "rd_buf (st_conn s) = concat (map (request_frame L) (pre @ cs # post))"
    and "wr_room (st_conn s) = None" "wr_buf (st_conn s) = []" "\<not> relayed s \<or> relay_bulk"
    and "wr_room c = None"
    and "concat (map (\<lambda>c. status_frame (block_answer F db os c)) (concat pre)) @ rd_buf c
      = wr_buf (st_conn (handle_blocks L F relay_bulk db os s))"
  shows "fst (fetch L c cs) = Inr (map (block_answer F db os) cs)
    \<and> wr_buf (snd (fetch L c cs)) = wr_buf c @ request_frame L cs"
proof -
  have out: "wr_buf (st_conn (handle_blocks L F relay_bulk db os s))
      = concat (map (\<lambda>c. status_frame (block_answer F db os c)) (concat (pre @ cs # post)))"
    using serve_loop_batches [OF assms(4) refl assms(3,1)] assms(5,6) by (auto simp: handle_blocks_def)
  have rd: "rd_buf c = concat (map status_frame (map (block_answer F db os) cs))
      @ concat (map (\<lambda>c. status_frame (block_answer F db os c)) (concat post))"
    using assms(8) unfolding out by (simp add: comp_def)
  have good: "good_batch L F db os cs" using assms(1) by simp
  have w: "write_json (jmarshal enc_block_request) c (map (cid_string L) cs)
      = (Inr (), c\<lparr>wr_buf := wr_buf c @ request_frame L cs\<rparr>)"
    using good assms(7) by (simp add: write_json_def jmarshal_def write_frame_unlimited good_batch_def request_frame_def)
  have "\<forall>d. Some d \<in> set (map (block_answer F db os) cs) \<longrightarrow> length d < MaxFrame"
    using good by (auto simp: good_batch_def answerable_def block_answer_def split: sum.splits)
  with read_blocks_frames [of "c\<lparr>wr_buf := wr_buf c @ request_frame L cs\<rparr>" "map (block_answer F db os) cs"] rd w assms(2)
  show ?thesis by (simp add: fetch_def)
qed

text \<open>The content of a response: which requests are answered positively, and with what.\<close>

lemma map_answer_spec:
  assumes "multiformats L" and r_def: "r = map_answer L M relay_bulk db rel q"
  shows "mr_ok r \<longleftrightarrow> length (mq_commit q) = 40 \<and> is_hex (mq_commit q) \<and> (rel \<longrightarrow> relay_bulk)
      \<and> (\<exists>e. map_get M db (mq_commit q) = Inr (Some e))" (is ?gate)
    and "mr_commit r = mq_commit q" (is ?commit)
    and "\<not> mr_ok r \<Longrightarrow> mr_error r \<noteq> [] \<and> mr_repo r = [] \<and> mr_type r = [] \<and> mr_actual r = [] \<and> mr_dummy r = []
          \<and> mr_total r = 0 \<and> mr_files r = []"
    and "mr_ok r \<Longrightarrow> map_get M db (mq_commit q) = Inr (Some e) \<Longrightarrow>
          mr_error r = [] \<and> mr_repo r = repo_id e \<and> mr_type r = repo_type e \<and> mr_actual r = actual_cid e
          \<and> mr_dummy r = dummy_cid e \<and> mr_total r = total_size e \<and> mr_files r = files e"
proof -
  have acc: "ok (from_commit L (mq_commit q)) \<longleftrightarrow> length (mq_commit q) = 40 \<and> is_hex (mq_commit q)"
    using multiformats.from_commit_ok [OF assms(1)] by (simp add: CommitLen_def)
  show ?gate
    using acc unfolding r_def
    by (auto simp: map_answer_def empty_response_def ok_def split: sum.splits option.splits)
  show ?commit
    unfolding r_def by (simp add: map_answer_def empty_response_def split: sum.splits option.splits)
  show "mr_error r \<noteq> [] \<and> mr_repo r = [] \<and> mr_type r = [] \<and> mr_actual r = [] \<and> mr_dummy r = []
          \<and> mr_total r = 0 \<and> mr_files r = []"
    if "\<not> mr_ok r"
    using that unfolding r_def
    by (auto simp: map_answer_def empty_response_def split: sum.splits option.splits if_splits)
  show "mr_error r = [] \<and> mr_repo r = repo_id e \<and> mr_type r = repo_type e \<and> mr_actual r = actual_cid e
          \<and> mr_dummy r = dummy_cid e \<and> mr_total r = total_size e \<and> mr_files r = files e"
    if "mr_ok r" "map_get M db (mq_commit q) = Inr (Some e)"
    using that unfolding r_def
    by (auto simp: map_answer_def empty_response_def split: sum.splits option.splits if_splits)
qed

text \<open>What the other end reads after one exchange: the answer to its request, less the untransmitted
  source paths.\<close>

lemma map_reply_read:
  assumes "map_request_wf q" "length (json_print (enc_map_request q)) \<le> MaxFrame"
    and "rd_buf (st_conn s) = frame_bytes (json_print (enc_map_request q)) @ rest"
    and "wr_room (st_conn s) = None" "wr_buf (st_conn s) = []"
    and a_def: "a = map_answer L M relay_bulk db (relayed s) q"
    and "map_response_wf a" "length (json_print (enc_map_response a)) \<le> MaxFrame"
    and "rd_buf d = wr_buf (st_conn (handle_map L M relay_bulk db s))"
  shows "read_json (unmarshal dec_map_response) d = (Inr (a\<lparr>mr_files := map strip_src (mr_files a)\<rparr>), d\<lparr>rd_buf := []\<rparr>)"
proof -
  let ?c = "(st_conn s)\<lparr>rd_buf := rest\<rparr>"
  have "read_json (unmarshal dec_map_request) (st_conn s) = (Inr q, ?c)"
    by (rule write_json_read_json)
       (use assms(1-3) in \<open>simp_all add: unmarshal_print json_wf_map_request dec_enc_map_request\<close>)
  moreover have w: "write_json (jmarshal enc_map_response) ?c a
      = (Inr (), ?c\<lparr>wr_buf := frame_bytes (json_print (enc_map_response a))\<rparr>)"
    using assms(4,5,8) by (simp add: write_json_def jmarshal_def write_frame_unlimited)
  ultimately have "rd_buf d = frame_bytes (json_print (enc_map_response a))"
    using assms(9) by (simp add: handle_map_def flip: a_def)
  then show ?thesis
    by (intro json_frame_roundtrip [where enc = enc_map_response and dec = dec_map_response and v = a, OF json_wf_map_response [OF assms(7)]
          dec_enc_map_response [OF assms(7)] w]) (simp add: assms(5))
qed

text \<open>C18: the map protocol, end to end: the response a client reads after a well-formed request is
  positive if and only if the commit hash is 40 hexadecimal digits, the stream is not relayed (unless
  the operator allows bulk data over relays) and the commit is mapped; it then carries
  every field of the stored entry that the protocol transmits (repository, type, both CIDs, total size
  and files, without their source paths) and no error message, and otherwise a message and no data at
  all. Either way it echoes the commit asked for.\<close>

theorem handle_map_answers:
  assumes "multiformats L" "map_request_wf q" "length (json_print (enc_map_request q)) \<le> MaxFrame"
    and "rd_buf (st_conn s) = frame_bytes (json_print (enc_map_request q)) @ rest"
    and "wr_room (st_conn s) = None" "wr_buf (st_conn s) = []"
    and "map_response_wf (map_answer L M relay_bulk db (relayed s) q)"
    and "length (json_print (enc_map_response (map_answer L M relay_bulk db (relayed s) q))) \<le> MaxFrame"
    and "rd_buf d = wr_buf (st_conn (handle_map L M relay_bulk db s))"
  shows "\<exists>r. read_json (unmarshal dec_map_response) d = (Inr r, d\<lparr>rd_buf := []\<rparr>)
    \<and> mr_commit r = mq_commit q
    \<and> (mr_ok r \<longleftrightarrow> length (mq_commit q) = 40 \<and> is_hex (mq_commit q) \<and> (relayed s \<longrightarrow> relay_bulk)
          \<and> (\<exists>e. map_get M db (mq_commit q) = Inr (Some e)))
    \<and> (\<not> mr_ok r \<longrightarrow> mr_error r \<noteq> [] \<and> mr_repo r = [] \<and> mr_type r = [] \<and> mr_actual r = [] \<and> mr_dummy r = []
          \<and> mr_total r = 0 \<and> mr_files r = [])
    \<and> (\<forall>e. mr_ok r \<and> map_get M db (mq_commit q) = Inr (Some e) \<longrightarrow>
          mr_error r = [] \<and> mr_repo r = repo_id e \<and> mr_type r = repo_type e \<and> mr_actual r = actual_cid e
          \<and> mr_dummy r = dummy_cid e \<and> mr_total r = total_size e \<and> mr_files r = map strip_src (files e))"
  using map_reply_read [OF assms(2-6) refl assms(7-9)] map_answer_spec [OF assms(1) refl, of M relay_bulk db "relayed s" q]
  by auto

text \<open>A seeder that shares one commit, asked over a direct stream and over a relay.\<close>

definition hex_commit :: string where "hex_commit = replicate 40 (CHR ''a'')"

definition seed_entry :: entry where "seed_entry = sample_entry\<lparr>commit_hash := hex_commit\<rparr>"

definition seed_db :: memdb where "seed_db = snd (map_put node_maps empty_db seed_entry)"

definition map_stream :: "bool \<Rightarrow> stream" where
  "map_stream limited = \<lparr>st_conn = fresh_conn (frame_bytes (json_print (enc_map_request
     \<lparr>mq_commit = hex_commit, mq_repo = []\<rparr>))), st_limited = limited, st_reset = False, st_closed = False\<rparr>"

lemma hex_commit_simps: "length hex_commit = 40" "is_hex hex_commit" "plain_key hex_commit"
  by (simp_all add: hex_commit_def is_hex_def from_hex_char_def plain_key_def list_all_iff eval_nat_numeral)

lemma hex_commit_utf8: "valid_utf8 hex_commit"
  by (rule ascii_utf8) (simp add: hex_commit_def list_all_iff)

lemma seed_entry_facts: "entry_wf seed_entry" "rfc3339 (added_at seed_entry)" "commit_hash seed_entry = hex_commit"
  using sample_facts by (simp_all add: seed_entry_def entry_wf_def hex_commit_utf8)

lemma seed_get: "map_get node_maps seed_db hex_commit = Inr (Some (strip_entry seed_entry))"
proof -
  have "map_put node_maps empty_db seed_entry = (Inr (), seed_db)"
    using node_map_put [of empty_db seed_entry] seed_entry_facts hex_commit_simps
    by (simp add: seed_db_def empty_db_def)
  from node_db.map_put_effect [OF this seed_entry_facts(1)] show ?thesis
    by (simp add: seed_entry_facts hex_commit_simps)
qed

lemma seed_answer:
  "map_answer ref_cids node_maps False seed_db False \<lparr>mq_commit = hex_commit, mq_repo = []\<rparr>
     = \<lparr>mr_ok = True, mr_error = [], mr_commit = hex_commit, mr_repo = ''org/<m>'', mr_type = ''model'',
        mr_actual = ''bafy'', mr_dummy = ''bafk'', mr_total = 3, mr_files = [strip_src sample_manifest]\<rparr>"
proof -
  have "ok (from_commit ref_cids hex_commit)"
    using ref.from_commit_ok [of hex_commit] hex_commit_simps by (simp add: CommitLen_def)
  then show ?thesis
    by (auto simp: map_answer_def ok_iff seed_get) (simp_all add: strip_entry_def seed_entry_def sample_entry_def)
qed

theorem handle_map_answers_witness:
  "\<exists>r. read_json (unmarshal dec_map_response) (fresh_conn (wr_buf (st_conn
       (handle_map ref_cids node_maps False seed_db (map_stream False))))) = (Inr r, fresh_conn [])
     \<and> mr_ok r \<and> mr_repo r = ''org/<m>'' \<and> mr_type r = ''model'' \<and> mr_actual r = ''bafy''
     \<and> mr_dummy r = ''bafk'' \<and> mr_total r = 3 \<and> mr_files r = [strip_src sample_manifest]"
proof -
  let ?q = "\<lparr>mq_commit = hex_commit, mq_repo = []\<rparr>"
  let ?s = "map_stream False"
  have len: "length (json_print (enc_map_request ?q)) < 1000"
    "length (json_print (enc_map_response (map_answer ref_cids node_maps False seed_db False ?q))) < 1000"
    unfolding seed_answer by code_simp+
  have wf: "map_request_wf ?q" "map_response_wf (map_answer ref_cids node_maps False seed_db False ?q)"
    unfolding seed_answer
    by (simp_all add: map_request_wf_def map_response_wf_def manifest_wf_def hex_commit_utf8 ascii_utf8
        strip_src_def sample_manifest_def int64_range_def)
  have s: "relayed ?s = False" "rd_buf (st_conn ?s) = frame_bytes (json_print (enc_map_request ?q)) @ []"
    "wr_room (st_conn ?s) = None" "wr_buf (st_conn ?s) = []"
    by (simp_all add: map_stream_def relayed_def fresh_conn_def)
  have "\<exists>r. read_json (unmarshal dec_map_response) (fresh_conn (wr_buf (st_conn
       (handle_map ref_cids node_maps False seed_db ?s)))) = (Inr r, (fresh_conn (wr_buf (st_conn
       (handle_map ref_cids node_maps False seed_db ?s))))\<lparr>rd_buf := []\<rparr>)
    \<and> mr_commit r = mq_commit ?q
    \<and> (mr_ok r \<longleftrightarrow> length (mq_commit ?q) = 40 \<and> is_hex (mq_commit ?q) \<and> (relayed ?s \<longrightarrow> False)
          \<and> (\<exists>e. map_get node_maps seed_db (mq_commit ?q) = Inr (Some e)))
    \<and> (\<not> mr_ok r \<longrightarrow> mr_error r \<noteq> [] \<and> mr_repo r = [] \<and> mr_type r = [] \<and> mr_actual r = [] \<and> mr_dummy r = []
          \<and> mr_total r = 0 \<and> mr_files r = [])
    \<and> (\<forall>e. mr_ok r \<and> map_get node_maps seed_db (mq_commit ?q) = Inr (Some e) \<longrightarrow>
          mr_error r = [] \<and> mr_repo r = repo_id e \<and> mr_type r = repo_type e \<and> mr_actual r = actual_cid e
          \<and> mr_dummy r = dummy_cid e \<and> mr_total r = total_size e \<and> mr_files r = map strip_src (files e))"
    by (rule handle_map_answers [OF ref.multiformats_axioms wf(1) _ s(2-4)])
       (use len wf s(1) in \<open>simp_all add: MaxFrame_def fresh_conn_def\<close>)
  then show ?thesis
    using hex_commit_simps s(1)
    by (auto simp: seed_get fresh_conn_def strip_entry_def seed_entry_def sample_entry_def strip_src_def)
qed

text \<open>A filestore with one block, asked for it and for another CID.\<close>

definition one_block :: "unit fstoreops" where
  "one_block = \<lparr>fs_get = (\<lambda>_ _ c. if c = ''abx'' then Inr ''data'' else Inl (Sentinel ErrNotFound)),
     fs_has = (\<lambda>_ c. Inr (c = ''abx'')), fs_get_size = (\<lambda>_ _ _. Inr 4), fs_put = (\<lambda>s _ _. (Inr (), s)),
     fs_put_ref = (\<lambda>s _ _ _ _. (Inr (), s)), fs_delete = (\<lambda>s _. (Inr (), s))\<rparr>"

definition block_stream :: "bytes \<Rightarrow> stream" where
  "block_stream input = \<lparr>st_conn = fresh_conn input, st_limited = False, st_reset = False, st_closed = False\<rparr>"

definition empty_os :: os where
  "empty_os = \<lparr>nodes = [], cwd = [], ticks = 0, faults = (\<lambda>_. None), rands = (\<lambda>_. ''x''),
     mtimes = (\<lambda>_ _. 0), partials = (\<lambda>_. 0)\<rparr>"

theorem block_exchange_witness:
  "fst (fetch ref_cids (fresh_conn (wr_buf (st_conn (handle_blocks ref_cids one_block False () empty_os
      (block_stream (request_frame ref_cids [''abx'', ''aby''])))))) [''abx'', ''aby''])
   = Inr [Some ''data'', None]"
proof -
  have len: "length (json_print (enc_block_request (map (cid_string ref_cids) [''abx'', ''aby'']))) < 1000"
    by code_simp
  have ans: "block_answer one_block () empty_os ''abx'' = Some ''data''" "block_answer one_block () empty_os ''aby'' = None"
    by (simp_all add: block_answer_def one_block_def)
  have "valid_utf8 (cid_string ref_cids c)" if "c \<in> {''abx'', ''aby''}" for c
    using that by (auto simp: ref_cids_def hex_digit_def intro!: ascii_utf8)
  moreover have "cid_decode ref_cids (cid_string ref_cids c) = Inr c" if "c \<in> {''abx'', ''aby''}" for c
    by (rule ref_decode_string)
  ultimately have good: "good_batch ref_cids one_block () empty_os [''abx'', ''aby'']"
    using len by (auto simp: good_batch_def maxBlockBatch_def MaxFrame_def answerable_def one_block_def is_not_found_def)
  show ?thesis
    using block_exchange [of ref_cids one_block "()" empty_os "[]" "[''abx'', ''aby'']" "[]"
      "block_stream (request_frame ref_cids [''abx'', ''aby''])" False
      "fresh_conn (wr_buf (st_conn (handle_blocks ref_cids one_block False () empty_os
        (block_stream (request_frame ref_cids [''abx'', ''aby''])))))"] good
    by (simp add: ans block_stream_def fresh_conn_def relayed_def)
qed

end
