(* ===== verification/PullFile.thy ===== *)
theory PullFile
  imports Serve HfSnapshot
begin

text \<open>
  The transfer part of \<open>internal/pull/pull.go\<close>: the read-through block store, the traversal of a
  peer's DAG, and the reconstruction of files. The state \<open>xst\<close> of a transfer holds the database, the
  operating system, the block stream to the peer, the progress counter and the events sent. What
  boxo and go-block-format do is the argument \<open>X\<close>: the filestore, the main block store's \<open>Put\<close>,
  \<open>NewBlockWithCid\<close>, the decoding of a block into a node, the links of a node, and the lookup in a
  directory node, which may load further nodes through the DAG service and so takes it as an
  argument.
\<close>

section \<open>State and libraries\<close>

record pevent =
  pe_type :: string
  pe_msg :: msg
  pe_bytes :: int
  pe_total :: int

definition progress :: "msg \<Rightarrow> pevent" where
  "progress m = \<lparr>pe_type = ''progress'', pe_msg = m, pe_bytes = 0, pe_total = 0\<rparr>"

record 's xst =
  x_db :: 's
  x_os :: os
  x_conn :: conn
  x_done :: int
  x_events :: "pevent list"

definition emit :: "pevent \<Rightarrow> 's xst \<Rightarrow> 's xst" where
  "emit e x = x\<lparr>x_events := x_events x @ [e]\<rparr>"

record ('s, 'n) pulllib =
  cids :: cidlib
  fstore :: "'s fstoreops"
  main_put :: "'s \<Rightarrow> cid \<Rightarrow> bytes \<Rightarrow> unit res \<times> 's"
  new_block :: "bytes \<Rightarrow> cid \<Rightarrow> unit res"
  wrap_raw :: "cid \<Rightarrow> bytes \<Rightarrow> unit res"
  decode_node :: "cid \<Rightarrow> bytes \<Rightarrow> 'n res"
  node_links :: "'n \<Rightarrow> cid list"
  dir_open :: "'n \<Rightarrow> unit res"
  dir_find :: "(cid \<Rightarrow> 's xst \<Rightarrow> 'n res \<times> 's xst) \<Rightarrow> 'n \<Rightarrow> string \<Rightarrow> 's xst \<Rightarrow> cid res \<times> 's xst"
  sha256 :: "bytes \<Rightarrow> bytes"

definition BatchSize :: nat where "BatchSize = 64"
definition maxFileChunks :: nat where "maxFileChunks = 2 ^ 20"

definition fetch_x :: "('s, 'n) pulllib \<Rightarrow> cid list \<Rightarrow> 's xst \<Rightarrow> bytes option list res \<times> 's xst" where
  "fetch_x X cs x = (case fetch (cids X) (x_conn x) cs of (r, c1) \<Rightarrow> (r, x\<lparr>x_conn := c1\<rparr>))"

section \<open>The read-through block store\<close>

definition rt_get :: "('s, 'n) pulllib \<Rightarrow> cid \<Rightarrow> 's xst \<Rightarrow> bytes res \<times> 's xst" where
  "rt_get X c x =
     (case fs_get (fstore X) (x_db x) (x_os x) c of
        Inr d \<Rightarrow> (Inr d, x)
      | Inl _ \<Rightarrow>
          (case fetch_x X [c] x of
             (Inl e, x1) \<Rightarrow> (Inl e, x1)
           | (Inr out, x1) \<Rightarrow>
               (case hd out of
                  None \<Rightarrow> (Inl (Sentinel ErrNotFound), x1)
                | Some d \<Rightarrow>
                    (case new_block X d c of
                       Inl e \<Rightarrow> (Inl (Wrapf ''block %s failed integrity check: %w''
                                       [AStr (cid_string (cids X) c)] e), x1)
                     | Inr _ \<Rightarrow>
                         if cid_type (cids X) c \<noteq> Raw
                         then (Inr d, x1\<lparr>x_db := snd (fs_put (fstore X) (x_db x1) c d)\<rparr>)
                         else (Inr d, x1)))))"

definition rt_get_size :: "('s, 'n) pulllib \<Rightarrow> cid \<Rightarrow> 's xst \<Rightarrow> int res \<times> 's xst" where
  "rt_get_size X c x =
     (case fs_get_size (fstore X) (x_db x) (x_os x) c of
        Inr n \<Rightarrow> (Inr n, x)
      | Inl _ \<Rightarrow>
          (case rt_get X c x of (Inl e, x1) \<Rightarrow> (Inl e, x1) | (Inr d, x1) \<Rightarrow> (Inr (int (length d)), x1)))"

text \<open>\<open>merkledag.NewDAGService(bserv.New(rt, nil)).Get\<close>: the block, decoded.\<close>

definition dag_get :: "('s, 'n) pulllib \<Rightarrow> cid \<Rightarrow> 's xst \<Rightarrow> 'n res \<times> 's xst" where
  "dag_get X c x =
     (case rt_get X c x of
        (Inl e, x1) \<Rightarrow> (Inl e, x1)
      | (Inr d, x1) \<Rightarrow> (decode_node X c d, x1))"

section \<open>Locating a file\<close>

fun find_parts :: "('s, 'n) pulllib \<Rightarrow> cid \<Rightarrow> string list \<Rightarrow> 's xst \<Rightarrow> cid res \<times> 's xst" where
  "find_parts X cur [] x = (Inr cur, x)"
| "find_parts X cur (part # parts) x =
     (case dag_get X cur x of
        (Inl e, x1) \<Rightarrow> (Inl e, x1)
      | (Inr nd, x1) \<Rightarrow>
          (case dir_open X nd of
             Inl _ \<Rightarrow> (Inl (Errorf ''parent of %s is not a directory'' [AStr part]), x1)
           | Inr _ \<Rightarrow>
               (case dir_find X (dag_get X) nd part x1 of
                  (Inl e, x2) \<Rightarrow> (Inl (Wrapf ''find %s: %w'' [AStr part] e), x2)
                | (Inr child, x2) \<Rightarrow> find_parts X child parts x2)))"

definition find_node :: "('s, 'n) pulllib \<Rightarrow> cid \<Rightarrow> string \<Rightarrow> 's xst \<Rightarrow> cid res \<times> 's xst" where
  "find_node X root rel x = find_parts X root (split_on (CHR ''/'') (trim rel ''/'')) x"

section \<open>Enumerating the chunks\<close>

text \<open>
  The recursion follows whatever graph the peer sends, so it has a depth bound and answers \<open>None\<close>
  when it is too small.
\<close>

fun collect_leaves ::
  "nat \<Rightarrow> ('s, 'n) pulllib \<Rightarrow> cid \<Rightarrow> cid list \<Rightarrow> 's xst \<Rightarrow> (cid list res \<times> 's xst) option"
  and collect_links ::
  "nat \<Rightarrow> ('s, 'n) pulllib \<Rightarrow> cid list \<Rightarrow> cid list \<Rightarrow> 's xst \<Rightarrow> (cid list res \<times> 's xst) option" where
  "collect_leaves 0 X c out x = None"
| "collect_leaves (Suc n) X c out x =
     (if cid_type (cids X) c = Raw
      then Some (if length out \<ge> maxFileChunks
                 then Inl (Errorf ''chunk count exceeds %d (cid %s)''
                            [AInt (int maxFileChunks), AStr (cid_string (cids X) c)])
                 else Inr (out @ [c]), x)
      else case dag_get X c x of
             (Inl e, x1) \<Rightarrow> Some (Inl e, x1)
           | (Inr nd, x1) \<Rightarrow> collect_links n X (node_links X nd) out x1)"
| "collect_links n X [] out x = Some (Inr out, x)"
| "collect_links n X (l # ls) out x =
     (case collect_leaves n X l out x of
        None \<Rightarrow> None
      | Some (Inl e, x1) \<Rightarrow> Some (Inl e, x1)
      | Some (Inr out1, x1) \<Rightarrow> collect_links n X ls out1 x1)"

section \<open>Reconstructing a file\<close>

text \<open>The local variables of the download loop: the transfer, the bytes hashed so far, the bytes
  written, the registered references.\<close>

record 's fx =
  fx_x :: "'s xst"
  fx_hashed :: bytes
  fx_written :: int
  fx_registered :: "cid list"

abbreviation fx_os :: "'s fx \<Rightarrow> os" where "fx_os s \<equiv> x_os (fx_x s)"

definition put_chunk :: "('s, 'n) pulllib \<Rightarrow> string \<Rightarrow> path \<Rightarrow> cid \<Rightarrow> bytes \<Rightarrow> 's fx \<Rightarrow> unit res \<times> 's fx" where
  "put_chunk X blob tf c d s =
     (case new_block X d c of
        Inl e \<Rightarrow> (Inl (Wrapf ''chunk %s failed integrity check: %w'' [AStr (cid_string (cids X) c)] e), s)
      | Inr _ \<Rightarrow>
          (case os_write (fx_os s) tf d of
             (Inl e, os1) \<Rightarrow> (Inl e, s\<lparr>fx_x := (fx_x s)\<lparr>x_os := os1\<rparr>\<rparr>)
           | (Inr _, os1) \<Rightarrow>
               (let s1 = s\<lparr>fx_x := (fx_x s)\<lparr>x_os := os1\<rparr>, fx_hashed := fx_hashed s @ d\<rparr>
                in case register_filestore_ref (cids X) (fstore X) (wrap_raw X) c d blob
                          (fx_written s) (x_db (fx_x s1)) of
                     (Inl e, db1) \<Rightarrow>
                       (Inl (Wrapf ''register filestore ref for %s: %w'' [AStr (cid_string (cids X) c)] e),
                        s1\<lparr>fx_x := (fx_x s1)\<lparr>x_db := db1\<rparr>\<rparr>)
                   | (Inr _, db1) \<Rightarrow>
                       (Inr (), s1\<lparr>fx_x := (fx_x s1)\<lparr>x_db := db1,
                                    x_done := wrap64 (x_done (fx_x s1) + int (length d))\<rparr>,
                                  fx_written := wrap64 (fx_written s1 + int (length d)),
                                  fx_registered := fx_registered s1 @ [c]\<rparr>))))"

fun put_chunks :: "('s, 'n) pulllib \<Rightarrow> string \<Rightarrow> path \<Rightarrow> (cid \<times> bytes option) list \<Rightarrow> 's fx \<Rightarrow> unit res \<times> 's fx" where
  "put_chunks X blob tf [] s = (Inr (), s)"
| "put_chunks X blob tf ((c, None) # r) s =
     (Inl (Errorf ''peer is missing chunk %s'' [AStr (cid_string (cids X) c)]), s)"
| "put_chunks X blob tf ((c, Some d) # r) s =
     bind_st (put_chunk X blob tf c d s) (\<lambda>_ s1. put_chunks X blob tf r s1)"

function put_batches ::
  "('s, 'n) pulllib \<Rightarrow> file_manifest \<Rightarrow> string \<Rightarrow> path \<Rightarrow> int \<Rightarrow> nat \<Rightarrow> cid list \<Rightarrow> 's fx \<Rightarrow> unit res \<times> 's fx" where
  "put_batches X f blob tf tot cnt leaves s =
     (if leaves = [] then (Inr (), s)
      else let batch = take BatchSize leaves in
        case fetch_x X batch (fx_x s) of
          (Inl e, x1) \<Rightarrow> (Inl e, s\<lparr>fx_x := x1\<rparr>)
        | (Inr datas, x1) \<Rightarrow>
            bind_st (put_chunks X blob tf (zip batch datas) (s\<lparr>fx_x := x1\<rparr>)) (\<lambda>_ s1.
              put_batches X f blob tf tot cnt (drop BatchSize leaves)
                (s1\<lparr>fx_x := emit \<lparr>pe_type = ''progress'',
                      pe_msg = Sprintf ''%s: %d/%d chunks'' [AStr (fm_path f),
                        AInt (int (length (fx_registered s1))), AInt (int cnt)],
                      pe_bytes = x_done (fx_x s1), pe_total = tot\<rparr> (fx_x s1)\<rparr>)))"
  by pat_completeness auto
termination
  by (relation "measure (\<lambda>(_, _, _, _, _, _, leaves, _). length leaves)") (auto simp: BatchSize_def)

declare put_batches.simps [simp del]

fun delete_refs :: "'s fstoreops \<Rightarrow> cid list \<Rightarrow> 's \<Rightarrow> 's" where
  "delete_refs F [] db = db"
| "delete_refs F (c # cs) db = delete_refs F cs (snd (fs_delete F db c))"

text \<open>The closure \<open>rollback\<close>: errors of the clean-up are ignored.\<close>

definition rollback :: "('s, 'n) pulllib \<Rightarrow> file_manifest \<Rightarrow> string \<Rightarrow> path \<Rightarrow> goerr \<Rightarrow> 's fx \<Rightarrow> unit res \<times> 's xst" where
  "rollback X f tmp tf cause s =
     (let os1 = snd (os_close (fx_os s) tf);
          os2 = snd (os_remove os1 tmp)
      in (Inl (Wrapf ''%s: %w'' [AStr (fm_path f)] cause),
          (fx_x s)\<lparr>x_os := os2, x_db := delete_refs (fstore X) (fx_registered s) (x_db (fx_x s))\<rparr>))"

text \<open>From the end of the download to the final rename.\<close>

definition finish_file ::
  "('s, 'n) pulllib \<Rightarrow> file_manifest \<Rightarrow> string \<Rightarrow> string \<Rightarrow> path \<Rightarrow> nat \<Rightarrow> 's fx \<Rightarrow> unit res \<times> 's xst" where
  "finish_file X f blob tmp tf perm s =
     (case os_close (fx_os s) tf of
        (Inl e, os1) \<Rightarrow> rollback X f tmp tf e (s\<lparr>fx_x := (fx_x s)\<lparr>x_os := os1\<rparr>\<rparr>)
      | (Inr _, os1) \<Rightarrow>
          (let s1 = s\<lparr>fx_x := (fx_x s)\<lparr>x_os := os1\<rparr>\<rparr>;
               digest = hex_encode (sha256 X (fx_hashed s1))
           in if digest \<noteq> fm_sha256 f
              then rollback X f tmp tf (Errorf ''sha256 mismatch: got %s want %s''
                     [AStr digest, AStr (fm_sha256 f)]) s1
              else if fx_written s1 \<noteq> fm_size f
              then rollback X f tmp tf (Errorf ''size mismatch: got %d want %d''
                     [AInt (fx_written s1), AInt (fm_size f)]) s1
              else (case os_rename os1 tmp blob of
                      (Inl e, os2) \<Rightarrow> rollback X f tmp tf e (s1\<lparr>fx_x := (fx_x s1)\<lparr>x_os := os2\<rparr>\<rparr>)
                    | (Inr _, os2) \<Rightarrow>
                        (case os_chmod os2 blob perm of
                           (Inl e, os3) \<Rightarrow> rollback X f tmp tf e (s1\<lparr>fx_x := (fx_x s1)\<lparr>x_os := os3\<rparr>\<rparr>)
                         | (Inr _, os3) \<Rightarrow> (Inr (), (fx_x s1)\<lparr>x_os := os3\<rparr>)))))"

definition download_file ::
  "('s, 'n) pulllib \<Rightarrow> file_manifest \<Rightarrow> string \<Rightarrow> nat \<Rightarrow> int \<Rightarrow> cid list \<Rightarrow> 's xst \<Rightarrow> unit res \<times> 's xst" where
  "download_file X f blob perm tot leaves x =
     (case rand_suffix (x_os x) of
        (sfx, os0) \<Rightarrow>
          (let tmp = blob @ ''.part-'' @ sfx
           in case os_create os0 tmp 438 of
                (Inl e, os1) \<Rightarrow> (Inl e, x\<lparr>x_os := os1\<rparr>)
              | (Inr tf, os1) \<Rightarrow>
                  (case put_batches X f blob tf tot (length leaves) leaves
                          \<lparr>fx_x = x\<lparr>x_os := os1\<rparr>, fx_hashed = [], fx_written = 0, fx_registered = []\<rparr> of
                     (Inl e, s1) \<Rightarrow> rollback X f tmp tf e s1
                   | (Inr _, s1) \<Rightarrow> finish_file X f blob tmp tf perm s1)))"

text \<open>\<open>hashFile\<close> of this package.\<close>

definition file_digest :: "(bytes \<Rightarrow> bytes) \<Rightarrow> string \<Rightarrow> os \<Rightarrow> string res \<times> os" where
  "file_digest sha p os =
     (case os_readfile os p of
        (Inl e, os1) \<Rightarrow> (Inl e, os1)
      | (Inr d, os1) \<Rightarrow> (Inr (hex_encode (sha d)), os1))"

text \<open>Whether the blob is already there with the expected size and content.\<close>

definition blob_cached :: "(bytes \<Rightarrow> bytes) \<Rightarrow> file_manifest \<Rightarrow> string \<Rightarrow> os \<Rightarrow> bool \<times> os" where
  "blob_cached sha f blob os =
     (case os_stat os blob of
        (Inl _, os1) \<Rightarrow> (False, os1)
      | (Inr st, os1) \<Rightarrow>
          if node_size (fi_node st) \<noteq> fm_size f then (False, os1)
          else (case file_digest sha blob os1 of
                  (Inl _, os2) \<Rightarrow> (False, os2)
                | (Inr dg, os2) \<Rightarrow> (dg = fm_sha256 f, os2)))"

text \<open>The branch for an empty file.\<close>

definition empty_file ::
  "('s, 'n) pulllib \<Rightarrow> file_manifest \<Rightarrow> string \<Rightarrow> nat \<Rightarrow> int \<Rightarrow> cid \<Rightarrow> 's xst \<Rightarrow> unit res \<times> 's xst" where
  "empty_file X f blob perm tot c x =
     (case os_create (x_os x) blob perm of
        (Inl e, os1) \<Rightarrow> (Inl (Wrapf ''create empty blob for %s: %w'' [AStr (fm_path f)] e), x\<lparr>x_os := os1\<rparr>)
      | (Inr tf, os1) \<Rightarrow>
          (case os_close os1 tf of
             (Inl e, os2) \<Rightarrow> (Inl (Wrapf ''close empty blob for %s: %w'' [AStr (fm_path f)] e), x\<lparr>x_os := os2\<rparr>)
           | (Inr _, os2) \<Rightarrow>
               (case fetch_x X [c] (x\<lparr>x_os := os2\<rparr>) of
                  (Inl e, x1) \<Rightarrow> (Inl (Wrapf ''fetch empty leaf for %s: %w'' [AStr (fm_path f)] e), x1)
                | (Inr datas, x1) \<Rightarrow>
                    (case datas of
                       [Some d] \<Rightarrow>
                         (case new_block X d c of
                            Inl e \<Rightarrow> (Inl (Wrapf ''empty leaf %s failed integrity check: %w''
                                            [AStr (cid_string (cids X) c)] e), x1)
                          | Inr _ \<Rightarrow>
                              if hex_encode (sha256 X d) \<noteq> fm_sha256 f
                              then (Inl (Errorf ''empty blob for %s: sha256 mismatch (content hashes to %x)''
                                          [AStr (fm_path f), AStr (sha256 X d)]), x1)
                              else (case main_put X (x_db x1) c d of
                                      (Inl e, db1) \<Rightarrow>
                                        (Inl (Wrapf ''store empty leaf for %s: %w'' [AStr (fm_path f)] e),
                                         x1\<lparr>x_db := db1\<rparr>)
                                    | (Inr _, db1) \<Rightarrow>
                                        (let x2 = x1\<lparr>x_db := db1, x_done := wrap64 (x_done x1 + fm_size f)\<rparr>
                                         in (Inr (), emit \<lparr>pe_type = ''progress'',
                                              pe_msg = Sprintf ''%s: empty leaf stored'' [AStr (fm_path f)],
                                              pe_bytes = x_done x2, pe_total = tot\<rparr> x2))))
                     | _ \<Rightarrow> (Inl (Errorf ''peer is missing the empty leaf %s for %s''
                                   [AStr (cid_string (cids X) c), AStr (fm_path f)]), x1)))))"

definition file_perm :: "file_manifest \<Rightarrow> nat" where
  "file_perm f = (let p = nat (fm_mode f mod 512) in if p = 0 then 420 else p)"

definition reconstruct_file ::
  "nat \<Rightarrow> ('s, 'n) pulllib \<Rightarrow> paths \<Rightarrow> file_manifest \<Rightarrow> cid \<Rightarrow> int \<Rightarrow> 's xst \<Rightarrow> (unit res \<times> 's xst) option" where
  "reconstruct_file n X p f c tot x =
     (if fm_sha256 f = [] then Some (Inl (Errorf ''peer sent no sha256 for %s'' [AStr (fm_path f)]), x)
      else let blob = blob_path p (fm_blob f); perm = file_perm f in
        case blob_cached (sha256 X) f blob (x_os x) of
          (True, os1) \<Rightarrow>
            (let x1 = x\<lparr>x_os := os1, x_done := wrap64 (x_done x + fm_size f)\<rparr>
             in Some (Inr (), emit \<lparr>pe_type = ''progress'', pe_msg = Sprintf ''cached %s'' [AStr (fm_path f)],
                  pe_bytes = x_done x1, pe_total = tot\<rparr> x1))
        | (False, os1) \<Rightarrow>
            (case os_mkdir_all os1 (p_blobs p) of
               (Inl e, os2) \<Rightarrow> Some (Inl e, x\<lparr>x_os := os2\<rparr>)
             | (Inr _, os2) \<Rightarrow>
                 (let x2 = x\<lparr>x_os := os2\<rparr>
                  in if fm_size f = 0 then Some (empty_file X f blob perm tot c x2)
                     else case collect_leaves n X c [] x2 of
                            None \<Rightarrow> None
                          | Some (Inl e, x3) \<Rightarrow>
                              Some (Inl (Wrapf ''enumerate chunks of %s: %w'' [AStr (fm_path f)] e), x3)
                          | Some (Inr leaves, x3) \<Rightarrow>
                              if leaves = []
                              then Some (Inl (Errorf ''no chunks found for %s'' [AStr (fm_path f)]), x3)
                              else Some (download_file X f blob perm tot leaves x3))))"

section \<open>Reconstructing a revision\<close>

fun reconstruct_files ::
  "nat \<Rightarrow> ('s, 'n) pulllib \<Rightarrow> paths \<Rightarrow> cid \<Rightarrow> int \<Rightarrow> file_manifest list \<Rightarrow> 's xst \<Rightarrow> (unit res \<times> 's xst) option" where
  "reconstruct_files n X p actual tot [] x = Some (Inr (), x)"
| "reconstruct_files n X p actual tot (f # fs) x =
     (case find_node X actual (fm_path f) x of
        (Inl e, x1) \<Rightarrow> Some (Inl (Wrapf ''locate %s in %s: %w''
                              [AStr (fm_path f), AStr (cid_string (cids X) actual)] e), x1)
      | (Inr c, x1) \<Rightarrow>
          (case reconstruct_file n X p f c tot x1 of
             None \<Rightarrow> None
           | Some (Inl e, x2) \<Rightarrow> Some (Inl e, x2)
           | Some (Inr _, x2) \<Rightarrow> reconstruct_files n X p actual tot fs x2))"

text \<open>\<open>reconstruct\<close>; the outcome of opening the block stream is the argument \<open>opened\<close>.\<close>

definition new_block_client :: "string \<Rightarrow> conn res \<Rightarrow> conn res" where
  "new_block_client peer opened =
     (case opened of
        Inl e \<Rightarrow> Inl (Wrapf ''open block stream to %s: %w'' [AStr peer] e)
      | Inr c \<Rightarrow> Inr c)"

definition reconstruct ::
  "nat \<Rightarrow> ('s, 'n) pulllib \<Rightarrow> paths \<Rightarrow> string \<Rightarrow> conn res \<Rightarrow> map_response \<Rightarrow> 's xst \<Rightarrow> (unit res \<times> 's xst) option" where
  "reconstruct n X p peer opened resp x =
     (case cid_decode (cids X) (mr_actual resp) of
        Inl e \<Rightarrow> Some (Inl e, x)
      | Inr actual \<Rightarrow>
          (case new_block_client peer opened of
             Inl e \<Rightarrow> Some (Inl e, x)
           | Inr c \<Rightarrow>
               (case dag_get X actual (x\<lparr>x_conn := c\<rparr>) of
                  (Inl e, x1) \<Rightarrow>
                    Some (Inl (Wrapf ''fetch root %s: %w'' [AStr (cid_string (cids X) actual)] e), x1)
                | (Inr _, x1) \<Rightarrow> reconstruct_files n X p actual (mr_total resp) (mr_files resp) x1)))"

section \<open>What the network parts leave alone\<close>

lemma fetch_x_os: "fetch_x X cs x = (r, x') \<Longrightarrow> x_os x' = x_os x"
  by (auto simp: fetch_x_def split: prod.splits)

lemma rt_get_os: "rt_get X c x = (r, x') \<Longrightarrow> x_os x' = x_os x"
  by (auto simp: rt_get_def split: sum.splits prod.splits option.splits if_splits dest!: fetch_x_os)

lemma dag_get_os: "dag_get X c x = (r, x') \<Longrightarrow> x_os x' = x_os x"
  by (auto simp: dag_get_def split: sum.splits prod.splits dest: rt_get_os)

lemma collect_os:
  "collect_leaves n X c out x = Some (r, x') \<Longrightarrow> x_os x' = x_os x"
  "collect_links n X ls out x = Some (r, x') \<Longrightarrow> x_os x' = x_os x"
proof (induction n X c out x and n X ls out x arbitrary: r x' and r x'
    rule: collect_leaves_collect_links.induct)
  case (2 n X c out x)
  then show ?case by (auto split: if_splits prod.splits sum.splits dest: dag_get_os)
next
  case (4 n X l ls out x)
  obtain r1 x1 where a: "collect_leaves n X l out x = Some (r1, x1)"
    using "4.prems" by (cases "collect_leaves n X l out x") auto
  show ?case
  proof (cases r1)
    case (Inl e)
    with a "4.prems" "4.IH"(1) [OF a] show ?thesis by simp
  next
    case (Inr out1)
    with a "4.prems" have "collect_links n X ls out1 x1 = Some (r, x')" by simp
    from "4.IH"(2) [OF a refl Inr this] "4.IH"(1) [OF a] show ?thesis by simp
  qed
qed auto

text \<open>Only raw leaves are collected, and never more than \<open>maxFileChunks\<close>.\<close>

lemma collect_bound:
  "collect_leaves n X c out x = Some (Inr out', x') \<Longrightarrow> length out \<le> maxFileChunks \<Longrightarrow>
     length out' \<le> maxFileChunks \<and> (\<exists>ls. out' = out @ ls \<and> list_all (\<lambda>l. cid_type (cids X) l = Raw) ls)"
  "collect_links n X ls out x = Some (Inr out', x') \<Longrightarrow> length out \<le> maxFileChunks \<Longrightarrow>
     length out' \<le> maxFileChunks \<and> (\<exists>ls. out' = out @ ls \<and> list_all (\<lambda>l. cid_type (cids X) l = Raw) ls)"
proof (induction n X c out x and n X ls out x arbitrary: out' x' and out' x'
    rule: collect_leaves_collect_links.induct)
  case (2 n X c out x)
  then show ?case by (auto split: if_splits prod.splits sum.splits)
next
  case (4 n X l ls out x)
  from "4.prems"(1) obtain out1 x1 where
    a: "collect_leaves n X l out x = Some (Inr out1, x1)" "collect_links n X ls out1 x1 = Some (Inr out', x')"
    by (auto split: option.splits prod.splits sum.splits)
  from "4.IH"(1) [OF a(1) "4.prems"(2)] obtain l1 where
    1: "length out1 \<le> maxFileChunks" "out1 = out @ l1" "list_all (\<lambda>l. cid_type (cids X) l = Raw) l1" by blast
  from "4.IH"(2) [OF a(1) refl refl a(2) 1(1)] 1 show ?case by fastforce
qed auto

lemma read_blocks_bound:
  "read_blocks n c = (Inr ds, c') \<Longrightarrow> length ds = n \<and> (\<forall>d. Some d \<in> set ds \<longrightarrow> length d \<le> MaxFrame)"
proof (induction n arbitrary: c ds)
  case (Suc n)
  from Suc.prems obtain b d c1 ds1 where f: "read_frame c = (Inr (b # d), c1)"
    and r: "read_blocks n c1 = (Inr ds1, c')" and ds: "ds = (if b \<noteq> BlockNotFound then Some d else None) # ds1"
    by (auto split: prod.splits sum.splits list.splits)
  have "length (b # d) \<le> MaxFrame" by (rule read_frame_ok_bound [OF f])
  with Suc.IH [OF r] ds show ?case by auto
qed simp

lemma fetch_x_bound:
  "fetch_x X cs x = (Inr ds, x') \<Longrightarrow> length ds = length cs \<and> (\<forall>d. Some d \<in> set ds \<longrightarrow> length d \<le> MaxFrame)"
  by (auto simp: fetch_x_def fetch_def split: if_splits prod.splits sum.splits dest: read_blocks_bound)

section \<open>The temporary file during a download\<close>

text \<open>
  \<open>os\<close> is the state before the temporary file \<open>q\<close> was made: nothing else has changed, and while all
  goes well the file holds exactly the bytes that were hashed.
\<close>

definition writing :: "os \<Rightarrow> path \<Rightarrow> nat \<Rightarrow> 's fx \<Rightarrow> bool" where
  "writing os q m s = (\<exists>w. fs_upd os q (Some (FFile w m)) (fx_os s))"

definition in_step :: "os \<Rightarrow> path \<Rightarrow> nat \<Rightarrow> 's fx \<Rightarrow> bool" where
  "in_step os q m s = (fs_upd os q (Some (FFile (fx_hashed s) m)) (fx_os s)
     \<and> fx_written s = wrap64 (int (length (fx_hashed s))))"

lemma in_step_writing: "in_step os q m s \<Longrightarrow> writing os q m s"
  by (auto simp: in_step_def writing_def)

lemma wrap64_add: "wrap64 (wrap64 a + b) = wrap64 (a + b)"
  by (simp add: wrap64_def mod_simps algebra_simps)

lemma put_chunk_effect:
  assumes "put_chunk X blob q c d s = (r, s')" "in_step os q m s" "q \<noteq> []"
  shows "writing os q m s' \<and> (ok r \<longrightarrow> in_step os q m s' \<and> fx_hashed s' = fx_hashed s @ d)"
proof (cases "new_block X d c")
  case (Inl e)
  then show ?thesis using assms by (auto simp: put_chunk_def in_step_writing)
next
  case (Inr u)
  obtain r1 os1 where w: "os_write (fx_os s) q d = (r1, os1)" by fastforce
  have l: "lookup (fx_os s) q = Some (FFile (fx_hashed s) m)" using assms(2) by (simp add: in_step_def fs_upd_def)
  from os_write_upd [OF w l assms(3)] obtain v where
    v: "fs_upd (fx_os s) q (Some (FFile (fx_hashed s @ v) m)) os1" "ok r1 \<longrightarrow> v = d" by blast
  have u: "fs_upd os q (Some (FFile (fx_hashed s @ v) m)) os1"
    using assms(2) fs_upd_upd [OF _ v(1), of os] by (auto simp: in_step_def)
  show ?thesis
  proof (cases r1)
    case err: (Inl e)
    then show ?thesis using assms(1) Inr w u by (auto simp: put_chunk_def writing_def)
  next
    case fine: (Inr u1)
    obtain r2 db1 where reg: "register_filestore_ref (cids X) (fstore X) (wrap_raw X) c d blob
        (fx_written s) (x_db (fx_x s)) = (r2, db1)" by fastforce
    from fine v(2) u have u: "fs_upd os q (Some (FFile (fx_hashed s @ d) m)) os1" by simp
    from assms(2) have "wrap64 (fx_written s + int (length d)) = wrap64 (int (length (fx_hashed s @ d)))"
      by (simp add: in_step_def wrap64_add)
    with assms(1) Inr w fine reg u show ?thesis
      by (cases r2) (auto simp: put_chunk_def Let_def writing_def in_step_def)
  qed
qed

lemma put_chunks_effect:
  assumes "put_chunks X blob q cds s = (r, s')" "in_step os q m s" "q \<noteq> []"
    and "\<forall>(c, a) \<in> set cds. \<forall>d. a = Some d \<longrightarrow> length d \<le> MaxFrame"
  shows "writing os q m s' \<and> (ok r \<longrightarrow> in_step os q m s'
    \<and> length (fx_hashed s') \<le> length (fx_hashed s) + length cds * MaxFrame)"
  using assms
proof (induction X blob q cds s rule: put_chunks.induct)
  case (3 X blob q c d rest s)
  obtain r1 s1 where p: "put_chunk X blob q c d s = (r1, s1)" by fastforce
  note e = put_chunk_effect [OF p "3.prems"(2,3)]
  show ?case
  proof (cases r1)
    case (Inl x)
    then show ?thesis using "3.prems"(1) p e by auto
  next
    case (Inr u)
    with "3.prems" p have "put_chunks X blob q rest s1 = (r, s')" by simp
    from "3.IH" [OF this] "3.prems"(3,4) e Inr show ?thesis by auto
  qed
qed (auto simp: in_step_writing)

lemma zip_bound:
  "\<forall>d. Some d \<in> set ds \<longrightarrow> length d \<le> MaxFrame \<Longrightarrow>
     \<forall>(c, a) \<in> set (zip cs ds). \<forall>d. a = Some d \<longrightarrow> length d \<le> MaxFrame"
  by (auto dest: set_zip_rightD)

lemma emit_os [simp]: "x_os (emit e x) = x_os x"
  by (simp add: emit_def)

lemma in_step_x:
  "x_os x = fx_os s \<Longrightarrow> in_step os q m (s\<lparr>fx_x := x\<rparr>) = in_step os q m s"
  by (simp add: in_step_def)

lemma put_batches_effect:
  assumes "put_batches X f blob q tot cnt leaves s = (r, s')" "in_step os q m s" "q \<noteq> []"
  shows "writing os q m s' \<and> (ok r \<longrightarrow> in_step os q m s'
    \<and> length (fx_hashed s') \<le> length (fx_hashed s) + length leaves * MaxFrame)"
  using assms
proof (induction leaves arbitrary: s rule: length_induct)
  case (1 leaves)
  show ?case
  proof (cases "leaves = []")
    case True
    with "1.prems" show ?thesis by (auto simp: put_batches.simps [of X f blob q tot cnt "[]"] in_step_writing)
  next
    case False
    let ?b = "take BatchSize leaves"
    obtain r1 x1 where fe: "fetch_x X ?b (fx_x s) = (r1, x1)" by fastforce
    have os1: "x_os x1 = fx_os s" using fetch_x_os [OF fe] .
    show ?thesis
    proof (cases r1)
      case (Inl e)
      with "1.prems" False fe have "r = Inl e" "s' = s\<lparr>fx_x := x1\<rparr>"
        by (simp_all add: put_batches.simps [of X f blob q tot cnt leaves])
      with "1.prems"(2) os1 show ?thesis by (auto simp: in_step_writing in_step_x)
    next
      case (Inr ds)
      obtain r2 s2 where pc: "put_chunks X blob q (zip ?b ds) (s\<lparr>fx_x := x1\<rparr>) = (r2, s2)" by fastforce
      have b: "length ds = length ?b" "\<forall>d. Some d \<in> set ds \<longrightarrow> length d \<le> MaxFrame"
        using fetch_x_bound [of X ?b "fx_x s" ds x1] fe Inr by auto
      have ins: "in_step os q m (s\<lparr>fx_x := x1\<rparr>)" using "1.prems"(2) os1 by (simp add: in_step_x)
      note e = put_chunks_effect [OF pc ins "1.prems"(3) zip_bound [OF b(2)]]
      show ?thesis
      proof (cases r2)
        case err: (Inl e2)
        with "1.prems"(1) False fe Inr pc have "r = Inl e2" "s' = s2"
          by (simp_all add: put_batches.simps [of X f blob q tot cnt leaves])
        with e show ?thesis by simp
      next
        case fine: (Inr u)
        let ?s3 = "s2\<lparr>fx_x := emit \<lparr>pe_type = ''progress'',
          pe_msg = Sprintf ''%s: %d/%d chunks'' [AStr (fm_path f), AInt (int (length (fx_registered s2))), AInt (int cnt)],
          pe_bytes = x_done (fx_x s2), pe_total = tot\<rparr> (fx_x s2)\<rparr>"
        from "1.prems"(1) False fe Inr pc fine
        have run: "put_batches X f blob q tot cnt (drop BatchSize leaves) ?s3 = (r, s')"
          by (simp add: put_batches.simps [of X f blob q tot cnt leaves])
        have shorter: "length (drop BatchSize leaves) < length leaves"
          using False by (simp add: BatchSize_def)
        have "in_step os q m ?s3" using e fine by (simp add: in_step_x)
        note ih = "1.IH" [rule_format, OF shorter run this "1.prems"(3)]
        have "length (zip ?b ds) + length (drop BatchSize leaves) = length leaves" using b(1) by simp
        then have n: "length (zip ?b ds) * MaxFrame + length (drop BatchSize leaves) * MaxFrame
            = length leaves * MaxFrame" by (metis add_mult_distrib)
        have "length (fx_hashed s2) \<le> length (fx_hashed s) + length (zip ?b ds) * MaxFrame"
          using e fine by simp
        moreover have "length (fx_hashed s') \<le> length (fx_hashed s2) + length (drop BatchSize leaves) * MaxFrame"
          if "ok r" using ih that by simp
        ultimately show ?thesis using ih n by linarith
      qed
    qed
  qed
qed

section \<open>The outcome of a download\<close>

lemma os_remove_frame:
  assumes "os_remove os (abs_path (ds @ [a])) = (r, os')" "dir_at os ds" "norm_seg a"
    "lookup os (ds @ [a]) \<noteq> Some FDir"
  shows "\<exists>n. fs_upd os (ds @ [a]) n os' \<and> n \<in> {None, lookup os (ds @ [a])}"
proof (cases "lookup os (ds @ [a]) = None \<or> faults os (ticks os) \<noteq> None")
  case True
  then have "os' = tick os"
    using assms(1) resolve_in_dir [OF assms(2,3), of False]
    by (auto simp: os_remove_def syscall_def at_path_def split: option.splits)
  then show ?thesis by (auto simp: fs_upd_def fun_eq_iff)
next
  case False
  then have "os' = del_node (tick os) (ds @ [a])"
    using assms resolve_in_dir [OF assms(2,3), of False]
    by (auto simp: os_remove_def syscall_def at_path_def split: option.splits if_splits)
  then show ?thesis using fs_fs_upd [OF fs_tick fs_del_node, of "ds @ [a]" os] by auto
qed

lemma os_create_fresh:
  assumes "os_create os (abs_path (ds @ [a])) mode = (r, os')" "dir_at os ds" "norm_seg a"
    "lookup os (ds @ [a]) = None"
  shows "case r of Inl _ \<Rightarrow> same_fs os os'
    | Inr tf \<Rightarrow> tf = ds @ [a] \<and> fs_upd os (ds @ [a]) (Some (FFile [] mode)) os'"
proof (cases "faults os (ticks os)")
  case (Some e)
  then show ?thesis using assms(1) by (auto simp: os_create_def syscall_def)
next
  case None
  then have "r = Inr (ds @ [a])" "os' = set_node (tick os) (ds @ [a]) (FFile [] mode)"
    using assms resolve_in_dir [OF assms(2,3), of True] parent_ok_in_dir [OF assms(2), of a]
    by (auto simp: os_create_def syscall_def)
  then show ?thesis using fs_fs_upd [OF fs_tick fs_set_node, of "ds @ [a]" os] by simp
qed

lemma os_chmod_in_dir:
  assumes "os_chmod os (abs_path (ds @ [a])) mode = (r, os')" "dir_at os ds" "norm_seg a"
    "lookup os (ds @ [a]) = Some (FFile d m)"
  shows "fs_upd os (ds @ [a]) (Some (FFile d (if ok r then mode else m))) os'"
  using assms resolve_in_dir [OF assms(2,3), of True] fs_fs_upd [OF fs_tick fs_set_node, of "ds @ [a]" os]
  by (auto simp: os_chmod_def syscall_def at_path_def fs_upd_def fun_eq_iff split: option.splits)

definition verified :: "('s, 'n) pulllib \<Rightarrow> file_manifest \<Rightarrow> fnode option \<Rightarrow> bool" where
  "verified X f n = (\<exists>d m. n = Some (FFile d m) \<and> hex_encode (sha256 X d) = fm_sha256 f
     \<and> int (length d) = fm_size f)"

text \<open>Only the temporary file and the blob may differ, the blob only by becoming a verified one.\<close>

definition file_outcome :: "('s, 'n) pulllib \<Rightarrow> file_manifest \<Rightarrow> os \<Rightarrow> path \<Rightarrow> path \<Rightarrow> bool \<Rightarrow> os \<Rightarrow> bool" where
  "file_outcome X f os q b success os' =
     (env_eq os os' \<and> (\<forall>p. p \<noteq> q \<longrightarrow> p \<noteq> b \<longrightarrow> lookup os' p = lookup os p)
      \<and> (lookup os' b = lookup os b \<or> verified X f (lookup os' b))
      \<and> (success \<longrightarrow> verified X f (lookup os' b) \<and> lookup os' q = None))"

lemma file_outcome_temp:
  "fs_upd os q n os' \<Longrightarrow> q \<noteq> b \<Longrightarrow> file_outcome X f os q b False os'"
  by (simp add: file_outcome_def fs_upd_def)

lemma rollback_outcome:
  assumes "rollback X f (abs_path (ds @ [t])) q cause s = (r, x')" "dir_at (fx_os s) ds" "norm_seg t"
    "lookup (fx_os s) (ds @ [t]) \<noteq> Some FDir"
  shows "\<not> ok r \<and> (\<exists>n. fs_upd (fx_os s) (ds @ [t]) n (x_os x') \<and> n \<in> {None, lookup (fx_os s) (ds @ [t])})"
proof -
  obtain r1 os1 where c: "os_close (fx_os s) q = (r1, os1)" by fastforce
  obtain r2 os2 where m: "os_remove os1 (abs_path (ds @ [t])) = (r2, os2)" by fastforce
  have fs1: "same_fs (fx_os s) os1" using read_calls_fs(6) [OF c] .
  obtain n where n: "fs_upd os1 (ds @ [t]) n os2" "n \<in> {None, lookup (fx_os s) (ds @ [t])}"
    using os_remove_frame [OF m _ assms(3)] assms(2,4) dir_at_cong [OF fs1] fs1 by (auto simp: same_fs_def)
  have "\<not> ok r" "x_os x' = os2" using assms(1) c m by (auto simp: rollback_def Let_def)
  with fs_fs_upd [OF fs1 n(1)] n(2) show ?thesis by blast
qed

lemma rollback_writing:
  assumes "rollback X f (abs_path (ds @ [t])) q' cause s = (r, x')" "writing os (ds @ [t]) m s"
    "dir_at os ds" "norm_seg t" "lookup os (ds @ [t]) = None" "b \<noteq> ds @ [t]"
  shows "file_outcome X f os (ds @ [t]) b (ok r) (x_os x')"
proof -
  from assms(2) obtain w where w: "fs_upd os (ds @ [t]) (Some (FFile w m)) (fx_os s)" by (auto simp: writing_def)
  have "dir_at (fx_os s) ds" using dir_at_upd [OF w] assms(3,5) by simp
  with rollback_outcome [OF assms(1) _ assms(4)] w obtain n where
    "\<not> ok r" "fs_upd (fx_os s) (ds @ [t]) n (x_os x')" by (auto simp: fs_upd_def)
  with fs_upd_upd [OF w] show ?thesis using assms(6) by (auto intro: file_outcome_temp)
qed

text \<open>The last steps: nothing but a verified file is ever renamed to the blob.\<close>

lemma finish_outcome:
  assumes run: "finish_file X f (abs_path (ds @ [b])) (abs_path (ds @ [t])) (ds @ [t]) perm s = (r, x')"
    and ins: "in_step os (ds @ [t]) m s" and len: "int (length (fx_hashed s)) < 2 ^ 63"
    and d: "dir_at os ds" and nt: "norm_seg t" and nb: "norm_seg b" and tb: "t \<noteq> b"
    and free: "lookup os (ds @ [t]) = None" and nd: "lookup os (ds @ [b]) \<noteq> Some FDir"
  shows "file_outcome X f os (ds @ [t]) (ds @ [b]) (ok r) (x_os x')"
proof -
  let ?q = "ds @ [t]" let ?b = "ds @ [b]"
  obtain r1 os1 where c: "os_close (fx_os s) ?q = (r1, os1)" by fastforce
  let ?s1 = "s\<lparr>fx_x := (fx_x s)\<lparr>x_os := os1\<rparr>\<rparr>"
  have u1: "fs_upd os ?q (Some (FFile (fx_hashed s) m)) os1"
    using fs_upd_fs [OF _ read_calls_fs(6) [OF c]] ins by (simp add: in_step_def)
  have qb: "?b \<noteq> ?q" using tb by simp
  have undo: "file_outcome X f os ?q ?b (ok ro) (x_os xo)"
    if "rollback X f (abs_path ?q) ?q e (s\<lparr>fx_x := (fx_x s)\<lparr>x_os := oo\<rparr>\<rparr>) = (ro, xo)"
      "fs_upd os ?q (Some (FFile (fx_hashed s) m)) oo" for e ro xo oo
    by (rule rollback_writing [OF that(1) _ d nt free qb]) (use that(2) in \<open>auto simp: writing_def\<close>)
  show ?thesis
  proof (cases "ok r1 \<and> hex_encode (sha256 X (fx_hashed s)) = fm_sha256 f \<and> fx_written s = fm_size f")
    case False
    with run c obtain e where "rollback X f (abs_path ?q) ?q e ?s1 = (r, x')"
      by (cases r1) (auto simp: finish_file_def Let_def split: if_splits)
    then show ?thesis by (rule undo [OF _ u1])
  next
    case True
    then have good: "verified X f (Some (FFile (fx_hashed s) k))" for k
      using ins len by (auto simp: verified_def in_step_def wrap64_id)
    have d1: "dir_at os1 ds" using dir_at_upd [OF u1] d free by simp
    obtain r2 os2 where rn: "os_rename os1 (abs_path ?q) (abs_path ?b) = (r2, os2)" by fastforce
    have l1: "lookup os1 ?q = Some (FFile (fx_hashed s) m)" "lookup os1 ?b \<noteq> Some FDir"
      using u1 nd qb by (auto simp: fs_upd_def)
    note rd = os_rename_in_dir [OF rn d1 nt nb tb l1]
    show ?thesis
    proof (cases "ok r2")
      case False
      with run c True rn obtain e where
        rb: "rollback X f (abs_path ?q) ?q e (s\<lparr>fx_x := (fx_x s)\<lparr>x_os := os2\<rparr>\<rparr>) = (r, x')"
        by (cases r1; cases r2) (auto simp: finish_file_def Let_def)
      have "fs_upd os ?q (Some (FFile (fx_hashed s) m)) os2" using fs_upd_fs [OF u1] rd False by simp
      then show ?thesis by (rule undo [OF rb])
    next
      case okr: True
      with rd have l2: "lookup os2 = (lookup os1)(?q := None, ?b := Some (FFile (fx_hashed s) m))" "env_eq os1 os2"
        by simp_all
      have d2: "dir_at os2 ds" using d1 l1 unfolding dir_at_def l2(1) by auto
      have lb: "lookup os2 ?b = Some (FFile (fx_hashed s) m)" by (simp add: l2)
      obtain r3 os3 where ch: "os_chmod os2 (abs_path ?b) perm = (r3, os3)" by fastforce
      note u3 = os_chmod_in_dir [OF ch d2 nb lb]
      have l3: "lookup os3 = (lookup os)(?q := None, ?b := Some (FFile (fx_hashed s) (if ok r3 then perm else m)))"
        "env_eq os os3"
        using u3 l2 u1 qb by (auto simp: fs_upd_def fun_eq_iff env_eq_def)
      have out3: "file_outcome X f os ?q ?b True os3"
        using l3 good tb by (simp add: file_outcome_def)
      show ?thesis
      proof (cases "ok r3")
        case True
        with run c \<open>ok r1 \<and> _\<close> rn okr ch have "r = Inr ()" "x_os x' = os3"
          by (cases r1; cases r2; cases r3; auto simp: finish_file_def Let_def)+
        with out3 show ?thesis by simp
      next
        case False
        with run c \<open>ok r1 \<and> _\<close> rn okr ch obtain e where
          rb: "rollback X f (abs_path ?q) ?q e (s\<lparr>fx_x := (fx_x s)\<lparr>x_os := os3\<rparr>\<rparr>) = (r, x')"
          by (cases r1; cases r2; cases r3) (auto simp: finish_file_def Let_def)
        have d3: "dir_at os3 ds" using dir_at_upd [OF u3] lb d2 by simp
        have q3: "lookup os3 ?q = None" using l3(1) tb by simp
        from rollback_outcome [OF rb _ nt] d3 q3 have "\<not> ok r" "fs_upd os3 ?q None (x_os x')" by auto
        with q3 out3 show ?thesis
          using env_eq_trans by (auto simp: file_outcome_def fs_upd_def)
      qed
    qed
  qed
qed

lemma download_outcome:
  assumes run: "download_file X f (abs_path (ds @ [b])) perm tot leaves x = (r, x')"
    and d: "dir_at (x_os x) ds" and nb: "norm_seg b" and nd: "lookup (x_os x) (ds @ [b]) \<noteq> Some FDir"
    and rnd: "sep \<notin> set (rands (x_os x) (ticks (x_os x)))"
    and free: "lookup (x_os x) (ds @ [b @ ''.part-'' @ rands (x_os x) (ticks (x_os x))]) = None"
    and few: "length leaves \<le> maxFileChunks"
  shows "file_outcome X f (x_os x) (ds @ [b @ ''.part-'' @ rands (x_os x) (ticks (x_os x))]) (ds @ [b]) (ok r) (x_os x')"
proof -
  let ?os = "x_os x" let ?t = "b @ ''.part-'' @ rands ?os (ticks ?os)"
  have nt: "norm_seg ?t" using norm_append [OF nb, of "''.part-'' @ rands ?os (ticks ?os)"] rnd by simp
  obtain r1 os1 where cr: "os_create (tick ?os) (abs_path (ds @ [?t])) 438 = (r1, os1)" by fastforce
  have e: "case r1 of Inl _ \<Rightarrow> same_fs (tick ?os) os1
    | Inr tf \<Rightarrow> tf = ds @ [?t] \<and> fs_upd (tick ?os) (ds @ [?t]) (Some (FFile [] 438)) os1"
    by (rule os_create_fresh [OF cr _ nt]) (use d free dir_at_cong [OF fs_tick] in simp_all)
  show ?thesis
  proof (cases r1)
    case (Inl err)
    with run cr have "r = Inl err" "x_os x' = os1"
      by (auto simp: download_file_def rand_suffix_def Let_def abs_path_extend)
    moreover have "same_fs ?os os1" using e Inl fs_trans [OF fs_tick, of ?os os1] by simp
    ultimately show ?thesis by (simp add: file_outcome_def same_fs_def)
  next
    case (Inr tf)
    with e have tf: "tf = ds @ [?t]" and u: "fs_upd ?os (ds @ [?t]) (Some (FFile [] 438)) os1"
      using fs_fs_upd [OF fs_tick] by auto
    let ?s0 = "\<lparr>fx_x = x\<lparr>x_os := os1\<rparr>, fx_hashed = [], fx_written = 0, fx_registered = []\<rparr>"
    obtain r2 s2 where pb: "put_batches X f (abs_path (ds @ [b])) tf tot (length leaves) leaves ?s0 = (r2, s2)"
      by fastforce
    have "in_step ?os (ds @ [?t]) 438 ?s0" using u by (simp add: in_step_def wrap64_def)
    from put_batches_effect [OF pb [unfolded tf] this]
    have w: "writing ?os (ds @ [?t]) 438 s2"
      and i: "ok r2 \<Longrightarrow> in_step ?os (ds @ [?t]) 438 s2 \<and> length (fx_hashed s2) \<le> length leaves * MaxFrame"
      by auto
    show ?thesis
    proof (cases r2)
      case err: (Inl e2)
      with run cr Inr pb tf have "rollback X f (abs_path (ds @ [?t])) tf e2 s2 = (r, x')"
        by (simp add: download_file_def rand_suffix_def Let_def abs_path_extend)
      from rollback_writing [OF this w d nt free] show ?thesis by simp
    next
      case fine: (Inr v)
      with run cr Inr pb tf have fin: "finish_file X f (abs_path (ds @ [b])) (abs_path (ds @ [?t])) (ds @ [?t]) perm s2 = (r, x')"
        by (simp add: download_file_def rand_suffix_def Let_def abs_path_extend)
      have "length leaves * MaxFrame \<le> maxFileChunks * MaxFrame" using few by simp
      with i fine have "length (fx_hashed s2) \<le> 2 ^ 43"
        by (simp add: maxFileChunks_def MaxFrame_def)
      then have "int (length (fx_hashed s2)) < 2 ^ 63" by simp
      moreover have "in_step ?os (ds @ [?t]) 438 s2" using i fine by simp
      ultimately show ?thesis by (intro finish_outcome [OF fin _ _ d nt nb _ free nd]) simp_all
    qed
  qed
qed

section \<open>Properties\<close>

text \<open>What a path holds when it is opened.\<close>

definition file_content :: "os \<Rightarrow> string \<Rightarrow> bytes option" where
  "file_content os p =
     (case resolve os True p of
        Inl _ \<Rightarrow> None
      | Inr q \<Rightarrow> (case lookup os q of Some (FFile d _) \<Rightarrow> Some d | _ \<Rightarrow> None))"

lemma file_content_cong: "same_fs os os' \<Longrightarrow> file_content os' p = file_content os p"
  unfolding file_content_def by (simp only: resolve_cong) (simp only: same_fs_def)

lemma os_readfile_content: "os_readfile os p = (Inr d, os') \<Longrightarrow> file_content os p = Some d"
  by (auto simp: os_readfile_def syscall_def at_path_def file_content_def resolve_tick
      split: option.splits sum.splits fnode.splits)

lemma os_stat_size:
  "os_stat os p = (Inr st, os') \<Longrightarrow> file_content os p = Some d \<Longrightarrow> node_size (fi_node st) = int (length d)"
  by (auto simp: os_stat_def syscall_def at_path_def file_content_def info_of_def
      split: option.splits sum.splits fnode.splits)

lemma blob_cached_spec:
  assumes "blob_cached sha f blob os = (b, os')"
  shows "same_fs os os'" and "b \<Longrightarrow> \<exists>d. file_content os blob = Some d \<and> hex_encode (sha d) = fm_sha256 f
      \<and> int (length d) = fm_size f"
proof -
  obtain r1 os1 where s: "os_stat os blob = (r1, os1)" by fastforce
  obtain r2 os2 where h: "os_readfile os1 blob = (r2, os2)" by fastforce
  have fs1: "same_fs os os1" and fs2: "same_fs os1 os2"
    using read_calls_fs(1) [OF s] read_calls_fs(4) [OF h] by simp_all
  show "same_fs os os'"
    using assms s h fs1 fs_trans [OF fs1 fs2]
    by (auto simp: blob_cached_def file_digest_def split: sum.splits if_splits)
  assume b
  with assms s h obtain st d where *: "r1 = Inr st" "r2 = Inr d" "node_size (fi_node st) = fm_size f"
      "hex_encode (sha d) = fm_sha256 f"
    by (auto simp: blob_cached_def file_digest_def split: sum.splits if_splits)
  from h * have "file_content os blob = Some d"
    using os_readfile_content file_content_cong [OF fs1] by metis
  with * s os_stat_size show "\<exists>d. file_content os blob = Some d \<and> hex_encode (sha d) = fm_sha256 f
      \<and> int (length d) = fm_size f" by metis
qed

lemma verified_content:
  assumes "verified X f (lookup os (ds @ [b]))" "dir_at os ds" "norm_seg b"
  shows "\<exists>d. file_content os (abs_path (ds @ [b])) = Some d \<and> hex_encode (sha256 X d) = fm_sha256 f
      \<and> int (length d) = fm_size f"
  using assms(1) resolve_in_dir [OF assms(2,3), of True] by (auto simp: verified_def file_content_def)

text \<open>A non-empty file: the blob is left as it was or becomes the verified file.\<close>

lemma reconstruct_nonempty_verified:
  assumes "reconstruct_file n X p f c tot x = Some (r, x')" and "fm_size f \<noteq> 0"
    and "p_blobs p = abs_path ds" "plain (x_os x) ds" "norm_seg (fm_blob f)"
    and "lookup (x_os x) (ds @ [fm_blob f]) \<noteq> Some FDir"
    and "\<And>k. sep \<notin> set (rands (x_os x) k) \<and> lookup (x_os x) (ds @ [fm_blob f @ ''.part-'' @ rands (x_os x) k]) = None"
  shows "(lookup (x_os x') (ds @ [fm_blob f]) = lookup (x_os x) (ds @ [fm_blob f])
        \<or> verified X f (lookup (x_os x') (ds @ [fm_blob f])))
    \<and> (ok r \<longrightarrow> (\<exists>d. file_content (x_os x') (blob_path p (fm_blob f)) = Some d
          \<and> hex_encode (sha256 X d) = fm_sha256 f \<and> int (length d) = fm_size f))
    \<and> (\<forall>q. length ds < length q \<longrightarrow> q \<noteq> ds @ [fm_blob f] \<longrightarrow>
          (\<forall>k. q \<noteq> ds @ [fm_blob f @ ''.part-'' @ rands (x_os x) k]) \<longrightarrow> lookup (x_os x') q = lookup (x_os x) q)"
proof -
  let ?os = "x_os x" let ?b = "ds @ [fm_blob f]"
  have nds: "list_all norm_seg ds" using assms(4) by (simp add: plain_def)
  have blob: "blob_path p (fm_blob f) = abs_path ?b"
    using join_path_seg [OF nds assms(5)] by (simp add: blob_path_def assms(3))
  obtain c1 os1 where bc: "blob_cached (sha256 X) f (abs_path ?b) ?os = (c1, os1)" by fastforce
  note bcs = blob_cached_spec [OF bc]
  have unchanged: ?thesis if "lookup (x_os x') = lookup ?os" "\<not> ok r" using that by simp
  consider (nosha) "fm_sha256 f = []" | (cached) "fm_sha256 f \<noteq> []" c1 | (fresh) "fm_sha256 f \<noteq> []" "\<not> c1" by blast
  then show ?thesis
  proof cases
    case nosha
    with assms(1) show ?thesis by (intro unchanged) (auto simp: reconstruct_file_def)
  next
    case cached
    with assms(1) bc have "x_os x' = os1" by (auto simp: reconstruct_file_def blob Let_def)
    with cached bcs file_content_cong [OF bcs(1)] show ?thesis by (simp add: blob same_fs_def)
  next
    case fresh
    obtain r2 os2 where mk: "os_mkdir_all os1 (abs_path ds) = (r2, os2)" by fastforce
    have "plain os1 ds" using assms(4) bcs(1) by (simp add: plain_def same_fs_def)
    note mke = mkdir_all_effect [OF mk this]
    have l2: "lookup os2 q = lookup ?os q" if "length ds < length q" for q
      using dirs_added_outside [OF conjunct1 [OF mke] that] bcs(1) by (simp add: same_fs_def)
    have rnd: "rands os2 = rands ?os" using mke bcs(1) by (simp add: dirs_added_def same_fs_def env_eq_def)
    have keep: ?thesis if "x_os x' = os2" "\<not> ok r" using that l2 by simp
    show ?thesis
    proof (cases r2)
      case (Inl e)
      with assms(1) fresh bc mk show ?thesis
        by (intro keep) (auto simp: reconstruct_file_def blob Let_def assms(3))
    next
      case (Inr u)
      obtain r3 x3 where cl: "collect_leaves n X c [] (x\<lparr>x_os := os2\<rparr>) = Some (r3, x3)"
        using assms(1,2) fresh bc mk Inr
        by (cases "collect_leaves n X c [] (x\<lparr>x_os := os2\<rparr>)")
           (auto simp: reconstruct_file_def blob Let_def assms(3))
      have os3: "x_os x3 = os2" using collect_os(1) [OF cl] by simp
      show ?thesis
      proof (cases "\<exists>leaves. r3 = Inr leaves \<and> leaves \<noteq> []")
        case False
        with assms(1,2) fresh bc mk Inr cl os3 show ?thesis
          by (intro keep) (auto simp: reconstruct_file_def blob Let_def assms(3) split: sum.splits if_splits)
      next
        case True
        then obtain leaves where r3: "r3 = Inr leaves" "leaves \<noteq> []" by blast
        with assms(1,2) fresh bc mk Inr cl have dl:
          "download_file X f (abs_path ?b) (file_perm f) tot leaves x3 = (r, x')"
          by (auto simp: reconstruct_file_def blob Let_def assms(3))
        have few: "length leaves \<le> maxFileChunks" using collect_bound(1) [OF cl [unfolded r3(1)]] by simp
        have d2: "dir_at os2 ds" using mke Inr by simp
        let ?t = "ds @ [fm_blob f @ ''.part-'' @ rands ?os (ticks os2)]"
        have out: "file_outcome X f os2 ?t ?b (ok r) (x_os x')"
          using download_outcome [OF dl _ assms(5)] os3 d2 l2 assms(6,7) few by (simp add: rnd)
        have "take i ds \<noteq> ds @ [y]" for i y
          by (metis length_append_singleton length_take min.cobounded1 not_less_eq_eq order_refl)
        then have "dir_at (x_os x') ds"
          using d2 out by (simp add: dir_at_def file_outcome_def)
        with out verified_content [of X f "x_os x'" ds] assms(5) l2 show ?thesis
          by (auto simp: file_outcome_def blob)
      qed
    qed
  qed
qed

text \<open>An empty file is not downloaded under a temporary name: the blob is created, or emptied, in place.\<close>

lemma empty_file_outcome:
  assumes "empty_file X f (abs_path (ds @ [a])) perm tot c x = (r, x')" "dir_at (x_os x) ds" "norm_seg a"
    "lookup (x_os x) (ds @ [a]) \<noteq> Some FDir" "\<And>t. lookup (x_os x) (ds @ [a]) \<noteq> Some (FLink t)"
  shows "(same_fs (x_os x) (x_os x') \<or> (\<exists>m. fs_upd (x_os x) (ds @ [a]) (Some (FFile [] m)) (x_os x')))
    \<and> (ok r \<longrightarrow> (\<exists>m. fs_upd (x_os x) (ds @ [a]) (Some (FFile [] m)) (x_os x'))
         \<and> (\<exists>d. new_block X d c = Inr () \<and> hex_encode (sha256 X d) = fm_sha256 f))"
proof -
  obtain r1 os1 where cr: "os_create (x_os x) (abs_path (ds @ [a])) perm = (r1, os1)" by fastforce
  have "\<forall>n. lookup (x_os x) (ds @ [a]) = Some n \<longrightarrow> is_regular n"
    using assms(4,5) by (auto simp: is_regular_def split: fnode.splits)
  note cre = os_create_file [OF cr assms(2,3) this]
  show ?thesis
  proof (cases r1)
    case (Inl e)
    with assms(1) cr cre show ?thesis by (auto simp: empty_file_def)
  next
    case (Inr tf)
    obtain r2 os2 where cl: "os_close os1 tf = (r2, os2)" by fastforce
    obtain r3 x3 where fe: "fetch_x X [c] (x\<lparr>x_os := os2\<rparr>) = (r3, x3)" by fastforce
    have "same_fs os1 os2" using cl by (auto simp: os_close_def syscall_def split: option.splits)
    with Inr cre obtain m where u: "fs_upd (x_os x) (ds @ [a]) (Some (FFile [] m)) os2"
      by (auto simp: fs_upd_def same_fs_def env_eq_def)
    have "x_os x3 = os2" using fetch_x_os [OF fe] by simp
    then have x': "x_os x' = os2"
      using assms(1) Inr cr cl fe
      by (auto simp: empty_file_def split: sum.splits list.splits option.splits if_splits prod.splits)
    moreover have "\<exists>d. new_block X d c = Inr () \<and> hex_encode (sha256 X d) = fm_sha256 f" if "ok r"
      using that assms(1) Inr cr cl fe
      by (auto simp: empty_file_def split: sum.splits list.splits option.splits if_splits prod.splits)
    ultimately show ?thesis using u by auto
  qed
qed

lemma reconstruct_empty_truncates:
  assumes "reconstruct_file n X p f c tot x = Some (r, x')" and "fm_size f = 0"
    and "p_blobs p = abs_path ds" "plain (x_os x) ds" "norm_seg (fm_blob f)"
    and "lookup (x_os x) (ds @ [fm_blob f]) \<noteq> Some FDir" "\<And>t. lookup (x_os x) (ds @ [fm_blob f]) \<noteq> Some (FLink t)"
  shows "(lookup (x_os x') (ds @ [fm_blob f]) = lookup (x_os x) (ds @ [fm_blob f])
        \<or> (\<exists>m. lookup (x_os x') (ds @ [fm_blob f]) = Some (FFile [] m)))
    \<and> (ok r \<longrightarrow> file_content (x_os x') (blob_path p (fm_blob f)) = Some []
          \<and> (\<exists>d. (d = [] \<or> new_block X d c = Inr ()) \<and> hex_encode (sha256 X d) = fm_sha256 f))
    \<and> (\<forall>q. length ds < length q \<longrightarrow> q \<noteq> ds @ [fm_blob f] \<longrightarrow> lookup (x_os x') q = lookup (x_os x) q)"
proof -
  let ?os = "x_os x" let ?b = "ds @ [fm_blob f]"
  have nds: "list_all norm_seg ds" using assms(4) by (simp add: plain_def)
  have blob: "blob_path p (fm_blob f) = abs_path ?b"
    using join_path_seg [OF nds assms(5)] by (simp add: blob_path_def assms(3))
  obtain c1 os1 where bc: "blob_cached (sha256 X) f (abs_path ?b) ?os = (c1, os1)" by fastforce
  note bcs = blob_cached_spec [OF bc]
  have unchanged: ?thesis if "lookup (x_os x') = lookup ?os" "\<not> ok r" using that by simp
  consider (nosha) "fm_sha256 f = []" | (cached) "fm_sha256 f \<noteq> []" c1 | (fresh) "fm_sha256 f \<noteq> []" "\<not> c1" by blast
  then show ?thesis
  proof cases
    case nosha
    with assms(1) show ?thesis by (intro unchanged) (auto simp: reconstruct_file_def)
  next
    case cached
    with assms(1) bc have "x_os x' = os1" by (auto simp: reconstruct_file_def blob Let_def)
    with cached bcs file_content_cong [OF bcs(1)] show ?thesis by (auto simp: blob same_fs_def assms(2))
  next
    case fresh
    obtain r2 os2 where mk: "os_mkdir_all os1 (abs_path ds) = (r2, os2)" by fastforce
    have "plain os1 ds" using assms(4) bcs(1) by (simp add: plain_def same_fs_def)
    note mke = mkdir_all_effect [OF mk this]
    have l2: "lookup os2 q = lookup ?os q" if "length ds < length q" for q
      using dirs_added_outside [OF conjunct1 [OF mke] that] bcs(1) by (simp add: same_fs_def)
    show ?thesis
    proof (cases r2)
      case (Inl e)
      with assms(1) fresh bc mk l2 show ?thesis
        by (auto simp: reconstruct_file_def blob Let_def assms(3))
    next
      case (Inr u)
      have run: "empty_file X f (abs_path ?b) (file_perm f) tot c (x\<lparr>x_os := os2\<rparr>) = (r, x')"
        using assms(1,2) fresh bc mk Inr by (simp add: reconstruct_file_def blob Let_def assms(3))
      have d2: "dir_at os2 ds" using mke Inr by simp
      have out: "(same_fs os2 (x_os x') \<or> (\<exists>m. fs_upd os2 ?b (Some (FFile [] m)) (x_os x')))
          \<and> (ok r \<longrightarrow> (\<exists>m. fs_upd os2 ?b (Some (FFile [] m)) (x_os x'))
             \<and> (\<exists>d. new_block X d c = Inr () \<and> hex_encode (sha256 X d) = fm_sha256 f))"
        using empty_file_outcome [OF run] d2 l2 [of ?b] assms(5-7) by simp
      have "take i ds \<noteq> ds @ [y]" for i y
        by (metis length_append_singleton length_take min.cobounded1 not_less_eq_eq order_refl)
      then have "dir_at (x_os x') ds" if "fs_upd os2 ?b n (x_os x')" for n
        using d2 that by (simp add: dir_at_def fs_upd_def)
      then have "file_content (x_os x') (abs_path ?b) = Some []" if "fs_upd os2 ?b (Some (FFile [] m)) (x_os x')" for m
        using that resolve_in_dir [OF _ assms(5), of "x_os x'" ds True] by (auto simp: file_content_def fs_upd_def)
      with out l2 show ?thesis by (auto simp: blob same_fs_def fs_upd_def)
    qed
  qed
qed

text \<open>C15: no unverified byte ever reaches a blob: whatever the peer sends and whichever system calls
  fail, reconstructing a file leaves the blob as it was, or makes it a file with exactly the
  manifest's SHA-256 and size, or, only when the manifest says the file is empty, empties it in place,
  before anything was verified. When it reports success the blob has the manifest's size and, for a
  non-empty file, its SHA-256; for an empty one that digest was compared with the leaf the peer sent
  (or with the cached blob), whose length is not compared. No other path changes, except for the
  temporary file and missing directories of \<open>blobs\<close>. (The blob is not a directory and, for an empty
  file, not a symbolic link, through which the truncation would go; the random suffix of the temporary
  name is assumed to give a new file.)\<close>

theorem reconstruct_file_verified:
  assumes "reconstruct_file n X p f c tot x = Some (r, x')"
    and "p_blobs p = abs_path ds" "plain (x_os x) ds" "norm_seg (fm_blob f)"
    and "lookup (x_os x) (ds @ [fm_blob f]) \<noteq> Some FDir"
    and "\<And>t. fm_size f = 0 \<Longrightarrow> lookup (x_os x) (ds @ [fm_blob f]) \<noteq> Some (FLink t)"
    and "\<And>k. sep \<notin> set (rands (x_os x) k) \<and> lookup (x_os x) (ds @ [fm_blob f @ ''.part-'' @ rands (x_os x) k]) = None"
  shows "(lookup (x_os x') (ds @ [fm_blob f]) = lookup (x_os x) (ds @ [fm_blob f])
        \<or> verified X f (lookup (x_os x') (ds @ [fm_blob f]))
        \<or> fm_size f = 0 \<and> (\<exists>m. lookup (x_os x') (ds @ [fm_blob f]) = Some (FFile [] m)))
    \<and> (ok r \<longrightarrow> (\<exists>d. file_content (x_os x') (blob_path p (fm_blob f)) = Some d \<and> int (length d) = fm_size f
          \<and> (fm_size f \<noteq> 0 \<longrightarrow> hex_encode (sha256 X d) = fm_sha256 f)
          \<and> (fm_size f = 0 \<longrightarrow> (\<exists>d'. (d' = [] \<or> new_block X d' c = Inr ()) \<and> hex_encode (sha256 X d') = fm_sha256 f))))
    \<and> (\<forall>q. length ds < length q \<longrightarrow> q \<noteq> ds @ [fm_blob f] \<longrightarrow>
          (\<forall>k. q \<noteq> ds @ [fm_blob f @ ''.part-'' @ rands (x_os x) k]) \<longrightarrow> lookup (x_os x') q = lookup (x_os x) q)"
proof (cases "fm_size f = 0")
  case True
  with reconstruct_empty_truncates [OF assms(1) True assms(2-6)] show ?thesis by auto
next
  case False
  with reconstruct_nonempty_verified [OF assms(1) False assms(2-5,7)] show ?thesis by auto
qed

text \<open>A peer that sends the one chunk of a two-byte file; the digest is the identity here.\<close>

definition demo_lib :: "(unit, unit) pulllib" where
  "demo_lib = \<lparr>cids = ref_cids, fstore = one_block, main_put = (\<lambda>s _ _. (Inr (), s)), new_block = (\<lambda>_ _. Inr ()),
     wrap_raw = (\<lambda>_ _. Inr ()), decode_node = (\<lambda>_ _. Inr ()), node_links = (\<lambda>_. []), dir_open = (\<lambda>_. Inr ()),
     dir_find = (\<lambda>_ _ _ x. (Inr [], x)), sha256 = (\<lambda>d. d)\<rparr>"

definition demo_leaf :: cid where "demo_leaf = map char_of [1, 85, 0, 1 :: nat]"

definition demo_file :: file_manifest where
  "demo_file = sample_manifest\<lparr>fm_size := 2, fm_sha256 := hex_encode ''hi''\<rparr>"

definition demo_x :: "unit xst" where
  "demo_x = \<lparr>x_db = (), x_os = empty_os, x_conn = fresh_conn (status_frame (Some ''hi'')), x_done = 0, x_events = []\<rparr>"

lemma reconstruct_file_returns:
  assumes "\<And>x. collect_leaves n X c [] x \<noteq> None"
  shows "reconstruct_file n X p f c tot x \<noteq> None"
proof -
  obtain b1 os1 where 1: "blob_cached (sha256 X) f (blob_path p (fm_blob f)) (x_os x) = (b1, os1)" by fastforce
  obtain r2 os2 where 2: "os_mkdir_all os1 (p_blobs p) = (r2, os2)" by fastforce
  obtain r3 x3 where 3: "collect_leaves n X c [] (x\<lparr>x_os := os2\<rparr>) = Some (r3, x3)"
    using assms by (metis not_None_eq surj_pair)
  show ?thesis
    by (cases b1; cases r2; cases r3) (simp_all add: reconstruct_file_def Let_def 1 2 3)
qed

lemma demo_returns: "\<exists>r x'. reconstruct_file 1 demo_lib snap_paths demo_file demo_leaf 2 demo_x = Some (r, x')"
proof -
  have "cid_type (cids demo_lib) demo_leaf = Raw"
    by (simp add: demo_lib_def ref_cids_def demo_leaf_def Raw_def)
  then have "collect_leaves 1 demo_lib demo_leaf [] x \<noteq> None" for x by (simp add: eval_nat_numeral)
  from reconstruct_file_returns [OF this] show ?thesis by (metis not_None_eq surj_pair)
qed

theorem reconstruct_file_verified_witness:
  "\<exists>r x'. reconstruct_file 1 demo_lib snap_paths demo_file demo_leaf 2 demo_x = Some (r, x')
     \<and> (lookup (x_os x') [''b'', ''abc''] = None \<or> (\<exists>m. lookup (x_os x') [''b'', ''abc''] = Some (FFile ''hi'' m)))"
proof -
  obtain r x' where run: "reconstruct_file 1 demo_lib snap_paths demo_file demo_leaf 2 demo_x = Some (r, x')"
    using demo_returns by blast
  have b: "fm_blob demo_file = ''abc''" "fm_size demo_file = 2" "fm_sha256 demo_file = hex_encode ''hi''"
    by (simp_all add: demo_file_def sample_manifest_def)
  have "p_blobs snap_paths = abs_path [''b'']" by (simp add: snap_paths_def abs_path_def)
  moreover have l: "lookup (x_os demo_x) q = (if q = [] then Some FDir else None)" for q
    by (simp add: demo_x_def empty_os_def lookup_def)
  moreover have "plain (x_os demo_x) [''b'']"
    using l by (auto simp: plain_def norm_seg_def le_Suc_eq)
  moreover have "rands (x_os demo_x) k = ''x''" for k by (simp add: demo_x_def empty_os_def)
  moreover have "norm_seg (fm_blob demo_file)" by (simp add: b norm_seg_def)
  ultimately have "lookup (x_os x') ([''b''] @ [fm_blob demo_file]) = lookup (x_os demo_x) ([''b''] @ [fm_blob demo_file])
      \<or> verified demo_lib demo_file (lookup (x_os x') ([''b''] @ [fm_blob demo_file]))"
    using reconstruct_file_verified [OF run, of "[''b'']"] by (simp add: b)
  moreover have "d = ''hi''" if "hex_encode d = hex_encode ''hi''" for d
    using that by (metis hex_decode_encode sum.inject(2))
  moreover have "sha256 demo_lib = (\<lambda>d. d)" by (simp add: demo_lib_def)
  ultimately have "lookup (x_os x') [''b'', ''abc''] = None
      \<or> (\<exists>m. lookup (x_os x') [''b'', ''abc''] = Some (FFile ''hi'' m))"
    using l by (auto simp: b verified_def simp del: hex_encode.simps)
  with run show ?thesis by blast
qed

section \<open>Enumerating a local DAG\<close>

text \<open>The unfolding of a DAG whose interior blocks the node already has.\<close>

datatype dtree = DLeaf cid | DNode cid "dtree list"

fun droot :: "dtree \<Rightarrow> cid" where
  "droot (DLeaf c) = c"
| "droot (DNode c ts) = c"

fun dleaves :: "dtree \<Rightarrow> cid list" where
  "dleaves (DLeaf c) = [c]"
| "dleaves (DNode c ts) = concat (map dleaves ts)"

fun dheight :: "dtree \<Rightarrow> nat" where
  "dheight (DLeaf c) = 0"
| "dheight (DNode c ts) = Suc (Max (set (0 # map dheight ts)))"

fun local_dag :: "('s, 'n) pulllib \<Rightarrow> 's xst \<Rightarrow> dtree \<Rightarrow> bool" where
  "local_dag X x (DLeaf c) = (cid_type (cids X) c = Raw)"
| "local_dag X x (DNode c ts) =
     (cid_type (cids X) c \<noteq> Raw
      \<and> (case dag_get X c x of (Inr nd, x1) \<Rightarrow> x1 = x \<and> node_links X nd = map droot ts | _ \<Rightarrow> False)
      \<and> list_all (local_dag X x) ts)"

definition enumerates :: "('s, 'n) pulllib \<Rightarrow> 's xst \<Rightarrow> cid list \<Rightarrow> cid list \<Rightarrow> (cid list res \<times> 's xst) option \<Rightarrow> bool" where
  "enumerates X x out ls res =
     (if length out + length ls \<le> maxFileChunks then res = Some (Inr (out @ ls), x)
      else (\<exists>e. res = Some (Inl e, x)))"

lemma enumerates_links:
  assumes "\<And>t out. t \<in> set ts \<Longrightarrow> length out \<le> maxFileChunks \<Longrightarrow>
      enumerates X x out (dleaves t) (collect_leaves n X (droot t) out x)"
  shows "length out \<le> maxFileChunks \<Longrightarrow>
    enumerates X x out (concat (map dleaves ts)) (collect_links n X (map droot ts) out x)"
  using assms
proof (induction ts arbitrary: out)
  case Nil
  then show ?case by (simp add: enumerates_def)
next
  case (Cons t ts)
  have 1: "enumerates X x out (dleaves t) (collect_leaves n X (droot t) out x)"
    using Cons.prems by simp
  show ?case
  proof (cases "length out + length (dleaves t) \<le> maxFileChunks")
    case True
    then have "enumerates X x (out @ dleaves t) (concat (map dleaves ts)) (collect_links n X (map droot ts) (out @ dleaves t) x)"
      using Cons.prems(2) by (intro Cons.IH) auto
    with 1 True show ?thesis by (simp add: enumerates_def add.assoc)
  next
    case False
    with 1 show ?thesis by (auto simp: enumerates_def)
  qed
qed

lemma enumerates_tree:
  "local_dag X x t \<Longrightarrow> dheight t < n \<Longrightarrow> length out \<le> maxFileChunks \<Longrightarrow>
     enumerates X x out (dleaves t) (collect_leaves n X (droot t) out x)"
proof (induction t arbitrary: n out)
  case (DLeaf c)
  then show ?case by (cases n) (auto simp: enumerates_def)
next
  case (DNode c ts)
  then obtain m where n: "n = Suc m" by (cases n) auto
  have h: "dheight t < m" if "t \<in> set ts" for t
    using DNode.prems(2) n that by simp
  obtain nd where nd: "dag_get X c x = (Inr nd, x)" "node_links X nd = map droot ts"
    using DNode.prems(1) by (auto split: prod.splits sum.splits)
  have "enumerates X x out (concat (map dleaves ts)) (collect_links m X (map droot ts) out x)"
    using DNode.prems h by (intro enumerates_links DNode.IH) (auto simp: list_all_iff)
  with nd DNode.prems(1) show ?case by (simp add: n)
qed

text \<open>C16: on a DAG whose interior blocks are stored, \<open>collectLeaves\<close> ends (a depth bound above the
  height of the DAG suffices) and returns exactly its raw leaves, from left to right, with repeated
  ones repeated; it fails exactly when they would exceed \<open>maxFileChunks\<close>.\<close>

theorem collect_leaves_correct:
  assumes "local_dag X x t" "dheight t < n" "length out \<le> maxFileChunks"
  shows "if length out + length (dleaves t) \<le> maxFileChunks
         then collect_leaves n X (droot t) out x = Some (Inr (out @ dleaves t), x)
         else (\<exists>e. collect_leaves n X (droot t) out x = Some (Inl e, x))"
  using enumerates_tree [OF assms] by (simp add: enumerates_def)

text \<open>A stored node that links twice to the same leaf.\<close>

definition twin_lib :: "(unit, cid list) pulllib" where
  "twin_lib = \<lparr>cids = ref_cids, fstore = one_block, main_put = (\<lambda>s _ _. (Inr (), s)), new_block = (\<lambda>_ _. Inr ()),
     wrap_raw = (\<lambda>_ _. Inr ()), decode_node = (\<lambda>_ _. Inr [demo_leaf, demo_leaf]), node_links = (\<lambda>n. n),
     dir_open = (\<lambda>_. Inr ()), dir_find = (\<lambda>_ _ _ x. (Inr [], x)), sha256 = (\<lambda>d. d)\<rparr>"

theorem collect_leaves_correct_witness:
  "collect_leaves 2 twin_lib ''abx'' [] demo_x = Some (Inr [demo_leaf, demo_leaf], demo_x)"
proof -
  have "dag_get twin_lib ''abx'' demo_x = (Inr [demo_leaf, demo_leaf], demo_x)"
    by (simp add: dag_get_def rt_get_def twin_lib_def one_block_def)
  then have "local_dag twin_lib demo_x (DNode ''abx'' [DLeaf demo_leaf, DLeaf demo_leaf])"
    by (simp add: twin_lib_def ref_cids_def demo_leaf_def Raw_def)
  from collect_leaves_correct [OF this, of 2 "[]"] show ?thesis by (simp add: maxFileChunks_def)
qed

text \<open>
  The leaf budget does not bound the work on every input: \<open>NewBlockWithCid\<close> is not asked to hash, so
  a peer may send a node that links to itself, and then no depth bound suffices.
\<close>

lemma collect_cycle_diverges:
  assumes "cid_type (cids X) c \<noteq> Raw" "dag_get X c x = (Inr nd, x)" "node_links X nd = [c]"
  shows "collect_leaves n X c out x = None"
  by (induction n) (simp_all add: assms)

end
