(* ===== verification/PullStore.thy ===== *)
theory PullStore
  imports PullFile Evict
begin

text \<open>
  What a transfer leaves of the database: the interface \<open>transfer_store\<close> names an observation of the
  database that none of the block operations of a transfer changes, such as the stored mappings, and
  shows that reconstructing a revision keeps it, whatever the peer sends. The interpretation
  \<open>node_transfer\<close> is the node's own database with its buckets for blocks and filestore references.
\<close>

section \<open>Interface\<close>

locale transfer_store =
  fixes X :: "('s, 'n) pulllib" and view :: "'s \<Rightarrow> 'v"
  assumes view_put: "view (snd (fs_put (fstore X) db c d)) = view db"
    and view_put_ref: "view (snd (fs_put_ref (fstore X) db c d p off)) = view db"
    and view_delete: "view (snd (fs_delete (fstore X) db c)) = view db"
    and view_main_put: "view (snd (main_put X db c d)) = view db"
    and view_dir_find: "(\<And>c x. view (x_db (snd (get c x))) = view (x_db x)) \<Longrightarrow>
      view (x_db (snd (dir_find X get nd nm x))) = view (x_db x)"
begin

abbreviation same_view :: "'s xst \<Rightarrow> 's xst \<Rightarrow> bool" where
  "same_view x x' \<equiv> view (x_db x') = view (x_db x)"

lemma fetch_x_view: "fetch_x X cs x = (r, x') \<Longrightarrow> same_view x x'"
  by (auto simp: fetch_x_def split: prod.splits)

lemma rt_get_view: "rt_get X c x = (r, x') \<Longrightarrow> same_view x x'"
  by (auto simp: rt_get_def view_put split: sum.splits prod.splits option.splits if_splits dest!: fetch_x_view)

lemma dag_get_view: "dag_get X c x = (r, x') \<Longrightarrow> same_view x x'"
  by (auto simp: dag_get_def split: sum.splits prod.splits dest: rt_get_view)

lemma dir_find_view: "dir_find X (dag_get X) nd nm x = (r, x') \<Longrightarrow> same_view x x'"
  using view_dir_find [of "dag_get X" nd nm x] dag_get_view by (metis prod.collapse snd_conv)

lemma find_parts_view: "find_parts X cur parts x = (r, x') \<Longrightarrow> same_view x x'"
proof (induction parts arbitrary: cur x)
  case (Cons part parts)
  then show ?case
    by (auto split: sum.splits prod.splits dest!: dag_get_view dir_find_view)
qed simp

lemma collect_view:
  "collect_leaves n X' c out x = Some (r, x') \<Longrightarrow> X' = X \<Longrightarrow> same_view x x'"
  "collect_links n X' ls out x = Some (r, x') \<Longrightarrow> X' = X \<Longrightarrow> same_view x x'"
proof (induction n X' c out x and n X' ls out x arbitrary: r x' and r x'
    rule: collect_leaves_collect_links.induct)
  case (2 n X' c out x)
  then show ?case by (auto split: if_splits prod.splits sum.splits dest: dag_get_view)
next
  case (4 n X' l ls out x)
  obtain r1 x1 where a: "collect_leaves n X l out x = Some (r1, x1)"
    using "4.prems" by (cases "collect_leaves n X l out x") auto
  show ?case
  proof (cases r1)
    case (Inl e)
    with a "4.prems" "4.IH"(1) show ?thesis by auto
  next
    case (Inr out1)
    with a "4.prems" have "collect_links n X ls out1 x1 = Some (r, x')" by simp
    with "4.IH" a Inr "4.prems"(2) show ?thesis by metis
  qed
qed auto

lemma register_view: "view (snd (register_filestore_ref L (fstore X) wr c d p off db)) = view db"
  by (auto simp: register_filestore_ref_def view_put_ref split: sum.splits)

lemma put_chunk_view: "put_chunk X blob q c d s = (r, s') \<Longrightarrow> same_view (fx_x s) (fx_x s')"
  using register_view [of "cids X" "wrap_raw X" c d blob "fx_written s" "x_db (fx_x s)"]
  by (auto simp: put_chunk_def Let_def split: sum.splits prod.splits)

lemma put_chunks_view: "put_chunks X' blob q cds s = (r, s') \<Longrightarrow> X' = X \<Longrightarrow> same_view (fx_x s) (fx_x s')"
proof (induction X' blob q cds s rule: put_chunks.induct)
  case (3 X' blob q c d rest s)
  obtain r1 s1 where p: "put_chunk X blob q c d s = (r1, s1)" by fastforce
  with 3 put_chunk_view [OF p] show ?case by (cases r1) auto
qed auto

lemma put_batches_view: "put_batches X f blob q tot cnt leaves s = (r, s') \<Longrightarrow> same_view (fx_x s) (fx_x s')"
proof (induction leaves arbitrary: s rule: length_induct)
  case (1 leaves)
  show ?case
  proof (cases "leaves = []")
    case True
    with "1.prems" show ?thesis by (simp add: put_batches.simps [of X f blob q tot cnt "[]"])
  next
    case False
    let ?b = "take BatchSize leaves"
    obtain r1 x1 where fe: "fetch_x X ?b (fx_x s) = (r1, x1)" by fastforce
    note v1 = fetch_x_view [OF fe]
    show ?thesis
    proof (cases r1)
      case (Inl e)
      with "1.prems" False fe v1 show ?thesis by (auto simp: put_batches.simps [of X f blob q tot cnt leaves])
    next
      case (Inr ds)
      obtain r2 s2 where pc: "put_chunks X blob q (zip ?b ds) (s\<lparr>fx_x := x1\<rparr>) = (r2, s2)" by fastforce
      note v2 = put_chunks_view [OF pc refl]
      have "length (drop BatchSize leaves) < length leaves" using False by (simp add: BatchSize_def)
      note IH = "1.IH" [rule_format, OF this]
      from "1.prems" False fe Inr pc v1 v2 show ?thesis
        by (cases r2) (auto simp: put_batches.simps [of X f blob q tot cnt leaves] emit_def dest!: IH)
    qed
  qed
qed

lemma delete_refs_view: "view (delete_refs (fstore X) cs db) = view db"
  by (induction cs arbitrary: db) (simp_all add: view_delete)

lemma rollback_view: "rollback X f tmp q e s = (r, x') \<Longrightarrow> same_view (fx_x s) x'"
  by (auto simp: rollback_def Let_def delete_refs_view)

lemma finish_view: "finish_file X f blob tmp q perm s = (r, x') \<Longrightarrow> same_view (fx_x s) x'"
  by (auto simp: finish_file_def Let_def split: sum.splits prod.splits if_splits dest!: rollback_view)

lemma download_view:
  assumes "download_file X f blob perm tot leaves x = (r, x')"
  shows "same_view x x'"
proof -
  obtain sfx os0 where rs: "rand_suffix (x_os x) = (sfx, os0)" by fastforce
  obtain r1 os1 where cr: "os_create os0 (blob @ ''.part-'' @ sfx) 438 = (r1, os1)" by fastforce
  show ?thesis
  proof (cases r1)
    case (Inl e)
    with assms rs cr show ?thesis by (auto simp: download_file_def Let_def)
  next
    case (Inr q)
    let ?s = "\<lparr>fx_x = x\<lparr>x_os := os1\<rparr>, fx_hashed = [], fx_written = 0, fx_registered = []\<rparr>"
    obtain r2 s2 where pb: "put_batches X f blob q tot (length leaves) leaves ?s = (r2, s2)" by fastforce
    with assms rs cr Inr put_batches_view [OF pb] show ?thesis
      by (cases r2) (auto simp: download_file_def Let_def dest!: rollback_view finish_view)
  qed
qed

lemma empty_view:
  assumes "empty_file X f blob perm tot c x = (r, x')"
  shows "same_view x x'"
proof -
  obtain r1 os1 where cr: "os_create (x_os x) blob perm = (r1, os1)" by fastforce
  obtain r2 os2 where cl: "os_close os1 (projr r1) = (r2, os2)" by fastforce
  obtain r3 x3 where fe: "fetch_x X [c] (x\<lparr>x_os := os2\<rparr>) = (r3, x3)" by fastforce
  have "view (snd (main_put X (x_db x3) c d)) = view (x_db x)" for d
    using view_main_put fetch_x_view [OF fe] by simp
  with assms cr cl fe fetch_x_view [OF fe] show ?thesis
    by (cases r1; cases r2; cases r3)
       (auto simp: empty_file_def Let_def emit_def split: sum.splits prod.splits list.splits option.splits if_splits,
        (metis snd_conv)+)
qed

lemma reconstruct_file_view:
  assumes "reconstruct_file n X p f c tot x = Some (r, x')"
  shows "same_view x x'"
proof -
  obtain b os1 where bc: "blob_cached (sha256 X) f (blob_path p (fm_blob f)) (x_os x) = (b, os1)" by fastforce
  obtain r2 os2 where mk: "os_mkdir_all os1 (p_blobs p) = (r2, os2)" by fastforce
  show ?thesis
  proof (cases "fm_sha256 f = [] \<or> b \<or> \<not> ok r2")
    case True
    with assms bc mk show ?thesis
      by (cases "fm_sha256 f = []"; cases b; cases r2) (auto simp: reconstruct_file_def Let_def emit_def)
  next
    case False
    then obtain u where r2: "r2 = Inr u" by (cases r2) auto
    show ?thesis
    proof (cases "fm_size f = 0")
      case True
      with False assms bc mk r2 have "empty_file X f (blob_path p (fm_blob f)) (file_perm f) tot c (x\<lparr>x_os := os2\<rparr>) = (r, x')"
        by (auto simp: reconstruct_file_def Let_def)
      from empty_view [OF this] show ?thesis by simp
    next
      case nz: False
      obtain r3 x3 where cl: "collect_leaves n X c [] (x\<lparr>x_os := os2\<rparr>) = Some (r3, x3)"
        using assms False nz bc mk r2
        by (cases "collect_leaves n X c [] (x\<lparr>x_os := os2\<rparr>)") (auto simp: reconstruct_file_def Let_def)
      with assms False nz bc mk r2 collect_view(1) [OF cl refl] show ?thesis
        by (auto simp: reconstruct_file_def Let_def split: sum.splits if_splits dest!: download_view)
    qed
  qed
qed

lemma reconstruct_files_view: "reconstruct_files n X p actual tot fs x = Some (r, x') \<Longrightarrow> same_view x x'"
proof (induction fs arbitrary: x)
  case (Cons f fs)
  obtain r1 x1 where fn: "find_node X actual (fm_path f) x = (r1, x1)" by fastforce
  have v1: "same_view x x1" using fn find_parts_view by (auto simp: find_node_def)
  show ?case
  proof (cases r1)
    case (Inl e)
    with Cons.prems fn v1 show ?thesis by simp
  next
    case (Inr c)
    obtain r2 x2 where rf: "reconstruct_file n X p f c tot x1 = Some (r2, x2)"
      using Cons.prems fn Inr by (cases "reconstruct_file n X p f c tot x1") auto
    with Cons.prems fn Inr v1 reconstruct_file_view [OF rf] Cons.IH [of x2] show ?thesis by (cases r2) auto
  qed
qed simp

lemma reconstruct_view:
  assumes "reconstruct n X p peer opened resp x = Some (r, x')"
  shows "same_view x x'"
proof (cases "\<exists>actual c. cid_decode (cids X) (mr_actual resp) = Inr actual \<and> new_block_client peer opened = Inr c")
  case True
  then obtain actual c where a: "cid_decode (cids X) (mr_actual resp) = Inr actual" "new_block_client peer opened = Inr c"
    by blast
  obtain r1 x1 where g: "dag_get X actual (x\<lparr>x_conn := c\<rparr>) = (r1, x1)" by fastforce
  with assms a dag_get_view [OF g] show ?thesis
    by (cases r1) (auto simp: reconstruct_def dest!: reconstruct_files_view)
next
  case False
  with assms show ?thesis by (auto simp: reconstruct_def split: sum.splits)
qed

end

section \<open>The node's database\<close>

text \<open>Blocks and filestore records go to their own buckets; a record is the path of the file. The
  directory lookup loads the child it is asked for.\<close>

definition node_fstore :: "memdb fstoreops" where
  "node_fstore =
     \<lparr>fs_get = (\<lambda>db _ c. bs_get (node_blocks BucketBlocks) db c), fs_has = bs_has (node_blocks BucketBlocks),
      fs_get_size = (\<lambda>db _ c. bind_res (bs_get (node_blocks BucketBlocks) db c) (\<lambda>d. Inr (int (length d)))),
      fs_put = bs_put (node_blocks BucketBlocks), fs_put_ref = (\<lambda>db c _ p _. bs_put (node_blocks BucketFilestore) db c p),
      fs_delete = bs_delete (node_blocks BucketFilestore)\<rparr>"

definition node_pull :: "(memdb, cid list) pulllib" where
  "node_pull =
     \<lparr>cids = ref_cids, fstore = node_fstore, main_put = bs_put (node_blocks BucketBlocks), new_block = (\<lambda>_ _. Inr ()),
      wrap_raw = (\<lambda>_ _. Inr ()), decode_node = (\<lambda>_ d. decode_links node_boxo d), node_links = (\<lambda>ls. ls),
      dir_open = (\<lambda>_. Inr ()),
      dir_find = (\<lambda>get ls nm x. case ls of
          [] \<Rightarrow> (Inl (Sentinel ErrNotFound), x)
        | c # _ \<Rightarrow> (case get c x of (Inl e, x1) \<Rightarrow> (Inl e, x1) | (Inr _, x1) \<Rightarrow> (Inr c, x1))),
      sha256 = (\<lambda>d. d)\<rparr>"

definition node_mappings :: "memdb \<Rightarrow> bool \<times> (bytes \<Rightarrow> bytes option)" where
  "node_mappings db = (BucketMap \<in> set (fst db), mem_get db BucketMap)"

lemma map_of_other_bucket:
  "b \<noteq> b' \<Longrightarrow> map_of (filter (\<lambda>(bk, _). fst bk \<noteq> b) xs) (b', k) = map_of xs (b', k)"
  by (induction xs) auto

lemma mem_put_mappings:
  assumes "b \<noteq> BucketMap"
  shows "node_mappings (snd (ds_put mem_bolt b db k v)) = node_mappings db"
  using assms
  by (simp add: map_of_other_bucket ds_put_def db_update_def mem_bolt_def node_mappings_def mem_get_def fun_eq_iff)

lemma node_put_mappings:
  assumes "b \<noteq> BucketMap"
  shows "node_mappings (snd (bs_put (node_blocks b) db c d)) = node_mappings db"
  using mem_put_mappings [OF assms]
  by (simp add: node_blocks_def key_blocks_def bolt_ds_def split: sum.split bool.split)

lemma node_delete_mappings:
  assumes "b \<noteq> BucketMap"
  shows "node_mappings (snd (bs_delete (node_blocks b) db c)) = node_mappings db"
proof -
  obtain r db' where d: "bs_delete (node_blocks b) db c = (r, db')" by (rule prod.exhaust)
  from node_blocks_delete [OF d] assms d show ?thesis by (auto simp: node_mappings_def fun_eq_iff)
qed

interpretation node_transfer: transfer_store node_pull node_mappings
proof
  fix get :: "cid \<Rightarrow> memdb xst \<Rightarrow> cid list res \<times> memdb xst" and nd nm x
  assume "\<And>c x. node_mappings (x_db (snd (get c x))) = node_mappings (x_db x)"
  then show "node_mappings (x_db (snd (dir_find node_pull get nd nm x))) = node_mappings (x_db x)"
    by (auto simp: node_pull_def split: list.splits sum.splits prod.splits) (metis snd_conv)+
qed (simp_all add: node_pull_def node_fstore_def node_put_mappings node_delete_mappings)

end
