(* ===== verification/PullTransfer.thy ===== *)
theory PullTransfer
  imports PullStore
begin

text \<open>
  That a transfer between two nodes succeeds: the puller's side (\<open>reconstructFile\<close>, \<open>collectLeaves\<close>,
  \<open>readThroughBS.Get\<close>, \<open>BlockClient.Fetch\<close>) is composed with the seeder's (\<open>handleBlocks\<close>). The
  puller's stream delivers what the seeder's handler writes on the requests of the puller, so the two
  sides close a loop: the theorem shows that the requests the puller writes are the ones the handler
  answered. The safety theorems of \<open>PullFile\<close> hold for any peer, this one for an honest peer and an
  operating system without failures. The interface \<open>read_through\<close> states what is asked of the
  filestore of boxo, and \<open>node_cache\<close> is the node's own database.
\<close>

section \<open>Interface\<close>

text \<open>
  Interior nodes go to the block database, keyed by multihash, and do not depend on files; the file
  manager takes a reference to a file inside its root.
\<close>

locale read_through =
  fixes X :: "('s, 'n) pulllib" and inside :: "string \<Rightarrow> bool"
  assumes get_put: "cid_type (cids X) c \<noteq> Raw \<Longrightarrow> cid_hash (cids X) c \<noteq> [] \<Longrightarrow>
      fs_get (fstore X) db os c = Inl e \<Longrightarrow> fs_get (fstore X) (snd (fs_put (fstore X) db c d)) os c = Inr d"
    and get_put_other: "cid_hash (cids X) c' \<noteq> cid_hash (cids X) c \<Longrightarrow>
      fs_get (fstore X) (snd (fs_put (fstore X) db c d)) os c' = fs_get (fstore X) db os c'"
    and get_files: "cid_type (cids X) c \<noteq> Raw \<Longrightarrow> fs_get (fstore X) db os c = fs_get (fstore X) db os' c"
    and put_ref_inside: "cid_type (cids X) c = Raw \<Longrightarrow> cid_hash (cids X) c \<noteq> [] \<Longrightarrow> inside p \<Longrightarrow>
      fst (fs_put_ref (fstore X) db c d p off) = Inr ()"

section \<open>The exchange\<close>

text \<open>What the puller asks for: every interior node it lacks, once and by itself, then the leaves in
  batches.\<close>

fun dnodes :: "dtree \<Rightarrow> cid list" where
  "dnodes (DLeaf c) = []"
| "dnodes (DNode c ts) = c # concat (map dnodes ts)"

fun asks :: "cid set \<Rightarrow> cid list \<Rightarrow> cid list" where
  "asks H [] = []"
| "asks H (c # cs) = (if c \<in> H then asks H cs else c # asks (insert c H) cs)"

function batches :: "cid list \<Rightarrow> cid list list" where
  "batches ls = (if ls = [] then [] else take BatchSize ls # batches (drop BatchSize ls))"
  by pat_completeness auto
termination by (relation "measure length") (auto simp: BatchSize_def)

declare batches.simps [simp del]

definition requests :: "cid set \<Rightarrow> dtree \<Rightarrow> cid list list" where
  "requests H t = map (\<lambda>c. [c]) (asks H (dnodes t)) @ batches (dleaves t)"

lemma asks_append: "asks H (a @ b) = asks H a @ asks (H \<union> set a) b"
  by (induction a arbitrary: H) (auto simp: insert_absorb)

lemma set_asks: "set (asks H cs) = set cs - H"
  by (induction cs arbitrary: H) auto

lemma concat_batches [simp]: "concat (batches ls) = ls"
proof (induction ls rule: batches.induct)
  case (1 ls)
  then show ?case by (subst batches.simps) simp
qed

text \<open>The frames of the answers, and the client's connection once they are read.\<close>

definition answers :: "(cid \<Rightarrow> bytes) \<Rightarrow> cid list list \<Rightarrow> bytes" where
  "answers data qs = concat (map (\<lambda>c. status_frame (Some (data c))) (concat qs))"

definition advance :: "cidlib \<Rightarrow> cid list list \<Rightarrow> bytes \<Rightarrow> conn \<Rightarrow> conn" where
  "advance L qs rest k = k\<lparr>rd_buf := rest, wr_buf := wr_buf k @ concat (map (request_frame L) qs)\<rparr>"

definition fits_frames :: "cidlib \<Rightarrow> (cid \<Rightarrow> bytes) \<Rightarrow> cid list \<Rightarrow> bool" where
  "fits_frames L data cs = (length (json_print (enc_block_request (map (cid_string L) cs))) \<le> MaxFrame
     \<and> (\<forall>c \<in> set cs. length (data c) < MaxFrame))"

lemma answers_append [simp]: "answers data (a @ b) = answers data a @ answers data b"
  by (simp add: answers_def)

lemma answers_Cons: "answers data (q # qs) = answers data [q] @ answers data qs"
  by (simp add: answers_def)

lemma advance_simps [simp]:
  "rd_buf (advance L qs r k) = r" "wr_room (advance L qs r k) = wr_room k"
  "advance L b r2 (advance L a r1 k) = advance L (a @ b) r2 k"
  by (simp_all add: advance_def)

lemma advance_Nil [simp]: "rd_buf k = r \<Longrightarrow> advance L [] r k = k"
  by (auto simp: advance_def)

lemma fetch_answers:
  assumes "rd_buf k = answers data [cs] @ rest" "wr_room k = None" "fits_frames L data cs" "cs \<noteq> []"
  shows "fetch L k cs = (Inr (map (Some \<circ> data) cs), advance L [cs] rest k)"
proof -
  let ?k = "k\<lparr>wr_buf := wr_buf k @ request_frame L cs\<rparr>"
  have "write_json (jmarshal enc_block_request) k (map (cid_string L) cs) = (Inr (), ?k)"
    using assms by (simp add: write_json_def jmarshal_def write_frame_unlimited fits_frames_def request_frame_def)
  moreover have "read_blocks (length (map (Some \<circ> data) cs)) ?k = (Inr (map (Some \<circ> data) cs), ?k\<lparr>rd_buf := rest\<rparr>)"
    using assms by (intro read_blocks_frames) (auto simp: answers_def fits_frames_def comp_def)
  ultimately show ?thesis using assms(4) by (simp add: fetch_def advance_def)
qed

lemma fetch_x_answers:
  assumes "rd_buf (x_conn x) = answers data [cs] @ rest" "wr_room (x_conn x) = None"
    "fits_frames (cids X) data cs" "cs \<noteq> []"
  shows "fetch_x X cs x = (Inr (map (Some \<circ> data) cs), x\<lparr>x_conn := advance (cids X) [cs] rest (x_conn x)\<rparr>)"
  using fetch_answers [OF assms] by (simp add: fetch_x_def)

text \<open>The handler's output on a list of requests for blocks the seeder has.\<close>

definition seeds :: "'s fstoreops \<Rightarrow> 's \<Rightarrow> os \<Rightarrow> (cid \<Rightarrow> bytes) \<Rightarrow> cid set \<Rightarrow> bool" where
  "seeds F db os data A = (\<forall>c \<in> A. fs_get F db os c = Inr (data c))"

lemma seeder_answers:
  assumes "list_all (good_batch L F db os) qs" "seeds F db os data (set (concat qs))"
    and "rd_buf (st_conn s) = concat (map (request_frame L) qs)"
    and "wr_room (st_conn s) = None" "wr_buf (st_conn s) = []" "\<not> relayed s \<or> relay_bulk"
  shows "wr_buf (st_conn (handle_blocks L F relay_bulk db os s)) = answers data qs"
    and "list_all (fits_frames L data) qs"
proof -
  have a: "block_answer F db os c = Some (data c)" if "c \<in> set (concat qs)" for c
    using that assms(2) by (auto simp: seeds_def block_answer_def)
  then have "map (\<lambda>c. status_frame (block_answer F db os c)) (concat qs) = map (\<lambda>c. status_frame (Some (data c))) (concat qs)"
    by (intro map_cong) auto
  with serve_loop_batches [OF assms(4) refl assms(3,1)] assms(5,6)
  show "wr_buf (st_conn (handle_blocks L F relay_bulk db os s)) = answers data qs"
    by (auto simp: handle_blocks_def answers_def)
  show "list_all (fits_frames L data) qs"
    using assms(1,2) by (fastforce simp: list_all_iff good_batch_def fits_frames_def answerable_def seeds_def)
qed

section \<open>Enumerating the chunks of an honest seeder\<close>

text \<open>The DAG of a file with the bytes of its blocks; \<open>knows\<close> is what of it the puller has.\<close>

definition block_ok :: "('s, 'n) pulllib \<Rightarrow> (cid \<Rightarrow> bytes) \<Rightarrow> cid \<Rightarrow> bool" where
  "block_ok X data c = (cid_hash (cids X) c \<noteq> [] \<and> new_block X (data c) c = Inr ())"

fun good_dag :: "('s, 'n) pulllib \<Rightarrow> (cid \<Rightarrow> bytes) \<Rightarrow> dtree \<Rightarrow> bool" where
  "good_dag X data (DLeaf c) =
     (cid_type (cids X) c = Raw \<and> block_ok X data c \<and> wrap_raw X c (data c) = Inr ())"
| "good_dag X data (DNode c ts) =
     (cid_type (cids X) c \<noteq> Raw \<and> block_ok X data c
      \<and> (case decode_node X c (data c) of Inr nd \<Rightarrow> node_links X nd = map droot ts | Inl _ \<Rightarrow> False)
      \<and> list_all (good_dag X data) ts)"

definition knows :: "('s, 'n) pulllib \<Rightarrow> (cid \<Rightarrow> bytes) \<Rightarrow> cid set \<Rightarrow> cid set \<Rightarrow> 's xst \<Rightarrow> bool" where
  "knows X data N H x = (\<forall>c \<in> N. if c \<in> H then fs_get (fstore X) (x_db x) (x_os x) c = Inr (data c)
     else \<not> ok (fs_get (fstore X) (x_db x) (x_os x) c))"

definition moved :: "cidlib \<Rightarrow> cid list list \<Rightarrow> bytes \<Rightarrow> 's xst \<Rightarrow> 's xst \<Rightarrow> bool" where
  "moved L qs rest x x' = (x_os x' = x_os x \<and> x_conn x' = advance L qs rest (x_conn x))"

abbreviation singles :: "cid list \<Rightarrow> cid list list" where
  "singles \<equiv> map (\<lambda>c. [c])"

lemma moved_refl: "rd_buf (x_conn x) = rest \<Longrightarrow> moved L [] rest x x"
  by (simp add: moved_def)

lemma moved_trans: "moved L a r1 x y \<Longrightarrow> moved L b r2 y z \<Longrightarrow> moved L (a @ b) r2 x z"
  by (simp add: moved_def)

lemma moved_conn:
  "moved L a r x y \<Longrightarrow> rd_buf (x_conn y) = r" "moved L a r x y \<Longrightarrow> wr_room (x_conn y) = wr_room (x_conn x)"
  by (simp_all add: moved_def)

lemma knowsD:
  assumes "knows X data N H x" "c \<in> N"
  shows "c \<in> H \<Longrightarrow> fs_get (fstore X) (x_db x) (x_os x) c = Inr (data c)"
    and "c \<notin> H \<Longrightarrow> \<exists>e. fs_get (fstore X) (x_db x) (x_os x) c = Inl e"
  using assms by (auto simp: knows_def not_ok_iff dest!: bspec split: if_splits)

context read_through
begin

lemma knows_files:
  assumes "knows X data N H x" "\<forall>c \<in> N. cid_type (cids X) c \<noteq> Raw"
  shows "knows X data N H (x\<lparr>x_os := os\<rparr>)"
proof -
  have "fs_get (fstore X) (x_db x) os c = fs_get (fstore X) (x_db x) (x_os x) c" if "c \<in> N" for c
    using assms(2) that by (intro get_files) simp
  with assms(1) show ?thesis by (simp add: knows_def)
qed

text \<open>The read-through store asks for a node exactly when it does not have it, and keeps it.\<close>

lemma rt_get_honest:
  assumes k: "knows X data N H x" and c: "c \<in> N" "cid_type (cids X) c \<noteq> Raw" "block_ok X data c"
    and inj: "inj_on (cid_hash (cids X)) N"
    and io: "rd_buf (x_conn x) = answers data (singles (asks H [c])) @ rest" "wr_room (x_conn x) = None"
      "c \<notin> H \<Longrightarrow> fits_frames (cids X) data [c]"
  shows "\<exists>x'. rt_get X c x = (Inr (data c), x') \<and> moved (cids X) (singles (asks H [c])) rest x x'
    \<and> knows X data N (insert c H) x'"
proof (cases "c \<in> H")
  case True
  with knowsD(1) [OF k c(1)] k io(1) show ?thesis
    by (intro exI [of _ x]) (simp add: rt_get_def insert_absorb moved_def answers_def)
next
  case False
  then obtain e where e: "fs_get (fstore X) (x_db x) (x_os x) c = Inl e" using knowsD(2) [OF k c(1)] by blast
  let ?x = "x\<lparr>x_conn := advance (cids X) [[c]] rest (x_conn x), x_db := snd (fs_put (fstore X) (x_db x) c (data c))\<rparr>"
  have "fetch_x X [c] x = (Inr [Some (data c)], x\<lparr>x_conn := advance (cids X) [[c]] rest (x_conn x)\<rparr>)"
    using fetch_x_answers [of x data "[c]" rest X] io False by simp
  then have g: "rt_get X c x = (Inr (data c), ?x)" using e c by (simp add: rt_get_def block_ok_def)
  have "fs_get (fstore X) (x_db ?x) (x_os ?x) c = Inr (data c)"
    using get_put [OF c(2) _ e] c(3) by (simp add: block_ok_def)
  moreover have "fs_get (fstore X) (x_db ?x) (x_os ?x) c' = fs_get (fstore X) (x_db x) (x_os x) c'"
    if "c' \<in> N" "c' \<noteq> c" for c'
  proof -
    have "cid_hash (cids X) c' \<noteq> cid_hash (cids X) c" using inj_onD [OF inj _ that(1) c(1)] that(2) by blast
    from get_put_other [OF this] show ?thesis by simp
  qed
  ultimately have "knows X data N (insert c H) ?x"
    using k unfolding knows_def by (metis insert_iff)
  with g False show ?thesis by (intro exI [of _ ?x]) (simp add: moved_def)
qed

lemma collect_honest:
  assumes inj: "inj_on (cid_hash (cids X)) N" and small: "\<forall>c \<in> N - H0. fits_frames (cids X) data [c]"
  shows "good_dag X data t \<Longrightarrow> H0 \<subseteq> H \<Longrightarrow> set (dnodes t) \<subseteq> N \<Longrightarrow> dheight t < n \<Longrightarrow>
    length out + length (dleaves t) \<le> maxFileChunks \<Longrightarrow> knows X data N H x \<Longrightarrow> wr_room (x_conn x) = None \<Longrightarrow>
    rd_buf (x_conn x) = answers data (singles (asks H (dnodes t))) @ rest \<Longrightarrow>
    \<exists>x'. collect_leaves n X (droot t) out x = Some (Inr (out @ dleaves t), x')
      \<and> moved (cids X) (singles (asks H (dnodes t))) rest x x' \<and> knows X data N (H \<union> set (dnodes t)) x'"
proof (induction t arbitrary: n out H x rest)
  case (DLeaf c)
  then show ?case by (cases n) (auto simp: moved_def answers_def)
next
  case (DNode c ts)
  obtain m where n: "n = Suc m" using DNode.prems(4) by (cases n) auto
  have links: "\<exists>x'. collect_links m X (map droot us) out x = Some (Inr (out @ concat (map dleaves us)), x')
      \<and> moved (cids X) (singles (asks H (concat (map dnodes us)))) rest x x'
      \<and> knows X data N (H \<union> set (concat (map dnodes us))) x'"
    if "set us \<subseteq> set ts" "H0 \<subseteq> H" "length out + length (concat (map dleaves us)) \<le> maxFileChunks" "knows X data N H x"
      "wr_room (x_conn x) = None" "rd_buf (x_conn x) = answers data (singles (asks H (concat (map dnodes us)))) @ rest"
    for us out H x rest
    using that
  proof (induction us arbitrary: out H x)
    case Nil
    then show ?case by (simp add: moved_def answers_def)
  next
    case (Cons u us)
    let ?r = "answers data (singles (asks (H \<union> set (dnodes u)) (concat (map dnodes us)))) @ rest"
    have u: "u \<in> set ts" using Cons.prems(1) by simp
    have "good_dag X data u" "H0 \<subseteq> H" "set (dnodes u) \<subseteq> N" "dheight u < m"
      using DNode.prems(1,3,4) Cons.prems(2) u n by (auto simp: list_all_iff)
    from DNode.IH [OF u this _ Cons.prems(4,5), of out ?r] Cons.prems(3,6)
    obtain x1 where 1: "collect_leaves m X (droot u) out x = Some (Inr (out @ dleaves u), x1)"
      "moved (cids X) (singles (asks H (dnodes u))) ?r x x1" "knows X data N (H \<union> set (dnodes u)) x1"
      by (auto simp: asks_append)
    from Cons.IH [OF _ _ _ 1(3), of "out @ dleaves u"] Cons.prems(1,2,3,5) moved_conn [OF 1(2)]
    obtain x2 where "collect_links m X (map droot us) (out @ dleaves u) x1
        = Some (Inr ((out @ dleaves u) @ concat (map dleaves us)), x2)"
      "moved (cids X) (singles (asks (H \<union> set (dnodes u)) (concat (map dnodes us)))) rest x1 x2"
      "knows X data N (H \<union> set (dnodes u) \<union> set (concat (map dnodes us))) x2"
      by auto
    with 1 moved_trans [OF 1(2)] show ?case by (auto simp: asks_append Un_assoc)
  qed
  let ?r = "answers data (singles (asks (insert c H) (concat (map dnodes ts)))) @ rest"
  have split: "asks H (dnodes (DNode c ts)) = asks H [c] @ asks (insert c H) (concat (map dnodes ts))"
    using asks_append [of H "[c]" "concat (map dnodes ts)"] by simp
  have c: "c \<in> N" "cid_type (cids X) c \<noteq> Raw" "block_ok X data c" using DNode.prems(1,3) by auto
  have "rd_buf (x_conn x) = answers data (singles (asks H [c])) @ ?r"
    using DNode.prems(8) by (simp only: split map_append answers_append append_assoc)
  from rt_get_honest [OF DNode.prems(6) c inj this DNode.prems(7)] small c(1) DNode.prems(2)
  obtain x1 where 1: "rt_get X c x = (Inr (data c), x1)" "moved (cids X) (singles (asks H [c])) ?r x x1"
    "knows X data N (insert c H) x1" by blast
  obtain nd where nd: "decode_node X c (data c) = Inr nd" "node_links X nd = map droot ts"
    using DNode.prems(1) by (auto split: sum.splits)
  from links [of ts "insert c H" out x1 rest] DNode.prems(2,5,7) 1(3) moved_conn [OF 1(2)]
  obtain x2 where 2: "collect_links m X (map droot ts) out x1 = Some (Inr (out @ concat (map dleaves ts)), x2)"
    "moved (cids X) (singles (asks (insert c H) (concat (map dnodes ts)))) rest x1 x2"
    "knows X data N (insert c H \<union> set (concat (map dnodes ts))) x2" by auto
  have "collect_leaves n X (droot (DNode c ts)) out x = Some (Inr (out @ dleaves (DNode c ts)), x2)"
    using c(2) 1(1) nd 2(1) by (simp add: n dag_get_def)
  with moved_trans [OF 1(2) 2(2)] 2(3) show ?case
    unfolding split by (intro exI [of _ x2]) (simp del: asks.simps)
qed

end

section \<open>An operating system without failures\<close>

definition quiet :: "os \<Rightarrow> bool" where
  "quiet os = (\<forall>k. faults os k = None)"

lemma quiet_env: "env_eq os os' \<Longrightarrow> quiet os' = quiet os"
  by (simp add: env_eq_def quiet_def)

lemma quiet_upd: "fs_upd os q n os' \<Longrightarrow> quiet os' = quiet os"
  by (simp add: fs_upd_def quiet_env)

lemma quiet_close: "quiet os \<Longrightarrow> os_close os q = (Inr (), tick os)"
  by (simp add: quiet_def os_close_def syscall_def)

lemma quiet_write:
  assumes "quiet os" "lookup os q = Some (FFile c m)" "q \<noteq> []"
  shows "\<exists>os'. os_write os q d = (Inr (), os') \<and> fs_upd os q (Some (FFile (c @ d) m)) os'"
proof -
  obtain r os' where w: "os_write os q d = (r, os')" by fastforce
  then have "r = Inr ()" using assms(1) by (simp add: os_write_def quiet_def)
  with w os_write_upd [OF w assms(2,3)] show ?thesis by auto
qed

lemma quiet_create:
  assumes "quiet os" "dir_at os ds" "norm_seg a" "lookup os (ds @ [a]) = None"
  shows "\<exists>os'. os_create os (abs_path (ds @ [a])) mode = (Inr (ds @ [a]), os')
    \<and> fs_upd os (ds @ [a]) (Some (FFile [] mode)) os'"
proof -
  obtain r os' where c: "os_create os (abs_path (ds @ [a])) mode = (r, os')" by fastforce
  then have "ok r"
    using assms resolve_in_dir [OF assms(2,3), of True] parent_ok_in_dir [OF assms(2), of a]
    by (auto simp: os_create_def syscall_def quiet_def)
  with c os_create_fresh [OF c assms(2-4)] show ?thesis by (auto simp: ok_iff)
qed

lemma quiet_rename:
  assumes "quiet os" "dir_at os ds" "norm_seg a" "norm_seg b" "a \<noteq> b"
    "lookup os (ds @ [a]) = Some (FFile d m)" "lookup os (ds @ [b]) \<noteq> Some FDir"
  shows "\<exists>os'. os_rename os (abs_path (ds @ [a])) (abs_path (ds @ [b])) = (Inr (), os')
    \<and> lookup os' = (lookup os)(ds @ [a] := None, ds @ [b] := Some (FFile d m)) \<and> env_eq os os'"
proof -
  obtain r os' where c: "os_rename os (abs_path (ds @ [a])) (abs_path (ds @ [b])) = (r, os')" by fastforce
  then have "ok r"
    using assms resolve_in_dir [OF assms(2,3), of False] resolve_in_dir [OF assms(2,4), of False]
      parent_ok_in_dir [OF assms(2), of b]
    by (auto simp: os_rename_def syscall_def at_path_def quiet_def split: if_splits)
  with c os_rename_in_dir [OF c assms(2-7)] show ?thesis by (auto simp: ok_iff)
qed

lemma quiet_chmod:
  assumes "quiet os" "dir_at os ds" "norm_seg a" "lookup os (ds @ [a]) = Some (FFile d m)"
  shows "\<exists>os'. os_chmod os (abs_path (ds @ [a])) mode = (Inr (), os')
    \<and> fs_upd os (ds @ [a]) (Some (FFile d mode)) os'"
proof -
  obtain r os' where c: "os_chmod os (abs_path (ds @ [a])) mode = (r, os')" by fastforce
  then have "ok r"
    using assms resolve_in_dir [OF assms(2,3), of True] by (auto simp: os_chmod_def syscall_def at_path_def quiet_def)
  with c os_chmod_in_dir [OF c assms(2-4)] show ?thesis by (auto simp: ok_iff)
qed

lemma dirs_added_lookup:
  "dirs_added os ss os' \<Longrightarrow> lookup os q \<in> {None, Some FDir} \<Longrightarrow> lookup os' q \<in> {None, Some FDir}"
  unfolding dirs_added_def by (metis insertCI)

lemma quiet_mkdirs:
  assumes "quiet os" "dir_at os cur" "list_all norm_seg ss"
    and "\<forall>i \<le> length ss. lookup os (cur @ take i ss) \<in> {None, Some FDir}"
  shows "fst (mkdirs os cur ss) = Inr ()"
  using assms
proof (induction ss arbitrary: os cur)
  case (Cons s ss)
  obtain r1 o1 where m: "os_mkdir1 os (abs_path (cur @ [s])) = (r1, o1)" by (meson surj_pair)
  have s: "norm_seg s" "lookup os (cur @ [s]) \<in> {None, Some FDir}"
    using Cons.prems(3,4) by (auto dest: spec [of _ 1])
  have "resolve os f (abs_path (cur @ [s])) = Inr (cur @ [s])" for f
    using s(2) by (intro resolve_in_dir [OF Cons.prems(2) s(1)]) auto
  then have r1: "r1 = Inr ()"
    using m s(2) Cons.prems(1) parent_ok_in_dir [OF Cons.prems(2), of s]
    by (auto simp: os_mkdir1_def syscall_def quiet_def)
  note e = mkdir1_in_dir [OF m Cons.prems(2) s]
  have "lookup o1 ((cur @ [s]) @ take i ss) \<in> {None, Some FDir}" if "i \<le> length ss" for i
    using Cons.prems(4) [rule_format, of "Suc i"] that by (intro dirs_added_lookup [OF conjunct1 [OF e]]) simp
  moreover have "quiet o1" using e Cons.prems(1) quiet_env by (auto simp: dirs_added_def)
  ultimately have "fst (mkdirs o1 (cur @ [s]) ss) = Inr ()"
    using e r1 Cons.prems(3) by (intro Cons.IH) auto
  then show ?case using m r1 by simp
qed simp

lemma quiet_mkdir_all:
  assumes "quiet os" "plain os ss"
  shows "\<exists>os'. os_mkdir_all os (abs_path ss) = (Inr (), os') \<and> dirs_added os ss os' \<and> dir_at os' ss"
proof -
  obtain r os' where m: "os_mkdir_all os (abs_path ss) = (r, os')" by fastforce
  have "r = Inr ()"
    using quiet_mkdirs [of os "[]" ss] m assms by (simp add: os_mkdir_all_def plain_def is_abs_abs_path)
  with m mkdir_all_effect [OF m assms(2)] show ?thesis by simp
qed

section \<open>Downloading from an honest seeder\<close>

context read_through
begin

lemma put_chunk_honest:
  assumes "in_step os q m s" "q \<noteq> []" "quiet os" "good_dag X data (DLeaf c)" "inside blob"
  shows "\<exists>s'. put_chunk X blob q c (data c) s = (Inr (), s') \<and> in_step os q m s'
    \<and> fx_hashed s' = fx_hashed s @ data c \<and> x_conn (fx_x s') = x_conn (fx_x s)"
proof -
  have l: "lookup (fx_os s) q = Some (FFile (fx_hashed s) m)" "quiet (fx_os s)"
    using assms(1,3) quiet_upd [of os q _ "fx_os s"] by (auto simp: in_step_def fs_upd_def)
  obtain os1 where w: "os_write (fx_os s) q (data c) = (Inr (), os1)" using quiet_write [OF l(2,1) assms(2)] by blast
  obtain db1 where "fs_put_ref (fstore X) (x_db (fx_x s)) c (data c) blob (fx_written s) = (Inr (), db1)"
    using put_ref_inside [of c blob] assms(4,5) by (metis block_ok_def good_dag.simps(1) prod.collapse)
  then have reg: "register_filestore_ref (cids X) (fstore X) (wrap_raw X) c (data c) blob (fx_written s) (x_db (fx_x s))
      = (Inr (), db1)"
    using assms(4) by (simp add: register_filestore_ref_def)
  then obtain s' where s': "put_chunk X blob q c (data c) s = (Inr (), s')" "x_conn (fx_x s') = x_conn (fx_x s)"
    using w assms(4) by (simp add: put_chunk_def Let_def block_ok_def)
  with put_chunk_effect [OF s'(1) assms(1,2)] show ?thesis by auto
qed

lemma put_chunks_honest:
  assumes "q \<noteq> []" "quiet os" "inside blob"
  shows "in_step os q m s \<Longrightarrow> \<forall>c \<in> set cs. good_dag X data (DLeaf c) \<Longrightarrow>
    \<exists>s'. put_chunks X blob q (zip cs (map (Some \<circ> data) cs)) s = (Inr (), s') \<and> in_step os q m s'
      \<and> fx_hashed s' = fx_hashed s @ concat (map data cs) \<and> x_conn (fx_x s') = x_conn (fx_x s)"
proof (induction cs arbitrary: s)
  case (Cons c cs)
  obtain s1 where 1: "put_chunk X blob q c (data c) s = (Inr (), s1)" "in_step os q m s1"
    "fx_hashed s1 = fx_hashed s @ data c" "x_conn (fx_x s1) = x_conn (fx_x s)"
    using put_chunk_honest [OF Cons.prems(1) assms(1,2) _ assms(3), of data c] Cons.prems(2) by auto
  with Cons.IH [OF 1(2)] Cons.prems(2) show ?case by auto
qed auto

lemma put_batches_honest:
  assumes "q \<noteq> []" "quiet os" "inside blob"
  shows "in_step os q m s \<Longrightarrow> \<forall>c \<in> set ls. good_dag X data (DLeaf c) \<Longrightarrow>
    list_all (fits_frames (cids X) data) (batches ls) \<Longrightarrow> wr_room (x_conn (fx_x s)) = None \<Longrightarrow>
    rd_buf (x_conn (fx_x s)) = answers data (batches ls) @ rest \<Longrightarrow>
    \<exists>s'. put_batches X f blob q tot cnt ls s = (Inr (), s') \<and> in_step os q m s'
      \<and> fx_hashed s' = fx_hashed s @ concat (map data ls)
      \<and> x_conn (fx_x s') = advance (cids X) (batches ls) rest (x_conn (fx_x s))"
proof (induction ls arbitrary: s rule: batches.induct)
  case (1 ls)
  show ?case
  proof (cases "ls = []")
    case True
    with "1.prems" show ?thesis
      by (simp add: put_batches.simps [of X f blob q tot cnt "[]"] batches.simps [of "[]"] answers_def)
  next
    case False
    let ?b = "take BatchSize ls" and ?ls = "drop BatchSize ls" and ?k = "x_conn (fx_x s)"
    have bs: "batches ls = ?b # batches ?ls" using False by (subst batches.simps) simp
    let ?r = "answers data (batches ?ls) @ rest"
    let ?x = "(fx_x s)\<lparr>x_conn := advance (cids X) [?b] ?r ?k\<rparr>"
    have "rd_buf ?k = answers data [?b] @ ?r"
      using "1.prems"(5) unfolding bs by (subst (asm) answers_Cons) simp
    then have fe: "fetch_x X ?b (fx_x s) = (Inr (map (Some \<circ> data) ?b), ?x)"
      using "1.prems"(3,4) False by (intro fetch_x_answers) (auto simp: bs BatchSize_def)
    have "in_step os q m (s\<lparr>fx_x := ?x\<rparr>)" using "1.prems"(1) by (simp add: in_step_x)
    from put_chunks_honest [OF assms this, of ?b data] "1.prems"(2)
    obtain s1 where pc: "put_chunks X blob q (zip ?b (map (Some \<circ> data) ?b)) (s\<lparr>fx_x := ?x\<rparr>) = (Inr (), s1)"
      "in_step os q m s1" "fx_hashed s1 = fx_hashed s @ concat (map data ?b)" "x_conn (fx_x s1) = advance (cids X) [?b] ?r ?k"
      by (auto dest: in_set_takeD)
    let ?s2 = "s1\<lparr>fx_x := emit \<lparr>pe_type = ''progress'',
      pe_msg = Sprintf ''%s: %d/%d chunks'' [AStr (fm_path f), AInt (int (length (fx_registered s1))), AInt (int cnt)],
      pe_bytes = x_done (fx_x s1), pe_total = tot\<rparr> (fx_x s1)\<rparr>"
    have k2: "x_conn (fx_x ?s2) = advance (cids X) [?b] ?r ?k" "in_step os q m ?s2"
      using pc by (simp_all add: in_step_x) (simp add: emit_def)
    from "1.IH" [OF False k2(2)] "1.prems"(2,3,4) k2(1) obtain s' where
      ih: "put_batches X f blob q tot cnt ?ls ?s2 = (Inr (), s')" "in_step os q m s'"
      "fx_hashed s' = fx_hashed ?s2 @ concat (map data ?ls)"
      "x_conn (fx_x s') = advance (cids X) (batches ?ls) rest (x_conn (fx_x ?s2))"
      by (auto simp: bs dest: in_set_dropD)
    have "put_batches X f blob q tot cnt ls s = (Inr (), s')"
      using False fe pc(1) ih(1) by (simp add: put_batches.simps [of X f blob q tot cnt ls])
    moreover have "fx_hashed s' = fx_hashed s @ concat (map data ls)"
      using ih(3) pc(3) by simp (metis append_take_drop_id concat_append map_append)
    moreover have "x_conn (fx_x s') = advance (cids X) (batches ls) rest ?k"
      using ih(4) k2(1) by (simp add: bs)
    ultimately show ?thesis using ih(2) by blast
  qed
qed

end

lemma finish_honest:
  assumes ins: "in_step os (ds @ [t]) m s" and q: "quiet os"
    and sha: "hex_encode (sha256 X (fx_hashed s)) = fm_sha256 f" and size: "int (length (fx_hashed s)) = fm_size f"
    and len: "fm_size f < 2 ^ 63"
    and d: "dir_at os ds" and nt: "norm_seg t" and nb: "norm_seg b" and tb: "t \<noteq> b"
    and free: "lookup os (ds @ [t]) = None" and nd: "lookup os (ds @ [b]) \<noteq> Some FDir"
  shows "\<exists>os'. finish_file X f (abs_path (ds @ [b])) (abs_path (ds @ [t])) (ds @ [t]) perm s
      = (Inr (), (fx_x s)\<lparr>x_os := os'\<rparr>)
    \<and> lookup os' = (lookup os)(ds @ [b] := Some (FFile (fx_hashed s) perm)) \<and> env_eq os os'"
proof -
  let ?q = "ds @ [t]" let ?b = "ds @ [b]"
  have u0: "fs_upd os ?q (Some (FFile (fx_hashed s) m)) (fx_os s)" using ins by (simp add: in_step_def)
  have c: "os_close (fx_os s) ?q = (Inr (), tick (fx_os s))" using quiet_close quiet_upd [OF u0] q by blast
  have u1: "fs_upd os ?q (Some (FFile (fx_hashed s) m)) (tick (fx_os s))" using fs_upd_fs [OF u0 fs_tick] .
  have d1: "dir_at (tick (fx_os s)) ds" using dir_at_upd [OF u1] d free by simp
  have w: "fx_written s = fm_size f" using ins size len by (simp add: in_step_def wrap64_id)
  have l1: "lookup (tick (fx_os s)) ?q = Some (FFile (fx_hashed s) m)" "lookup (tick (fx_os s)) ?b \<noteq> Some FDir"
    "quiet (tick (fx_os s))"
    using u1 nd tb quiet_upd [OF u1] q by (auto simp: fs_upd_def)
  from quiet_rename [OF l1(3) d1 nt nb tb l1(1,2)] obtain os2 where
    rn: "os_rename (tick (fx_os s)) (abs_path ?q) (abs_path ?b) = (Inr (), os2)"
    "lookup os2 = (lookup (tick (fx_os s)))(?q := None, ?b := Some (FFile (fx_hashed s) m))"
    "env_eq (tick (fx_os s)) os2" by blast
  have e2: "env_eq os os2" using env_eq_trans [OF conjunct2 [OF u1 [unfolded fs_upd_def]] rn(3)] .
  have "dir_at os2 ds" using d1 l1(1,2) unfolding dir_at_def rn(2) by auto
  with quiet_chmod [OF _ this nb] quiet_env [OF e2] q rn(2) obtain os3 where
    ch: "os_chmod os2 (abs_path ?b) perm = (Inr (), os3)" "fs_upd os2 ?b (Some (FFile (fx_hashed s) perm)) os3"
    by auto
  have "lookup os3 = (lookup os)(?b := Some (FFile (fx_hashed s) perm))" "env_eq os os3"
    using ch(2) rn(2) u1 free tb env_eq_trans [OF e2] by (auto simp: fs_upd_def fun_eq_iff)
  then show ?thesis using c sha w rn(1) ch(1) by (auto simp: finish_file_def Let_def)
qed

context read_through
begin

lemma download_honest:
  assumes d: "dir_at (x_os x) ds" and nb: "norm_seg b" and nd: "lookup (x_os x) (ds @ [b]) \<noteq> Some FDir"
    and rnd: "sep \<notin> set (rands (x_os x) (ticks (x_os x)))"
    and free: "lookup (x_os x) (ds @ [b @ ''.part-'' @ rands (x_os x) (ticks (x_os x))]) = None"
    and q: "quiet (x_os x)" and ins: "inside (abs_path (ds @ [b]))"
    and good: "\<forall>c \<in> set ls. good_dag X data (DLeaf c)" and bs: "list_all (fits_frames (cids X) data) (batches ls)"
    and io: "wr_room (x_conn x) = None" "rd_buf (x_conn x) = answers data (batches ls) @ rest"
    and f: "hex_encode (sha256 X (concat (map data ls))) = fm_sha256 f" "int (length (concat (map data ls))) = fm_size f"
      "fm_size f < 2 ^ 63"
  shows "\<exists>x'. download_file X f (abs_path (ds @ [b])) perm tot ls x = (Inr (), x')
    \<and> lookup (x_os x') = (lookup (x_os x))(ds @ [b] := Some (FFile (concat (map data ls)) perm))
    \<and> x_conn x' = advance (cids X) (batches ls) rest (x_conn x)"
proof -
  let ?os = "x_os x" let ?t = "b @ ''.part-'' @ rands ?os (ticks ?os)"
  have nt: "norm_seg ?t" using norm_append [OF nb, of "''.part-'' @ rands ?os (ticks ?os)"] rnd by simp
  have "quiet (tick ?os)" "dir_at (tick ?os) ds" "lookup (tick ?os) (ds @ [?t]) = None"
    using q d free dir_at_cong [OF fs_tick] by (simp_all add: quiet_def)
  from quiet_create [OF this(1,2) nt this(3), of 438] obtain os1 where
    cr: "os_create (tick ?os) (abs_path (ds @ [?t])) 438 = (Inr (ds @ [?t]), os1)"
    "fs_upd (tick ?os) (ds @ [?t]) (Some (FFile [] 438)) os1" by blast
  let ?s0 = "\<lparr>fx_x = x\<lparr>x_os := os1\<rparr>, fx_hashed = [], fx_written = 0, fx_registered = []\<rparr>"
  have "in_step ?os (ds @ [?t]) 438 ?s0" using fs_fs_upd [OF fs_tick cr(2)] by (simp add: in_step_def wrap64_def)
  from put_batches_honest [OF _ q ins this good bs] io obtain s1 where
    pb: "put_batches X f (abs_path (ds @ [b])) (ds @ [?t]) tot (length ls) ls ?s0 = (Inr (), s1)"
    "in_step ?os (ds @ [?t]) 438 s1" "fx_hashed s1 = concat (map data ls)"
    "x_conn (fx_x s1) = advance (cids X) (batches ls) rest (x_conn x)"
    by fastforce
  obtain os' where fin: "finish_file X f (abs_path (ds @ [b])) (abs_path (ds @ [?t])) (ds @ [?t]) perm s1
      = (Inr (), (fx_x s1)\<lparr>x_os := os'\<rparr>)"
    "lookup os' = (lookup ?os)(ds @ [b] := Some (FFile (concat (map data ls)) perm))"
    using finish_honest [OF pb(2) q _ _ f(3) d nt nb _ free nd, of X] f(1,2) pb(3) by auto
  have "download_file X f (abs_path (ds @ [b])) perm tot ls x = (Inr (), (fx_x s1)\<lparr>x_os := os'\<rparr>)"
    using cr(1) pb(1) fin(1) by (simp add: download_file_def rand_suffix_def Let_def abs_path_extend)
  with fin(2) pb(4) show ?thesis by simp
qed

end

lemma length_content:
  "\<forall>c \<in> set ls. length (data c) < MaxFrame \<Longrightarrow> length (concat (map data ls)) \<le> length ls * MaxFrame"
  by (induction ls) (auto simp: add.commute intro!: add_mono)

lemma good_dag_parts:
  "good_dag X data t \<Longrightarrow> \<forall>c \<in> set (dnodes t). cid_type (cids X) c \<noteq> Raw"
  "good_dag X data t \<Longrightarrow> \<forall>c \<in> set (dleaves t). good_dag X data (DLeaf c)"
  by (induction t) (auto simp: list_all_iff)

lemma content_size:
  assumes "list_all (fits_frames L data) (batches ls)" "length ls \<le> maxFileChunks"
  shows "int (length (concat (map data ls))) < 2 ^ 63"
proof -
  have "\<forall>c \<in> set (concat (batches ls)). length (data c) < MaxFrame"
    using assms(1) by (auto simp: list_all_iff fits_frames_def simp del: concat_batches)
  then have "length (concat (map data ls)) \<le> length ls * MaxFrame" by (intro length_content) simp
  also have "\<dots> \<le> maxFileChunks * MaxFrame" using assms(2) by simp
  finally have "length (concat (map data ls)) \<le> 2 ^ 43" by (simp add: maxFileChunks_def MaxFrame_def)
  then show ?thesis by simp
qed

lemma prepare_blobs:
  assumes "quiet os" "plain os ds" "\<not> fst (blob_cached sha f blob os)"
  shows "\<exists>os1 os2. blob_cached sha f blob os = (False, os1) \<and> os_mkdir_all os1 (abs_path ds) = (Inr (), os2)
    \<and> dir_at os2 ds \<and> env_eq os os2 \<and> (\<forall>q. length ds < length q \<longrightarrow> lookup os2 q = lookup os q)"
proof -
  obtain os1 where bc: "blob_cached sha f blob os = (False, os1)"
    using assms(3) by (cases "blob_cached sha f blob os") auto
  note fs1 = blob_cached_spec(1) [OF bc]
  have "quiet os1" "plain os1 ds" using fs1 assms(1,2) quiet_env by (auto simp: same_fs_def plain_def)
  from quiet_mkdir_all [OF this] obtain os2 where
    mk: "os_mkdir_all os1 (abs_path ds) = (Inr (), os2)" "dirs_added os1 ds os2" "dir_at os2 ds" by blast
  have "lookup os2 q = lookup os q" if "length ds < length q" for q
    using dirs_added_outside [OF mk(2) that] fs1 by (simp add: same_fs_def)
  moreover have "env_eq os os2" using fs1 mk(2) env_eq_trans by (auto simp: same_fs_def dirs_added_def)
  ultimately show ?thesis using bc mk(1,3) by blast
qed

text \<open>The manifest entry of a file with the given content.\<close>

definition describes :: "('s, 'n) pulllib \<Rightarrow> file_manifest \<Rightarrow> bytes \<Rightarrow> bool" where
  "describes X f d = (fm_sha256 f \<noteq> [] \<and> hex_encode (sha256 X d) = fm_sha256 f \<and> int (length d) = fm_size f)"

section \<open>Properties\<close>

text \<open>C17: a transfer from an honest seeder completes. The puller reconstructs a non-empty file whose
  DAG the seeder has, over a stream that carries what the seeder's block handler writes; the
  operating system does not fail, and the blob is not there yet. Then reconstruction returns success,
  the blob is the file's content with the manifest's permissions and nothing else under \<open>blobs\<close>
  changed, and the two sides agree: the requests the puller wrote, every missing interior node once and
  then the leaves in batches of 64, are those the handler answered, and all answers were used.\<close>

theorem honest_transfer:
  fixes X :: "('s, 'n) pulllib" and F :: "'p fstoreops" and t :: dtree and data :: "cid \<Rightarrow> bytes"
  defines "content \<equiv> concat (map data (dleaves t))"
  assumes lib: "read_through X inside"
    and dag: "good_dag X data t" "inj_on (cid_hash (cids X)) (set (dnodes t))" "dheight t < n"
      "length (dleaves t) \<le> maxFileChunks"
    and entry: "describes X f content" "fm_size f \<noteq> 0"
    and seeder: "list_all (good_batch (cids X) F db os) (requests H t)" "seeds F db os data (set (dnodes t) \<union> set (dleaves t))"
      "wr_room (st_conn s) = None" "wr_buf (st_conn s) = []" "\<not> relayed s \<or> relay_bulk"
      "rd_buf (st_conn s) = concat (map (request_frame (cids X)) (requests H t))"
    and puller: "knows X data (set (dnodes t)) H x" "wr_room (x_conn x) = None"
      "rd_buf (x_conn x) = wr_buf (st_conn (handle_blocks (cids X) F relay_bulk db os s))"
    and disk: "quiet (x_os x)" "p_blobs p = abs_path ds" "plain (x_os x) ds" "norm_seg (fm_blob f)"
      "inside (blob_path p (fm_blob f))" "lookup (x_os x) (ds @ [fm_blob f]) \<noteq> Some FDir"
      "\<not> fst (blob_cached (sha256 X) f (blob_path p (fm_blob f)) (x_os x))"
      "\<And>k. sep \<notin> set (rands (x_os x) k) \<and> lookup (x_os x) (ds @ [fm_blob f @ ''.part-'' @ rands (x_os x) k]) = None"
  shows "\<exists>x'. reconstruct_file n X p f (droot t) tot x = Some (Inr (), x')
    \<and> lookup (x_os x') (ds @ [fm_blob f]) = Some (FFile content (file_perm f))
    \<and> (\<forall>q. length ds < length q \<longrightarrow> q \<noteq> ds @ [fm_blob f] \<longrightarrow> lookup (x_os x') q = lookup (x_os x) q)
    \<and> x_conn x' = (x_conn x)\<lparr>rd_buf := [], wr_buf := wr_buf (x_conn x) @ rd_buf (st_conn s)\<rparr>"
proof -
  let ?b = "ds @ [fm_blob f]" and ?N = "set (dnodes t)" and ?L = "cids X"
  let ?as = "singles (asks H (dnodes t))"
  have blob: "blob_path p (fm_blob f) = abs_path ?b"
    using join_path_seg [of ds "fm_blob f"] disk(2-4) by (simp add: blob_path_def plain_def)
  have leaves: "dleaves t \<noteq> []" using entry by (auto simp: describes_def content_def)
  have asked: "set (concat (requests H t)) \<subseteq> ?N \<union> set (dleaves t)"
    using set_asks [of H "dnodes t"] by (auto simp: requests_def)
  have "seeds F db os data (set (concat (requests H t)))" using seeder(2) asked by (auto simp: seeds_def)
  note out = seeder_answers [OF seeder(1) this seeder(6,3,4,5)]
  have small: "list_all (fits_frames ?L data) (batches (dleaves t))" "\<forall>c \<in> ?N - H. fits_frames ?L data [c]"
    using out(2) set_asks [of H "dnodes t"] by (simp_all add: requests_def list_all_iff)
  have rd: "rd_buf (x_conn x) = answers data ?as @ answers data (batches (dleaves t))"
    using puller(3) out(1) by (simp add: requests_def)
  obtain os1 os2 where bc: "blob_cached (sha256 X) f (abs_path ?b) (x_os x) = (False, os1)"
    and mk: "os_mkdir_all os1 (abs_path ds) = (Inr (), os2)" "dir_at os2 ds"
    and e2: "env_eq (x_os x) os2" and l2: "\<And>q. length ds < length q \<Longrightarrow> lookup os2 q = lookup (x_os x) q"
    using prepare_blobs [OF disk(1,3,7)] unfolding blob by blast
  let ?x2 = "x\<lparr>x_os := os2\<rparr>"
  have "knows X data ?N H ?x2" by (rule read_through.knows_files [OF lib puller(1) good_dag_parts(1) [OF dag(1)]])
  from read_through.collect_honest [OF lib dag(2) small(2) dag(1) order_refl order_refl dag(3) _ this _, of "[]"]
    dag(4) puller(2) rd
  obtain x3 where cl: "collect_leaves n X (droot t) [] ?x2 = Some (Inr (dleaves t), x3)"
    "moved ?L ?as (answers data (batches (dleaves t))) ?x2 x3" by auto
  have x3: "x_os x3 = os2" "rd_buf (x_conn x3) = answers data (batches (dleaves t))" "wr_room (x_conn x3) = None"
    "quiet os2" "sep \<notin> set (rands os2 (ticks os2))" "lookup os2 ?b \<noteq> Some FDir"
    "lookup os2 (ds @ [fm_blob f @ ''.part-'' @ rands os2 (ticks os2)]) = None"
    using cl(2) moved_conn [OF cl(2)] puller(2) disk(1,6,8) quiet_env [OF e2] e2 l2 by (auto simp: moved_def env_eq_def)
  have big: "fm_size f < 2 ^ 63"
    using content_size [OF small(1) dag(4)] entry(1) by (simp add: describes_def content_def)
  obtain x' where dl: "download_file X f (abs_path ?b) (file_perm f) tot (dleaves t) x3 = (Inr (), x')"
    "lookup (x_os x') = (lookup os2)(?b := Some (FFile content (file_perm f)))"
    "x_conn x' = advance ?L (batches (dleaves t)) [] (x_conn x3)"
    using read_through.download_honest [OF lib, where x = x3 and ds = ds and b = "fm_blob f" and data = data
        and ls = "dleaves t" and rest = "[]" and f = f and perm = "file_perm f" and tot = tot]
      x3 mk(2) disk(4,5) blob good_dag_parts(2) [OF dag(1)] small(1) entry(1) big
    by (simp add: describes_def content_def) blast
  have "reconstruct_file n X p f (droot t) tot x = Some (Inr (), x')"
    using entry bc mk(1) cl(1) dl(1) leaves by (simp add: reconstruct_file_def blob Let_def disk(2) describes_def)
  moreover have "x_conn x' = advance ?L (requests H t) [] (x_conn x)"
    using dl(3) cl(2) by (simp add: moved_def requests_def)
  ultimately show ?thesis using dl(2) l2 seeder(6) by (intro exI [of _ x']) (simp add: advance_def)
qed

section \<open>Two nodes\<close>

lemma hex_encode_Nil [simp]: "hex_encode d = [] \<longleftrightarrow> d = []"
  by (cases d) auto

lemma map_of_emptied: "map_of (filter (\<lambda>(bk, _). fst bk \<noteq> b) xs) (b, k) = None"
  by (induction xs) auto

lemmas node_put_defs = node_blocks_def key_blocks_def bolt_ds_def ds_has_def ds_put_def db_view_def db_update_def
  mem_bolt_def mem_get_def raw_def trim_prefix_def has_prefix_def block_key_def

lemma node_put:
  assumes "cid_hash ref_cids c \<noteq> []"
  shows "fst (bs_put (node_blocks b) db c d) = Inr ()"
    and "mem_get db b (block_key c) = None \<Longrightarrow> mem_get (snd (bs_put (node_blocks b) db c d)) b (block_key c) = Some d"
  using assms by (auto simp: node_put_defs split: bool.split)

lemma node_put_other:
  "k \<noteq> block_key c \<Longrightarrow> mem_get (snd (bs_put (node_blocks b) db c d)) b k = mem_get db b k"
  by (auto simp: node_put_defs map_of_emptied split: bool.split)

lemma node_pull_simps [simp]:
  "cids node_pull = ref_cids" "fstore node_pull = node_fstore" "sha256 node_pull = (\<lambda>d. d)"
  "new_block node_pull = (\<lambda>_ _. Inr ())" "wrap_raw node_pull = (\<lambda>_ _. Inr ())"
  by (simp_all add: node_pull_def)

interpretation node_cache: read_through node_pull "\<lambda>_. True"
  by unfold_locales
     (auto simp: node_fstore_def node_blocks_get node_put node_put_other block_key_inj split: option.splits)

text \<open>A seeder with a two-level DAG of one chunk, and a puller with an empty database.\<close>

definition demo_root :: cid where "demo_root = map char_of [1, 112, 0, 2 :: nat]"

definition demo_data :: "cid \<Rightarrow> bytes" where
  "demo_data c = (if c = demo_root then ''L'' @ demo_leaf else ''hi'')"

definition seeder_db :: memdb where
  "seeder_db = ([BucketBlocks], map (\<lambda>c. ((BucketBlocks, block_key c), demo_data c)) [demo_root, demo_leaf])"

definition demo_dag :: dtree where "demo_dag = DNode demo_root [DLeaf demo_leaf]"

definition demo_requests :: bytes where
  "demo_requests = concat (map (request_frame ref_cids) [[demo_root], [demo_leaf]])"

definition demo_puller :: "memdb xst" where
  "demo_puller = \<lparr>x_db = empty_db, x_os = empty_os, x_conn = fresh_conn (wr_buf (st_conn
     (handle_blocks ref_cids node_fstore False seeder_db empty_os (block_stream demo_requests)))),
     x_done = 0, x_events = []\<rparr>"

lemma demo_asks: "requests {} demo_dag = [[demo_root], [demo_leaf]]"
  by (simp add: requests_def demo_dag_def batches.simps BatchSize_def)

lemma demo_good: "good_dag node_pull demo_data demo_dag"
  by (simp add: demo_dag_def block_ok_def ref_cids_def demo_root_def demo_leaf_def Raw_def demo_data_def
      node_pull_def node_boxo_def)

lemma demo_seeds: "seeds node_fstore seeder_db empty_os demo_data {demo_root, demo_leaf}"
  by (simp add: seeds_def node_fstore_def node_blocks_get mem_get_def seeder_db_def block_key_inj ref_cids_def
      demo_root_def demo_leaf_def)

lemma demo_batches: "list_all (good_batch ref_cids node_fstore seeder_db empty_os) [[demo_root], [demo_leaf]]"
proof -
  have len: "length (json_print (enc_block_request (map (cid_string ref_cids) [c]))) < 1000"
    if "c \<in> {demo_root, demo_leaf}" for c
    using that by (elim insertE emptyE; simp only:) code_simp+
  have "valid_utf8 (cid_string ref_cids c)" if "c \<in> {demo_root, demo_leaf}" for c
    using that by (auto simp: ref_cids_def hex_digit_def demo_root_def demo_leaf_def intro!: ascii_utf8)
  moreover have "cid_decode ref_cids (cid_string ref_cids c) = Inr c" if "c \<in> {demo_root, demo_leaf}" for c
    by (rule ref_decode_string)
  moreover have "length (demo_data c) < MaxFrame" for c by (simp add: demo_data_def demo_leaf_def MaxFrame_def)
  then have "answerable node_fstore seeder_db empty_os c" if "c \<in> {demo_root, demo_leaf}" for c
    using that demo_seeds by (auto simp: seeds_def answerable_def)
  ultimately show ?thesis using len [of demo_root] len [of demo_leaf]
    by (simp add: good_batch_def maxBlockBatch_def MaxFrame_def)
qed

lemma demo_disk:
  "lookup empty_os q = (if q = [] then Some FDir else None)" "plain empty_os [''b'']" "rands empty_os k = ''x''"
  "quiet empty_os" "p_blobs snap_paths = abs_path [''b'']" "norm_seg ''abc''"
  "\<not> fst (blob_cached (\<lambda>d. d) demo_file (blob_path snap_paths ''abc'') empty_os)"
proof -
  show l: "lookup empty_os q = (if q = [] then Some FDir else None)" for q by (simp add: empty_os_def lookup_def)
  then show "plain empty_os [''b'']" by (auto simp: plain_def norm_seg_def le_Suc_eq)
  show "p_blobs snap_paths = abs_path [''b'']" by (simp add: snap_paths_def abs_path_def)
  show "\<not> fst (blob_cached (\<lambda>d. d) demo_file (blob_path snap_paths ''abc'') empty_os)" by code_simp
qed (simp_all add: quiet_def empty_os_def norm_seg_def)

theorem honest_transfer_witness:
  "\<exists>x'. reconstruct_file 2 node_pull snap_paths demo_file demo_root 2 demo_puller = Some (Inr (), x')
     \<and> lookup (x_os x') [''b'', ''abc''] = Some (FFile ''hi'' 420)
     \<and> wr_buf (x_conn x') = demo_requests"
proof -
  have f: "fm_blob demo_file = ''abc''" "fm_size demo_file = 2" "fm_sha256 demo_file = hex_encode ''hi''"
    "file_perm demo_file = 420"
    by (simp_all add: demo_file_def sample_manifest_def file_perm_def)
  have d: "set (dnodes demo_dag) = {demo_root}" "dleaves demo_dag = [demo_leaf]" "droot demo_dag = demo_root"
    "dheight demo_dag = 1" by (simp_all add: demo_dag_def)
  have c: "concat (map demo_data (dleaves demo_dag)) = ''hi''"
    by (simp add: d demo_data_def demo_root_def demo_leaf_def)
  have k: "knows node_pull demo_data {demo_root} {} demo_puller"
    by (simp add: knows_def node_fstore_def node_blocks_get demo_puller_def empty_db_def mem_get_def)
  have "describes node_pull demo_file (concat (map demo_data (dleaves demo_dag)))"
    by (simp add: c describes_def f)
  note t = honest_transfer [OF node_cache.read_through_axioms demo_good _ _ _ this, where n = 2 and F = node_fstore
      and db = seeder_db and os = empty_os and H = "{}" and s = "block_stream demo_requests" and relay_bulk = False
      and x = demo_puller and p = snap_paths and ds = "[''b'']" and tot = 2]
  have x: "x_os demo_puller = empty_os" "wr_room (x_conn demo_puller) = None" "wr_buf (x_conn demo_puller) = []"
    "rd_buf (x_conn demo_puller) = wr_buf (st_conn (handle_blocks ref_cids node_fstore False seeder_db empty_os
      (block_stream demo_requests)))"
    by (simp_all add: demo_puller_def fresh_conn_def)
  have s: "wr_room (st_conn (block_stream r)) = None" "wr_buf (st_conn (block_stream r)) = []"
    "rd_buf (st_conn (block_stream r)) = r" "\<not> relayed (block_stream r)" for r
    by (simp_all add: block_stream_def fresh_conn_def relayed_def)
  from t k demo_disk demo_batches demo_seeds obtain x' where
    "reconstruct_file 2 node_pull snap_paths demo_file demo_root 2 demo_puller = Some (Inr (), x')"
    "lookup (x_os x') [''b'', ''abc''] = Some (FFile ''hi'' 420)"
    "x_conn x' = (x_conn demo_puller)\<lparr>rd_buf := [], wr_buf := demo_requests\<rparr>"
    by (simp add: demo_asks d c [unfolded d(2)] f x s maxFileChunks_def demo_requests_def [symmetric] Un_commute
        del: map_append concat.simps list.map) blast
  then show ?thesis by simp
qed

end
