(* ===== verification/Hfapi.thy ===== *)
theory Hfapi
  imports Json HfPaths
begin

text \<open>
  \<open>internal/hfapi/hfapi.go\<close>: the client of the Hugging Face Hub API. The HTTP transport is the argument
  \<open>srv\<close>: an arbitrary answer to a request, so every server, status, body and transport failure is
  covered. Every call returns, beside its result, the requests it sent, so that what leaves the machine
  can be stated; the redirects that \<open>http.Client\<close> follows by itself belong to the transport. A response body arrives in arbitrary pieces and may end in an error. The idle watchdog of
  \<open>Download\<close> appears as such an error. \<open>url.PathEscape\<close> is written out.
\<close>

section \<open>Requests and responses\<close>

record http_req =
  rq_url :: string
  rq_accept :: bool
  rq_auth :: "string option"

record http_resp =
  rs_status :: nat
  rs_chunks :: "bytes list"
  rs_err :: "goerr option"

type_synonym transport = "http_req \<Rightarrow> http_resp res"

record lfs_info =
  l_sha256 :: string
  l_size :: int
  l_pointer :: int

record sibling =
  s_name :: string
  s_blob :: string
  s_size :: int
  s_lfs :: "lfs_info option"

record repo_info =
  ri_id :: string
  ri_sha :: string
  ri_siblings :: "sibling list"

record tree_entry =
  te_path :: string
  te_type :: string
  te_oid :: string
  te_size :: int
  te_lfs :: "lfs_info option"
  te_xet :: string

record client =
  endpoint :: string
  token :: string

definition new_client :: "string \<Rightarrow> client" where
  "new_client ep = \<lparr>endpoint = trim_right ep ''/'', token = []\<rparr>"

section \<open>Escaping\<close>

text \<open>\<open>url.PathEscape\<close>: unreserved characters and the sub-delimiters a path segment may hold stay.\<close>

definition path_literal :: "char \<Rightarrow> bool" where
  "path_literal c =
     (let n = of_char c :: nat in
      48 \<le> n \<and> n \<le> 57 \<or> 65 \<le> n \<and> n \<le> 90 \<or> 97 \<le> n \<and> n \<le> 122 \<or> c \<in> set ''-_.~$&+=:@'')"

definition upper_hex :: "nat \<Rightarrow> char" where
  "upper_hex n = (if n < 10 then char_of (48 + n) else char_of (55 + n))"

definition percent :: "char \<Rightarrow> string" where
  "percent c = [CHR ''%'', upper_hex (of_char c div 16), upper_hex (of_char c mod 16)]"

fun path_escape :: "string \<Rightarrow> string" where
  "path_escape [] = []"
| "path_escape (c # s) = (if path_literal c then [c] else percent c) @ path_escape s"

definition escape_segment :: "string \<Rightarrow> string" where
  "escape_segment s =
     (if s = ''.'' then ''%2E'' else if s = ''..'' then ''%2E%2E'' else path_escape s)"

definition escape_path :: "string \<Rightarrow> string" where
  "escape_path p = join_with ''/'' (map escape_segment (split_on (CHR ''/'') p))"

definition snippet :: "bytes \<Rightarrow> string" where
  "snippet b =
     (let s = trim_space b
      in if length s > 200 then take 200 s @ map char_of [0xE2, 0x80, 0xA6 :: nat] else s)"

section \<open>Decoding\<close>

definition dec_lfs :: "lfs_info option \<Rightarrow> json \<Rightarrow> lfs_info option res" where
  "dec_lfs old v =
     (if v = JNull then Inr None
      else let l = (case old of Some l \<Rightarrow> l | None \<Rightarrow> \<lparr>l_sha256 = [], l_size = 0, l_pointer = 0\<rparr>) in
        bind_res (fold_members v) (\<lambda>ms.
        bind_res (get_field dec_str (Inr (l_sha256 l)) ''sha256'' ms) (\<lambda>sh.
        bind_res (get_field dec_int64 (Inr (l_size l)) ''size'' ms) (\<lambda>sz.
        bind_res (get_field dec_int64 (Inr (l_pointer l)) ''pointersize'' ms) (\<lambda>ps.
          Inr (Some \<lparr>l_sha256 = sh, l_size = sz, l_pointer = ps\<rparr>))))))"

definition dec_sibling :: "json \<Rightarrow> sibling res" where
  "dec_sibling v =
     bind_res (fold_members v) (\<lambda>ms.
     bind_res (str_field ''rfilename'' ms) (\<lambda>nm.
     bind_res (str_field ''blobid'' ms) (\<lambda>b.
     bind_res (int64_field ''size'' ms) (\<lambda>sz.
     bind_res (get_field dec_lfs (Inr None) ''lfs'' ms) (\<lambda>l.
       Inr \<lparr>s_name = nm, s_blob = b, s_size = sz, s_lfs = l\<rparr>)))))"

definition dec_repo_info :: "json \<Rightarrow> repo_info res" where
  "dec_repo_info v =
     bind_res (fold_members v) (\<lambda>ms.
     bind_res (str_field ''id'' ms) (\<lambda>i.
     bind_res (str_field ''sha'' ms) (\<lambda>sh.
     bind_res (get_field (dec_list dec_sibling) (Inr []) ''siblings'' ms) (\<lambda>ss.
       Inr \<lparr>ri_id = i, ri_sha = sh, ri_siblings = ss\<rparr>))))"

definition dec_tree_entry :: "json \<Rightarrow> tree_entry res" where
  "dec_tree_entry v =
     bind_res (fold_members v) (\<lambda>ms.
     bind_res (str_field ''path'' ms) (\<lambda>p.
     bind_res (str_field ''type'' ms) (\<lambda>t.
     bind_res (str_field ''oid'' ms) (\<lambda>d.
     bind_res (int64_field ''size'' ms) (\<lambda>sz.
     bind_res (get_field dec_lfs (Inr None) ''lfs'' ms) (\<lambda>l.
     bind_res (str_field ''xethash'' ms) (\<lambda>x.
       Inr \<lparr>te_path = p, te_type = t, te_oid = d, te_size = sz, te_lfs = l, te_xet = x\<rparr>)))))))"

definition dec_tree_entries :: "json \<Rightarrow> tree_entry list res" where
  "dec_tree_entries v = dec_list dec_tree_entry [] v"

section \<open>Reading a body\<close>

text \<open>\<open>io.LimitReader\<close> on the pieces of a body; whether the limit cut the stream off.\<close>

fun limit_chunks :: "nat \<Rightarrow> bytes list \<Rightarrow> bytes list" where
  "limit_chunks n [] = []"
| "limit_chunks n (c # cs) =
     (if n = 0 then [] else take n c # limit_chunks (n - length c) cs)"

definition read_limited :: "nat \<Rightarrow> http_resp \<Rightarrow> bytes res" where
  "read_limited n resp =
     (let body = concat (rs_chunks resp) in
      if n \<le> length body then Inr (take n body)
      else case rs_err resp of None \<Rightarrow> Inr body | Some e \<Rightarrow> Inl e)"

section \<open>Calls\<close>

definition attach_auth :: "client \<Rightarrow> http_req \<Rightarrow> http_req" where
  "attach_auth c rq = (if token c = [] then rq else rq\<lparr>rq_auth := Some (''Bearer '' @ token c)\<rparr>)"

definition repo_info_url :: "client \<Rightarrow> string \<Rightarrow> repotype \<Rightarrow> string \<Rightarrow> bool \<Rightarrow> string" where
  "repo_info_url c r t revision blobs =
     (let flag = (if blobs then ''true'' else ''false'') in
      if revision = [] then endpoint c @ ''/api/'' @ api_path t @ ''/'' @ escape_path r @ ''?blobs='' @ flag
      else endpoint c @ ''/api/'' @ api_path t @ ''/'' @ escape_path r @ ''/revision/''
           @ escape_path revision @ ''?blobs='' @ flag)"

text \<open>The request, its answer and the body of a metadata call. \<open>http.NewRequest\<close> fails on a URL that
  does not parse, the argument \<open>url_ok\<close>.\<close>

definition get_metadata :: "(string \<Rightarrow> unit res) \<Rightarrow> transport \<Rightarrow> client \<Rightarrow> nat \<Rightarrow> string \<Rightarrow>
  bytes res \<times> http_req list" where
  "get_metadata url_ok srv c limit url =
     (case url_ok url of
        Inl e \<Rightarrow> (Inl e, [])
      | Inr _ \<Rightarrow>
          (let rq = attach_auth c \<lparr>rq_url = url, rq_accept = True, rq_auth = None\<rparr>
           in (case srv rq of
                 Inl e \<Rightarrow> Inl (Wrapf ''GET %s: %w'' [AStr url] e)
               | Inr resp \<Rightarrow>
                   (case read_limited limit resp of
                      Inl e \<Rightarrow> Inl (Wrapf ''read %s response: %w'' [AStr url] e)
                    | Inr body \<Rightarrow>
                        if rs_status resp \<noteq> 200
                        then Inl (Errorf ''GET %s: HTTP %d: %s''
                                    [AStr url, AInt (int (rs_status resp)), AStr (snippet body)])
                        else Inr body),
               [rq])))"

definition repo_info_at ::
  "(string \<Rightarrow> unit res) \<Rightarrow> transport \<Rightarrow> client \<Rightarrow> string \<Rightarrow> repotype \<Rightarrow> string \<Rightarrow> bool \<Rightarrow>
     repo_info res \<times> http_req list" where
  "repo_info_at url_ok srv c r t revision blobs =
     (let url = repo_info_url c r t revision blobs in
      case get_metadata url_ok srv c (8 * 2 ^ 20) url of
        (answer, sent) \<Rightarrow> (bind_res answer (\<lambda>body.
        case unmarshal dec_repo_info body of
          Inl e \<Rightarrow> Inl (Wrapf ''decode %s response: %w'' [AStr url] e)
        | Inr info \<Rightarrow>
            if length (ri_sha info) \<noteq> 40
            then Inl (Errorf ''%s returned no usable commit hash (sha=%q)'' [AStr r, AStr (ri_sha info)])
            else (case hex_decode (ri_sha info) of
                    Inl _ \<Rightarrow> Inl (Errorf ''%s returned a non-hex commit hash (sha=%q)''
                                   [AStr r, AStr (ri_sha info)])
                  | Inr _ \<Rightarrow> Inr info)), sent))"

definition repo_info_latest ::
  "(string \<Rightarrow> unit res) \<Rightarrow> transport \<Rightarrow> client \<Rightarrow> string \<Rightarrow> repotype \<Rightarrow> bool \<Rightarrow> repo_info res \<times> http_req list" where
  "repo_info_latest url_ok srv c r t blobs = repo_info_at url_ok srv c r t [] blobs"

definition latest_commit ::
  "(string \<Rightarrow> unit res) \<Rightarrow> transport \<Rightarrow> client \<Rightarrow> string \<Rightarrow> repotype \<Rightarrow> string res \<times> http_req list" where
  "latest_commit url_ok srv c r t =
     (case repo_info_latest url_ok srv c r t False of
        (Inl e, sent) \<Rightarrow> (Inl e, sent)
      | (Inr info, sent) \<Rightarrow> (Inr (ri_sha info), sent))"

definition tree_at ::
  "(string \<Rightarrow> unit res) \<Rightarrow> transport \<Rightarrow> client \<Rightarrow> string \<Rightarrow> repotype \<Rightarrow> string \<Rightarrow>
     tree_entry list res \<times> http_req list" where
  "tree_at url_ok srv c r t revision =
     (let url = endpoint c @ ''/api/'' @ api_path t @ ''/'' @ escape_path r @ ''/tree/''
                @ escape_path revision @ ''?recursive=true'' in
      case get_metadata url_ok srv c (32 * 2 ^ 20) url of
        (answer, sent) \<Rightarrow> (bind_res answer (\<lambda>body.
        case unmarshal dec_tree_entries body of
          Inl e \<Rightarrow> Inl (Wrapf ''decode %s response: %w'' [AStr url] e)
        | Inr all_entries \<Rightarrow> Inr (filter (\<lambda>e. te_type e \<noteq> ''directory'') all_entries)), sent))"

definition resolve_url :: "client \<Rightarrow> string \<Rightarrow> repotype \<Rightarrow> string \<Rightarrow> string \<Rightarrow> string" where
  "resolve_url c r t revision p =
     endpoint c @ ''/'' @ (if t \<noteq> Model then api_path t @ ''/'' else []) @ escape_path r
       @ ''/resolve/'' @ escape_path revision @ ''/'' @ escape_path p"

text \<open>\<open>io.Copy\<close> of the pieces to a writer \<open>wr\<close> with state; the result counts the bytes written.\<close>

fun copy_chunks :: "(bytes \<Rightarrow> 'w \<Rightarrow> unit res \<times> 'w) \<Rightarrow> bytes list \<Rightarrow> int \<Rightarrow> 'w \<Rightarrow> int res \<times> 'w" where
  "copy_chunks wr [] n w = (Inr n, w)"
| "copy_chunks wr (c # cs) n w =
     (case wr c w of
        (Inl e, w1) \<Rightarrow> (Inl e, w1)
      | (Inr _, w1) \<Rightarrow> copy_chunks wr cs (n + int (length c)) w1)"

definition download ::
  "(string \<Rightarrow> unit res) \<Rightarrow> transport \<Rightarrow> client \<Rightarrow> string \<Rightarrow> repotype \<Rightarrow> string \<Rightarrow> string \<Rightarrow> int \<Rightarrow>
     (bytes \<Rightarrow> 'w \<Rightarrow> unit res \<times> 'w) \<Rightarrow> 'w \<Rightarrow> int res \<times> 'w \<times> http_req list" where
  "download url_ok srv c r t revision p max_bytes wr w =
     (let u = resolve_url c r t revision p in
      case url_ok u of
        Inl e \<Rightarrow> (Inl e, w, [])
      | Inr _ \<Rightarrow> let rq = attach_auth c \<lparr>rq_url = u, rq_accept = False, rq_auth = None\<rparr> in
          (case srv rq of
             Inl e \<Rightarrow> (Inl (Wrapf ''GET %s: %w'' [AStr u] e), w, [rq])
           | Inr resp \<Rightarrow>
               if rs_status resp \<noteq> 200
               then (Inl (Errorf ''GET %s: HTTP %d: %s'' [AStr u, AInt (int (rs_status resp)),
                            AStr (snippet (take 4096 (concat (rs_chunks resp))))]), w, [rq])
               else let limited = max_bytes \<ge> 0;
                        limit = nat (wrap64 (max_bytes + 1));
                        cs = (if limited then limit_chunks limit (rs_chunks resp) else rs_chunks resp);
                        cut = limited \<and> limit \<le> length (concat (rs_chunks resp))
                    in case copy_chunks wr cs 0 w of
                         (Inl e, w1) \<Rightarrow> (Inl e, w1, [rq])
                       | (Inr n, w1) \<Rightarrow>
                           (case (if cut then None else rs_err resp) of
                              Some e \<Rightarrow> (Inl e, w1, [rq]) | None \<Rightarrow> (Inr n, w1, [rq]))))"

section \<open>Escaped paths\<close>

text \<open>Percent-decoding of a segment, as a server does it.\<close>

fun percent_decode :: "string \<Rightarrow> string" where
  "percent_decode (c # a # b # s) =
     (if c = CHR ''%''
      then char_of (16 * the (from_hex_char a) + the (from_hex_char b)) # percent_decode s
      else c # percent_decode (a # b # s))"
| "percent_decode s = s"

lemma percent_decode_literal: "c \<noteq> CHR ''%'' \<Longrightarrow> percent_decode (c # s) = c # percent_decode s"
  by (cases s; cases "tl s") auto

lemma from_hex_upper: "n < 16 \<Longrightarrow> from_hex_char (upper_hex n) = Some n"
  by (auto simp: from_hex_char_def upper_hex_def Let_def)

lemma percent_decode_percent: "percent_decode (percent c @ s) = c # percent_decode s"
proof -
  have n: "of_char c div 16 < (16::nat)" "of_char c mod 16 < (16::nat)"
    using nat_of_char_less_256 [of c] by (auto simp: div_less_iff_less_mult)
  show ?thesis
    by (simp add: percent_def from_hex_upper [OF n(1)] from_hex_upper [OF n(2)])
qed

lemma path_literal_not_percent: "path_literal c \<Longrightarrow> c \<noteq> CHR ''%''"
  by (auto simp: path_literal_def Let_def)

lemma percent_decode_escape: "percent_decode (path_escape s @ r) = s @ percent_decode r"
  by (induction s) (auto simp: percent_decode_literal percent_decode_percent path_literal_not_percent)

lemma percent_decode_segment: "percent_decode (escape_segment s) = s"
proof -
  have "percent_decode ''%2E'' = ''.''" "percent_decode ''%2E%2E'' = ''..''"
    by (simp_all add: from_hex_char_def char_of_def bit_0)
  then show ?thesis
    using percent_decode_escape [of s "[]"] by (simp add: escape_segment_def)
qed

lemma upper_hex_literal: "n < 16 \<Longrightarrow> path_literal (upper_hex n)"
  by (auto simp: path_literal_def upper_hex_def Let_def)

lemma escape_segment_chars: "\<forall>c \<in> set (escape_segment s). path_literal c \<or> c = CHR ''%''"
proof -
  have "\<forall>c \<in> set (percent d). path_literal c \<or> c = CHR ''%''" for d
    using nat_of_char_less_256 [of d] upper_hex_literal
    by (auto simp: percent_def div_less_iff_less_mult)
  then have "\<forall>c \<in> set (path_escape s). path_literal c \<or> c = CHR ''%''"
    by (induction s) auto
  then show ?thesis by (auto simp: escape_segment_def path_literal_def)
qed

lemma escape_segment_not_dots: "escape_segment s \<noteq> ''.'' \<and> escape_segment s \<noteq> ''..''"
proof -
  have "path_escape s \<noteq> ''.'' \<and> path_escape s \<noteq> ''..''" if "s \<noteq> ''.''" "s \<noteq> ''..''"
    using percent_decode_escape [of s "[]"] that by auto
  then show ?thesis by (auto simp: escape_segment_def)
qed

section \<open>Properties\<close>

text \<open>C19: a path that goes into a request URL keeps its meaning: the server sees the same number of
  segments, each decoding to the original one, and none of them is a dot segment, opens a query or a
  fragment, or starts a new segment, so no repository id, revision or file name can redirect the
  request that carries the token.\<close>

theorem escape_path_faithful:
  "map percent_decode (split_on (CHR ''/'') (escape_path p)) = split_on (CHR ''/'') p
   \<and> (\<forall>s \<in> set (split_on (CHR ''/'') (escape_path p)).
        s \<noteq> ''.'' \<and> s \<noteq> ''..'' \<and> set s \<inter> set ''?#/ '' = {})"
proof -
  have no: "CHR ''/'' \<notin> set (escape_segment s)" "set (escape_segment s) \<inter> set ''?#/ '' = {}" for s
    using escape_segment_chars [of s] by (auto simp: path_literal_def)
  have split: "split_on (CHR ''/'') (escape_path p) = map escape_segment (split_on (CHR ''/'') p)"
    unfolding escape_path_def
    by (rule split_on_join) (auto simp: no)
  show ?thesis
    using no(2) escape_segment_not_dots by (auto simp: split percent_decode_segment comp_def)
qed

theorem escape_path_faithful_witness:
  "map percent_decode (split_on (CHR ''/'') (escape_path ''../a b?c'')) = [''..'', ''a b?c'']
   \<and> ''..'' \<notin> set (split_on (CHR ''/'') (escape_path ''../a b?c''))"
  using escape_path_faithful [of "''../a b?c''"] by auto

lemma concat_limit_chunks: "concat (limit_chunks n cs) = take n (concat cs)"
  by (induction n cs rule: limit_chunks.induct) auto

lemma copy_chunks_log:
  "copy_chunks (\<lambda>d w. (Inr (), w @ d)) cs n w = (Inr (n + int (length (concat cs))), w @ concat cs)"
  by (induction cs arbitrary: n w) auto

text \<open>Whatever the server answers, \<open>Download\<close> hands the writer at most one byte more than the size
  it was told to expect (or nothing), always a prefix of the body, and a positive result is the
  number of bytes written.\<close>

theorem download_bounded:
  assumes "0 \<le> sz" "sz < 2 ^ 63 - 1"
    and "download url_ok srv c r t revision p sz (\<lambda>d w. (Inr (), w @ d)) [] = (res, written, sent)"
  shows "int (length written) \<le> sz + 1
    \<and> (written = [] \<or> (\<exists>rq resp. srv rq = Inr resp \<and> rs_status resp = 200
          \<and> written = take (nat sz + 1) (concat (rs_chunks resp))))
    \<and> (\<forall>n. res = Inr n \<longrightarrow> n = int (length written))"
proof -
  have lim: "nat (wrap64 (sz + 1)) = nat sz + 1" using assms(1,2) by (simp add: wrap64_id nat_add_distrib)
  have len: "int (length (take (nat sz + 1) b)) \<le> sz + 1" for b :: bytes using assms(1) by simp
  let ?rq = "attach_auth c \<lparr>rq_url = resolve_url c r t revision p, rq_accept = False, rq_auth = None\<rparr>"
  consider "written = []" "\<not> ok res"
    | resp where "srv ?rq = Inr resp" "rs_status resp = 200"
        "written = take (nat sz + 1) (concat (rs_chunks resp))" "\<forall>n. res = Inr n \<longrightarrow> n = int (length written)"
  proof (cases "url_ok (resolve_url c r t revision p)"; cases "srv ?rq")
    fix u resp
    assume u: "url_ok (resolve_url c r t revision p) = Inr u" and s: "srv ?rq = Inr resp"
      and no: "written = [] \<Longrightarrow> \<not> ok res \<Longrightarrow> thesis"
      and yes: "\<And>resp. srv ?rq = Inr resp \<Longrightarrow> rs_status resp = 200 \<Longrightarrow>
        written = take (nat sz + 1) (concat (rs_chunks resp)) \<Longrightarrow>
        \<forall>n. res = Inr n \<longrightarrow> n = int (length written) \<Longrightarrow> thesis"
    show thesis
      using assms(1,3) u s no yes [OF s] unfolding download_def Let_def lim
      by (cases "rs_status resp = 200")
         (auto simp: copy_chunks_log concat_limit_chunks split: if_splits option.splits)
  qed (use assms(3) in \<open>auto simp: download_def Let_def\<close>)
  then show ?thesis by cases (use len assms(1) in \<open>auto simp del: take_append length_take\<close>)
qed

theorem download_bounded_witness:
  "\<exists>res written sent. download (\<lambda>_. Inr ()) (\<lambda>_. Inr \<lparr>rs_status = 200, rs_chunks = [''hell'', ''o!''], rs_err = None\<rparr>)
       (new_client ''https://hf.co/'') ''m'' Model ''c'' ''f'' 2 (\<lambda>d w. (Inr (), w @ d)) [] = (res, written, sent)
     \<and> length written \<le> 3"
proof -
  obtain res written sent where d: "download (\<lambda>_. Inr ()) (\<lambda>_. Inr \<lparr>rs_status = 200, rs_chunks = [''hell'', ''o!''], rs_err = None\<rparr>)
       (new_client ''https://hf.co/'') ''m'' Model ''c'' ''f'' 2 (\<lambda>d w. (Inr (), w @ d)) [] = (res, written, sent)"
    by (metis prod_cases3)
  then show ?thesis using download_bounded [OF _ _ d] by auto
qed

text \<open>Only a full commit hash leaves the client.\<close>

lemma repo_info_hex:
  "repo_info_at url_ok srv c r t revision blobs = (Inr info, sent) \<Longrightarrow> length (ri_sha info) = 40 \<and> is_hex (ri_sha info)"
  using hex_decode_ok_iff [of "ri_sha info"]
  by (auto simp: repo_info_at_def Let_def res_iff ok_iff split: sum.splits if_splits prod.splits)

lemma latest_commit_hex:
  "latest_commit url_ok srv c r t = (Inr commit, sent) \<Longrightarrow> length commit = 40 \<and> is_hex commit"
  by (auto simp: latest_commit_def repo_info_latest_def split: sum.splits prod.splits dest: repo_info_hex)

text \<open>What a call may send: a request below the client's endpoint, with no credentials but its token.\<close>

definition own_request :: "client \<Rightarrow> http_req \<Rightarrow> bool" where
  "own_request c rq = ((\<exists>rest. rq_url rq = endpoint c @ ''/'' @ rest)
     \<and> rq_auth rq = (if token c = [] then None else Some (''Bearer '' @ token c)))"

lemma own_request_attach:
  "own_request c (attach_auth c \<lparr>rq_url = endpoint c @ CHR ''/'' # rest, rq_accept = a, rq_auth = None\<rparr>)"
  by (simp add: own_request_def attach_auth_def)

lemma get_metadata_sent:
  assumes "get_metadata url_ok srv c limit (endpoint c @ CHR ''/'' # rest) = (r, sent)"
  shows "list_all (own_request c) sent"
  using assms own_request_attach by (auto simp: get_metadata_def Let_def split: sum.splits)

lemma repo_info_url_own: "\<exists>rest. repo_info_url c r t revision blobs = endpoint c @ CHR ''/'' # rest"
  by (simp add: repo_info_url_def Let_def)

lemma repo_info_sent:
  "repo_info_at url_ok srv c r t revision blobs = (res, sent) \<Longrightarrow> list_all (own_request c) sent"
  using repo_info_url_own [of c r t revision blobs]
  by (auto simp: repo_info_at_def Let_def split: prod.splits dest: get_metadata_sent)

lemma latest_commit_sent: "latest_commit url_ok srv c r t = (res, sent) \<Longrightarrow> list_all (own_request c) sent"
  by (auto simp: latest_commit_def repo_info_latest_def split: sum.splits prod.splits dest: repo_info_sent)

lemma tree_at_sent: "tree_at url_ok srv c r t revision = (res, sent) \<Longrightarrow> list_all (own_request c) sent"
  by (auto simp: tree_at_def Let_def split: prod.splits dest: get_metadata_sent)

lemma resolve_url_own: "\<exists>rest. resolve_url c r t revision p = endpoint c @ CHR ''/'' # rest"
  by (simp add: resolve_url_def)

lemma download_sent:
  "download url_ok srv c r t revision p sz wr w = (res, w', sent) \<Longrightarrow> list_all (own_request c) sent"
  using resolve_url_own [of c r t revision p] own_request_attach [of c]
  by (auto simp: download_def Let_def split: sum.splits if_splits prod.splits option.splits)

end
