(* ===== verification/Ingest.thy ===== *)
theory Ingest
  imports Dummy MappingDb HfCache "HOL-Library.Signed_Division"
begin

text \<open>
  \<open>internal/ingest/ingest.go\<close>: building the DAG of a downloaded revision and recording it. The UnixFS
  importer, the directory builder and the DAG service of boxo are third-party code, the argument
  \<open>X\<close>; what the directory builder promises is the locale \<open>unixfs_dirs\<close>. The file tree is built by
  recursion over directory names with a depth bound; \<open>build_dir_total\<close> shows that the longest path's
  number of segments suffices. \<open>byDir\<close> is a Go map: only its keys and its lookups matter.
\<close>

section \<open>Libraries and state\<close>

text \<open>\<open>layout_file\<close> is the chunker with the balanced layout: it is given the bytes that could be read of the
  open file and, if the last read failed, its error, so it may have stored blocks before it fails.\<close>

record ('s, 'n, 'd) ingestlib =
  i_cids :: cidlib
  layout_file :: "bytes \<Rightarrow> goerr option \<Rightarrow> string \<Rightarrow> int \<Rightarrow> 's \<Rightarrow> 'n res \<times> 's"
  new_dir :: "'d res"
  add_child :: "'d \<Rightarrow> string \<Rightarrow> 'n \<Rightarrow> 's \<Rightarrow> 'd res \<times> 's"
  dir_node :: "'d \<Rightarrow> 'n res"
  dag_add :: "'n \<Rightarrow> 's \<Rightarrow> unit res \<times> 's"
  node_cid :: "'n \<Rightarrow> cid"
  i_sha256 :: "bytes \<Rightarrow> bytes"

record 's iworld =
  iw_db :: 's
  iw_os :: os
  iw_log :: "msg list"

record ingest_result =
  ir_repo :: string
  ir_commit :: string
  ir_actual :: cid
  ir_dummy :: cid
  ir_files :: nat
  ir_chunks :: int
  ir_total :: int

definition dir_of :: "string \<Rightarrow> string" where
  "dir_of rel = (let d = dir rel in if d = ''.'' then [] else d)"

definition human_bytes :: "int \<Rightarrow> fmtarg" where
  "human_bytes b =
     (if b \<ge> 2 ^ 30 then ASprintf ''%.1f GiB'' [AQuot b (2 ^ 30)]
      else if b \<ge> 2 ^ 20 then ASprintf ''%.1f MiB'' [AQuot b (2 ^ 20)]
      else if b \<ge> 2 ^ 10 then ASprintf ''%.1f KiB'' [AQuot b (2 ^ 10)]
      else ASprintf ''%d B'' [AInt b])"

definition short12 :: "string \<Rightarrow> string" where
  "short12 s = (if length s > 12 then take 12 s else s)"

section \<open>Files\<close>

text \<open>The number of chunks of a file. The division panics for a chunk size of zero: no caller recovers from
  that, so the panic passes through \<open>add_files\<close> as it is and \<open>ingest_run\<close> does not return.\<close>

definition chunk_count :: "int \<Rightarrow> int \<Rightarrow> int res" where
  "chunk_count sz chunk =
     (if sz \<le> 0 then Inr 0
      else if chunk = 0 then Inl (GoPanic ''runtime error: integer divide by zero'')
      else Inr (wrap64 (wrap64 (wrap64 (sz + chunk) - 1) sdiv chunk)))"

definition add_file_nocopy ::
  "('s, 'n, 'd) ingestlib \<Rightarrow> int \<Rightarrow> file_manifest \<Rightarrow> 's iworld \<Rightarrow> ('n \<times> int) res \<times> 's iworld" where
  "add_file_nocopy X chunk f w =
     (if fm_src f = [] then (Inl (Errorf ''no source path recorded for %s'' [AStr (fm_path f)]), w)
      else case os_open (iw_os w) (fm_src f) of
             (Inl e, os1) \<Rightarrow> (Inl e, w\<lparr>iw_os := os1\<rparr>)
           | (Inr fh, os1) \<Rightarrow>
               (case file_stat os1 fh of
                  (Inl e, os2) \<Rightarrow> (Inl e, w\<lparr>iw_os := snd (os_close os2 fh)\<rparr>)
                | (Inr fi, os2) \<Rightarrow>
                    (case file_read_all os2 fh of
                       ((content, rerr), os3) \<Rightarrow>
                         (case layout_file X content rerr (fm_src f) chunk (iw_db w) of
                            (r, db1) \<Rightarrow>
                              (bind_res r (\<lambda>root.
                                 bind_res (chunk_count (node_size (fi_node fi)) chunk) (\<lambda>k. Inr (root, k))),
                               w\<lparr>iw_os := snd (os_close os3 fh), iw_db := db1\<rparr>)))))"

section \<open>Directories\<close>

type_synonym by_dir = "(string \<times> file_manifest list) list"

fun add_to_dir :: "string \<Rightarrow> file_manifest \<Rightarrow> by_dir \<Rightarrow> by_dir" where
  "add_to_dir d f [] = [(d, [f])]"
| "add_to_dir d f ((k, v) # m) = (if k = d then (k, v @ [f]) # m else (k, v) # add_to_dir d f m)"

fun add_files ::
  "('s, 'n, 'd) ingestlib \<Rightarrow> int \<Rightarrow> file_manifest list \<Rightarrow> (string \<times> 'n) list \<Rightarrow> by_dir \<Rightarrow> int \<Rightarrow> 's iworld \<Rightarrow>
     ((string \<times> 'n) list \<times> by_dir \<times> int) res \<times> 's iworld" where
  "add_files X chunk [] leaves bd k w = (Inr (leaves, bd, k), w)"
| "add_files X chunk (f # fs) leaves bd k w =
     (case add_file_nocopy X chunk f w of
        (Inl e, w1) \<Rightarrow> (Inl (if is_panic e then e else Wrapf ''add %s: %w'' [AStr (fm_path f)] e), w1)
      | (Inr (leaf, n), w1) \<Rightarrow>
          add_files X chunk fs ((fm_path f, leaf) # leaves) (add_to_dir (dir_of (fm_path f)) f bd)
            (wrap64 (k + n))
            (w1\<lparr>iw_log := iw_log w1 @ [Sprintf ''ingested %s (%d chunks, %s)''
                [AStr (fm_path f), AInt n, human_bytes (fm_size f)]]\<rparr>))"

definition dir_files :: "by_dir \<Rightarrow> string \<Rightarrow> file_manifest list" where
  "dir_files bd d = (case map_of bd d of None \<Rightarrow> [] | Some fs \<Rightarrow> fs)"

definition subdirs :: "by_dir \<Rightarrow> string \<Rightarrow> string list" where
  "subdirs bd d = sort (filter (\<lambda>k. k \<noteq> d \<and> dir_of k = d) (map fst bd))"

fun link_leaves ::
  "('s, 'n, 'd) ingestlib \<Rightarrow> (string \<times> 'n) list \<Rightarrow> file_manifest list \<Rightarrow> 'd \<Rightarrow> 's \<Rightarrow> 'd res \<times> 's" where
  "link_leaves X leaves [] d s = (Inr d, s)"
| "link_leaves X leaves (f # fs) d s =
     (case map_of leaves (fm_path f) of
        None \<Rightarrow> (Inl (Errorf ''missing leaf node for %s'' [AStr (fm_path f)]), s)
      | Some leaf \<Rightarrow>
          (case add_child X d (base (fm_path f)) leaf s of
             (Inl e, s1) \<Rightarrow> (Inl (Wrapf ''link %s: %w'' [AStr (fm_path f)] e), s1)
           | (Inr d1, s1) \<Rightarrow> link_leaves X leaves fs d1 s1))"

fun build_dir ::
  "nat \<Rightarrow> ('s, 'n, 'd) ingestlib \<Rightarrow> by_dir \<Rightarrow> (string \<times> 'n) list \<Rightarrow> string \<Rightarrow> 's \<Rightarrow> ('n res \<times> 's) option"
  and link_subdirs ::
  "nat \<Rightarrow> ('s, 'n, 'd) ingestlib \<Rightarrow> by_dir \<Rightarrow> (string \<times> 'n) list \<Rightarrow> string list \<Rightarrow> 'd \<Rightarrow> 's \<Rightarrow> ('d res \<times> 's) option" where
  "build_dir 0 X bd leaves dn s = None"
| "build_dir (Suc n) X bd leaves dn s =
     (case new_dir X of
        Inl e \<Rightarrow> Some (Inl e, s)
      | Inr d \<Rightarrow>
          (case link_subdirs n X bd leaves (subdirs bd dn) d s of
             None \<Rightarrow> None
           | Some (Inl e, s1) \<Rightarrow> Some (Inl e, s1)
           | Some (Inr d1, s1) \<Rightarrow>
               (case link_leaves X leaves (dir_files bd dn) d1 s1 of
                  (Inl e, s2) \<Rightarrow> Some (Inl e, s2)
                | (Inr d2, s2) \<Rightarrow>
                    (case dir_node X d2 of
                       Inl e \<Rightarrow> Some (Inl e, s2)
                     | Inr root \<Rightarrow>
                         (case dag_add X root s2 of
                            (Inl e, s3) \<Rightarrow> Some (Inl e, s3)
                          | (Inr _, s3) \<Rightarrow> Some (Inr root, s3))))))"
| "link_subdirs n X bd leaves [] d s = Some (Inr d, s)"
| "link_subdirs n X bd leaves (sub # subs) d s =
     (case build_dir n X bd leaves sub s of
        None \<Rightarrow> None
      | Some (Inl e, s1) \<Rightarrow> Some (Inl e, s1)
      | Some (Inr nd, s1) \<Rightarrow>
          (case add_child X d (base sub) nd s1 of
             (Inl e, s2) \<Rightarrow> Some (Inl (Wrapf ''link subdir %s: %w'' [AStr sub] e), s2)
           | (Inr d1, s2) \<Rightarrow> link_subdirs n X bd leaves subs d1 s2))"

definition build_tree ::
  "nat \<Rightarrow> ('s, 'n, 'd) ingestlib \<Rightarrow> int \<Rightarrow> file_manifest list \<Rightarrow> 's iworld \<Rightarrow> (('n \<times> int) res \<times> 's iworld) option" where
  "build_tree n X chunk fs w =
     (case add_files X chunk fs [] [] 0 w of
        (Inl e, w1) \<Rightarrow> Some (Inl e, w1)
      | (Inr (leaves, bd, k), w1) \<Rightarrow>
          (case build_dir n X bd leaves [] (iw_db w1) of
             None \<Rightarrow> None
           | Some (Inl e, db1) \<Rightarrow> Some (Inl e, w1\<lparr>iw_db := db1\<rparr>)
           | Some (Inr root, db1) \<Rightarrow> Some (Inr (root, k), w1\<lparr>iw_db := db1\<rparr>)))"

section \<open>Run\<close>

text \<open>\<open>None\<close> is a run that does not return: the depth bound is too small, or the run panics. \<open>now\<close> is
  the time stamp. The announcement that follows \<open>Put\<close> acts on the network alone and its error
  is only logged: the models of the callers run \<open>provide_commit\<close> on their network state right after a
  successful run.\<close>

definition ingest_run ::
  "nat \<Rightarrow> ('s, 'n, 'd) ingestlib \<Rightarrow> 's maplib \<Rightarrow> int \<Rightarrow> string \<Rightarrow> string \<Rightarrow> repotype \<Rightarrow> string \<Rightarrow> string \<Rightarrow> 's iworld \<Rightarrow>
     (ingest_result res \<times> 's iworld) option" where
  "ingest_run n X M chunk hub r t commit now w =
     (let p = new_paths hub r t in
      case read_snapshot (i_sha256 X) p commit (iw_os w) of
        (Inl e, os1) \<Rightarrow> Some (Inl e, w\<lparr>iw_os := os1\<rparr>)
      | (Inr fs0, os1) \<Rightarrow>
          if fs0 = [] then Some (Inl (Errorf ''snapshot %s of %s contains no files'' [AStr (short12 commit), AStr r]),
                                 w\<lparr>iw_os := os1\<rparr>)
          else (case enrich_from_tree p commit fs0 os1 of
                  (fs1, os2) \<Rightarrow>
                    (case build_tree n X chunk fs1 (w\<lparr>iw_os := os2\<rparr>) of
                       None \<Rightarrow> None
                     | Some (Inl e, w1) \<Rightarrow> if is_panic e then None else Some (Inl e, w1)
                     | Some (Inr (root, k), w1) \<Rightarrow>
                         (case from_commit (i_cids X) commit of
                            Inl e \<Rightarrow> Some (Inl e, w1)
                          | Inr dc \<Rightarrow>
                              (let tot = foldl (\<lambda>a f. wrap64 (a + fm_size f)) 0 fs1;
                                   e = \<lparr>repo_id = r, repo_type = t, commit_hash = commit,
                                        actual_cid = cid_string (i_cids X) (node_cid X root),
                                        dummy_cid = cid_string (i_cids X) dc, files = fs1, total_size = tot,
                                        added_at = now, origin = ''ingest''\<rparr>
                               in case map_put M (iw_db w1) e of
                                    (Inl err, db2) \<Rightarrow>
                                      Some (Inl (Wrapf ''record mapping: %w'' [] err), w1\<lparr>iw_db := db2\<rparr>)
                                  | (Inr _, db2) \<Rightarrow>
                                      Some (Inr \<lparr>ir_repo = r, ir_commit = commit, ir_actual = node_cid X root,
                                                 ir_dummy = dc, ir_files = length fs1, ir_chunks = k,
                                                 ir_total = tot\<rparr>, w1\<lparr>iw_db := db2\<rparr>))))))"

text \<open>\<open>RunRepo\<close>: the second component says whether an ingest was attempted.\<close>

definition run_repo ::
  "nat \<Rightarrow> ('s, 'n, 'd) ingestlib \<Rightarrow> 's maplib \<Rightarrow> int \<Rightarrow> string \<Rightarrow> string \<Rightarrow> repotype \<Rightarrow> string \<Rightarrow> string \<Rightarrow> 's iworld \<Rightarrow>
     (ingest_result option res \<times> bool \<times> 's iworld) option" where
  "run_repo n X M chunk hub r t ref0 now w =
     (let p = new_paths hub r t in
      case current_commit p ref0 (iw_os w) of
        (Inl e, os1) \<Rightarrow> Some (Inl e, False, w\<lparr>iw_os := os1\<rparr>)
      | (Inr commit, os1) \<Rightarrow>
          (case map_has M (iw_db w) commit of
             Inl e \<Rightarrow> Some (Inl e, False, w\<lparr>iw_os := os1\<rparr>)
           | Inr True \<Rightarrow> Some (Inr None, False, w\<lparr>iw_os := os1\<rparr>)
           | Inr False \<Rightarrow>
               (case snapshot_complete p commit os1 of
                  (False, os2) \<Rightarrow>
                    Some (Inl (Errorf ''snapshot %s of %s is not fully downloaded yet''
                                 [AStr (short12 commit), AStr r]), False, w\<lparr>iw_os := os2\<rparr>)
                | (True, os2) \<Rightarrow>
                    (case ingest_run n X M chunk hub r t commit now (w\<lparr>iw_os := os2\<rparr>) of
                       None \<Rightarrow> None
                     | Some (Inl e, w1) \<Rightarrow> Some (Inl e, True, w1)
                     | Some (Inr res, w1) \<Rightarrow> Some (Inr (Some res), True, w1)))))"

section \<open>What a successful ingest records\<close>

lemma total_range: "int64_range (foldl (\<lambda>a f. wrap64 (a + fm_size f)) 0 fs)"
  using wrap64_range by (cases fs rule: rev_cases) (auto simp: int64_range_def)

text \<open>The entry of a successful run: the one its files and its result describe.\<close>

lemma ingest_run_put:
  assumes "ingest_run n X M chunk hub r t commit now w = Some (Inr res, w')"
    and "read_snapshot (i_sha256 X) (new_paths hub r t) commit (iw_os w) = (Inr fs0, os1)"
    and "enrich_from_tree (new_paths hub r t) commit fs0 os1 = (fs, os2)"
  shows "\<exists>db. map_put M db \<lparr>repo_id = r, repo_type = t, commit_hash = commit,
      actual_cid = cid_string (i_cids X) (ir_actual res), dummy_cid = cid_string (i_cids X) (ir_dummy res),
      files = fs, total_size = ir_total res, added_at = now, origin = ''ingest''\<rparr> = (Inr (), iw_db w')"
    and "from_commit (i_cids X) commit = Inr (ir_dummy res)" "int64_range (ir_total res)"
  using assms
  by (auto simp: ingest_run_def Let_def total_range split: if_splits option.splits sum.splits prod.splits)

section \<open>Relative paths\<close>

definition rel_str :: "string list \<Rightarrow> string" where
  "rel_str ss = join_with ''/'' ss"

lemma rel_str_snoc: "ss \<noteq> [] \<Longrightarrow> rel_str (ss @ [x]) = rel_str ss @ sep # x"
proof (induction ss)
  case (Cons a ss)
  then show ?case by (cases "ss = []") (simp_all add: rel_str_def join_with_Cons)
qed simp

lemma rel_str_Nil [simp]: "rel_str [] = []"
  by (simp add: rel_str_def)

lemma rel_str_inj:
  assumes "list_all norm_seg ss" "list_all norm_seg ts"
  shows "rel_str ss = rel_str ts \<longleftrightarrow> ss = ts"
proof -
  have "abs_path ss = abs_path ts \<longleftrightarrow> rel_str ss = rel_str ts" by (simp add: abs_path_def rel_str_def)
  with abs_path_inj [OF assms] show ?thesis by simp
qed

lemma dir_of_rel:
  assumes "list_all norm_seg ss" "norm_seg x"
  shows "dir_of (rel_str (ss @ [x])) = rel_str ss"
proof (cases "ss = []")
  case True
  have "up_to_last_sep x = []"
    using assms(2) by (auto simp: up_to_last_sep_def norm_seg_def dropWhile_eq_Nil_conv)
  with True show ?thesis by (simp add: dir_of_def dir_def clean_def rel_str_def)
next
  case False
  have u: "up_to_last_sep (rel_str (ss @ [x])) = rel_str ss @ [sep]"
    using last_sep_split(1) [of x "rel_str ss"] assms(2) False by (simp add: rel_str_snoc norm_seg_def)
  have sp: "split_on sep (rel_str ss @ [sep]) = ss @ [[]]"
    using split_on_append [of sep "rel_str ss" "[]"] split_join_norm [OF assms(1) False] by (simp add: rel_str_def)
  obtain a r where ss: "ss = a # r" using False by (cases ss) auto
  then obtain c a' where a: "a = c # a'" "c \<noteq> sep" using assms(1) by (cases a) (auto simp: norm_seg_def)
  then have hd: "\<exists>t. rel_str ss = c # t" by (cases r) (auto simp: ss rel_str_def)
  then have na: "\<not> is_abs (rel_str ss @ [sep])" using a(2) by (auto simp: is_abs_def has_prefix_def)
  have "rel_str ss \<noteq> ''.''"
  proof
    assume "rel_str ss = ''.''"
    then have "ss = [''.'']" using split_join_norm [OF assms(1) False] by (simp add: rel_str_def)
    with assms(1) show False by (simp add: norm_seg_def)
  qed
  with hd na show ?thesis
    using clean_aux_norm [OF assms(1), of False "[]" "[[]]"]
    by (auto simp: dir_of_def dir_def u clean_def sp Let_def rel_str_def [symmetric])
qed

lemma base_rel:
  assumes "norm_seg x"
  shows "base (rel_str (ss @ [x])) = x"
proof -
  have tr: "trim_right (p @ x) ''/'' = p @ x" for p
    using assms by (cases x rule: rev_cases) (auto simp: trim_right_def norm_seg_def)
  show ?thesis
  proof (cases "ss = []")
    case True
    have "takeWhile (\<lambda>c. c \<noteq> sep) (rev x) = rev x"
      using assms by (auto simp: takeWhile_eq_all_conv norm_seg_def)
    then have "after_last_sep x = x" unfolding after_last_sep_def by (simp only: rev_rev_ident)
    with True tr [of "[]"] assms show ?thesis by (simp add: base_def rel_str_def norm_seg_def Let_def)
  next
    case False
    with tr [of "rel_str ss @ [sep]"] last_sep_split(2) [of x "rel_str ss"] assms show ?thesis
      by (simp add: base_def rel_str_snoc norm_seg_def Let_def)
  qed
qed

section \<open>What a directory node contains\<close>

locale unixfs_dirs =
  fixes X :: "('s, 'n, 'd) ingestlib" and kids :: "'d \<Rightarrow> string \<Rightarrow> 'n option"
    and child :: "'n \<Rightarrow> string \<Rightarrow> 'n option"
  assumes kids_new: "new_dir X = Inr d \<Longrightarrow> kids d = Map.empty"
    and kids_add: "add_child X d nm nd s = (Inr d', s') \<Longrightarrow> kids d' = (kids d)(nm \<mapsto> nd)"
    and child_node: "dir_node X d = Inr nd \<Longrightarrow> child nd = kids d"

fun node_at :: "('n \<Rightarrow> string \<Rightarrow> 'n option) \<Rightarrow> 'n \<Rightarrow> string list \<Rightarrow> 'n option" where
  "node_at child n [] = Some n"
| "node_at child n (s # ss) = (case child n s of None \<Rightarrow> None | Some m \<Rightarrow> node_at child m ss)"

text \<open>Manifests with normal relative paths, none of them below another one.\<close>

definition tree_paths_ok :: "file_manifest list \<Rightarrow> bool" where
  "tree_paths_ok fs =
     (\<forall>f \<in> set fs. \<exists>ss. fm_path f = rel_str ss \<and> ss \<noteq> [] \<and> list_all norm_seg ss
        \<and> (\<forall>g \<in> set fs. \<forall>y r. fm_path g \<noteq> rel_str (ss @ y # r) \<or> \<not> list_all norm_seg (ss @ y # r)))"

definition file_dirs :: "file_manifest list \<Rightarrow> string set" where
  "file_dirs fs = (\<lambda>f. dir_of (fm_path f)) ` set fs"

definition groups :: "file_manifest list \<Rightarrow> by_dir \<Rightarrow> bool" where
  "groups fs bd = (fst ` set bd = file_dirs fs
     \<and> (\<forall>d. dir_files bd d = filter (\<lambda>f. dir_of (fm_path f) = d) fs))"

lemma add_to_dir_spec:
  "fst ` set (add_to_dir d f bd) = insert d (fst ` set bd)"
  "dir_files (add_to_dir d f bd) k = dir_files bd k @ (if k = d then [f] else [])"
  by (induction d f bd rule: add_to_dir.induct) (auto simp: dir_files_def)

lemma add_files_spec:
  "add_files X chunk gs leaves bd k w = (Inr (leaves', bd', k'), w') \<Longrightarrow> groups fs bd \<Longrightarrow>
     groups (fs @ gs) bd' \<and> (\<forall>p. map_of leaves p \<noteq> None \<or> p \<in> fm_path ` set gs \<longrightarrow> map_of leaves' p \<noteq> None)"
proof (induction gs arbitrary: leaves bd k w fs)
  case (Cons f gs)
  from Cons.prems(1) obtain leaf n w1 where
    run: "add_files X chunk gs ((fm_path f, leaf) # leaves) (add_to_dir (dir_of (fm_path f)) f bd) (wrap64 (k + n))
      (w1\<lparr>iw_log := iw_log w1 @ [Sprintf ''ingested %s (%d chunks, %s)''
                [AStr (fm_path f), AInt n, human_bytes (fm_size f)]]\<rparr>) = (Inr (leaves', bd', k'), w')"
    by (auto split: sum.splits prod.splits)
  have "groups (fs @ [f]) (add_to_dir (dir_of (fm_path f)) f bd)"
    using Cons.prems(2) by (auto simp: groups_def add_to_dir_spec file_dirs_def)
  from Cons.IH [OF run this] show ?case by auto
qed auto

text \<open>
  The node built for the directory with segments \<open>ds\<close>: a file below it is found exactly when every
  directory strictly between them directly holds a file.
\<close>

definition connected :: "string set \<Rightarrow> string list \<Rightarrow> string list \<Rightarrow> bool" where
  "connected keys ds rest = (\<forall>i. 0 < i \<and> i < length rest \<longrightarrow> rel_str (ds @ take i rest) \<in> keys)"

definition holds_files ::
  "('n \<Rightarrow> string \<Rightarrow> 'n option) \<Rightarrow> file_manifest list \<Rightarrow> (string \<times> 'n) list \<Rightarrow> string list \<Rightarrow> 'n \<Rightarrow> bool" where
  "holds_files child fs leaves ds nd =
     (\<forall>f \<in> set fs. \<forall>rest. rest \<noteq> [] \<and> list_all norm_seg (ds @ rest) \<and> fm_path f = rel_str (ds @ rest) \<longrightarrow>
        node_at child nd rest = (if connected (file_dirs fs) ds rest then map_of leaves (fm_path f) else None))"

lemma connected_Cons:
  "connected keys ds (x # y # r) \<longleftrightarrow> rel_str (ds @ [x]) \<in> keys \<and> connected keys (ds @ [x]) (y # r)"
proof
  assume c: "connected keys ds (x # y # r)"
  have "rel_str (ds @ [x]) \<in> keys" using c [unfolded connected_def, rule_format, of 1] by simp
  moreover have "connected keys (ds @ [x]) (y # r)"
    unfolding connected_def using c [unfolded connected_def, rule_format, of "Suc _"] by auto
  ultimately show "rel_str (ds @ [x]) \<in> keys \<and> connected keys (ds @ [x]) (y # r)" by blast
next
  assume c: "rel_str (ds @ [x]) \<in> keys \<and> connected keys (ds @ [x]) (y # r)"
  show "connected keys ds (x # y # r)" unfolding connected_def
  proof (intro allI impI)
    fix i assume i: "0 < i \<and> i < length (x # y # r)"
    then obtain j where "i = Suc j" by (cases i) auto
    with c i show "rel_str (ds @ take i (x # y # r)) \<in> keys"
      by (cases "j = 0") (auto simp: connected_def)
  qed
qed

context unixfs_dirs
begin

lemma link_leaves_kids:
  assumes "link_leaves X leaves gs d s = (Inr d', s')" "list_all norm_seg ds"
    and "\<forall>f \<in> set gs. \<exists>x. norm_seg x \<and> fm_path f = rel_str (ds @ [x])"
  shows "norm_seg nm \<Longrightarrow> kids d' nm = (if \<exists>f \<in> set gs. fm_path f = rel_str (ds @ [nm])
    then map_of leaves (rel_str (ds @ [nm])) else kids d nm)"
  using assms(1,3)
proof (induction gs arbitrary: d s)
  case (Cons f gs)
  from Cons.prems(2) obtain leaf d1 s1 where l: "map_of leaves (fm_path f) = Some leaf"
    and a: "add_child X d (base (fm_path f)) leaf s = (Inr d1, s1)"
    and r: "link_leaves X leaves gs d1 s1 = (Inr d', s')"
    by (auto split: option.splits prod.splits sum.splits)
  from Cons.prems(3) obtain x where x: "norm_seg x" "fm_path f = rel_str (ds @ [x])" by auto
  have "rel_str (ds @ [x]) = rel_str (ds @ [nm]) \<longleftrightarrow> x = nm"
    using rel_str_inj [of "ds @ [x]" "ds @ [nm]"] assms(2) x(1) Cons.prems(1) by simp
  with Cons.IH [OF Cons.prems(1) r] Cons.prems(3) kids_add [OF a] l x show ?case
    by (auto simp: base_rel)
qed simp

lemma link_subdirs_kids:
  assumes "\<And>sub s nd s'. build_dir n X bd leaves sub s = Some (Inr nd, s') \<Longrightarrow> sub \<in> set subs0 \<Longrightarrow> Q sub nd"
    and "list_all norm_seg ds" "\<forall>sub \<in> set subs0. \<exists>x. norm_seg x \<and> sub = rel_str (ds @ [x])"
  shows "set subs \<subseteq> set subs0 \<Longrightarrow> link_subdirs n X bd leaves subs d s = Some (Inr d', s') \<Longrightarrow> norm_seg nm \<Longrightarrow>
    (if rel_str (ds @ [nm]) \<in> set subs then \<exists>nd. kids d' nm = Some nd \<and> Q (rel_str (ds @ [nm])) nd
     else kids d' nm = kids d nm)"
proof (induction subs arbitrary: d s)
  case (Cons sub subs)
  from Cons.prems(2) obtain nd s1 d1 s2 where b: "build_dir n X bd leaves sub s = Some (Inr nd, s1)"
    and a: "add_child X d (base sub) nd s1 = (Inr d1, s2)"
    and r: "link_subdirs n X bd leaves subs d1 s2 = Some (Inr d', s')"
    by (auto split: option.splits prod.splits sum.splits)
  from assms(3) Cons.prems(1) obtain x where x: "norm_seg x" "sub = rel_str (ds @ [x])" by auto
  have inj: "rel_str (ds @ [x]) = rel_str (ds @ [nm]) \<longleftrightarrow> x = nm"
    using rel_str_inj [of "ds @ [x]" "ds @ [nm]"] assms(2) x(1) Cons.prems(3) by simp
  have "Q sub nd" using assms(1) [OF b] Cons.prems(1) by simp
  with Cons.IH [OF _ r Cons.prems(3)] Cons.prems(1) kids_add [OF a] x inj show ?case
    by (auto simp: base_rel split: if_splits)
qed simp

lemma files_in_dir:
  assumes "tree_paths_ok fs" "list_all norm_seg ds" "f \<in> set fs" "dir_of (fm_path f) = rel_str ds"
  shows "\<exists>x. norm_seg x \<and> fm_path f = rel_str (ds @ [x])"
proof -
  obtain ss where ss: "fm_path f = rel_str ss" "ss \<noteq> []" "list_all norm_seg ss"
    using assms(1,3) by (auto simp: tree_paths_ok_def)
  then obtain ts x where t: "ss = ts @ [x]" by (cases ss rule: rev_cases) auto
  with ss have n: "list_all norm_seg ts" "norm_seg x" by simp_all
  have "rel_str ts = rel_str ds" using dir_of_rel [OF n] assms(4) ss(1) t by simp
  with rel_str_inj [OF n(1) assms(2)] ss t n show ?thesis by auto
qed

lemma subdirs_of:
  assumes "tree_paths_ok fs" "groups fs bd" "list_all norm_seg ds"
  shows "set (subdirs bd (rel_str ds)) = {rel_str (ds @ [x]) | x. norm_seg x \<and> rel_str (ds @ [x]) \<in> file_dirs fs}"
proof (intro set_eqI iffI)
  fix k assume "k \<in> set (subdirs bd (rel_str ds))"
  then have k: "k \<in> file_dirs fs" "k \<noteq> rel_str ds" "dir_of k = rel_str ds"
    using assms(2) by (auto simp: subdirs_def groups_def)
  obtain f where f: "f \<in> set fs" "k = dir_of (fm_path f)" using k(1) by (auto simp: file_dirs_def)
  obtain ss where ss: "fm_path f = rel_str ss" "ss \<noteq> []" "list_all norm_seg ss"
    using assms(1) f(1) by (auto simp: tree_paths_ok_def)
  then obtain ts y where t: "ss = ts @ [y]" by (cases ss rule: rev_cases) auto
  with ss have n: "list_all norm_seg ts" "norm_seg y" by simp_all
  have kt: "k = rel_str ts" using dir_of_rel [OF n] f(2) ss(1) t by simp
  show "k \<in> {rel_str (ds @ [x]) | x. norm_seg x \<and> rel_str (ds @ [x]) \<in> file_dirs fs}"
  proof (cases ts rule: rev_cases)
    case Nil
    with kt k(2,3) show ?thesis by (simp add: dir_of_def dir_def clean_def up_to_last_sep_def)
  next
    case (snoc us x)
    with n have u: "list_all norm_seg us" "norm_seg x" by simp_all
    have "rel_str us = rel_str ds" using dir_of_rel [OF u] kt k(3) snoc by simp
    then have "us = ds" using rel_str_inj [OF u(1) assms(3)] by simp
    with u kt k(1) snoc show ?thesis by blast
  qed
next
  fix k assume "k \<in> {rel_str (ds @ [x]) | x. norm_seg x \<and> rel_str (ds @ [x]) \<in> file_dirs fs}"
  then obtain x where x: "k = rel_str (ds @ [x])" "norm_seg x" "k \<in> file_dirs fs" by auto
  then have "k \<noteq> rel_str ds" using rel_str_inj [of "ds @ [x]" ds] assms(3) by simp
  moreover have "dir_of k = rel_str ds" using dir_of_rel [OF assms(3) x(2)] x(1) by simp
  ultimately show "k \<in> set (subdirs bd (rel_str ds))"
    using x(3) assms(2) by (auto simp: subdirs_def groups_def)
qed

lemma build_dir_holds:
  assumes "tree_paths_ok fs" "groups fs bd" "\<forall>f \<in> set fs. map_of leaves (fm_path f) \<noteq> None"
  shows "build_dir n X bd leaves (rel_str ds) s = Some (Inr nd, s') \<Longrightarrow> list_all norm_seg ds \<Longrightarrow>
    holds_files child fs leaves ds nd"
proof (induction n arbitrary: ds s nd s')
  case (Suc n)
  note ds = Suc.prems(2)
  let ?gs = "filter (\<lambda>f. dir_of (fm_path f) = rel_str ds) fs"
  have gs: "dir_files bd (rel_str ds) = ?gs"
    using assms(2) by (simp add: groups_def)
  from Suc.prems(1) obtain d d1 s1 d2 s2 where d: "new_dir X = Inr d"
    and sub: "link_subdirs n X bd leaves (subdirs bd (rel_str ds)) d s = Some (Inr d1, s1)"
    and lv: "link_leaves X leaves ?gs d1 s1 = (Inr d2, s2)" and nd: "dir_node X d2 = Inr nd"
    by (auto simp: gs split: sum.splits option.splits prod.splits)
  note subs = subdirs_of [OF assms(1,2) ds]
  have k1: "if rel_str (ds @ [nm]) \<in> file_dirs fs
      then \<exists>nd. kids d1 nm = Some nd \<and> holds_files child fs leaves (ds @ [nm]) nd
      else kids d1 nm = None" if nm: "norm_seg nm" for nm
  proof -
    have Q: "\<exists>x. sub = rel_str (ds @ [x]) \<and> norm_seg x \<and> holds_files child fs leaves (ds @ [x]) nd"
      if "build_dir n X bd leaves sub s = Some (Inr nd, s')" "sub \<in> set (subdirs bd (rel_str ds))" for sub s nd s'
      using that Suc.IH [of "ds @ [_]"] ds subs by fastforce
    have "if rel_str (ds @ [nm]) \<in> set (subdirs bd (rel_str ds))
        then \<exists>nd. kids d1 nm = Some nd \<and> (\<exists>x. rel_str (ds @ [nm]) = rel_str (ds @ [x]) \<and> norm_seg x
          \<and> holds_files child fs leaves (ds @ [x]) nd)
        else kids d1 nm = kids d nm"
      by (rule link_subdirs_kids [OF Q ds _ subset_refl sub nm]) (use subs in auto)
    moreover have "rel_str (ds @ [nm]) = rel_str (ds @ [x]) \<longleftrightarrow> nm = x" if "norm_seg x" for x
      using rel_str_inj [of "ds @ [nm]" "ds @ [x]"] ds nm that by simp
    ultimately show ?thesis using nm subs kids_new [OF d] by (auto split: if_splits)
  qed
  have in_dir: "\<forall>f \<in> set ?gs. \<exists>x. norm_seg x \<and> fm_path f = rel_str (ds @ [x])"
    using files_in_dir [OF assms(1) ds] by auto
  note k2 = link_leaves_kids [OF lv ds in_dir]
  show ?case unfolding holds_files_def
  proof (intro ballI allI impI, elim conjE)
    fix f rest assume f: "f \<in> set fs" "rest \<noteq> []" "list_all norm_seg (ds @ rest)" "fm_path f = rel_str (ds @ rest)"
    then obtain x r where rest: "rest = x # r" "norm_seg x" by (cases rest) auto
    show "node_at child nd rest = (if connected (file_dirs fs) ds rest then map_of leaves (fm_path f) else None)"
    proof (cases r)
      case Nil
      then have "f \<in> set ?gs" using f rest dir_of_rel [OF ds rest(2)] by simp
      moreover have p: "fm_path f = rel_str (ds @ [x])" using f(4) Nil rest by simp
      ultimately have "\<exists>g \<in> set ?gs. fm_path g = rel_str (ds @ [x])" by blast
      with k2 [OF rest(2)] p have "kids d2 x = map_of leaves (fm_path f)" by (simp only: if_True)
      with assms(3) f(1) Nil rest show ?thesis
        by (auto simp: child_node [OF nd] connected_def)
    next
      case (Cons y r')
      have "\<not> (\<exists>g \<in> set ?gs. fm_path g = rel_str (ds @ [x]))"
      proof
        assume "\<exists>g \<in> set ?gs. fm_path g = rel_str (ds @ [x])"
        then obtain g where g: "g \<in> set fs" "fm_path g = rel_str (ds @ [x])" by auto
        with assms(1) obtain ss where ss: "fm_path g = rel_str ss" "list_all norm_seg ss"
          and below: "\<And>h y r. h \<in> set fs \<Longrightarrow> fm_path h \<noteq> rel_str (ss @ y # r) \<or> \<not> list_all norm_seg (ss @ y # r)"
          unfolding tree_paths_ok_def by blast
        have "ss = ds @ [x]" using rel_str_inj [OF ss(2), of "ds @ [x]"] ss(1) g(2) ds rest(2) by simp
        with below [OF f(1), of y r'] f(3,4) rest(1) Cons show False by simp
      qed
      with k2 [OF rest(2)] have kd: "kids d2 x = kids d1 x" by (simp only: if_False)
      have step: "node_at child nd rest = (case kids d1 x of None \<Rightarrow> None | Some m \<Rightarrow> node_at child m (y # r'))"
        by (simp only: rest Cons node_at.simps(2) child_node [OF nd] kd)
      have conn: "connected (file_dirs fs) ds rest
          \<longleftrightarrow> rel_str (ds @ [x]) \<in> file_dirs fs \<and> connected (file_dirs fs) (ds @ [x]) (y # r')"
        by (simp only: rest Cons connected_Cons)
      show ?thesis
      proof (cases "rel_str (ds @ [x]) \<in> file_dirs fs")
        case True
        with k1 [OF rest(2)] obtain m where m: "kids d1 x = Some m" "holds_files child fs leaves (ds @ [x]) m"
          by (simp only: if_True) blast
        have "y # r' \<noteq> [] \<and> list_all norm_seg ((ds @ [x]) @ y # r') \<and> fm_path f = rel_str ((ds @ [x]) @ y # r')"
          using f rest Cons by simp
        with m(2) f(1) have "node_at child m (y # r')
            = (if connected (file_dirs fs) (ds @ [x]) (y # r') then map_of leaves (fm_path f) else None)"
          unfolding holds_files_def by blast
        then show ?thesis by (simp only: step m(1) option.case conn True simp_thms)
      next
        case False
        with k1 [OF rest(2)] show ?thesis by (simp add: step conn)
      qed
    qed
  qed
qed simp

text \<open>The depth of the recursion is bounded by the deepest directory.\<close>

lemma build_dir_total:
  assumes "tree_paths_ok fs" "groups fs bd"
  shows "list_all norm_seg ds \<Longrightarrow>
    (\<And>r. list_all norm_seg (ds @ r) \<Longrightarrow> rel_str (ds @ r) \<in> file_dirs fs \<Longrightarrow> length r < n) \<Longrightarrow> 0 < n \<Longrightarrow>
    build_dir n X bd leaves (rel_str ds) s \<noteq> None"
proof (induction n arbitrary: ds s)
  case (Suc n)
  have sub: "build_dir n X bd leaves k s \<noteq> None" if k: "k \<in> set (subdirs bd (rel_str ds))" for k s
  proof -
    from k subdirs_of [OF assms Suc.prems(1)] obtain x where x: "k = rel_str (ds @ [x])" "norm_seg x"
      "rel_str (ds @ [x]) \<in> file_dirs fs" by auto
    have "length r < n" if "list_all norm_seg ((ds @ [x]) @ r)" "rel_str ((ds @ [x]) @ r) \<in> file_dirs fs" for r
      using Suc.prems(2) [of "x # r"] that by simp
    moreover have "0 < n" using Suc.prems(2) [of "[x]"] x Suc.prems(1) by simp
    ultimately show ?thesis using Suc.IH [of "ds @ [x]"] x Suc.prems(1) by simp
  qed
  have "link_subdirs n X bd leaves subs d s \<noteq> None" if "set subs \<subseteq> set (subdirs bd (rel_str ds))" for subs d s
    using that
  proof (induction subs arbitrary: d s)
    case (Cons k subs)
    have "k \<in> set (subdirs bd (rel_str ds))" "set subs \<subseteq> set (subdirs bd (rel_str ds))"
      using Cons.prems by auto
    with sub [of k s] Cons.IH show ?case
      by (auto split: sum.split prod.split)
  qed simp
  then have ls: "link_subdirs n X bd leaves (subdirs bd (rel_str ds)) d s \<noteq> None" for d s by blast
  show ?case
  proof (cases "new_dir X")
    case (Inr d)
    with ls [of d s] show ?thesis by (auto split: sum.split prod.split)
  qed simp
qed simp

end

section \<open>A directory builder\<close>

text \<open>Nodes as trees: a directory is the list of its named children, last one first.\<close>

datatype dnode = FileNode string | DirNode "(string \<times> dnode) list"

definition tree_lib :: "('s, dnode, (string \<times> dnode) list) ingestlib" where
  "tree_lib = \<lparr>i_cids = ref_cids, layout_file = (\<lambda>_ err src _ s. (case err of None \<Rightarrow> Inr (FileNode src) | Some e \<Rightarrow> Inl e, s)),
     new_dir = Inr [],
     add_child = (\<lambda>d nm nd s. (Inr ((nm, nd) # d), s)), dir_node = (\<lambda>d. Inr (DirNode d)),
     dag_add = (\<lambda>_ s. (Inr (), s)), node_cid = (\<lambda>_. []), i_sha256 = (\<lambda>d. d)\<rparr>"

definition tree_child :: "dnode \<Rightarrow> string \<Rightarrow> dnode option" where
  "tree_child nd nm = (case nd of FileNode _ \<Rightarrow> None | DirNode d \<Rightarrow> map_of d nm)"

interpretation tree_dirs: unixfs_dirs tree_lib map_of tree_child
  by unfold_locales (auto simp: tree_lib_def tree_child_def)

section \<open>Properties\<close>

text \<open>C22: what the DAG of an ingested revision contains. Building it ends (a depth bound above the number
  of segments of every path suffices). In the tree that \<open>buildTree\<close> returns, walking down the
  segments of a file's path reaches the node made for that file if every directory strictly above
  the file's own path, the root apart, directly holds some file of the revision; if one of them holds only
  subdirectories, the walk finds nothing.\<close>

theorem build_tree_contents:
  assumes "unixfs_dirs X kids child" "tree_paths_ok fs"
    and "\<forall>f \<in> set fs. \<forall>ss. fm_path f = rel_str ss \<and> list_all norm_seg ss \<longrightarrow> length ss \<le> n" "0 < n"
  shows "build_tree n X chunk fs w \<noteq> None
    \<and> (\<forall>root k w'. build_tree n X chunk fs w = Some (Inr (root, k), w') \<longrightarrow>
        (\<exists>leaves bd w1. add_files X chunk fs [] [] 0 w = (Inr (leaves, bd, k), w1)
           \<and> (\<forall>f \<in> set fs. map_of leaves (fm_path f) \<noteq> None
                \<and> (\<forall>ss. fm_path f = rel_str ss \<and> ss \<noteq> [] \<and> list_all norm_seg ss \<longrightarrow>
                    node_at child root ss =
                      (if \<forall>i. 0 < i \<and> i < length ss \<longrightarrow> rel_str (take i ss) \<in> file_dirs fs
                       then map_of leaves (fm_path f) else None)))))"
proof -
  have g0: "groups [] []" by (simp add: groups_def file_dirs_def dir_files_def)
  have spec: "groups fs bd \<and> (\<forall>f \<in> set fs. map_of leaves (fm_path f) \<noteq> None)"
    if "add_files X chunk fs [] [] 0 w = (Inr (leaves, bd, k), w1)" for leaves bd k w1
    using add_files_spec [OF that g0] by auto
  have short: "length r < n" if r: "list_all norm_seg ([] @ r)" "rel_str ([] @ r) \<in> file_dirs fs" for r
  proof -
    from r(2) obtain f where f: "f \<in> set fs" "rel_str r = dir_of (fm_path f)" by (auto simp: file_dirs_def)
    obtain ss where ss: "fm_path f = rel_str ss" "ss \<noteq> []" "list_all norm_seg ss"
      using assms(2) f(1) by (auto simp: tree_paths_ok_def)
    then obtain ts y where t: "ss = ts @ [y]" by (cases ss rule: rev_cases) auto
    with ss have m: "list_all norm_seg ts" "norm_seg y" by simp_all
    have "rel_str r = rel_str ts" using f(2) dir_of_rel [OF m] ss(1) t by simp
    then have "r = ts" using rel_str_inj [OF _ m(1), of r] r(1) by simp
    with assms(3) [rule_format, OF f(1), of ss] ss(1,3) t show ?thesis by simp
  qed
  have tot: "build_dir n X bd leaves [] s \<noteq> None" if "groups fs bd" for bd leaves s
    using unixfs_dirs.build_dir_total [OF assms(1,2) that, of "[]" n leaves s] short assms(4) by simp
  have "build_tree n X chunk fs w \<noteq> None"
  proof (cases "add_files X chunk fs [] [] 0 w")
    case (Pair r w1)
    show ?thesis
    proof (cases r)
      case (Inr v)
      with Pair obtain leaves bd k where a: "add_files X chunk fs [] [] 0 w = (Inr (leaves, bd, k), w1)"
        by (cases v) auto
      with tot [of bd leaves "iw_db w1"] spec [OF a] show ?thesis
        by (auto simp: build_tree_def split: sum.split)
    qed (use Pair in \<open>simp add: build_tree_def\<close>)
  qed
  moreover have "\<exists>leaves bd w1. add_files X chunk fs [] [] 0 w = (Inr (leaves, bd, k), w1)
      \<and> holds_files child fs leaves [] root \<and> (\<forall>f \<in> set fs. map_of leaves (fm_path f) \<noteq> None)"
    if run: "build_tree n X chunk fs w = Some (Inr (root, k), w')" for root k w'
  proof -
    from run obtain leaves bd w1 db1 where a: "add_files X chunk fs [] [] 0 w = (Inr (leaves, bd, k), w1)"
      and b: "build_dir n X bd leaves [] (iw_db w1) = Some (Inr root, db1)"
      by (auto simp: build_tree_def split: prod.splits sum.splits option.splits)
    have "holds_files child fs leaves [] root"
      using unixfs_dirs.build_dir_holds [OF assms(1,2), of bd leaves n "[]" "iw_db w1" root db1] spec [OF a] b by simp
    with a spec [OF a] show ?thesis by blast
  qed
  ultimately show ?thesis
    unfolding holds_files_def connected_def by (metis append_Nil)
qed
section \<open>A revision whose middle directory holds no file\<close>

lemma tree_paths_okI:
  assumes "\<forall>f \<in> set fs. fm_path f = rel_str (sg f) \<and> sg f \<noteq> [] \<and> list_all norm_seg (sg f)"
    and "\<forall>f \<in> set fs. \<forall>g \<in> set fs. length (sg f) < length (sg g) \<longrightarrow> take (length (sg f)) (sg g) \<noteq> sg f"
  shows "tree_paths_ok fs"
  unfolding tree_paths_ok_def
proof (intro ballI exI conjI allI)
  fix f g y r assume fg: "f \<in> set fs" "g \<in> set fs"
  have "sg g = sg f @ y # r \<Longrightarrow> False" using assms(2) fg by fastforce
  then show "fm_path g \<noteq> rel_str (sg f @ y # r) \<or> \<not> list_all norm_seg (sg f @ y # r)"
    using assms(1) fg rel_str_inj [of "sg g" "sg f @ y # r"] by auto
qed (use assms(1) in auto)

definition gap_file :: "string \<Rightarrow> string \<Rightarrow> file_manifest" where
  "gap_file p src = \<lparr>fm_path = p, fm_blob = [], fm_size = 1, fm_sha256 = [], fm_mode = 0, fm_mtime = 0,
     fm_lfs = False, fm_xet = [], fm_src = src\<rparr>"

definition gap_files :: "file_manifest list" where
  "gap_files = [gap_file ''d'' ''/d'', gap_file ''a/b/c'' ''/c'']"

definition gap_world :: "unit iworld" where
  "gap_world = \<lparr>iw_db = (), iw_os = \<lparr>nodes = [([''d''], FFile ''x'' 0), ([''c''], FFile ''y'' 0)], cwd = [], ticks = 0,
     faults = (\<lambda>_. None), rands = (\<lambda>_. []), mtimes = (\<lambda>_ _. 0), partials = (\<lambda>_. 0)\<rparr>, iw_log = []\<rparr>"

lemma gap_paths_ok: "tree_paths_ok gap_files"
  by (rule tree_paths_okI [where sg = "\<lambda>f. split_on sep (fm_path f)"])
     (simp_all add: gap_files_def gap_file_def rel_str_def norm_seg_def)

lemma gap_build:
  "case build_tree 3 tree_lib 1 gap_files gap_world of
     Some (Inr r, _) \<Rightarrow> r = (DirNode [(''d'', FileNode ''/d'')], 2) | _ \<Rightarrow> False"
  by code_simp
text \<open>The theorem on a revision of a file in the root and a file two directories down: the first is in
  the tree, the second is not.\<close>

theorem build_tree_contents_witness:
  "\<exists>root w'. build_tree 3 tree_lib 1 gap_files gap_world = Some (Inr (root, 2), w')
     \<and> node_at tree_child root [''d''] \<noteq> None \<and> node_at tree_child root [''a'', ''b'', ''c''] = None"
proof -
  obtain root w' where b: "build_tree 3 tree_lib 1 gap_files gap_world = Some (Inr (root, 2), w')"
    using gap_build by (auto split: option.splits sum.splits prod.splits)
  have short: "\<forall>f \<in> set gap_files. \<forall>ss. fm_path f = rel_str ss \<and> list_all norm_seg ss \<longrightarrow> length ss \<le> 3"
  proof (intro ballI allI impI, elim conjE)
    fix f ss assume f: "f \<in> set gap_files" "fm_path f = rel_str ss" "list_all norm_seg ss"
    from f(1) have "fm_path f = rel_str [''d''] \<or> fm_path f = rel_str [''a'', ''b'', ''c'']"
      by (auto simp: gap_files_def gap_file_def rel_str_def)
    moreover have "list_all norm_seg [''d'']" "list_all norm_seg [''a'', ''b'', ''c'']"
      by (simp_all add: norm_seg_def)
    ultimately have "ss = [''d''] \<or> ss = [''a'', ''b'', ''c'']" using rel_str_inj [OF f(3)] f(2) by metis
    then show "length ss \<le> 3" by auto
  qed
  from build_tree_contents [where n = 3 and chunk = 1 and w = gap_world, OF tree_dirs.unixfs_dirs_axioms gap_paths_ok short] b
  obtain leaves where L: "\<forall>f \<in> set gap_files. map_of leaves (fm_path f) \<noteq> None
      \<and> (\<forall>ss. fm_path f = rel_str ss \<and> ss \<noteq> [] \<and> list_all norm_seg ss \<longrightarrow>
           node_at tree_child root ss = (if \<forall>i. 0 < i \<and> i < length ss \<longrightarrow> rel_str (take i ss) \<in> file_dirs gap_files
             then map_of leaves (fm_path f) else None))"
    by (auto simp del: node_at.simps)
  have d: "file_dirs gap_files = {[], ''a/b''}"
    by (simp add: file_dirs_def gap_files_def gap_file_def) code_simp
  have "node_at tree_child root [''d''] \<noteq> None"
    using L [rule_format, of "gap_file ''d'' ''/d''"]
    by (auto simp: gap_files_def gap_file_def rel_str_def norm_seg_def simp del: node_at.simps)
  moreover have "node_at tree_child root [''a'', ''b'', ''c''] = None"
  proof -
    have "rel_str (take 1 [''a'', ''b'', ''c'']) \<notin> file_dirs gap_files" by (simp add: d rel_str_def)
    then have "\<not> (\<forall>i. 0 < i \<and> i < length [''a'', ''b'', ''c''] \<longrightarrow>
        rel_str (take i [''a'', ''b'', ''c'']) \<in> file_dirs gap_files)" by force
    moreover have "fm_path (gap_file ''a/b/c'' ''/c'') = rel_str [''a'', ''b'', ''c'']"
      "gap_file ''a/b/c'' ''/c'' \<in> set gap_files" "list_all norm_seg [''a'', ''b'', ''c'']"
      by (simp_all add: gap_files_def gap_file_def rel_str_def norm_seg_def)
    ultimately show ?thesis using L by (metis list.distinct(1))
  qed
  ultimately show ?thesis using b by blast
qed

end
