(* ===== verification/Config.thy ===== *)
theory Config
  imports FileSys
begin

text \<open>
  \<open>internal/config/config.go\<close> and \<open>internal/identity/identity.go\<close>: the configuration built from the
  environment, and the persistent key of the node. The environment is a function from names to values
  (unset variables read as empty). Key generation, its serialisation and the peer id of a key are libp2p's,
  the argument \<open>K\<close>.
\<close>

section \<open>Configuration\<close>

definition ProtocolMapID :: string where "ProtocolMapID = ''/hf-ipfs/map/1.0.0''"
definition ProtocolBlockID :: string where "ProtocolBlockID = ''/hf-ipfs/block/1.0.0''"
definition DefaultChunkSize :: int where "DefaultChunkSize = 2 ^ 20"
definition MaxFrameSize :: int where "MaxFrameSize = 8 * 2 ^ 20"
definition DefaultListenPort :: int where "DefaultListenPort = 4008"

record config =
  cf_repo_dir :: string
  cf_hub_dir :: string
  cf_listen :: "string list"
  cf_bootstrap :: "string list"
  cf_isolated :: bool
  cf_connect :: "string list"
  cf_hole_punch :: bool
  cf_relay :: bool
  cf_nat_port_map :: bool
  cf_relay_service :: bool
  cf_static_relays :: "string list"
  cf_relay_bulk :: bool
  cf_chunk_size :: int
  cf_dht_server :: bool
  cf_endpoint :: string
  cf_token :: string
  cf_api_socket :: string
  cf_rescan :: int

fun first_non_empty :: "string list \<Rightarrow> string" where
  "first_non_empty [] = []"
| "first_non_empty (v # vs) = (if trim_space v \<noteq> [] then v else first_non_empty vs)"

text \<open>\<open>time.Duration\<close> counts nanoseconds.\<close>

definition default_config :: "string res \<Rightarrow> (string \<Rightarrow> string) \<Rightarrow> config res" where
  "default_config user_home env =
     (case user_home of
        Inl e \<Rightarrow> Inl (Wrapf ''resolve home dir: %w'' [] e)
      | Inr home \<Rightarrow>
          (let repo = first_non_empty [env ''SWARMFACE_REPO'', env ''HF_IPFS_REPO'', join_path [home, ''.swarmface'']];
               hf_home = first_non_empty [env ''HF_HOME'', join_path [home, ''.cache'', ''huggingface'']];
               hub = first_non_empty [env ''HF_HUB_CACHE'', join_path [hf_home, ''hub'']];
               ep = trim_right (first_non_empty [env ''HF_ENDPOINT'', ''https://huggingface.co'']) ''/'';
               tok = first_non_empty [env ''HF_TOKEN'', env ''HUGGING_FACE_HUB_TOKEN'']
           in Inr \<lparr>cf_repo_dir = repo, cf_hub_dir = hub, cf_listen = [''/ip4/0.0.0.0/tcp/4008''],
                cf_bootstrap = [], cf_isolated = False, cf_connect = [], cf_hole_punch = True, cf_relay = True,
                cf_nat_port_map = True, cf_relay_service = False, cf_static_relays = [], cf_relay_bulk = False,
                cf_chunk_size = DefaultChunkSize, cf_dht_server = True, cf_endpoint = ep,
                cf_token = trim_space tok, cf_api_socket = join_path [repo, ''api.sock''],
                cf_rescan = 5 * 60 * 10 ^ 9\<rparr>))"

definition ensure_dirs :: "config \<Rightarrow> os \<Rightarrow> unit res \<times> os" where
  "ensure_dirs c os = wrap_err ''create %s: %w'' [AStr (cf_repo_dir c)] (os_mkdir_all os (cf_repo_dir c))"

definition key_path :: "config \<Rightarrow> string" where
  "key_path c = join_path [cf_repo_dir c, ''key'']"

definition db_path :: "config \<Rightarrow> string" where
  "db_path c = join_path [cf_repo_dir c, ''swarmface.db'']"

definition lock_path :: "config \<Rightarrow> string" where
  "lock_path c = join_path [cf_repo_dir c, ''swarmface.lock'']"

section \<open>Identity\<close>

record 'k keylib =
  k_unmarshal :: "bytes \<Rightarrow> 'k res"
  k_peer_id :: "'k \<Rightarrow> string res"
  k_generate :: "'k res"
  k_marshal :: "'k \<Rightarrow> bytes res"

text \<open>\<open>os.WriteFile\<close>.\<close>

definition write_file :: "os \<Rightarrow> string \<Rightarrow> bytes \<Rightarrow> nat \<Rightarrow> unit res \<times> os" where
  "write_file os p d mode =
     (case os_create os p mode of
        (Inl e, os1) \<Rightarrow> (Inl e, os1)
      | (Inr q, os1) \<Rightarrow>
          (case os_write os1 q d of
             (r, os2) \<Rightarrow>
               (case os_close os2 q of
                  (r3, os3) \<Rightarrow> (case r of Inl e \<Rightarrow> (Inl e, os3) | Inr _ \<Rightarrow> (r3, os3)))))"

text \<open>The first component says whether the warning is logged.\<close>

definition warn_if_readable :: "string \<Rightarrow> os \<Rightarrow> bool \<times> os" where
  "warn_if_readable p os =
     (case os_stat os p of
        (Inl _, os1) \<Rightarrow> (False, os1)
      | (Inr st, os1) \<Rightarrow> (node_perm (fi_node st) mod 64 \<noteq> 0, os1))"

definition parse_identity :: "'k keylib \<Rightarrow> string \<Rightarrow> bytes \<Rightarrow> ('k \<times> string) res" where
  "parse_identity K p d =
     (case k_unmarshal K d of
        Inl e \<Rightarrow> Inl (Wrapf ''parse identity %s: %w'' [AStr p] e)
      | Inr key \<Rightarrow>
          (case k_peer_id K key of
             Inl e \<Rightarrow> Inl (Wrapf ''derive peer id: %w'' [] e)
           | Inr i \<Rightarrow> Inr (key, i)))"

definition load_identity :: "'k keylib \<Rightarrow> string \<Rightarrow> os \<Rightarrow> ('k \<times> string) res \<times> os" where
  "load_identity K p os =
     (case os_readfile os p of
        (Inl e, os1) \<Rightarrow> (Inl e, os1)
      | (Inr d, os1) \<Rightarrow> (parse_identity K p d, snd (warn_if_readable p os1)))"

definition generate_identity :: "'k keylib \<Rightarrow> string \<Rightarrow> os \<Rightarrow> ('k \<times> string) res \<times> os" where
  "generate_identity K p os =
     (case k_generate K of
        Inl e \<Rightarrow> (Inl (Wrapf ''generate ed25519 key: %w'' [] e), os)
      | Inr key \<Rightarrow>
          (case k_marshal K key of
             Inl e \<Rightarrow> (Inl (Wrapf ''marshal key: %w'' [] e), os)
           | Inr d \<Rightarrow>
               (case os_mkdir_all os (dir p) of
                  (Inl e, os1) \<Rightarrow> (Inl (Wrapf ''create identity dir: %w'' [] e), os1)
                | (Inr _, os1) \<Rightarrow>
                    (case write_file os1 (p @ ''.tmp'') d 384 of
                       (Inl e, os2) \<Rightarrow> (Inl (Wrapf ''write identity: %w'' [] e), os2)
                     | (Inr _, os2) \<Rightarrow>
                         (case os_rename os2 (p @ ''.tmp'') p of
                            (Inl e, os3) \<Rightarrow> (Inl (Wrapf ''persist identity: %w'' [] e), os3)
                          | (Inr _, os3) \<Rightarrow>
                              (case k_peer_id K key of
                                 Inl e \<Rightarrow> (Inl (Wrapf ''derive peer id: %w'' [] e), os3)
                               | Inr i \<Rightarrow> (Inr (key, i), os3)))))))"

definition load_or_generate :: "'k keylib \<Rightarrow> string \<Rightarrow> os \<Rightarrow> ('k \<times> string) res \<times> os" where
  "load_or_generate K p os =
     (case os_readfile os p of
        (Inl e, os1) \<Rightarrow>
          if errors_is e ErrNotExist then generate_identity K p os1
          else (Inl (Wrapf ''read identity %s: %w'' [AStr p] e), os1)
      | (Inr d, os1) \<Rightarrow> (parse_identity K p d, snd (warn_if_readable p os1)))"

section \<open>Writing a file\<close>

lemma write_file_effect:
  assumes "write_file os (abs_path (ds @ [a])) d mode = (r, os')" "dir_at os ds" "norm_seg a"
    "\<forall>n. lookup os (ds @ [a]) = Some n \<longrightarrow> is_regular n"
  shows "same_fs os os' \<and> \<not> ok r \<or> (\<exists>v m. fs_upd os (ds @ [a]) (Some (FFile v m)) os' \<and> (ok r \<longrightarrow> v = d))"
proof -
  obtain r1 os1 where c: "os_create os (abs_path (ds @ [a])) mode = (r1, os1)" by fastforce
  note ce = os_create_file [OF c assms(2-4)]
  show ?thesis
  proof (cases r1)
    case (Inl e)
    with ce c assms(1) show ?thesis by (auto simp: write_file_def)
  next
    case (Inr q)
    with ce obtain m where q: "q = ds @ [a]" and u: "fs_upd os (ds @ [a]) (Some (FFile [] m)) os1" by auto
    obtain r2 os2 where w: "os_write os1 (ds @ [a]) d = (r2, os2)" by fastforce
    have "lookup os1 (ds @ [a]) = Some (FFile [] m)" using u by (simp add: fs_upd_def)
    from os_write_upd [OF w this] obtain v where
      v: "fs_upd os1 (ds @ [a]) (Some (FFile v m)) os2" "ok r2 \<longrightarrow> v = d" by auto
    obtain r3 os3 where cl: "os_close os2 (ds @ [a]) = (r3, os3)" by fastforce
    have "fs_upd os (ds @ [a]) (Some (FFile v m)) os3"
      using fs_upd_fs [OF fs_upd_upd [OF u v(1)] read_calls_fs(6) [OF cl]] .
    moreover have "os' = os3" "ok r \<longrightarrow> ok r2"
      using assms(1) c Inr q w cl by (auto simp: write_file_def split: sum.splits)
    ultimately show ?thesis using v(2) by blast
  qed
qed
section \<open>Properties\<close>

lemma readfile_in_dir:
  assumes "dir_at os ds" "norm_seg a" "lookup os (ds @ [a]) = Some (FFile d m)" "faults os (ticks os) = None"
  shows "\<exists>os'. os_readfile os (abs_path (ds @ [a])) = (Inr d, os')"
  using assms resolve_in_dir [OF assms(1,2), of True] by (simp add: os_readfile_def syscall_def at_path_def resolve_tick)

lemma generate_effect:
  assumes run: "generate_identity K (abs_path (ds @ [a])) os = (r, os')"
    and d: "dir_at os ds" and a: "norm_seg a" and free: "lookup os (ds @ [a]) = None"
    and tmp: "\<forall>n. lookup os (ds @ [a @ ''.tmp'']) = Some n \<longrightarrow> is_regular n"
  shows "dir_at os' ds \<and> (lookup os' (ds @ [a]) = None \<and> \<not> ok r
    \<or> (\<exists>key v m. k_generate K = Inr key \<and> k_marshal K key = Inr v \<and> lookup os' (ds @ [a]) = Some (FFile v m)
        \<and> (\<forall>key' i. r = Inr (key', i) \<longrightarrow> key' = key \<and> k_peer_id K key = Inr i)))"
proof -
  let ?q = "ds @ [a]" let ?t = "ds @ [a @ ''.tmp'']"
  have nt: "norm_seg (a @ ''.tmp'')" using norm_append [OF a, of "''.tmp''"] by simp
  have dp: "dir (abs_path ?q) = abs_path ds" using dir_abs_path [of ds a] d a by (simp add: dir_at_def)
  have ext: "abs_path ?q @ ''.tmp'' = abs_path ?t" by (rule abs_path_extend)
  show ?thesis
  proof (cases "\<exists>key v. k_generate K = Inr key \<and> k_marshal K key = Inr v")
    case False
    with run d free show ?thesis by (auto simp: generate_identity_def split: sum.splits)
  next
    case True
    then obtain key v where g: "k_generate K = Inr key" "k_marshal K key = Inr v" by blast
    obtain r1 os1 where mk: "os_mkdir_all os (abs_path ds) = (r1, os1)" by fastforce
    note m = mkdir_all_effect [OF mk dir_at_plain [OF d]]
    have l1: "lookup os1 q = lookup os q" if "length ds < length q" for q
      using dirs_added_outside [OF conjunct1 [OF m] that] .
    have d1: "dir_at os1 ds" using dirs_added_dir_at [OF conjunct1 [OF m] d] .
    obtain r2 os2 where w: "write_file os1 (abs_path ?t) v 384 = (r2, os2)" by fastforce
    have "\<forall>n. lookup os1 ?t = Some n \<longrightarrow> is_regular n" using tmp l1 by simp
    note we = write_file_effect [OF w d1 nt this]
    have nd: "lookup os1 ?t \<noteq> Some FDir" using tmp l1 [of ?t] by (auto simp: is_regular_def)
    have d2: "dir_at os2 ds" "lookup os2 ?q = None"
      using we dir_at_cong [of os1 os2 ds] dir_at_upd [OF _ nd d1, of _ os2] d1 l1 free
      by (auto simp: same_fs_def fs_upd_def)
    obtain r3 os3 where rn: "os_rename os2 (abs_path ?t) (abs_path ?q) = (r3, os3)" by fastforce
    note runs = run [unfolded generate_identity_def dp ext] g mk w rn
    consider (mk) "\<not> ok r1" | (wr) "ok r1" "\<not> ok r2" | (rn) "ok r1" "ok r2" by blast
    then show ?thesis
    proof cases
      case mk
      with runs have "\<not> ok r" "os' = os1" by (auto split: sum.splits)
      with d1 l1 free show ?thesis by simp
    next
      case wr
      with runs have "\<not> ok r" "os' = os2" by (auto split: sum.splits)
      with d2 show ?thesis by simp
    next
      case rn
      with we obtain k where u: "lookup os2 ?t = Some (FFile v k)" by (auto simp: fs_upd_def)
      have "a @ ''.tmp'' \<noteq> a" by simp
      note rd = os_rename_in_dir [OF \<open>os_rename _ _ _ = _\<close> d2(1) nt a this u]
      show ?thesis
      proof (cases "ok r3")
        case True
        have "take i ds \<noteq> ds @ [y]" for i y
          by (metis length_append_singleton length_take min.cobounded1 not_less_eq_eq order_refl)
        with True rd d2 have "lookup os3 ?q = Some (FFile v k)" "dir_at os3 ds" by (auto simp: dir_at_def)
        moreover have "os' = os3" "\<forall>key' i. r = Inr (key', i) \<longrightarrow> key' = key \<and> k_peer_id K key = Inr i"
          using runs rn True by (auto split: sum.splits)
        ultimately show ?thesis using g by blast
      next
        case False
        with runs rn have "\<not> ok r" "os' = os3" by (auto split: sum.splits)
        with False rd d2 dir_at_cong [of os2 os3 ds] show ?thesis by (simp add: same_fs_def)
      qed
    qed
  qed
qed


text \<open>C23: the identity of a node survives: when \<open>LoadOrGenerate\<close> returns a key and a peer id,
  a later \<open>Load\<close> of the file returns the same ones (if its read does not fail), and whatever happens on the way,
  the key file is either as before or, if there was none, complete: no truncated key is ever
  visible under its name. Serialising a key is assumed to be invertible, and a call to report a missing
  file only for a missing file.\<close>

theorem identity_persists:
  assumes run: "load_or_generate K (abs_path (ds @ [a])) os = (r, os')"
    and d: "dir_at os ds" and a: "norm_seg a"
    and reg: "\<forall>n. lookup os (ds @ [a]) = Some n \<longrightarrow> is_regular n"
      "\<forall>n. lookup os (ds @ [a @ ''.tmp'']) = Some n \<longrightarrow> is_regular n"
    and real: "\<And>k. faults os k \<noteq> Some ErrNotExist"
    and inv: "\<And>key v. k_marshal K key = Inr v \<Longrightarrow> k_unmarshal K v = Inr key"
  shows "(lookup os' (ds @ [a]) = lookup os (ds @ [a])
      \<or> lookup os (ds @ [a]) = None
        \<and> (\<exists>key v m. k_marshal K key = Inr v \<and> lookup os' (ds @ [a]) = Some (FFile v m)))
    \<and> (\<forall>key i. r = Inr (key, i) \<and> faults os' (ticks os') = None \<longrightarrow>
          fst (load_identity K (abs_path (ds @ [a])) os') = Inr (key, i))"
proof -
  let ?q = "ds @ [a]"
  have again: "fst (load_identity K (abs_path ?q) os') = parse_identity K (abs_path ?q) v"
    if "dir_at os' ds" "lookup os' ?q = Some (FFile v m)" "faults os' (ticks os') = None" for v m
    using readfile_in_dir [OF that(1) a that(2,3)] by (auto simp: load_identity_def)
  obtain r1 os1 where rd: "os_readfile os (abs_path ?q) = (r1, os1)" by fastforce
  have fs1: "same_fs os os1" using read_calls_fs(4) [OF rd] .
  have here: "resolve os True (abs_path ?q) = Inr ?q"
    by (rule resolve_in_dir [OF d a]) (use reg(1) in \<open>auto simp: is_regular_def\<close>)
  show ?thesis
  proof (cases r1)
    case (Inr v)
    obtain w os2 where wn: "warn_if_readable (abs_path ?q) os1 = (w, os2)" by fastforce
    have "same_fs os1 os2" using wn read_calls_fs(1) by (auto simp: warn_if_readable_def split: prod.splits sum.splits)
    then have fs: "same_fs os os2" using fs_trans [OF fs1] by blast
    have out: "r = parse_identity K (abs_path ?q) v" "os' = os2"
      using run rd Inr wn by (simp_all add: load_or_generate_def)
    have "\<exists>m. lookup os ?q = Some (FFile v m)"
      using rd Inr here reg(1)
      by (auto simp: os_readfile_def syscall_def at_path_def resolve_tick is_regular_def
          split: option.splits fnode.splits sum.splits)
    with fs out again dir_at_cong [OF fs] d show ?thesis by (auto simp: same_fs_def)
  next
    case (Inl e)
    show ?thesis
    proof (cases "errors_is e ErrNotExist \<and> lookup os ?q = None")
      case False
      have "errors_is e ErrNotExist \<longrightarrow> lookup os ?q = None"
        using rd Inl real here reg(1)
        by (auto simp: os_readfile_def syscall_def at_path_def resolve_tick is_regular_def
            split: option.splits fnode.splits)
      with False have "\<not> errors_is e ErrNotExist" by blast
      with run rd Inl have "os' = os1" "\<not> ok r" by (auto simp: load_or_generate_def)
      with fs1 show ?thesis by (auto simp: same_fs_def)
    next
      case True
      with run rd Inl have g: "generate_identity K (abs_path ?q) os1 = (r, os')" by (simp add: load_or_generate_def)
      have "dir_at os1 ds" "lookup os1 ?q = None" "\<forall>n. lookup os1 (ds @ [a @ ''.tmp'']) = Some n \<longrightarrow> is_regular n"
        using fs1 True reg(2) d dir_at_cong [OF fs1] by (auto simp: same_fs_def)
      from generate_effect [OF g this(1) a this(2,3)] True again inv show ?thesis
        by (auto simp: parse_identity_def)
    qed
  qed
qed
text \<open>Keys that are their own serialisation, on a file system without files.\<close>

definition plain_keys :: "string keylib" where
  "plain_keys = \<lparr>k_unmarshal = Inr, k_peer_id = Inr, k_generate = Inr ''k1'', k_marshal = Inr\<rparr>"

definition bare_os :: os where
  "bare_os = \<lparr>nodes = [], cwd = [], ticks = 0, faults = (\<lambda>_. None), rands = (\<lambda>_. []), mtimes = (\<lambda>_ _. 0),
     partials = (\<lambda>_. 0)\<rparr>"

lemma bare_generate:
  "fst (load_or_generate plain_keys ''/key'' bare_os) = Inr (''k1'', ''k1'')"
  "faults (snd (load_or_generate plain_keys ''/key'' bare_os))
     (ticks (snd (load_or_generate plain_keys ''/key'' bare_os))) = None"
  by code_simp+

theorem identity_persists_witness:
  "fst (load_identity plain_keys ''/key'' (snd (load_or_generate plain_keys ''/key'' bare_os))) = Inr (''k1'', ''k1'')"
proof -
  have l: "lookup bare_os q = (if q = [] then Some FDir else None)" for q by (simp add: lookup_def bare_os_def)
  have "abs_path ([] @ [''key'']) = ''/key''" by (simp add: abs_path_def)
  moreover have "dir_at bare_os []" "norm_seg ''key''" by (simp_all add: dir_at_def l norm_seg_def)
  moreover obtain r os' where run: "load_or_generate plain_keys ''/key'' bare_os = (r, os')" by fastforce
  moreover have "faults bare_os k \<noteq> Some ErrNotExist" for k by (simp add: bare_os_def)
  moreover have "k_marshal plain_keys key = Inr v \<Longrightarrow> k_unmarshal plain_keys v = Inr key" for key v
    by (simp add: plain_keys_def)
  ultimately show ?thesis
    using identity_persists [of plain_keys "[]" "''key''" bare_os r os'] bare_generate by (simp add: l)
qed

end
