(* ===== verification/HfFallback.thy ===== *)
theory HfFallback
  imports PullFile Hfapi Ingest
begin

text \<open>
  \<open>internal/pull/hffallback.go\<close>: pulling a revision from the Hugging Face Hub. The transport is
  \<open>net\<close>, a function of the number of the request, so that the server may answer each one as it likes.
  SHA-1 and SHA-256 are arguments.
\<close>

section \<open>Downloading one blob\<close>

record mwriter =
  mw_os :: os
  mw_sha :: bytes
  mw_git :: bytes

text \<open>\<open>io.MultiWriter\<close> on the temporary file and the two hashers, which record what they were fed.\<close>

definition mw_write :: "path \<Rightarrow> bytes \<Rightarrow> mwriter \<Rightarrow> unit res \<times> mwriter" where
  "mw_write tf d w =
     (case os_write (mw_os w) tf d of
        (Inl e, os1) \<Rightarrow> (Inl e, w\<lparr>mw_os := os1\<rparr>)
      | (Inr _, os1) \<Rightarrow> (Inr (), \<lparr>mw_os = os1, mw_sha = mw_sha w @ d, mw_git = mw_git w @ d\<rparr>))"

record hublib =
  h_sha256 :: "bytes \<Rightarrow> bytes"
  h_sha1 :: "bytes \<Rightarrow> bytes"
  h_url_ok :: "string \<Rightarrow> unit res"

definition git_header :: "int \<Rightarrow> bytes" where
  "git_header sz = ''blob '' @ int_dec sz @ [char_of (0 :: nat)]"

text \<open>The switch on the digests: the error, or the manifest with its digest filled in.\<close>

definition check_digests :: "hublib \<Rightarrow> file_manifest \<Rightarrow> bytes \<Rightarrow> bytes \<Rightarrow> file_manifest res" where
  "check_digests H f sha_in git_in =
     (let got = hex_encode (h_sha256 H sha_in) in
      if fm_sha256 f \<noteq> [] \<and> got \<noteq> fm_sha256 f
      then Inl (Errorf ''hf: %s: sha256 mismatch (api says %s, content hashes to %s)''
                  [AStr (fm_path f), AStr (fm_sha256 f), AStr got])
      else if fm_sha256 f = []
      then let want = hex_encode (h_sha1 H git_in) in
        if want \<noteq> fm_blob f
        then Inl (Errorf ''hf: %s: git blob id mismatch (api says %s, content hashes to %s)''
                    [AStr (fm_path f), AStr (fm_blob f), AStr want])
        else Inr (f\<lparr>fm_sha256 := got\<rparr>)
      else Inr f)"

text \<open>From the end of the download on: close, check, rename, or remove the temporary file.\<close>

definition place_blob ::
  "hublib \<Rightarrow> file_manifest \<Rightarrow> string \<Rightarrow> string \<Rightarrow> path \<Rightarrow> int res \<Rightarrow> mwriter \<Rightarrow> int res \<times> file_manifest \<times> os" where
  "place_blob H f blob tmp tf res w =
     (case res of
        Inl e \<Rightarrow> (Inl (Wrapf ''hf: download %s: %w'' [AStr (fm_path f)] e), f,
                   snd (os_remove (snd (os_close (mw_os w) tf)) tmp))
      | Inr n \<Rightarrow>
          (case os_close (mw_os w) tf of
             (Inl e, os1) \<Rightarrow> (Inl (Wrapf ''hf: close %s: %w'' [AStr tmp] e), f, snd (os_remove os1 tmp))
           | (Inr _, os1) \<Rightarrow>
               if n \<noteq> fm_size f
               then (Inl (Errorf ''hf: %s: expected %d bytes, got %d'' [AStr (fm_path f), AInt (fm_size f), AInt n]),
                     f, snd (os_remove os1 tmp))
               else (case check_digests H f (mw_sha w) (mw_git w) of
                       Inl e \<Rightarrow> (Inl e, f, snd (os_remove os1 tmp))
                     | Inr f1 \<Rightarrow>
                         (case os_rename os1 tmp blob of
                            (Inl e, os2) \<Rightarrow> (Inl (Wrapf ''hf: place blob %s: %w'' [AStr (fm_blob f1)] e), f1,
                                             snd (os_remove os2 tmp))
                          | (Inr _, os2) \<Rightarrow> (Inr n, f1, os2)))))"

definition fetch_blob ::
  "hublib \<Rightarrow> transport \<Rightarrow> client \<Rightarrow> paths \<Rightarrow> string \<Rightarrow> repotype \<Rightarrow> string \<Rightarrow> file_manifest \<Rightarrow> int \<Rightarrow> 's xst \<Rightarrow>
     unit res \<times> file_manifest \<times> 's xst \<times> http_req list" where
  "fetch_blob H srv c p r t commit f tot x =
     (let blob = blob_path p (fm_blob f) in
      case os_stat (x_os x) blob of
        (st, os1) \<Rightarrow>
          if (case st of Inr i \<Rightarrow> node_size (fi_node i) = fm_size f | Inl _ \<Rightarrow> False)
          then (let x1 = x\<lparr>x_os := os1, x_done := wrap64 (x_done x + fm_size f)\<rparr>
                in (Inr (), f, emit \<lparr>pe_type = ''progress'',
                      pe_msg = Sprintf ''hf: %s already cached'' [AStr (fm_path f)],
                      pe_bytes = x_done x1, pe_total = tot\<rparr> x1, []))
          else (case rand_suffix os1 of
                  (sfx, os2) \<Rightarrow>
                    (let tmp = blob @ ''.'' @ sfx @ ''.download''
                     in case os_create os2 tmp 420 of
                          (Inl e, os3) \<Rightarrow> (Inl (Wrapf ''hf: create %s: %w'' [AStr tmp] e), f, x\<lparr>x_os := os3\<rparr>, [])
                        | (Inr tf, os3) \<Rightarrow>
                            (case download (h_url_ok H) srv c r t commit (fm_path f) (fm_size f) (mw_write tf)
                                    \<lparr>mw_os = os3, mw_sha = [], mw_git = git_header (fm_size f)\<rparr> of
                               (res, w, sent) \<Rightarrow>
                                 (case place_blob H f blob tmp tf res w of
                                    (Inl e, f1, os4) \<Rightarrow> (Inl e, f1, x\<lparr>x_os := os4\<rparr>, sent)
                                  | (Inr n, f1, os4) \<Rightarrow>
                                      (let x1 = x\<lparr>x_os := os4, x_done := wrap64 (x_done x + n)\<rparr>
                                       in (Inr (), f1, emit \<lparr>pe_type = ''progress'',
                                             pe_msg = Sprintf ''hf: %s (%s)'' [AStr (fm_path f), human_bytes n],
                                             pe_bytes = x_done x1, pe_total = tot\<rparr> x1, sent)))))))"

fun fetch_blobs ::
  "nat \<Rightarrow> hublib \<Rightarrow> (nat \<Rightarrow> transport) \<Rightarrow> client \<Rightarrow> paths \<Rightarrow> string \<Rightarrow> repotype \<Rightarrow> string \<Rightarrow> int \<Rightarrow>
     file_manifest list \<Rightarrow> 's xst \<Rightarrow> file_manifest list res \<times> 's xst \<times> http_req list" where
  "fetch_blobs k H net c p r t commit tot [] x = (Inr [], x, [])"
| "fetch_blobs k H net c p r t commit tot (f # fs) x =
     (case fetch_blob H (net k) c p r t commit f tot x of
        (Inl e, _, x1, sent) \<Rightarrow> (Inl e, x1, sent)
      | (Inr _, f1, x1, sent) \<Rightarrow>
          (case fetch_blobs (k + length sent) H net c p r t commit tot fs x1 of
             (Inl e, x2, sent2) \<Rightarrow> (Inl e, x2, sent @ sent2)
           | (Inr fs1, x2, sent2) \<Rightarrow> (Inr (f1 # fs1), x2, sent @ sent2)))"

section \<open>The manifest of a revision\<close>

definition sibling_manifest :: "(string \<times> string) list \<Rightarrow> sibling \<Rightarrow> file_manifest" where
  "sibling_manifest xet s =
     (let f = \<lparr>fm_path = s_name s, fm_blob = s_blob s, fm_size = s_size s, fm_sha256 = [], fm_mode = 420,
               fm_mtime = 0, fm_lfs = False,
               fm_xet = (case map_of xet (s_name s) of Some h \<Rightarrow> h | None \<Rightarrow> []), fm_src = []\<rparr>
      in case s_lfs s of
           None \<Rightarrow> f
         | Some l \<Rightarrow> f\<lparr>fm_lfs := True, fm_size := l_size l, fm_sha256 := l_sha256 l\<rparr>)"

fun manifest_loop ::
  "(string \<times> string) list \<Rightarrow> sibling list \<Rightarrow> file_manifest list \<Rightarrow> int \<Rightarrow> (file_manifest list \<times> int) res" where
  "manifest_loop xet [] acc tot = Inr (acc, tot)"
| "manifest_loop xet (s # ss) acc tot =
     (if s_blob s = [] then Inl (Errorf ''%s has no blob id'' [AStr (s_name s)])
      else if \<not> safe_blob_name (s_blob s) \<or> \<not> safe_rel_path (s_name s)
      then Inl (Errorf ''hub returned unsafe blob id %q or path %q'' [AStr (s_blob s), AStr (s_name s)])
      else if s_size s < 0 \<or> (case s_lfs s of Some l \<Rightarrow> l_size l < 0 | None \<Rightarrow> False)
      then Inl (Errorf ''%s has negative size'' [AStr (s_name s)])
      else let f = sibling_manifest xet s in manifest_loop xet ss (acc @ [f]) (wrap64 (tot + fm_size f)))"

definition manifest_from_revision :: "sibling list \<Rightarrow> (string \<times> string) list \<Rightarrow> (file_manifest list \<times> int) res" where
  "manifest_from_revision ss xet = manifest_loop xet ss [] 0"

section \<open>The fallback pull\<close>

definition resolve_token :: "string \<Rightarrow> string \<Rightarrow> string" where
  "resolve_token override configured = (if override \<noteq> [] then override else configured)"

definition hf_client :: "string \<Rightarrow> string \<Rightarrow> string \<Rightarrow> client" where
  "hf_client ep configured override = (new_client ep)\<lparr>token := resolve_token override configured\<rparr>"

text \<open>The map from paths to Xet hashes: later entries of the tree replace earlier ones.\<close>

definition xet_by_path :: "tree_entry list \<Rightarrow> (string \<times> string) list" where
  "xet_by_path tree = rev (map (\<lambda>e. (te_path e, te_xet e)) (filter (\<lambda>e. te_xet e \<noteq> []) tree))"
section \<open>What a download leaves\<close>

lemma copy_chunks_inv:
  assumes step: "\<And>d w n. I n w \<Longrightarrow> case wr d w of (Inl _, w1) \<Rightarrow> J w1 | (Inr _, w1) \<Rightarrow> I (n + int (length d)) w1"
  shows "I n w \<Longrightarrow> case copy_chunks wr cs n w of (Inl _, w1) \<Rightarrow> J w1 | (Inr k, w1) \<Rightarrow> I k w1"
proof (induction cs arbitrary: n w)
  case (Cons c cs)
  obtain r1 w1 where w: "wr c w = (r1, w1)" by fastforce
  with step [OF Cons.prems, of c] Cons.IH [of "n + int (length c)" w1] show ?case
    by (cases r1) simp_all
qed simp

lemma download_inv:
  assumes "\<And>d w n. I n w \<Longrightarrow> case wr d w of (Inl _, w1) \<Rightarrow> J w1 | (Inr _, w1) \<Rightarrow> I (n + int (length d)) w1"
    and "\<And>n w. I n w \<Longrightarrow> J w" and "I 0 w" and "download url_ok srv c r t rev0 p sz wr w = (res, w', sent)"
  shows "case res of Inl _ \<Rightarrow> J w' | Inr n \<Rightarrow> I n w'"
proof -
  have "case copy_chunks wr cs 0 w of (Inl _, w1) \<Rightarrow> J w1 | (Inr k, w1) \<Rightarrow> I k w1" for cs
    by (rule copy_chunks_inv [OF assms(1) assms(3)])
  then have fin: "case r0 of Inl _ \<Rightarrow> J w0 | Inr k \<Rightarrow> I k w0" if "copy_chunks wr cs 0 w = (r0, w0)" for cs r0 w0
    using that by (metis (mono_tags, lifting) case_prod_conv old.sum.simps)
  show ?thesis
    using assms(4) fin assms(2,3)
    by (fastforce simp: download_def Let_def split: sum.splits if_splits prod.splits option.splits)
qed

definition mw_sync :: "os \<Rightarrow> path \<Rightarrow> nat \<Rightarrow> bytes \<Rightarrow> int \<Rightarrow> mwriter \<Rightarrow> bool" where
  "mw_sync os q m h n w = (fs_upd os q (Some (FFile (mw_sha w) m)) (mw_os w) \<and> mw_git w = h @ mw_sha w
     \<and> n = int (length (mw_sha w)))"

definition mw_partial :: "os \<Rightarrow> path \<Rightarrow> nat \<Rightarrow> mwriter \<Rightarrow> bool" where
  "mw_partial os q m w = (\<exists>v. fs_upd os q (Some (FFile v m)) (mw_os w))"

lemma mw_write_sync:
  assumes "mw_sync os q m h n w" "q \<noteq> []"
  shows "case mw_write q d w of (Inl _, w1) \<Rightarrow> mw_partial os q m w1 | (Inr _, w1) \<Rightarrow> mw_sync os q m h (n + int (length d)) w1"
proof -
  obtain r1 os1 where wr: "os_write (mw_os w) q d = (r1, os1)" by fastforce
  have u: "fs_upd os q (Some (FFile (mw_sha w) m)) (mw_os w)" using assms(1) by (simp add: mw_sync_def)
  then have "lookup (mw_os w) q = Some (FFile (mw_sha w) m)" by (simp add: fs_upd_def)
  from os_write_upd [OF wr this assms(2)] obtain v where
    v: "fs_upd (mw_os w) q (Some (FFile (mw_sha w @ v) m)) os1" "ok r1 \<longrightarrow> v = d" by blast
  note fs_upd_upd [OF u v(1)]
  with v(2) wr assms(1) show ?thesis
    by (cases r1) (auto simp: mw_write_def mw_sync_def mw_partial_def)
qed

definition hub_verified :: "hublib \<Rightarrow> file_manifest \<Rightarrow> fnode option \<Rightarrow> bool" where
  "hub_verified H f n = (\<exists>d m. n = Some (FFile d m) \<and> int (length d) = fm_size f
     \<and> (if fm_sha256 f = [] then hex_encode (h_sha1 H (git_header (fm_size f) @ d)) = fm_blob f
        else hex_encode (h_sha256 H d) = fm_sha256 f))"

lemma place_blob_outcome:
  assumes run: "place_blob H f (abs_path (ds @ [b])) (abs_path (ds @ [t])) (ds @ [t]) res w = (r, f', os')"
    and sync: "case res of Inl _ \<Rightarrow> mw_partial os (ds @ [t]) m w | Inr n \<Rightarrow> mw_sync os (ds @ [t]) m (git_header (fm_size f)) n w"
    and d: "dir_at os ds" and nt: "norm_seg t" and nb: "norm_seg b" and tb: "t \<noteq> b"
    and free: "lookup os (ds @ [t]) = None" and nd: "lookup os (ds @ [b]) \<noteq> Some FDir"
  shows "(\<forall>q. q \<noteq> ds @ [t] \<longrightarrow> q \<noteq> ds @ [b] \<longrightarrow> lookup os' q = lookup os q)
    \<and> (if ok r then hub_verified H f (lookup os' (ds @ [b])) \<and> lookup os' (ds @ [t]) = None
       else lookup os' (ds @ [b]) = lookup os (ds @ [b]))"
proof -
  let ?q = "ds @ [t]" let ?b = "ds @ [b]"
  obtain v where v: "fs_upd os ?q (Some (FFile v m)) (mw_os w)" and vs: "ok res \<longrightarrow> v = mw_sha w"
    using sync by (cases res) (auto simp: mw_partial_def mw_sync_def)
  obtain r1 os1 where c: "os_close (mw_os w) ?q = (r1, os1)" by fastforce
  have u1: "fs_upd os ?q (Some (FFile v m)) os1" using fs_upd_fs [OF v read_calls_fs(6) [OF c]] .
  have d1: "dir_at os1 ds" using dir_at_upd [OF u1] d free by simp
  have undo: "\<exists>k. fs_upd os ?q k (snd (os_remove oo (abs_path ?q)))" if oo: "fs_upd os ?q (Some (FFile v m)) oo" for oo
  proof -
    obtain r2 os2 where m: "os_remove oo (abs_path ?q) = (r2, os2)" by fastforce
    have "dir_at oo ds" using dir_at_upd [OF oo] d free by simp
    from os_remove_frame [OF m this nt] oo fs_upd_upd [OF oo] m show ?thesis by (fastforce simp: fs_upd_def)
  qed
  have failed: ?thesis if "\<not> ok r" "fs_upd os ?q k os'" for k
    using that tb by (simp add: fs_upd_def)
  show ?thesis
  proof (cases "\<exists>f1. ok res \<and> ok r1 \<and> projr res = fm_size f \<and> check_digests H f (mw_sha w) (mw_git w) = Inr f1")
    case False
    then have "\<not> ok r" "os' = snd (os_remove os1 (abs_path ?q))"
      using run c by (auto simp: place_blob_def split: sum.splits if_splits)
    with undo [OF u1] failed show ?thesis by blast
  next
    case True
    then obtain f1 where chk: "check_digests H f (mw_sha w) (mw_git w) = Inr f1" and res: "res = Inr (fm_size f)"
      and ok1: "r1 = Inr ()" by (cases res; cases r1) auto
    have vv: "v = mw_sha w" "mw_git w = git_header (fm_size f) @ v" "int (length v) = fm_size f"
      using vs sync res by (auto simp: mw_sync_def)
    have good: "hub_verified H f (Some (FFile v m))"
      using chk vv by (auto simp: hub_verified_def check_digests_def Let_def split: if_splits)
    obtain r2 os2 where rn: "os_rename os1 (abs_path ?q) (abs_path ?b) = (r2, os2)" by fastforce
    have l1: "lookup os1 ?q = Some (FFile v m)" "lookup os1 ?b \<noteq> Some FDir"
      using u1 nd tb by (auto simp: fs_upd_def)
    note rd = os_rename_in_dir [OF rn d1 nt nb tb l1]
    show ?thesis
    proof (cases "ok r2")
      case False
      then have "\<not> ok r" "os' = snd (os_remove os2 (abs_path ?q))"
        using run c rn chk res ok1 by (auto simp: place_blob_def split: sum.splits)
      moreover have "fs_upd os ?q (Some (FFile v m)) os2" using fs_upd_fs [OF u1] rd False by simp
      ultimately show ?thesis using undo failed by blast
    next
      case True
      then have "ok r" "os' = os2" using run c rn chk res ok1 by (auto simp: place_blob_def split: sum.splits)
      moreover have "lookup os2 = (lookup os)(?q := None, ?b := Some (FFile v m))"
        using rd True u1 by (auto simp: fs_upd_def fun_eq_iff)
      ultimately show ?thesis using good tb by simp
    qed
  qed
qed
section \<open>Properties\<close>

text \<open>C20: a blob fetched from the Hub is verified before it gets its name: whatever the server sends and
  whichever system calls fail, \<open>fetchBlob\<close> either leaves the blob as it was, or makes it a file of the
  manifest's size that has the manifest's SHA-256 or, where the manifest has none, whose git blob id is its
  name. If it fails the blob is as before; if it succeeds without touching the blob, a
  file of the right size was there (its content is not hashed again). No path but the blob and the
  temporary file changes. The random suffix is assumed to give a new file.\<close>

theorem fetch_blob_verified:
  assumes run: "fetch_blob H srv c p r t commit f tot x = (res, f', x', sent)"
    and ds: "p_blobs p = abs_path ds" "dir_at (x_os x) ds"
    and b: "norm_seg (fm_blob f)" "lookup (x_os x) (ds @ [fm_blob f]) \<noteq> Some FDir"
    and fresh: "\<And>k. sep \<notin> set (rands (x_os x) k)
      \<and> lookup (x_os x) (ds @ [fm_blob f @ ''.'' @ rands (x_os x) k @ ''.download'']) = None"
  shows "(\<forall>q. q \<noteq> ds @ [fm_blob f] \<longrightarrow> (\<forall>k. q \<noteq> ds @ [fm_blob f @ ''.'' @ rands (x_os x) k @ ''.download'']) \<longrightarrow>
            lookup (x_os x') q = lookup (x_os x) q)
    \<and> (if ok res
       then hub_verified H f (lookup (x_os x') (ds @ [fm_blob f]))
            \<or> lookup (x_os x') = lookup (x_os x)
              \<and> (\<exists>q n. resolve (x_os x) True (blob_path p (fm_blob f)) = Inr q \<and> lookup (x_os x) q = Some n
                   \<and> node_size n = fm_size f)
       else lookup (x_os x') (ds @ [fm_blob f]) = lookup (x_os x) (ds @ [fm_blob f]))"
proof -
  let ?os = "x_os x" let ?b = "ds @ [fm_blob f]"
  have blob: "blob_path p (fm_blob f) = abs_path ?b"
    using join_path_seg [OF _ b(1), of ds] ds(2) by (simp add: blob_path_def ds(1) dir_at_def)
  obtain st os1 where s: "os_stat ?os (abs_path ?b) = (st, os1)" by fastforce
  have fs1: "same_fs ?os os1" using read_calls_fs(1) [OF s] .
  show ?thesis
  proof (cases "case st of Inr i \<Rightarrow> node_size (fi_node i) = fm_size f | Inl _ \<Rightarrow> False")
    case True
    with run s have "res = Inr ()" "x_os x' = os1" by (auto simp: fetch_blob_def blob Let_def)
    moreover have "\<exists>q n. resolve ?os True (abs_path ?b) = Inr q \<and> lookup ?os q = Some n \<and> node_size n = fm_size f"
      using True s by (auto simp: os_stat_def syscall_def at_path_def info_of_def resolve_tick
          split: option.splits sum.splits)
    ultimately show ?thesis using fs1 by (simp add: blob same_fs_def)
  next
    case False
    let ?k = "ticks os1" let ?t = "fm_blob f @ ''.'' @ rands ?os ?k @ ''.download''"
    have rnd: "rand_suffix os1 = (rands ?os ?k, tick os1)"
      using fs1 by (simp add: rand_suffix_def same_fs_def env_eq_def)
    have nt: "norm_seg ?t" using norm_append [OF b(1), of "''.'' @ rands ?os ?k @ ''.download''"] fresh by simp
    have free: "lookup ?os (ds @ [?t]) = None" using fresh by simp
    have fs2: "same_fs ?os (tick os1)" using fs_trans [OF fs1 fs_tick] .
    obtain r3 os3 where cr: "os_create (tick os1) (abs_path (ds @ [?t])) 420 = (r3, os3)" by fastforce
    have e: "case r3 of Inl _ \<Rightarrow> same_fs (tick os1) os3
      | Inr tf \<Rightarrow> tf = ds @ [?t] \<and> fs_upd (tick os1) (ds @ [?t]) (Some (FFile [] 420)) os3"
      by (rule os_create_fresh [OF cr _ nt]) (use ds(2) free dir_at_cong [OF fs2] fs2 in \<open>simp_all add: same_fs_def\<close>)
    show ?thesis
    proof (cases r3)
      case (Inl err)
      with run s False rnd cr have "\<not> ok res" "x_os x' = os3"
        by (auto simp: fetch_blob_def blob Let_def abs_path_extend)
      moreover have "same_fs ?os os3" using e Inl fs_trans [OF fs2] by simp
      ultimately show ?thesis by (simp add: same_fs_def)
    next
      case (Inr tf)
      with e have tf: "tf = ds @ [?t]" and u: "fs_upd ?os (ds @ [?t]) (Some (FFile [] 420)) os3"
        using fs_fs_upd [OF fs2] by auto
      let ?w0 = "\<lparr>mw_os = os3, mw_sha = [], mw_git = git_header (fm_size f)\<rparr>"
      obtain dr w sent1 where dl: "download (h_url_ok H) srv c r t commit (fm_path f) (fm_size f) (mw_write (ds @ [?t])) ?w0 = (dr, w, sent1)"
        by (metis prod_cases3)
      have sync: "case dr of Inl _ \<Rightarrow> mw_partial ?os (ds @ [?t]) 420 w
          | Inr n \<Rightarrow> mw_sync ?os (ds @ [?t]) 420 (git_header (fm_size f)) n w"
        by (rule download_inv [OF mw_write_sync _ _ dl])
           (use u in \<open>auto simp: mw_sync_def mw_partial_def\<close>)
      obtain pr f1 os4 where pl: "place_blob H f (abs_path ?b) (abs_path (ds @ [?t])) (ds @ [?t]) dr w = (pr, f1, os4)"
        by (metis prod_cases3)
      have out: "ok res = ok pr" "x_os x' = os4"
        using run s False rnd cr Inr tf dl pl by (auto simp: fetch_blob_def blob Let_def abs_path_extend split: sum.splits)
      have tb: "?t \<noteq> fm_blob f" by simp
      show ?thesis
        using place_blob_outcome [OF pl sync ds(2) nt b(1) tb free b(2)] out by auto
    qed
  qed
qed
text \<open>A server that answers with two bytes; the digests are the identity here.\<close>

definition plain_hub :: hublib where
  "plain_hub = \<lparr>h_sha256 = (\<lambda>d. d), h_sha1 = (\<lambda>d. d), h_url_ok = (\<lambda>_. Inr ())\<rparr>"

theorem fetch_blob_verified_witness:
  "\<exists>res f' x' sent. fetch_blob plain_hub (\<lambda>_. Inr \<lparr>rs_status = 200, rs_chunks = [''h'', ''i''], rs_err = None\<rparr>)
       (new_client ''https://hf.co'') (snap_paths\<lparr>p_blobs := ''/''\<rparr>) ''m'' Model ''c'' demo_file 2 demo_x = (res, f', x', sent)
     \<and> (lookup (x_os x') [''abc''] = None \<or> (\<exists>m. lookup (x_os x') [''abc''] = Some (FFile ''hi'' m)))"
proof -
  let ?p = "snap_paths\<lparr>p_blobs := ''/''\<rparr>"
  obtain res f' x' sent where run: "fetch_blob plain_hub (\<lambda>_. Inr \<lparr>rs_status = 200, rs_chunks = [''h'', ''i''], rs_err = None\<rparr>)
       (new_client ''https://hf.co'') ?p ''m'' Model ''c'' demo_file 2 demo_x = (res, f', x', sent)"
    by (metis prod_cases4)
  have f: "fm_blob demo_file = ''abc''" "fm_size demo_file = 2" "fm_sha256 demo_file = hex_encode ''hi''"
    by (simp_all add: demo_file_def sample_manifest_def)
  have l: "lookup (x_os demo_x) q = (if q = [] then Some FDir else None)" for q
    by (simp add: demo_x_def empty_os_def lookup_def)
  have ds: "p_blobs ?p = abs_path []" "dir_at (x_os demo_x) []" by (simp_all add: abs_path_def dir_at_def l)
  have b: "norm_seg (fm_blob demo_file)" "lookup (x_os demo_x) ([] @ [fm_blob demo_file]) \<noteq> Some FDir"
    by (simp_all add: f norm_seg_def l)
  have fr: "sep \<notin> set (rands (x_os demo_x) k)
      \<and> lookup (x_os demo_x) ([] @ [fm_blob demo_file @ ''.'' @ rands (x_os demo_x) k @ ''.download'']) = None" for k
    by (simp add: l) (simp add: demo_x_def empty_os_def)
  have inj: "d = ''hi''" if "hex_encode d = hex_encode ''hi''" for d
    using that by (metis hex_decode_encode sum.inject(2))
  have "hex_encode ''hi'' \<noteq> []" by simp
  with fetch_blob_verified [OF run ds b fr] have "lookup (x_os x') [''abc''] = None
      \<or> (\<exists>d m. lookup (x_os x') [''abc''] = Some (FFile d m) \<and> hex_encode d = hex_encode ''hi'')"
    by (auto simp: f l hub_verified_def plain_hub_def simp del: hex_encode.simps split: if_splits)
  with run inj show ?thesis by blast
qed

text \<open>Every request of the downloads is one of the client's own.\<close>

lemma fetch_blob_sent:
  "fetch_blob H srv c p r t commit f tot x = (res, f', x', sent) \<Longrightarrow> list_all (own_request c) sent"
  by (auto simp: fetch_blob_def Let_def split: if_splits prod.splits sum.splits dest: download_sent)

lemma fetch_blobs_sent:
  "fetch_blobs k H net c p r t commit tot fs x = (res, x', sent) \<Longrightarrow> list_all (own_request c) sent"
  by (induction fs arbitrary: k x res sent)
     (force dest: fetch_blob_sent split: prod.splits sum.splits)+

text \<open>What a listed file must be.\<close>

definition sibling_ok :: "sibling \<Rightarrow> bool" where
  "sibling_ok s = (safe_blob_name (s_blob s) \<and> safe_rel_path (s_name s) \<and> 0 \<le> s_size s
     \<and> (case s_lfs s of Some l \<Rightarrow> 0 \<le> l_size l | None \<Rightarrow> True))"

lemma manifest_loop_spec:
  "if list_all sibling_ok ss
   then manifest_loop xet ss acc (wrap64 t)
     = Inr (acc @ map (sibling_manifest xet) ss, wrap64 (t + (\<Sum>s \<leftarrow> ss. fm_size (sibling_manifest xet s))))
   else \<not> ok (manifest_loop xet ss acc (wrap64 t))"
proof (induction ss arbitrary: acc t)
  case (Cons s ss)
  have "safe_blob_name (s_blob s) \<Longrightarrow> s_blob s \<noteq> []" by (auto simp: safe_blob_name_def)
  with Cons.IH [of "acc @ [sibling_manifest xet s]" "t + fm_size (sibling_manifest xet s)"] show ?case
    by (auto simp: sibling_ok_def Let_def wrap64_add not_less add.assoc split: option.splits)
qed simp

lemma sibling_manifest_facts:
  "fm_path (sibling_manifest xet s) = s_name s" "fm_blob (sibling_manifest xet s) = s_blob s"
  "fm_mode (sibling_manifest xet s) = 420" "fm_mtime (sibling_manifest xet s) = 0" "fm_src (sibling_manifest xet s) = []"
  "fm_lfs (sibling_manifest xet s) \<longleftrightarrow> s_lfs s \<noteq> None"
  "s_lfs s = Some l \<Longrightarrow> fm_size (sibling_manifest xet s) = l_size l"
  "s_lfs s = Some l \<Longrightarrow> fm_sha256 (sibling_manifest xet s) = l_sha256 l"
  "s_lfs s = None \<Longrightarrow> fm_size (sibling_manifest xet s) = s_size s"
  "s_lfs s = None \<Longrightarrow> fm_sha256 (sibling_manifest xet s) = []"
  "map_of xet (s_name s) = Some h \<Longrightarrow> fm_xet (sibling_manifest xet s) = h"
  "map_of xet (s_name s) = None \<Longrightarrow> fm_xet (sibling_manifest xet s) = []"
  "sibling_ok s \<Longrightarrow> 0 \<le> fm_size (sibling_manifest xet s)"
  by (auto simp: sibling_manifest_def sibling_ok_def Let_def split: option.splits)

text \<open>C21: \<open>manifestFromRevision\<close> accepts a listing exactly when every file has a safe blob name and path and
  no negative size. The manifests then keep the order and number of the listing: each carries the
  listed path, the blob id as blob name, mode 0644, no modification time and no source path; a file with
  an LFS record takes size and SHA-256 from that record and is marked as LFS, any other takes the listed
  size and carries no digest, so that \<open>fetchBlob\<close> checks the git blob id; the Xet hash is the tree's for that
  path, if it has one. The total is the sum of the sizes, in 64 bits.\<close>

theorem manifest_from_revision_correct:
  "(case manifest_from_revision ss xet of
      Inr (fs, tot) \<Rightarrow> list_all sibling_ok ss \<and> length fs = length ss
        \<and> (\<forall>i. i < length ss \<longrightarrow>
              fm_path (fs ! i) = s_name (ss ! i) \<and> fm_blob (fs ! i) = s_blob (ss ! i)
              \<and> fm_mode (fs ! i) = 420 \<and> fm_mtime (fs ! i) = 0 \<and> fm_src (fs ! i) = []
              \<and> (fm_lfs (fs ! i) \<longleftrightarrow> s_lfs (ss ! i) \<noteq> None)
              \<and> (\<forall>l. s_lfs (ss ! i) = Some l \<longrightarrow> fm_size (fs ! i) = l_size l \<and> fm_sha256 (fs ! i) = l_sha256 l)
              \<and> (s_lfs (ss ! i) = None \<longrightarrow> fm_size (fs ! i) = s_size (ss ! i) \<and> fm_sha256 (fs ! i) = [])
              \<and> (\<forall>h. map_of xet (s_name (ss ! i)) = Some h \<longrightarrow> fm_xet (fs ! i) = h)
              \<and> (map_of xet (s_name (ss ! i)) = None \<longrightarrow> fm_xet (fs ! i) = [])
              \<and> 0 \<le> fm_size (fs ! i))
        \<and> tot = wrap64 (\<Sum>f \<leftarrow> fs. fm_size f)
    | Inl _ \<Rightarrow> \<not> list_all sibling_ok ss)"
proof -
  have z: "wrap64 0 = 0" by (simp add: wrap64_def)
  note loop = manifest_loop_spec [of ss xet "[]" 0, unfolded z, folded manifest_from_revision_def]
  show ?thesis
  proof (cases "list_all sibling_ok ss")
    case True
    then have ok: "sibling_ok (ss ! i)" if "i < length ss" for i using that by (simp add: list_all_length)
    from True loop have "manifest_from_revision ss xet
        = Inr (map (sibling_manifest xet) ss, wrap64 (\<Sum>s \<leftarrow> ss. fm_size (sibling_manifest xet s)))" by simp
    with True ok show ?thesis by (auto simp: comp_def sibling_manifest_facts)
  next
    case False
    with loop obtain e where "manifest_from_revision ss xet = Inl e" by (cases "manifest_from_revision ss xet") auto
    with False show ?thesis by simp
  qed
qed

text \<open>A listing with an LFS file and a plain one, and one whose path leaves the snapshot.\<close>

definition lfs_listing :: "sibling list" where
  "lfs_listing = [\<lparr>s_name = ''w.bin'', s_blob = ''b1'', s_size = 130, s_lfs = Some \<lparr>l_sha256 = ''d1'', l_size = 9, l_pointer = 130\<rparr>\<rparr>,
     \<lparr>s_name = ''README.md'', s_blob = ''b2'', s_size = 5, s_lfs = None\<rparr>]"

theorem manifest_from_revision_correct_witness:
  "(\<exists>f g. manifest_from_revision lfs_listing [(''w.bin'', ''x'')] = Inr ([f, g], 14)
      \<and> fm_size f = 9 \<and> fm_sha256 f = ''d1'' \<and> fm_xet f = ''x'' \<and> fm_size g = 5 \<and> fm_sha256 g = [] \<and> fm_xet g = [])
   \<and> \<not> ok (manifest_from_revision [\<lparr>s_name = ''../x'', s_blob = ''b'', s_size = 1, s_lfs = None\<rparr>] [])"
proof
  have good: "list_all sibling_ok lfs_listing"
    by code_simp
  obtain fs tot where run: "manifest_from_revision lfs_listing [(''w.bin'', ''x'')] = Inr (fs, tot)"
    using manifest_from_revision_correct [of lfs_listing "[(''w.bin'', ''x'')]"] good
    by (cases "manifest_from_revision lfs_listing [(''w.bin'', ''x'')]") auto
  have two: "length lfs_listing = 2" "lfs_listing ! 0 = hd lfs_listing" "lfs_listing ! 1 = last lfs_listing"
    by (simp_all add: lfs_listing_def)
  note spec = manifest_from_revision_correct [of lfs_listing "[(''w.bin'', ''x'')]", unfolded run sum.case prod.case two(1)]
  from spec obtain f g where fg: "fs = [f, g]" by (auto simp: numeral_2_eq_2 length_Suc_conv)
  from spec have "fm_size f = 9 \<and> fm_sha256 f = ''d1'' \<and> fm_xet f = ''x'' \<and> fm_size g = 5 \<and> fm_sha256 g = [] \<and> fm_xet g = []
      \<and> tot = wrap64 (fm_size f + fm_size g)"
    by (auto simp: fg numeral_2_eq_2 All_less_Suc lfs_listing_def add.commute)
  then show "\<exists>f g. manifest_from_revision lfs_listing [(''w.bin'', ''x'')] = Inr ([f, g], 14)
      \<and> fm_size f = 9 \<and> fm_sha256 f = ''d1'' \<and> fm_xet f = ''x'' \<and> fm_size g = 5 \<and> fm_sha256 g = [] \<and> fm_xet g = []"
    using run fg by (auto simp: wrap64_id)
next
  let ?ss = "[\<lparr>s_name = ''../x'', s_blob = ''b'', s_size = 1, s_lfs = None\<rparr>]"
  have "\<not> list_all sibling_ok ?ss" by (simp add: sibling_ok_def safe_rel_path_def has_prefix_def contains_char_def)
  then show "\<not> ok (manifest_from_revision ?ss [])"
    using manifest_from_revision_correct [of ?ss "[]"] by (cases "manifest_from_revision ?ss []") auto
qed

end
