(* ===== verification/NodeNet.thy ===== *)
theory NodeNet
  imports Serve Config
begin

text \<open>
  The part of \<open>internal/node/node.go\<close> that deals with the swarm: address selection, dialling,
  announcing and resolving providers, the choice of bootstrap peers and relays. libp2p, the DHT and the multiaddr
  packages are third-party code, the argument \<open>N\<close>, over an arbitrary network state. A multiaddr is its text.
  Waiting with a ticker and a deadline is recursion over the number of ticks that come before the deadline
  or the cancellation of the context, which is an argument: every such timing is covered.
\<close>

section \<open>Interfaces\<close>

type_synonym maddr = string

record addrinfo =
  ai_id :: string
  ai_addrs :: "maddr list"

record 'w netlib =
  parse_maddr :: "string \<Rightarrow> maddr res"
  maddr_info :: "maddr \<Rightarrow> addrinfo res"
  maddr_infos :: "maddr list \<Rightarrow> addrinfo list res"
  is_public :: "maddr \<Rightarrow> bool"
  is_loopback :: "maddr \<Rightarrow> bool res"
  default_boot :: "addrinfo list"
  dial_errors :: "goerr \<Rightarrow> (string \<times> goerr) list option"
  host_connect :: "addrinfo \<Rightarrow> 'w \<Rightarrow> unit res \<times> 'w"
  open_stream :: "string \<Rightarrow> string \<Rightarrow> 'w \<Rightarrow> conn res \<times> 'w"
  dht_provide :: "cid \<Rightarrow> 'w \<Rightarrow> unit res \<times> 'w"
  dht_find :: "cid \<Rightarrow> int \<Rightarrow> 'w \<Rightarrow> addrinfo list \<times> 'w"
  rt_size :: "'w \<Rightarrow> nat \<times> 'w"

datatype reachability = ReachabilityUnknown | ReachabilityPublic | ReachabilityPrivate

section \<open>Addresses\<close>

fun loopback_only :: "'w netlib \<Rightarrow> maddr list \<Rightarrow> bool" where
  "loopback_only N addrs = (addrs \<noteq> [] \<and> list_all (\<lambda>a. is_loopback N a = Inr True) addrs)"

definition announce_addrs :: "'w netlib \<Rightarrow> maddr list \<Rightarrow> maddr list" where
  "announce_addrs N addrs =
     (let out = filter (is_public N) addrs in if out = [] then addrs else out)"

fun split_public :: "'w netlib \<Rightarrow> maddr list \<Rightarrow> maddr list \<Rightarrow> maddr list \<Rightarrow> maddr list \<times> maddr list" where
  "split_public N [] pub local = (pub, local)"
| "split_public N (a # addrs) pub local =
     (if is_public N a then split_public N addrs (pub @ [a]) local
      else split_public N addrs pub (local @ [a]))"

definition dial_order :: "'w netlib \<Rightarrow> maddr list \<Rightarrow> maddr list" where
  "dial_order N addrs = (case split_public N addrs [] [] of (pub, local) \<Rightarrow> pub @ local)"

definition utf8_dash :: string where "utf8_dash = map char_of [0xE2, 0x80, 0x94 :: nat]"
definition utf8_dots :: string where "utf8_dots = map char_of [0xE2, 0x80, 0xA6 :: nat]"

definition reachability_line :: "reachability \<Rightarrow> config \<Rightarrow> string" where
  "reachability_line r c =
     (if cf_isolated c then ''n/a (isolated node: no swarm to probe against)''
      else case r of
             ReachabilityPublic \<Rightarrow> ''public '' @ utf8_dash @ '' dialable by strangers''
           | ReachabilityPrivate \<Rightarrow>
               ''private '' @ utf8_dash @ '' NOT dialable by strangers; ''
               @ (if \<not> cf_nat_port_map c then ''port mapping is off; drop --no-nat-portmap or port-forward manually''
                  else ''NAT-PMP/UPnP did not map the port; port it forward on the gateway'')
               @ '' (hole punching still works for peers that can reach us at all)''
           | ReachabilityUnknown \<Rightarrow> ''probing (AutoNAT)'' @ utf8_dots)"

section \<open>Dialling\<close>

definition dial :: "'w netlib \<Rightarrow> string \<Rightarrow> 'w \<Rightarrow> string res \<times> 'w" where
  "dial N a w =
     (case parse_maddr N a of
        Inl e \<Rightarrow> (Inl (Wrapf ''parse peer address %q: %w'' [AStr a] e), w)
      | Inr m \<Rightarrow>
          (case maddr_info N m of
             Inl e \<Rightarrow> (Inl (Wrapf ''parse peer address %q: %w'' [AStr a] e), w)
           | Inr ai \<Rightarrow>
               (case host_connect N ai w of
                  (Inl e, w1) \<Rightarrow> (Inl (Wrapf ''connect %s: %w'' [AStr a] e), w1)
                | (Inr _, w1) \<Rightarrow> (Inr (ai_id ai), w1))))"

fun dial_peers :: "'w netlib \<Rightarrow> string list \<Rightarrow> 'w \<Rightarrow> 'w" where
  "dial_peers N [] w = w"
| "dial_peers N (a # as) w = dial_peers N as (snd (dial N a w))"

fun parse_addrs :: "'w netlib \<Rightarrow> string list \<Rightarrow> maddr list res" where
  "parse_addrs N [] = Inr []"
| "parse_addrs N (s # ss) =
     (case parse_maddr N s of
        Inl e \<Rightarrow> Inl (Wrapf ''parse multiaddr %q: %w'' [AStr s] e)
      | Inr m \<Rightarrow> (case parse_addrs N ss of Inl e \<Rightarrow> Inl e | Inr ms \<Rightarrow> Inr (m # ms)))"

definition resolve_bootstrap :: "'w netlib \<Rightarrow> config \<Rightarrow> addrinfo list res" where
  "resolve_bootstrap N c =
     (if cf_isolated c then Inr []
      else if cf_bootstrap c = [] then Inr (default_boot N)
      else case parse_addrs N (cf_bootstrap c) of Inl e \<Rightarrow> Inl e | Inr addrs \<Rightarrow> maddr_infos N addrs)"

text \<open>
  \<open>relayCandidates\<close>: the peers handed to autorelay. \<open>hop\<close> and \<open>addrs\<close> are the peer store's answers, \<open>taken k\<close>
  says whether the k-th candidate is received before the context ends.
\<close>

fun relay_candidates ::
  "(string \<Rightarrow> string list res) \<Rightarrow> (string \<Rightarrow> maddr list) \<Rightarrow> (nat \<Rightarrow> bool) \<Rightarrow> nat \<Rightarrow> string list \<Rightarrow> int \<Rightarrow> addrinfo list" where
  "relay_candidates hop addrs taken k [] num = []"
| "relay_candidates hop addrs taken k (p # ps) num =
     (if num \<le> 0 then []
      else case hop p of
             Inl _ \<Rightarrow> relay_candidates hop addrs taken k ps num
           | Inr ok0 \<Rightarrow>
               if ok0 = [] then relay_candidates hop addrs taken k ps num
               else if addrs p = [] then relay_candidates hop addrs taken k ps num
               else if taken k then \<lparr>ai_id = p, ai_addrs = addrs p\<rparr> # relay_candidates hop addrs taken (Suc k) ps (num - 1)
               else [])"

section \<open>Announcing\<close>

definition provide_commit :: "cidlib \<Rightarrow> 'w netlib \<Rightarrow> string \<Rightarrow> cid \<Rightarrow> 'w \<Rightarrow> unit res \<times> 'w" where
  "provide_commit L N commit actual w =
     (case from_commit L commit of
        Inl e \<Rightarrow> (Inl e, w)
      | Inr dc \<Rightarrow>
          (case dht_provide N dc w of
             (Inl e, w1) \<Rightarrow> (Inl (Wrapf ''provide dummy cid %s: %w'' [AStr (cid_string L dc)] e), w1)
           | (Inr _, w1) \<Rightarrow>
               if cid_defined actual \<and> actual \<noteq> dc then (Inr (), snd (dht_provide N actual w1))
               else (Inr (), w1)))"

fun reprovide_entries :: "cidlib \<Rightarrow> 'w netlib \<Rightarrow> entry list \<Rightarrow> nat \<Rightarrow> 'w \<Rightarrow> nat \<times> 'w" where
  "reprovide_entries L N [] k w = (k, w)"
| "reprovide_entries L N (e # es) k w =
     (case cid_decode L (actual_cid e) of
        Inl _ \<Rightarrow> reprovide_entries L N es k w
      | Inr actual \<Rightarrow>
          (case provide_commit L N (commit_hash e) actual w of
             (Inl _, w1) \<Rightarrow> reprovide_entries L N es k w1
           | (Inr _, w1) \<Rightarrow> reprovide_entries L N es (Suc k) w1))"

definition reprovide_all :: "cidlib \<Rightarrow> 's maplib \<Rightarrow> 'w netlib \<Rightarrow> 's \<Rightarrow> 'w \<Rightarrow> nat res \<times> 'w" where
  "reprovide_all L M N db w =
     (case rt_size N w of
        (sz, w1) \<Rightarrow>
          if sz = 0 then (Inr 0, w1)
          else (case map_list M db of
                  Inl e \<Rightarrow> (Inl e, w1)
                | Inr es \<Rightarrow> (case reprovide_entries L N es 0 w1 of (k, w2) \<Rightarrow> (Inr k, w2))))"

section \<open>Waiting and resolving\<close>

text \<open>\<open>canceled\<close> says whether the context ends first, otherwise the deadline fires after \<open>n\<close> ticks.\<close>

fun wait_for_routing_table :: "'w netlib \<Rightarrow> nat \<Rightarrow> bool \<Rightarrow> 'w \<Rightarrow> nat \<times> 'w" where
  "wait_for_routing_table N n canceled w =
     (case rt_size N w of
        (sz, w1) \<Rightarrow>
          if sz > 0 then (sz, w1)
          else case n of
                 0 \<Rightarrow> if canceled then (0, w1) else rt_size N w1
               | Suc m \<Rightarrow> wait_for_routing_table N m canceled w1)"

declare wait_for_routing_table.simps [simp del]

text \<open>The successive verdicts AutoNAT has stored when they are read are \<open>reach 0\<close>, \<open>reach 1\<close>, and so on.\<close>

fun wait_for_reachability :: "bool \<Rightarrow> (nat \<Rightarrow> reachability) \<Rightarrow> nat \<Rightarrow> nat \<Rightarrow> reachability" where
  "wait_for_reachability isolated reach k n =
     (if isolated then ReachabilityUnknown
      else if reach k \<noteq> ReachabilityUnknown then reach k
      else case n of 0 \<Rightarrow> reach (Suc k) | Suc m \<Rightarrow> wait_for_reachability isolated reach (Suc k) m)"

declare wait_for_reachability.simps [simp del]

definition find_providers :: "cidlib \<Rightarrow> 'w netlib \<Rightarrow> string \<Rightarrow> string \<Rightarrow> int \<Rightarrow> 'w \<Rightarrow> addrinfo list res \<times> 'w" where
  "find_providers L N self commit limit w =
     (case from_commit L commit of
        Inl e \<Rightarrow> (Inl e, w)
      | Inr dc \<Rightarrow>
          (case dht_find N dc (if limit \<le> 0 then 16 else limit) w of
             (ps, w1) \<Rightarrow>
               (Inr (map (\<lambda>p. p\<lparr>ai_addrs := dial_order N (ai_addrs p)\<rparr>) (filter (\<lambda>p. ai_id p \<noteq> self) ps)), w1)))"

section \<open>Lemmas\<close>

lemma split_public_filter:
  "split_public N addrs pub local = (pub @ filter (is_public N) addrs, local @ filter (\<lambda>a. \<not> is_public N a) addrs)"
  by (induction addrs arbitrary: pub local) auto

lemma relay_candidates_length: "length (relay_candidates hop addrs taken k ps num) \<le> nat num"
proof (induction hop addrs taken k ps num rule: relay_candidates.induct)
  case (2 hop addrs taken k p ps num)
  then show ?case by (cases "num \<le> 0") (auto split: sum.splits simp: nat_diff_distrib)
qed simp

lemma relay_candidates_sound:
  "ai \<in> set (relay_candidates hop addrs taken k ps num) \<Longrightarrow>
     ai_id ai \<in> set ps \<and> ai_addrs ai = addrs (ai_id ai) \<and> addrs (ai_id ai) \<noteq> []
     \<and> (\<exists>h. hop (ai_id ai) = Inr h \<and> h \<noteq> [])"
proof (induction hop addrs taken k ps num rule: relay_candidates.induct)
  case (2 hop addrs taken k p ps num)
  then show ?case by (auto split: sum.splits if_splits)
qed simp

text \<open>What the DHT promises of the records it has accepted: the set of announced CIDs only grows, and a
  successful \<open>Provide\<close> announces its CID. The network may grow it on its own.\<close>

locale provider_records =
  fixes N :: "'w netlib" and announced :: "'w \<Rightarrow> cid set"
  assumes provide_announces: "dht_provide N c w = (r, w') \<Longrightarrow> announced w \<subseteq> announced w' \<and> (ok r \<longrightarrow> c \<in> announced w')"
    and size_keeps: "rt_size N w = (n, w') \<Longrightarrow> announced w \<subseteq> announced w'"
begin

lemma provide_commit_announces:
  assumes "provide_commit L N commit actual w = (r, w')"
  shows "announced w \<subseteq> announced w' \<and> (ok r \<longrightarrow> (\<exists>c. from_commit L commit = Inr c \<and> c \<in> announced w'))"
proof (cases "from_commit L commit")
  case (Inr dc)
  obtain r1 w1 where p: "dht_provide N dc w = (r1, w1)" by fastforce
  obtain r2 w2 where q: "dht_provide N actual w1 = (r2, w2)" by fastforce
  from assms Inr p q provide_announces [OF p] provide_announces [OF q] show ?thesis
    by (cases r1) (auto simp: provide_commit_def split: if_splits)
qed (use assms in \<open>auto simp: provide_commit_def\<close>)

lemma reprovide_entries_announces:
  "reprovide_entries L N es k w = (n, w') \<Longrightarrow>
     announced w \<subseteq> announced w' \<and> k \<le> n
     \<and> n \<le> k + length (filter (\<lambda>e. \<exists>c. from_commit L (commit_hash e) = Inr c \<and> c \<in> announced w') es)"
proof (induction es arbitrary: k w)
  case (Cons e es)
  show ?case
  proof (cases "cid_decode L (actual_cid e)")
    case (Inl x)
    with Cons.prems Cons.IH [of k w] show ?thesis by auto
  next
    case (Inr actual)
    obtain r w1 where p: "provide_commit L N (commit_hash e) actual w = (r, w1)" by fastforce
    note a = provide_commit_announces [OF p]
    show ?thesis
    proof (cases r)
      case err: (Inl x)
      with Cons.prems Inr p have "reprovide_entries L N es k w1 = (n, w')" by simp
      from Cons.IH [OF this] a show ?thesis by auto
    next
      case fine: (Inr u)
      with Cons.prems Inr p have "reprovide_entries L N es (Suc k) w1 = (n, w')" by simp
      from Cons.IH [OF this] a fine show ?thesis by auto
    qed
  qed
qed simp

end

section \<open>Properties\<close>

text \<open>The order in which a provider's addresses are dialled is the stable sort that puts publicly
  routable ones first, and what a node announces is never empty while it has an address, and consists of its
  public addresses whenever it has one.\<close>

theorem address_selection:
  "dial_order N addrs = sort_key (\<lambda>a. if is_public N a then 0 else 1 :: nat) addrs
   \<and> (announce_addrs N addrs = [] \<longleftrightarrow> addrs = [])
   \<and> (if \<exists>a \<in> set addrs. is_public N a then announce_addrs N addrs = filter (is_public N) addrs
      else announce_addrs N addrs = addrs)"
proof -
  let ?k = "\<lambda>a. if is_public N a then 0 else 1 :: nat"
  have "dial_order N addrs = filter (is_public N) addrs @ filter (\<lambda>a. \<not> is_public N a) addrs"
    by (simp add: dial_order_def split_public_filter)
  moreover have "sort_key ?k addrs = filter (is_public N) addrs @ filter (\<lambda>a. \<not> is_public N a) addrs"
  proof (rule properties_for_sort_key)
    show "sorted (map ?k (filter (is_public N) addrs @ filter (\<lambda>a. \<not> is_public N a) addrs))"
      by (auto simp: sorted_append) (induction addrs; auto)+
  qed (auto simp: filter_filter)
  ultimately show ?thesis
    by (auto simp: announce_addrs_def Let_def filter_empty_conv)
qed
lemma reprovide_entries_count:
  assumes "\<And>c w. ok (fst (dht_provide N c w))"
  shows "fst (reprovide_entries L N es k w)
    = k + length (filter (\<lambda>e. ok (cid_decode L (actual_cid e)) \<and> ok (from_commit L (commit_hash e))) es)"
proof (induction es arbitrary: k w)
  case (Cons e es)
  have no: "dht_provide N c w \<noteq> (Inl x, w1)" for c w x w1
    using assms [of c w] by (metis fst_conv ok_simps)
  show ?case
  proof (cases "cid_decode L (actual_cid e)")
    case (Inr actual)
    obtain r w1 where p: "provide_commit L N (commit_hash e) actual w = (r, w1)" by fastforce
    then have "ok r = ok (from_commit L (commit_hash e))"
      using no by (auto simp: provide_commit_def split: sum.splits prod.splits if_splits)
    with p Inr Cons.IH [of k w1] Cons.IH [of "Suc k" w1] show ?thesis by (cases r) auto
  qed (use Cons.IH in simp)
qed simp

text \<open>A DHT that accepts every record, for examples: its state is the list of the announced CIDs.\<close>

definition list_net :: "(cid list) netlib" where
  "list_net = \<lparr>parse_maddr = Inr, maddr_info = (\<lambda>m. Inr \<lparr>ai_id = m, ai_addrs = [m]\<rparr>),
     maddr_infos = (\<lambda>ms. Inr (map (\<lambda>m. \<lparr>ai_id = m, ai_addrs = [m]\<rparr>) ms)), is_public = (\<lambda>_. True),
     is_loopback = (\<lambda>_. Inr False), default_boot = [], dial_errors = (\<lambda>_. None), host_connect = (\<lambda>_ w. (Inr (), w)),
     open_stream = (\<lambda>_ _ w. (Inl (Sentinel ErrReset), w)), dht_provide = (\<lambda>c w. (Inr (), c # w)),
     dht_find = (\<lambda>_ _ w. ([], w)), rt_size = (\<lambda>w. (1, w))\<rparr>"

interpretation list_records: provider_records list_net set
  by unfold_locales (auto simp: list_net_def)

text \<open>The number \<open>ReprovideAll\<close> reports is honest: with an empty routing table it is zero and nothing is
  read; otherwise at least that many stored revisions have their commit's CID among the announced ones
  afterwards, and if the DHT accepts every record, it is exactly the number of stored revisions with a well-formed
  commit and content CID.\<close>

theorem reprovide_all_honest:
  assumes "provider_records N announced" "reprovide_all L M N db w = (Inr n, w')"
  shows "fst (rt_size N w) = 0 \<and> n = 0
    \<or> (\<exists>es. map_list M db = Inr es
         \<and> n \<le> length (filter (\<lambda>e. \<exists>c. from_commit L (commit_hash e) = Inr c \<and> c \<in> announced w') es)
         \<and> ((\<forall>c w. ok (fst (dht_provide N c w))) \<longrightarrow>
              n = length (filter (\<lambda>e. ok (cid_decode L (actual_cid e)) \<and> ok (from_commit L (commit_hash e))) es)))"
proof (cases "fst (rt_size N w) = 0")
  case True
  with assms(2) show ?thesis by (auto simp: reprovide_all_def split: prod.splits)
next
  case False
  with assms(2) obtain es w1 where es: "map_list M db = Inr es" "reprovide_entries L N es 0 w1 = (n, w')"
    by (auto simp: reprovide_all_def split: prod.splits sum.splits)
  from provider_records.reprovide_entries_announces [OF assms(1) es(2)]
  have "n \<le> length (filter (\<lambda>e. \<exists>c. from_commit L (commit_hash e) = Inr c \<and> c \<in> announced w') es)" by simp
  moreover have "n = length (filter (\<lambda>e. ok (cid_decode L (actual_cid e)) \<and> ok (from_commit L (commit_hash e))) es)"
    if "\<forall>c w. ok (fst (dht_provide N c w))"
    using reprovide_entries_count [of N L es 0 w1] that es(2) by simp
  ultimately show ?thesis using es(1) by blast
qed

theorem reprovide_all_honest_witness:
  "\<exists>n w' es. reprovide_all ref_cids node_maps list_net seed_db [] = (Inr n, w') \<and> map_list node_maps seed_db = Inr es
     \<and> n = length (filter (\<lambda>e. ok (cid_decode ref_cids (actual_cid e)) \<and> ok (from_commit ref_cids (commit_hash e))) es)"
proof -
  have put: "map_put node_maps empty_db seed_entry = (Inr (), seed_db)"
    using node_map_put [of empty_db seed_entry] seed_entry_facts hex_commit_simps
    by (simp add: seed_db_def empty_db_def)
  have run: "map_run node_maps seed_db [hex_commit \<mapsto> strip_entry seed_entry]"
    using map_run.put [OF empty_db_run put seed_entry_facts(1)] hex_commit_simps by (simp add: seed_entry_facts)
  have "\<exists>rs. dquery (mds node_maps) seed_db empty_query = Inr rs"
    using node_map_put [of empty_db seed_entry] seed_entry_facts hex_commit_simps
    by (simp add: seed_db_def empty_db_def bolt_ds_def ds_query_def db_view_def mem_bolt_def)
  then obtain es where es: "map_list node_maps seed_db = Inr es"
    using node_db.map_run_list [OF run] by blast
  then obtain n w' where r: "reprovide_all ref_cids node_maps list_net seed_db [] = (Inr n, w')"
    by (cases "reprovide_entries ref_cids list_net es 0 []") (simp add: reprovide_all_def list_net_def)
  have "fst (rt_size list_net []) = 1" "\<forall>c w. ok (fst (dht_provide list_net c w))" by (simp_all add: list_net_def)
  with reprovide_all_honest [OF list_records.provider_records_axioms r] r es show ?thesis by auto
qed

end
