(* ===== verification/Pull.thy ===== *)
theory Pull
  imports HfFallback NodeNet Sources PullStore
begin

text \<open>
  The pipeline of \<open>internal/pull/pull.go\<close> (\<open>Run\<close>, \<open>pullFromPeers\<close>, \<open>mapExchange\<close>, \<open>validateMapBinding\<close>)
  and \<open>pullFromHF\<close> of \<open>hffallback.go\<close>. The node is the record \<open>penv\<close>: its configuration, its
  libraries, the answers of the Hub to the successive requests, the number of ticks a wait lasts and the time.
  The state of a pull is that of a transfer with the state of the network beside it and the requests
  sent to the Hub so far, whose number selects the answer to the next one.
\<close>

section \<open>State\<close>

record pull_options =
  po_repo :: string
  po_type :: repotype
  po_commit :: string
  po_ref :: string
  po_peers :: "string list"
  po_connect :: "string list"
  po_force :: bool
  po_sources :: sources
  po_token :: string

record ('s, 'n, 'm, 'd, 'w) penv =
  e_cfg :: config
  e_self :: string
  e_pull :: "('s, 'n) pulllib"
  e_ingest :: "('s, 'm, 'd) ingestlib"
  e_maps :: "'s maplib"
  e_net :: "'w netlib"
  e_hub :: hublib
  e_answers :: "nat \<Rightarrow> transport"
  e_ticks :: nat
  e_canceled :: bool
  e_now :: string

record ('s, 'w) pworld =
  pw_x :: "'s xst"
  pw_net :: 'w
  pw_sent :: "http_req list"

definition say :: "pevent \<Rightarrow> ('s, 'w) pworld \<Rightarrow> ('s, 'w) pworld" where
  "say e pw = pw\<lparr>pw_x := emit e (pw_x pw)\<rparr>"

definition log_sent :: "http_req list \<Rightarrow> ('s, 'w) pworld \<Rightarrow> ('s, 'w) pworld" where
  "log_sent rqs pw = pw\<lparr>pw_sent := pw_sent pw @ rqs\<rparr>"

text \<open>The answer of the Hub to the next request.\<close>

definition next_answer :: "('s, 'n, 'm, 'd, 'w) penv \<Rightarrow> ('s, 'w) pworld \<Rightarrow> transport" where
  "next_answer E pw = e_answers E (length (pw_sent pw))"

definition done_event :: "msg \<Rightarrow> pevent" where
  "done_event m = \<lparr>pe_type = ''done'', pe_msg = m, pe_bytes = 0, pe_total = 0\<rparr>"

definition short_peer :: "string \<Rightarrow> string" where
  "short_peer s = (if length s > 10 then take 10 s else s)"

section \<open>Step C: the map exchange\<close>

definition maxPeerErrorLen :: nat where "maxPeerErrorLen = 512"

definition truncate_peer_error :: "string \<Rightarrow> string" where
  "truncate_peer_error s =
     (if length s \<le> maxPeerErrorLen then s else take maxPeerErrorLen s @ utf8_dots @ '' (truncated)'')"

fun dial_hint_loop :: "(string \<times> goerr) list \<Rightarrow> string" where
  "dial_hint_loop [] = []"
| "dial_hint_loop ((a, e) # es) =
     (if errors_is e EOF \<or> errors_is e ErrReset \<or> errors_is e ECONNRESET
      then '' ('' @ a @ '': TCP connected but the peer closed the handshake '' @ utf8_dash
           @ '' either nothing libp2p is behind that port, or the peer is refusing new connections of its own)''
      else if errors_is e ECONNREFUSED \<or> errors_is e EHOSTUNREACH \<or> errors_is e ENETUNREACH
           \<or> errors_is e DeadlineExceeded
      then '' ('' @ a @ '': no reachable libp2p listener at the announced address)''
      else dial_hint_loop es)"

definition dial_hint :: "'w netlib \<Rightarrow> goerr \<Rightarrow> string" where
  "dial_hint N e = (case dial_errors N e of None \<Rightarrow> [] | Some es \<Rightarrow> dial_hint_loop es)"

definition validate_map_binding :: "cidlib \<Rightarrow> string \<Rightarrow> map_response \<Rightarrow> unit res" where
  "validate_map_binding L commit resp =
     (if mr_commit resp \<noteq> commit
      then Inl (Errorf ''peer answered for commit %q, not %q'' [AStr (mr_commit resp), AStr commit])
      else if mr_dummy resp = [] then Inr ()
      else case from_commit L commit of
             Inl e \<Rightarrow> Inl (Wrapf ''commit %q has no dummy cid: %w'' [AStr commit] e)
           | Inr want \<Rightarrow>
               (case cid_decode L (mr_dummy resp) of
                  Inl e \<Rightarrow> Inl (Wrapf ''peer sent unusable dummy cid %q: %w'' [AStr (mr_dummy resp)] e)
                | Inr got \<Rightarrow>
                    if got \<noteq> want
                    then Inl (Errorf ''peer dummy cid %s does not match commit %s (want %s)''
                                [AStr (cid_string L got), AStr commit, AStr (cid_string L want)])
                    else Inr ()))"

fun check_names :: "file_manifest list \<Rightarrow> unit res" where
  "check_names [] = Inr ()"
| "check_names (f # fs) =
     (if \<not> safe_rel_path (fm_path f) \<or> \<not> safe_blob_name (fm_blob f)
      then Inl (Errorf ''peer sent unsafe manifest path %q or blob name %q'' [AStr (fm_path f), AStr (fm_blob f)])
      else check_names fs)"

definition check_response :: "cidlib \<Rightarrow> string \<Rightarrow> map_response \<Rightarrow> (cid \<times> map_response) res" where
  "check_response L commit resp =
     (if \<not> mr_ok resp then Inl (Errorf (truncate_peer_error (mr_error resp)) [])
      else case validate_map_binding L commit resp of
             Inl e \<Rightarrow> Inl e
           | Inr _ \<Rightarrow>
               (case check_names (mr_files resp) of
                  Inl e \<Rightarrow> Inl e
                | Inr _ \<Rightarrow>
                    (case cid_decode L (mr_actual resp) of
                       Inl e \<Rightarrow> Inl (Wrapf ''peer sent unusable actual cid %q: %w'' [AStr (mr_actual resp)] e)
                     | Inr actual \<Rightarrow> Inr (actual, resp))))"

definition map_exchange ::
  "cidlib \<Rightarrow> 'w netlib \<Rightarrow> addrinfo \<Rightarrow> string \<Rightarrow> string \<Rightarrow> 'w \<Rightarrow> (cid \<times> map_response) res \<times> 'w" where
  "map_exchange L N p r commit w =
     (case host_connect N p w of
        (Inl e, w1) \<Rightarrow> (Inl (Wrapf ''connect: %w%s'' [AStr (dial_hint N e)] e), w1)
      | (Inr _, w1) \<Rightarrow>
          (case open_stream N (ai_id p) ProtocolMapID w1 of
             (Inl e, w2) \<Rightarrow> (Inl (Wrapf ''open map stream: %w'' [] e), w2)
           | (Inr c, w2) \<Rightarrow>
               (case write_json (jmarshal enc_map_request) c \<lparr>mq_commit = commit, mq_repo = r\<rparr> of
                  (Inl e, _) \<Rightarrow> (Inl (Wrapf ''send map request: %w'' [] e), w2)
                | (Inr _, c1) \<Rightarrow>
                    (case read_json (unmarshal dec_map_response) c1 of
                       (Inl e, _) \<Rightarrow> (Inl (Wrapf ''read map response: %w'' [] e), w2)
                     | (Inr resp, _) \<Rightarrow> (check_response L commit resp, w2)))))"

section \<open>Steps B to E: peers\<close>

fun dial_given :: "'w netlib \<Rightarrow> string list \<Rightarrow> addrinfo list \<Rightarrow> ('s, 'w) pworld \<Rightarrow> addrinfo list \<times> ('s, 'w) pworld" where
  "dial_given N [] ps pw = (ps, pw)"
| "dial_given N (a # as) ps pw =
     (case dial N a (pw_net pw) of
        (Inl e, w1) \<Rightarrow> dial_given N as ps (say (progress (SprintfErr ''warn: %s'' [] e)) (pw\<lparr>pw_net := w1\<rparr>))
      | (Inr pid, w1) \<Rightarrow> dial_given N as (ps @ [\<lparr>ai_id = pid, ai_addrs = []\<rparr>]) (pw\<lparr>pw_net := w1\<rparr>))"

fun dial_dht :: "'w netlib \<Rightarrow> string list \<Rightarrow> ('s, 'w) pworld \<Rightarrow> ('s, 'w) pworld" where
  "dial_dht N [] pw = pw"
| "dial_dht N (a # as) pw =
     (case dial N a (pw_net pw) of
        (Inl e, w1) \<Rightarrow>
          dial_dht N as (say (progress (SprintfErr ''warn: connect %s: %s'' [AStr a] e)) (pw\<lparr>pw_net := w1\<rparr>))
      | (Inr _, w1) \<Rightarrow>
          dial_dht N as (say (progress (Sprintf ''joined the DHT via %s'' [AStr a])) (pw\<lparr>pw_net := w1\<rparr>)))"

text \<open>Recording, announcing and linking a reconstructed revision.\<close>

definition pull_entry :: "('s, 'n, 'm, 'd, 'w) penv \<Rightarrow> string \<Rightarrow> pull_options \<Rightarrow> map_response \<Rightarrow> entry" where
  "pull_entry E commit opts resp =
     \<lparr>repo_id = po_repo opts, repo_type = po_type opts, commit_hash = commit, actual_cid = mr_actual resp,
      dummy_cid = mr_dummy resp, files = mr_files resp, total_size = mr_total resp, added_at = e_now E,
      origin = ''pull''\<rparr>"

definition record_pull ::
  "('s, 'n, 'm, 'd, 'w) penv \<Rightarrow> paths \<Rightarrow> string \<Rightarrow> string \<Rightarrow> pull_options \<Rightarrow> cid \<Rightarrow> map_response \<Rightarrow> ('s, 'w) pworld \<Rightarrow>
     unit res \<times> ('s, 'w) pworld" where
  "record_pull E p commit ref0 opts actual resp pw =
     (let e = pull_entry E commit opts resp
      in case map_put (e_maps E) (x_db (pw_x pw)) e of
           (Inl err, db1) \<Rightarrow> (Inl (Wrapf ''record pulled mapping: %w'' [] err), pw\<lparr>pw_x := (pw_x pw)\<lparr>x_db := db1\<rparr>\<rparr>)
         | (Inr _, db1) \<Rightarrow>
             (let pw1 = pw\<lparr>pw_x := (pw_x pw)\<lparr>x_db := db1\<rparr>\<rparr>;
                  pw2 = (case provide_commit (cids (e_pull E)) (e_net E) commit actual (pw_net pw1) of
                           (Inl err, w1) \<Rightarrow> say (progress (SprintfErr ''warn: could not re-announce pulled commit: %s'' [] err))
                                              (pw1\<lparr>pw_net := w1\<rparr>)
                         | (Inr _, w1) \<Rightarrow> pw1\<lparr>pw_net := w1\<rparr>)
              in case write_snapshot p commit (mr_files resp) ref0 (x_os (pw_x pw2)) of
                   (Inl err, os1) \<Rightarrow> (Inl (Wrapf ''step E (symlinking): %w'' [] err), pw2\<lparr>pw_x := (pw_x pw2)\<lparr>x_os := os1\<rparr>\<rparr>)
                 | (Inr _, os1) \<Rightarrow>
                     (Inr (), say (done_event (Sprintf ''pulled %s @ %s (%s) into %s''
                                [AStr (po_repo opts), AStr (short12 commit), human_bytes (x_done (pw_x pw2)), AStr (p_dir p)]))
                              (pw2\<lparr>pw_x := (pw_x pw2)\<lparr>x_os := os1\<rparr>\<rparr>))))"

fun try_providers ::
  "nat \<Rightarrow> ('s, 'n, 'm, 'd, 'w) penv \<Rightarrow> paths \<Rightarrow> string \<Rightarrow> string \<Rightarrow> pull_options \<Rightarrow> addrinfo list \<Rightarrow> goerr option \<Rightarrow>
     ('s, 'w) pworld \<Rightarrow> (unit res \<times> ('s, 'w) pworld) option" where
  "try_providers n E p commit ref0 opts [] last0 pw =
     Some (Inl (case last0 of
                  Some e \<Rightarrow> Wrapf ''pull failed for %s: %w'' [AStr (po_repo opts)] e
                | None \<Rightarrow> Errorf ''pull failed for %s: %%!w(<nil>)'' [AStr (po_repo opts)]), pw)"
| "try_providers n E p commit ref0 opts (q # qs) last0 pw =
     (case map_exchange (cids (e_pull E)) (e_net E) q (po_repo opts) commit (pw_net pw) of
        (Inl e, w1) \<Rightarrow>
          try_providers n E p commit ref0 opts qs (Some e)
            (say (progress (SprintfErr ''step C: %s unusable: %v'' [AStr (short_peer (ai_id q))] e)) (pw\<lparr>pw_net := w1\<rparr>))
      | (Inr (actual, resp), w1) \<Rightarrow>
          (let pw1 = say (progress (Sprintf ''step C: %s -> %s (%d files, %s)''
                       [AStr (short_peer (ai_id q)), AStr (cid_string (cids (e_pull E)) actual),
                        AInt (int (length (mr_files resp))), human_bytes (mr_total resp)])) (pw\<lparr>pw_net := w1\<rparr>)
           in case open_stream (e_net E) (ai_id q) ProtocolBlockID (pw_net pw1) of
                (opened, w2) \<Rightarrow>
                  (case reconstruct n (e_pull E) p (ai_id q) opened resp ((pw_x pw1)\<lparr>x_done := 0\<rparr>) of
                     None \<Rightarrow> None
                   | Some (Inl e, x2) \<Rightarrow>
                       try_providers n E p commit ref0 opts qs (Some e)
                         (say (progress (SprintfErr ''step D: %s failed: %v'' [AStr (short_peer (ai_id q))] e))
                           (pw1\<lparr>pw_x := x2, pw_net := w2\<rparr>))
                   | Some (Inr _, x2) \<Rightarrow>
                       Some (record_pull E p commit ref0 opts actual resp (pw1\<lparr>pw_x := x2, pw_net := w2\<rparr>)))))"

definition pull_from_peers ::
  "nat \<Rightarrow> ('s, 'n, 'm, 'd, 'w) penv \<Rightarrow> paths \<Rightarrow> string \<Rightarrow> string \<Rightarrow> pull_options \<Rightarrow> ('s, 'w) pworld \<Rightarrow>
     (unit res \<times> ('s, 'w) pworld) option" where
  "pull_from_peers n E p commit ref0 opts pw =
     (case dial_given (e_net E) (po_peers opts) [] pw of
        (given, pw1) \<Rightarrow>
          (let pw2 = dial_dht (e_net E) (po_connect opts) pw1
           in case wait_for_routing_table (e_net E) (e_ticks E) (e_canceled E) (pw_net pw2) of
                (sz, w3) \<Rightarrow>
                  (let pw3 = pw2\<lparr>pw_net := w3\<rparr>;
                       pw4 = (if sz = 0
                              then say (progress (Lit ''warn: DHT routing table still empty; provider lookup may come up empty'')) pw3
                              else pw3)
                   in case find_providers (cids (e_pull E)) (e_net E) (e_self E) commit 16 (pw_net pw4) of
                        (found, w5) \<Rightarrow>
                          (let pw5 = pw4\<lparr>pw_net := w5\<rparr>;
                               pw6 = (case found of
                                        Inl e \<Rightarrow> say (progress (SprintfErr ''warn: DHT lookup failed: %v'' [] e)) pw5
                                      | Inr _ \<Rightarrow> pw5);
                               providers = given @ (case found of Inl _ \<Rightarrow> [] | Inr ps \<Rightarrow> ps)
                           in if providers = []
                              then Some (Inl (Errorf ''step B: no peers found hosting %s (commit %s)''
                                               [AStr (po_repo opts), AStr (short12 commit)]), pw6)
                              else try_providers n E p commit ref0 opts providers None
                                     (say (progress (Sprintf ''step B: %d candidate provider(s)''
                                        [AInt (int (length providers))])) pw6)))))"

section \<open>The Hub\<close>

definition hf_ingest ::
  "nat \<Rightarrow> ('s, 'n, 'm, 'd, 'w) penv \<Rightarrow> paths \<Rightarrow> string \<Rightarrow> pull_options \<Rightarrow> ('s, 'w) pworld \<Rightarrow>
     (unit res \<times> ('s, 'w) pworld) option" where
  "hf_ingest n E p commit opts pw =
     (case ingest_run n (e_ingest E) (e_maps E) (cf_chunk_size (e_cfg E)) (cf_hub_dir (e_cfg E)) (po_repo opts)
             (po_type opts) commit (e_now E) \<lparr>iw_db = x_db (pw_x pw), iw_os = x_os (pw_x pw), iw_log = []\<rparr> of
        None \<Rightarrow> None
      | Some (r, iw) \<Rightarrow>
          (let pw1 = pw\<lparr>pw_x := (pw_x pw)\<lparr>x_db := iw_db iw, x_os := iw_os iw,
                          x_events := x_events (pw_x pw) @ map progress (iw_log iw)\<rparr>\<rparr>
           in case r of
                Inl e \<Rightarrow> Some (Inl (Wrapf ''hf: ingest: %w'' [] e), pw1)
              | Inr res \<Rightarrow>
                  Some (Inr (), say (done_event (Sprintf ''downloaded %s @ %s (%s) from Hugging Face into %s; shared as %s''
                           [AStr (po_repo opts), AStr (short12 commit), human_bytes (ir_total res), AStr (p_dir p),
                            AStr (cid_string (i_cids (e_ingest E)) (ir_actual res))]))
                         (pw1\<lparr>pw_net := snd (provide_commit (i_cids (e_ingest E)) (e_net E) commit (ir_actual res)
                                               (pw_net pw1))\<rparr>))))"

definition hf_download ::
  "nat \<Rightarrow> ('s, 'n, 'm, 'd, 'w) penv \<Rightarrow> paths \<Rightarrow> string \<Rightarrow> string \<Rightarrow> pull_options \<Rightarrow> client \<Rightarrow> sibling list \<Rightarrow> ('s, 'w) pworld \<Rightarrow>
     (unit res \<times> ('s, 'w) pworld) option" where
  "hf_download n E p commit ref0 opts c siblings pw =
     (case tree_at (h_url_ok (e_hub E)) (next_answer E pw) c (po_repo opts) (po_type opts) commit of
        (answer, rqs) \<Rightarrow>
          (let pw0 = log_sent rqs pw;
               xet = (case answer of Inl _ \<Rightarrow> [] | Inr tree \<Rightarrow> xet_by_path tree)
           in case manifest_from_revision siblings xet of
                Inl e \<Rightarrow> Some (Inl (Wrapf ''hf: %w'' [] e), pw0)
              | Inr (fs, tot) \<Rightarrow>
                  (let pw1 = say (progress (Sprintf ''hf: %d file(s), %s'' [AInt (int (length fs)), human_bytes tot])) pw0
                   in case fetch_blobs (length (pw_sent pw1)) (e_hub E) (e_answers E) c p (po_repo opts) (po_type opts)
                             commit tot fs ((pw_x pw1)\<lparr>x_done := 0\<rparr>) of
                        (Inl e, x2, rqs2) \<Rightarrow> Some (Inl e, log_sent rqs2 (pw1\<lparr>pw_x := x2\<rparr>))
                      | (Inr fs1, x2, rqs2) \<Rightarrow>
                          (case write_snapshot p commit fs1 ref0 (x_os x2) of
                             (Inl e, os3) \<Rightarrow> Some (Inl (Wrapf ''hf: step E (symlinking): %w'' [] e),
                                                    log_sent rqs2 (pw1\<lparr>pw_x := x2\<lparr>x_os := os3\<rparr>\<rparr>))
                           | (Inr _, os3) \<Rightarrow>
                               hf_ingest n E p commit opts
                                 (say (progress (Lit ''hf: downloaded; ingesting so this node can serve it''))
                                   (log_sent rqs2 (pw1\<lparr>pw_x := x2\<lparr>x_os := os3\<rparr>\<rparr>)))))))"

definition pull_from_hf ::
  "nat \<Rightarrow> ('s, 'n, 'm, 'd, 'w) penv \<Rightarrow> paths \<Rightarrow> string \<Rightarrow> string \<Rightarrow> pull_options \<Rightarrow> ('s, 'w) pworld \<Rightarrow>
     (unit res \<times> ('s, 'w) pworld) option" where
  "pull_from_hf n E p commit ref0 opts pw =
     (let pw0 = say (progress (Sprintf ''hf: fetching %s @ %s from %s''
                  [AStr (po_repo opts), AStr (short12 commit), AStr (cf_endpoint (e_cfg E))])) pw;
          c = hf_client (cf_endpoint (e_cfg E)) (cf_token (e_cfg E)) (po_token opts);
          asked = repo_info_at (h_url_ok (e_hub E)) (next_answer E pw0) c (po_repo opts) (po_type opts) commit True;
          pw1 = log_sent (snd asked) pw0
      in case fst asked of
           Inl e \<Rightarrow> Some (Inl (Wrapf ''hf: repo metadata: %w'' [] e), pw1)
         | Inr info \<Rightarrow>
             if ri_siblings info = []
             then Some (Inl (Errorf ''hf: %s has no files at %s'' [AStr (po_repo opts), AStr (short12 commit)]), pw1)
             else (case os_mkdir_all (x_os (pw_x pw1)) (p_blobs p) of
                     (Inl e, os1) \<Rightarrow> Some (Inl (Wrapf ''hf: create %s: %w'' [AStr (p_blobs p)] e),
                                            pw1\<lparr>pw_x := (pw_x pw1)\<lparr>x_os := os1\<rparr>\<rparr>)
                   | (Inr _, os1) \<Rightarrow>
                       hf_download n E p commit ref0 opts c (ri_siblings info)
                         (pw1\<lparr>pw_x := (pw_x pw1)\<lparr>x_os := os1\<rparr>\<rparr>)))"

section \<open>Run\<close>

definition pull_step_a :: "('s, 'n, 'm, 'd, 'w) penv \<Rightarrow> pull_options \<Rightarrow> ('s, 'w) pworld \<Rightarrow> string res \<times> ('s, 'w) pworld" where
  "pull_step_a E opts pw =
     (if po_commit opts \<noteq> [] then (Inr (po_commit opts), pw)
      else let pw1 = say (progress (Sprintf ''step A: resolving %s against %s''
                        [AStr (po_repo opts), AStr (cf_endpoint (e_cfg E))])) pw
           in case latest_commit (h_url_ok (e_hub E)) (next_answer E pw1)
                     (hf_client (cf_endpoint (e_cfg E)) (cf_token (e_cfg E)) (po_token opts))
                     (po_repo opts) (po_type opts) of
                (Inl e, rqs) \<Rightarrow> (Inl (Wrapf ''step A (resolve hash): %w'' [] e), log_sent rqs pw1)
              | (Inr c, rqs) \<Rightarrow> (Inr c, log_sent rqs pw1))"

definition pull_sources ::
  "nat \<Rightarrow> ('s, 'n, 'm, 'd, 'w) penv \<Rightarrow> paths \<Rightarrow> string \<Rightarrow> string \<Rightarrow> pull_options \<Rightarrow> ('s, 'w) pworld \<Rightarrow>
     (unit res \<times> ('s, 'w) pworld) option" where
  "pull_sources n E p commit ref0 opts pw =
     (let src = sources_resolve (po_sources opts) in
      if P2P src
      then (case pull_from_peers n E p commit ref0 opts pw of
              None \<Rightarrow> None
            | Some (Inr u, pw1) \<Rightarrow> Some (Inr u, pw1)
            | Some (Inl e, pw1) \<Rightarrow>
                if \<not> HF src then Some (Inl e, pw1)
                else pull_from_hf n E p commit ref0 opts
                       (say (progress (SprintfErr ''p2p could not deliver (%v); falling back to Hugging Face'' [] e)) pw1))
      else if HF src then pull_from_hf n E p commit ref0 opts pw
      else Some (Inr (), pw))"

definition pull_run ::
  "nat \<Rightarrow> ('s, 'n, 'm, 'd, 'w) penv \<Rightarrow> pull_options \<Rightarrow> ('s, 'w) pworld \<Rightarrow> (unit res \<times> ('s, 'w) pworld) option" where
  "pull_run n E opts pw =
     (if trim_space (po_repo opts) = [] then Some (Inl (Errorf ''pull requires a repo id'' []), pw)
      else let ref0 = (if po_ref opts = [] then ''main'' else po_ref opts);
               p = new_paths (cf_hub_dir (e_cfg E)) (po_repo opts) (po_type opts)
           in case pull_step_a E opts pw of
                (Inl e, pw1) \<Rightarrow> Some (Inl e, pw1)
              | (Inr commit, pw1) \<Rightarrow>
                  (case from_commit (cids (e_pull E)) commit of
                     Inl e \<Rightarrow> Some (Inl (Wrapf ''step A: %w'' [] e), pw1)
                   | Inr _ \<Rightarrow>
                       (let pw2 = say (progress (Sprintf ''step A: %s @ %s'' [AStr (po_repo opts), AStr commit])) pw1
                        in case (if po_force opts then None
                                 else case map_get (e_maps E) (x_db (pw_x pw2)) commit of
                                        Inr (Some e) \<Rightarrow> Some e | _ \<Rightarrow> None) of
                             None \<Rightarrow> pull_sources n E p commit ref0 opts pw2
                           | Some e \<Rightarrow>
                               (case snapshot_complete p commit (x_os (pw_x pw2)) of
                                  (True, os3) \<Rightarrow>
                                    Some (Inr (), say (done_event (Sprintf ''already present: %s @ %s''
                                             [AStr (po_repo opts), AStr (short12 commit)]))
                                           (pw2\<lparr>pw_x := (pw_x pw2)\<lparr>x_os := os3\<rparr>\<rparr>))
                                | (False, os3) \<Rightarrow>
                                    (case write_snapshot p commit (files e) ref0 os3 of
                                       (Inl err, os4) \<Rightarrow>
                                         Some (Inl (Wrapf ''step E (relink): %w'' [] err),
                                               pw2\<lparr>pw_x := (pw_x pw2)\<lparr>x_os := os4\<rparr>\<rparr>)
                                     | (Inr _, os4) \<Rightarrow>
                                         Some (Inr (), say (done_event (Lit ''restored snapshot links from local mapping''))
                                                (pw2\<lparr>pw_x := (pw_x pw2)\<lparr>x_os := os4\<rparr>\<rparr>)))))))"

section \<open>What a map exchange accepts\<close>

definition bound_response :: "cidlib \<Rightarrow> string \<Rightarrow> cid \<Rightarrow> map_response \<Rightarrow> bool" where
  "bound_response L commit actual resp =
     (mr_ok resp \<and> mr_commit resp = commit \<and> cid_decode L (mr_actual resp) = Inr actual
      \<and> (mr_dummy resp = [] \<or> (\<exists>d. from_commit L commit = Inr d \<and> cid_decode L (mr_dummy resp) = Inr d))
      \<and> list_all (\<lambda>f. safe_rel_path (fm_path f) \<and> safe_blob_name (fm_blob f)) (mr_files resp))"

lemma check_names_ok: "ok (check_names fs) = list_all (\<lambda>f. safe_rel_path (fm_path f) \<and> safe_blob_name (fm_blob f)) fs"
  by (induction fs) auto

lemma check_response_iff:
  "check_response L commit resp = Inr (actual, resp') \<longleftrightarrow> resp' = resp \<and> bound_response L commit actual resp"
  using check_names_ok [of "mr_files resp"]
  by (auto simp: check_response_def validate_map_binding_def bound_response_def split: sum.splits if_splits)

lemma map_exchange_bound:
  assumes "map_exchange L N p r commit w = (Inr (actual, resp), w')"
  shows "bound_response L commit actual resp"
  using assms by (auto simp: map_exchange_def check_response_iff split: sum.splits prod.splits)

section \<open>Events and dialling leave the transfer alone\<close>

lemma say_simps [simp]:
  "x_db (pw_x (say e pw)) = x_db (pw_x pw)" "x_os (pw_x (say e pw)) = x_os (pw_x pw)" "pw_net (say e pw) = pw_net pw"
  "pw_sent (say e pw) = pw_sent pw"
  by (simp_all add: say_def emit_def)

lemma log_sent_simps [simp]:
  "pw_x (log_sent rqs pw) = pw_x pw" "pw_net (log_sent rqs pw) = pw_net pw"
  "pw_sent (log_sent rqs pw) = pw_sent pw @ rqs"
  by (simp_all add: log_sent_def)

lemma dial_given_db: "dial_given N as ps pw = (qs, pw') \<Longrightarrow> x_db (pw_x pw') = x_db (pw_x pw)"
proof (induction as arbitrary: ps pw)
  case (Cons a as)
  then show ?case by (auto split: sum.splits prod.splits)
qed simp

lemma dial_dht_db: "x_db (pw_x (dial_dht N as pw)) = x_db (pw_x pw)"
  by (induction as arbitrary: pw) (auto split: sum.splits prod.splits)

section \<open>Properties\<close>

lemma record_pull_effect:
  assumes "record_pull E p commit ref0 opts actual resp pw = (r, pw')"
  shows "x_db (pw_x pw') = snd (map_put (e_maps E) (x_db (pw_x pw)) (pull_entry E commit opts resp))
    \<and> (ok r \<longrightarrow> ok (fst (map_put (e_maps E) (x_db (pw_x pw)) (pull_entry E commit opts resp)))
          \<and> (\<exists>os1. write_snapshot p commit (mr_files resp) ref0 (x_os (pw_x pw)) = (Inr (), os1) \<and> x_os (pw_x pw') = os1))"
proof -
  obtain r1 db1 where mp: "map_put (e_maps E) (x_db (pw_x pw)) (pull_entry E commit opts resp) = (r1, db1)" by fastforce
  show ?thesis
  proof (cases r1)
    case (Inl e)
    with assms mp show ?thesis by (auto simp: record_pull_def)
  next
    case (Inr u)
    obtain r2 w1 where pc: "provide_commit (cids (e_pull E)) (e_net E) commit actual (pw_net pw) = (r2, w1)" by fastforce
    obtain r3 os1 where ws: "write_snapshot p commit (mr_files resp) ref0 (x_os (pw_x pw)) = (r3, os1)" by fastforce
    from assms mp Inr pc ws show ?thesis by (cases r2; cases r3) (auto simp: record_pull_def Let_def)
  qed
qed

lemma try_providers_effect:
  assumes "transfer_store (e_pull E) view"
  shows "try_providers n E p commit ref0 opts qs last0 pw = Some (r, pw') \<Longrightarrow>
    \<not> ok r \<and> view (x_db (pw_x pw')) = view (x_db (pw_x pw))
    \<or> (\<exists>peer opened x0 x1 actual resp. bound_response (cids (e_pull E)) commit actual resp
         \<and> reconstruct n (e_pull E) p peer opened resp x0 = Some (Inr (), x1) \<and> view (x_db x1) = view (x_db (pw_x pw))
         \<and> x_db (pw_x pw') = snd (map_put (e_maps E) (x_db x1) (pull_entry E commit opts resp))
         \<and> (ok r \<longrightarrow> ok (fst (map_put (e_maps E) (x_db x1) (pull_entry E commit opts resp)))
              \<and> write_snapshot p commit (mr_files resp) ref0 (x_os x1) = (Inr (), x_os (pw_x pw'))))"
    (is "_ \<Longrightarrow> ?goal pw")
proof (induction qs arbitrary: last0 pw)
  case (Cons q qs)
  obtain r1 w1 where mx: "map_exchange (cids (e_pull E)) (e_net E) q (po_repo opts) commit (pw_net pw) = (r1, w1)"
    by fastforce
  show ?case
  proof (cases r1)
    case (Inl e)
    with Cons.prems mx have "try_providers n E p commit ref0 opts qs (Some e)
        (say (progress (SprintfErr ''step C: %s unusable: %v'' [AStr (short_peer (ai_id q))] e)) (pw\<lparr>pw_net := w1\<rparr>)) = Some (r, pw')"
      by simp
    from Cons.IH [OF this] show ?thesis by simp
  next
    case (Inr ar)
    then obtain actual resp where ar: "r1 = Inr (actual, resp)" by (cases ar) auto
    let ?pw1 = "say (progress (Sprintf ''step C: %s -> %s (%d files, %s)''
                       [AStr (short_peer (ai_id q)), AStr (cid_string (cids (e_pull E)) actual),
                        AInt (int (length (mr_files resp))), human_bytes (mr_total resp)])) (pw\<lparr>pw_net := w1\<rparr>)"
    obtain opened w2 where st: "open_stream (e_net E) (ai_id q) ProtocolBlockID (pw_net ?pw1) = (opened, w2)" by fastforce
    obtain r2 x2 where rc: "reconstruct n (e_pull E) p (ai_id q) opened resp ((pw_x ?pw1)\<lparr>x_done := 0\<rparr>) = Some (r2, x2)"
      using Cons.prems mx ar st
      by (cases "reconstruct n (e_pull E) p (ai_id q) opened resp ((pw_x ?pw1)\<lparr>x_done := 0\<rparr>)") (auto simp: Let_def)
    have v2: "view (x_db x2) = view (x_db (pw_x pw))"
      using transfer_store.reconstruct_view [OF assms rc] by simp
    show ?thesis
    proof (cases r2)
      case err: (Inl e)
      with Cons.prems mx ar st rc have "try_providers n E p commit ref0 opts qs (Some e)
          (say (progress (SprintfErr ''step D: %s failed: %v'' [AStr (short_peer (ai_id q))] e)) (?pw1\<lparr>pw_x := x2, pw_net := w2\<rparr>))
          = Some (r, pw')" by (simp add: Let_def)
      from Cons.IH [OF this] v2 show ?thesis by simp
    next
      case fine: (Inr u)
      with Cons.prems mx ar st rc have
        "record_pull E p commit ref0 opts actual resp (?pw1\<lparr>pw_x := x2, pw_net := w2\<rparr>) = (r, pw')" by (simp add: Let_def)
      from record_pull_effect [OF this] have
        "x_db (pw_x pw') = snd (map_put (e_maps E) (x_db x2) (pull_entry E commit opts resp))
         \<and> (ok r \<longrightarrow> ok (fst (map_put (e_maps E) (x_db x2) (pull_entry E commit opts resp)))
              \<and> write_snapshot p commit (mr_files resp) ref0 (x_os x2) = (Inr (), x_os (pw_x pw')))" by auto
      moreover have "reconstruct n (e_pull E) p (ai_id q) opened resp ((pw_x ?pw1)\<lparr>x_done := 0\<rparr>) = Some (Inr (), x2)"
        using rc fine by simp
      ultimately show ?thesis using v2 map_exchange_bound [OF mx [unfolded ar]] by blast
    qed
  qed
qed auto

text \<open>C30: whatever the swarm answers, a pull from peers writes at most one mapping, and only after
  \<open>reconstruct\<close> has succeeded for the very response it records (so that every file of its manifest was
  located and reconstructed), on the state that reconstruction left; and that response is bound to the requested
  commit: the peer echoed the commit, its dummy CID is empty or the one derived from the commit, its
  content CID is well-formed, and every path and blob name of its manifest is safe. If the pull reports
  success that mapping was stored and its files were linked; if it wrote none, it failed and the stored
  mappings (or whatever else the transfer's block operations leave alone) are unchanged.\<close>

theorem pull_from_peers_records:
  assumes "transfer_store (e_pull E) view"
    and "pull_from_peers n E p commit ref0 opts pw = Some (r, pw')"
  shows "\<not> ok r \<and> view (x_db (pw_x pw')) = view (x_db (pw_x pw))
    \<or> (\<exists>peer opened x0 x1 actual resp. bound_response (cids (e_pull E)) commit actual resp
         \<and> reconstruct n (e_pull E) p peer opened resp x0 = Some (Inr (), x1) \<and> view (x_db x1) = view (x_db (pw_x pw))
         \<and> x_db (pw_x pw') = snd (map_put (e_maps E) (x_db x1) (pull_entry E commit opts resp))
         \<and> (ok r \<longrightarrow> ok (fst (map_put (e_maps E) (x_db x1) (pull_entry E commit opts resp)))
              \<and> write_snapshot p commit (mr_files resp) ref0 (x_os x1) = (Inr (), x_os (pw_x pw'))))"
proof -
  obtain given pw1 where d: "dial_given (e_net E) (po_peers opts) [] pw = (given, pw1)" by fastforce
  let ?pw2 = "dial_dht (e_net E) (po_connect opts) pw1"
  have db: "x_db (pw_x ?pw2) = x_db (pw_x pw)" using dial_given_db [OF d] dial_dht_db [of "e_net E" "po_connect opts" pw1] by simp
  obtain sz w3 where wt: "wait_for_routing_table (e_net E) (e_ticks E) (e_canceled E) (pw_net ?pw2) = (sz, w3)" by fastforce
  from assms(2) d wt consider (none) "\<not> ok r" "x_db (pw_x pw') = x_db (pw_x ?pw2)"
    | (some) qs pw6 where "try_providers n E p commit ref0 opts qs None pw6 = Some (r, pw')" "x_db (pw_x pw6) = x_db (pw_x ?pw2)"
    by (fastforce simp: pull_from_peers_def Let_def split: prod.splits if_splits sum.splits)
  then show ?thesis
  proof cases
    case none
    with db show ?thesis by simp
  next
    case some
    from try_providers_effect [OF assms(1) some(1)] some(2) db show ?thesis by simp
  qed
qed

text \<open>A node that is told of one peer, which resets the map stream.\<close>

definition lone_env :: "(memdb, cid list, dnode, (string \<times> dnode) list, cid list) penv" where
  "lone_env = \<lparr>e_cfg = projr (default_config (Inr ''/home/u'') (\<lambda>_. [])), e_self = ''me'', e_pull = node_pull,
     e_ingest = tree_lib, e_maps = node_maps, e_net = list_net, e_hub = plain_hub,
     e_answers = (\<lambda>_ _. Inl (Sentinel ErrReset)), e_ticks = 0, e_canceled = False, e_now = ''2024-02-29T10:11:12Z''\<rparr>"

definition lone_opts :: pull_options where
  "lone_opts = \<lparr>po_repo = ''org/m'', po_type = Model, po_commit = hex_commit, po_ref = [], po_peers = [''/p''],
     po_connect = [], po_force = False, po_sources = \<lparr>P2P = True, HF = False\<rparr>, po_token = []\<rparr>"

definition lone_world :: "(memdb, cid list) pworld" where
  "lone_world = \<lparr>pw_x = \<lparr>x_db = empty_db, x_os = empty_os, x_conn = fresh_conn [], x_done = 0, x_events = []\<rparr>, pw_net = [], pw_sent = []\<rparr>"

lemma lone_pull: "\<exists>e pw'. pull_from_peers 0 lone_env p hex_commit ''main'' lone_opts lone_world = Some (Inl e, pw')"
proof -
  have "ok (from_commit ref_cids hex_commit)"
    using ref.from_commit_ok [of hex_commit] hex_commit_simps by (simp add: CommitLen_def)
  then obtain c where "from_commit ref_cids hex_commit = Inr c" by (auto simp: ok_iff)
  then show ?thesis
    by (simp add: pull_from_peers_def lone_env_def lone_opts_def lone_world_def dial_def list_net_def node_pull_def
        wait_for_routing_table.simps find_providers_def map_exchange_def Let_def say_def emit_def)
qed

theorem pull_from_peers_records_witness:
  "\<exists>e pw'. pull_from_peers 0 lone_env snap_paths hex_commit ''main'' lone_opts lone_world = Some (Inl e, pw')
     \<and> (node_mappings (x_db (pw_x pw')) = node_mappings empty_db
        \<or> (\<exists>peer opened x0 x1 actual resp. bound_response ref_cids hex_commit actual resp
             \<and> reconstruct 0 node_pull snap_paths peer opened resp x0 = Some (Inr (), x1)
             \<and> x_db (pw_x pw') = snd (map_put node_maps (x_db x1) (pull_entry lone_env hex_commit lone_opts resp))))"
proof -
  obtain e pw' where run: "pull_from_peers 0 lone_env snap_paths hex_commit ''main'' lone_opts lone_world = Some (Inl e, pw')"
    using lone_pull by blast
  have env: "e_pull lone_env = node_pull" "e_maps lone_env = node_maps" "cids node_pull = ref_cids"
    "x_db (pw_x lone_world) = empty_db"
    by (simp_all add: lone_env_def node_pull_def lone_world_def)
  have "transfer_store (e_pull lone_env) node_mappings" using node_transfer.transfer_store_axioms by (simp add: env)
  from pull_from_peers_records [OF this run] run show ?thesis unfolding env by blast
qed

section \<open>What is sent to the Hub\<close>

text \<open>The requests of a step: more of the client's own requests, and none at all where \<open>quiet\<close>.\<close>

definition sends :: "bool \<Rightarrow> client \<Rightarrow> http_req list \<Rightarrow> http_req list \<Rightarrow> bool" where
  "sends quiet c before after =
     (\<exists>rqs. after = before @ rqs \<and> list_all (own_request c) rqs \<and> (quiet \<longrightarrow> rqs = []))"

lemma sends_refl [simp]: "sends q c l l"
  by (simp add: sends_def)

lemma sends_append: "sends False c l (l @ rqs) \<longleftrightarrow> list_all (own_request c) rqs"
  by (simp add: sends_def)

lemma sends_trans: "sends q c a b \<Longrightarrow> sends q c b d \<Longrightarrow> sends q c a d"
  by (auto simp: sends_def)

lemma dial_given_sent: "dial_given N as ps pw = (qs, pw') \<Longrightarrow> pw_sent pw' = pw_sent pw"
proof (induction as arbitrary: ps pw)
  case (Cons a as)
  then show ?case by (auto split: sum.splits prod.splits)
qed simp

lemma dial_dht_sent: "pw_sent (dial_dht N as pw) = pw_sent pw"
  by (induction as arbitrary: pw) (auto split: sum.splits prod.splits)

lemma record_pull_sent:
  "record_pull E p commit ref0 opts actual resp pw = (r, pw') \<Longrightarrow> pw_sent pw' = pw_sent pw"
proof -
  assume run: "record_pull E p commit ref0 opts actual resp pw = (r, pw')"
  obtain r1 db1 where mp: "map_put (e_maps E) (x_db (pw_x pw)) (pull_entry E commit opts resp) = (r1, db1)" by fastforce
  obtain r2 w1 where pc: "provide_commit (cids (e_pull E)) (e_net E) commit actual (pw_net pw) = (r2, w1)" by fastforce
  obtain r3 os1 where ws: "write_snapshot p commit (mr_files resp) ref0 (x_os (pw_x pw)) = (r3, os1)" by fastforce
  from run mp pc ws show "pw_sent pw' = pw_sent pw"
    by (cases r1; cases r2; cases r3) (auto simp: record_pull_def Let_def)
qed

lemma try_providers_sent:
  "try_providers n E p commit ref0 opts qs last0 pw = Some (r, pw') \<Longrightarrow> pw_sent pw' = pw_sent pw"
proof (induction qs arbitrary: last0 pw)
  case (Cons q qs)
  obtain r1 w1 where mx: "map_exchange (cids (e_pull E)) (e_net E) q (po_repo opts) commit (pw_net pw) = (r1, w1)"
    by fastforce
  show ?case
  proof (cases r1)
    case (Inl e)
    with Cons.prems mx Cons.IH show ?thesis by fastforce
  next
    case (Inr ar)
    with Cons.prems mx show ?thesis
      by (cases ar) (auto simp: Let_def split: prod.splits option.splits sum.splits dest!: Cons.IH record_pull_sent)
  qed
qed simp

lemma pull_from_peers_sent:
  "pull_from_peers n E p commit ref0 opts pw = Some (r, pw') \<Longrightarrow> pw_sent pw' = pw_sent pw"
  by (auto simp: pull_from_peers_def Let_def dial_dht_sent split: prod.splits sum.splits if_splits
      dest!: try_providers_sent dial_given_sent)

lemma hf_ingest_sent: "hf_ingest n E p commit opts pw = Some (r, pw') \<Longrightarrow> pw_sent pw' = pw_sent pw"
  by (auto simp: hf_ingest_def Let_def split: option.splits prod.splits sum.splits)

lemma hf_download_sent:
  assumes "hf_download n E p commit ref0 opts c siblings pw = Some (r, pw')"
  shows "sends False c (pw_sent pw) (pw_sent pw')"
proof -
  obtain answer rqs where t: "tree_at (h_url_ok (e_hub E)) (next_answer E pw) c (po_repo opts) (po_type opts) commit
      = (answer, rqs)" by fastforce
  have "pw_sent pw' = pw_sent pw @ rqs \<or>
      (\<exists>rqs2. list_all (own_request c) rqs2 \<and> pw_sent pw' = pw_sent pw @ rqs @ rqs2)"
    using assms unfolding hf_download_def t
    by (auto simp: Let_def split: sum.splits prod.splits dest!: hf_ingest_sent fetch_blobs_sent)
  with tree_at_sent [OF t] show ?thesis by (auto simp: sends_def)
qed

lemma pull_from_hf_sent:
  assumes "pull_from_hf n E p commit ref0 opts pw = Some (r, pw')"
  shows "sends False (hf_client (cf_endpoint (e_cfg E)) (cf_token (e_cfg E)) (po_token opts)) (pw_sent pw) (pw_sent pw')"
    (is "sends _ ?c _ _")
proof -
  let ?pw0 = "say (progress (Sprintf ''hf: fetching %s @ %s from %s''
                  [AStr (po_repo opts), AStr (short12 commit), AStr (cf_endpoint (e_cfg E))])) pw"
  obtain info rqs where a: "repo_info_at (h_url_ok (e_hub E)) (next_answer E ?pw0) ?c (po_repo opts) (po_type opts) commit True
      = (info, rqs)" by fastforce
  have first: "sends False ?c (pw_sent pw) (pw_sent pw @ rqs)"
    using repo_info_sent [OF a] by (simp add: sends_append)
  from assms have "pw_sent pw' = pw_sent pw @ rqs \<or> sends False ?c (pw_sent pw @ rqs) (pw_sent pw')"
    unfolding pull_from_hf_def Let_def a
    by (auto split: sum.splits if_splits prod.splits dest!: hf_download_sent)
  with first sends_trans [OF first] show ?thesis by auto
qed

lemma pull_step_a_sent:
  assumes "pull_step_a E opts pw = (r, pw')"
  shows "sends (po_commit opts \<noteq> []) (hf_client (cf_endpoint (e_cfg E)) (cf_token (e_cfg E)) (po_token opts))
    (pw_sent pw) (pw_sent pw')"
  using assms
  by (auto simp: pull_step_a_def Let_def sends_append split: if_splits prod.splits sum.splits dest!: latest_commit_sent)

lemma pull_sources_sent:
  assumes "pull_sources n E p commit ref0 opts pw = Some (r, pw')"
  shows "sends (\<not> HF (sources_resolve (po_sources opts)))
    (hf_client (cf_endpoint (e_cfg E)) (cf_token (e_cfg E)) (po_token opts)) (pw_sent pw) (pw_sent pw')"
  using assms
  by (fastforce simp: pull_sources_def Let_def split: if_splits option.splits sum.splits prod.splits
      dest!: pull_from_peers_sent pull_from_hf_sent)

text \<open>C31: every request a pull sends to the Hub goes below the configured endpoint and carries no
  credentials but the token resolved for this pull (the command's own, else the configured one); and a
  pull that names its commit and excludes the Hub sends no request at all, so that no token leaves the
  machine.\<close>

theorem pull_without_hub:
  assumes "pull_run n E opts pw = Some (r, pw')"
  shows "(\<exists>rqs. pw_sent pw' = pw_sent pw @ rqs
       \<and> (\<forall>rq \<in> set rqs. (\<exists>rest. rq_url rq = trim_right (cf_endpoint (e_cfg E)) ''/'' @ ''/'' @ rest)
            \<and> rq_auth rq = (let tok = if po_token opts \<noteq> [] then po_token opts else cf_token (e_cfg E)
                            in if tok = [] then None else Some (''Bearer '' @ tok))))
    \<and> (po_commit opts \<noteq> [] \<and> \<not> HF (sources_resolve (po_sources opts)) \<longrightarrow> pw_sent pw' = pw_sent pw)"
proof -
  let ?c = "hf_client (cf_endpoint (e_cfg E)) (cf_token (e_cfg E)) (po_token opts)"
  let ?q = "po_commit opts \<noteq> [] \<and> \<not> HF (sources_resolve (po_sources opts))"
  have weaken: "sends q ?c a b \<Longrightarrow> (?q \<Longrightarrow> q) \<Longrightarrow> sends ?q ?c a b" for q a b by (auto simp: sends_def)
  obtain r1 pw1 where a: "pull_step_a E opts pw = (r1, pw1)" by fastforce
  have one: "sends ?q ?c (pw_sent pw) (pw_sent pw1)" using weaken [OF pull_step_a_sent [OF a]] by simp
  from assms a have "pw_sent pw' \<in> {pw_sent pw, pw_sent pw1}
      \<or> sends (\<not> HF (sources_resolve (po_sources opts))) ?c (pw_sent pw1) (pw_sent pw')"
    unfolding pull_run_def Let_def
    by (auto split: sum.splits if_splits option.splits prod.splits bool.splits dest!: pull_sources_sent)
  then have "sends ?q ?c (pw_sent pw) (pw_sent pw')"
    using one weaken sends_trans [OF one] by fastforce
  then show ?thesis
    by (auto simp: sends_def list_all_iff own_request_def hf_client_def new_client_def resolve_token_def Let_def)
qed

lemma lone_run: "\<exists>e pw'. pull_run 0 lone_env lone_opts lone_world = Some (Inl e, pw')"
proof -
  have "ok (from_commit ref_cids hex_commit)"
    using ref.from_commit_ok [of hex_commit] hex_commit_simps by (simp add: CommitLen_def)
  then obtain c where c: "from_commit ref_cids hex_commit = Inr c" by (auto simp: ok_iff)
  have fields: "trim_space (po_repo lone_opts) \<noteq> []" "po_commit lone_opts = hex_commit" "po_ref lone_opts = []"
    "\<not> po_force lone_opts" "po_sources lone_opts = \<lparr>P2P = True, HF = False\<rparr>" "cids (e_pull lone_env) = ref_cids"
    "e_maps lone_env = node_maps" "x_db (pw_x lone_world) = empty_db" "hex_commit \<noteq> []"
    by (simp_all add: lone_opts_def lone_env_def lone_world_def node_pull_def hex_commit_def) code_simp
  have none: "map_get node_maps empty_db hex_commit = Inr None"
    using node_db.map_run_get [OF empty_db_run, of hex_commit] hex_commit_simps by simp
  have "\<exists>e pw'. pull_from_peers 0 lone_env p hex_commit ''main'' lone_opts (say e0 lone_world) = Some (Inl e, pw')" for p e0
    using c by (simp add: pull_from_peers_def lone_env_def lone_opts_def lone_world_def dial_def list_net_def node_pull_def
        wait_for_routing_table.simps find_providers_def map_exchange_def Let_def say_def emit_def)
  moreover have "pull_run 0 lone_env lone_opts lone_world = pull_from_peers 0 lone_env
      (new_paths (cf_hub_dir (e_cfg lone_env)) (po_repo lone_opts) (po_type lone_opts)) hex_commit ''main'' lone_opts
      (say (progress (Sprintf ''step A: %s @ %s'' [AStr (po_repo lone_opts), AStr hex_commit])) lone_world)"
    if "pull_from_peers 0 lone_env (new_paths (cf_hub_dir (e_cfg lone_env)) (po_repo lone_opts) (po_type lone_opts))
      hex_commit ''main'' lone_opts
      (say (progress (Sprintf ''step A: %s @ %s'' [AStr (po_repo lone_opts), AStr hex_commit])) lone_world) = Some (Inl e, pw')" for e pw'
    using that c none fields by (simp add: pull_run_def pull_step_a_def pull_sources_def sources_resolve_def Let_def)
  ultimately show ?thesis by metis
qed

theorem pull_without_hub_witness:
  "\<exists>r pw'. pull_run 0 lone_env lone_opts lone_world = Some (r, pw') \<and> pw_sent pw' = []"
proof -
  obtain e pw' where run: "pull_run 0 lone_env lone_opts lone_world = Some (Inl e, pw')"
    using lone_run by blast
  have "po_commit lone_opts \<noteq> [] \<and> \<not> HF (sources_resolve (po_sources lone_opts))"
    by (simp add: lone_opts_def sources_resolve_def hex_commit_def)
  with pull_without_hub [OF run] run show ?thesis by (auto simp: lone_world_def)
qed

end
