(* ===== verification/NodeLife.thy ===== *)
theory NodeLife
  imports NodeNet
begin

text \<open>
  The life of a node: \<open>New\<close>, \<open>Close\<close> and \<open>trackReachability\<close> of \<open>internal/node/node.go\<close>. What libp2p, the
  DHT, bbolt and the kernel answer is the argument \<open>X\<close>. The state keeps the operating system, the kernel's
  locks, and the list of what this process has open (the store, the connection manager, the resource
  manager, the host, the DHT and the event subscription), so that a theorem can say what a failed start
  leaves behind. The two managers are handed to libp2p: \<open>nl_owns\<close> says which of them a host closes with itself,
  \<open>nl_undoes\<close> which of them a failing \<open>libp2p.New\<close> closes. The error that \<open>Close\<close> joins from its parts is
  ignored by every caller.
\<close>

section \<open>State\<close>

datatype p2popt =
    OptIdentity | OptListen "string list" | OptConnManager | OptResourceManager | OptEnableRelay | OptDisableRelay
  | OptAutoNATv2 | OptHolePunching | OptNATPortMap | OptRelayService | OptStaticRelays "addrinfo list" | OptPeerSource

datatype dhtopt = DhtClient | DhtServer | DhtBootstrap "addrinfo list" | DhtAddressFilter

record nworld =
  nw_os :: os
  nw_locks :: flocks
  nw_open :: "resource list"

record ('k, 'db, 'w) newlib =
  nl_keys :: "'k keylib"
  nl_bolt :: "'db boltlib"
  nl_net :: "'w netlib"
  nl_lockfile :: "unit res"
  nl_dbfile :: "'db res"
  nl_connmgr :: "unit res"
  nl_rcmgr :: "unit res"
  nl_host :: "p2popt list \<Rightarrow> unit res"
  nl_undoes :: "resource \<Rightarrow> bool"
  nl_owns :: "resource \<Rightarrow> bool"
  nl_dht :: "dhtopt list \<Rightarrow> unit res"
  nl_sub :: "unit res"

record 'db node =
  n_cfg :: config
  n_peer :: string
  n_db :: 'db
  n_lock :: "(string \<times> nat) option"
  n_sub :: bool
  n_owns :: "resource \<Rightarrow> bool"

section \<open>Releasing\<close>

definition release :: "resource \<Rightarrow> nworld \<Rightarrow> nworld" where
  "release r w = w\<lparr>nw_open := remove1 r (nw_open w)\<rparr>"

definition release_lock :: "(string \<times> nat) option \<Rightarrow> nworld \<Rightarrow> nworld" where
  "release_lock l w = w\<lparr>nw_locks := snd (snd (lock_close (Inr ()) (Inr ()) l (nw_locks w)))\<rparr>"

text \<open>The errors of unlocking and closing, which the callers ignore, do not change what is released.\<close>

lemma lock_close_state:
  "snd (lock_close unlocked closed l s) = snd (lock_close (Inr ()) (Inr ()) l s)"
  by (cases l) (auto simp: lock_close_def)

definition hold :: "resource \<Rightarrow> nworld \<Rightarrow> nworld" where
  "hold r w = w\<lparr>nw_open := r # nw_open w\<rparr>"

text \<open>The managers among those that \<open>which\<close> selects.\<close>

definition release_managers :: "(resource \<Rightarrow> bool) \<Rightarrow> nworld \<Rightarrow> nworld" where
  "release_managers which w =
     (let w1 = (if which RRcMgr then release RRcMgr w else w)
      in if which RConnMgr then release RConnMgr w1 else w1)"

text \<open>\<open>Host.Close\<close>.\<close>

definition close_host :: "(resource \<Rightarrow> bool) \<Rightarrow> nworld \<Rightarrow> nworld" where
  "close_host owns w = release_managers owns (release RHost w)"

section \<open>Options\<close>

text \<open>The loop over the static relays.\<close>

fun static_relays :: "'w netlib \<Rightarrow> string list \<Rightarrow> addrinfo list res" where
  "static_relays N [] = Inr []"
| "static_relays N (s # ss) =
     (case parse_maddr N s of
        Inl e \<Rightarrow> Inl (Wrapf ''static relay %q: %w'' [AStr s] e)
      | Inr m \<Rightarrow>
          (case maddr_info N m of
             Inl e \<Rightarrow> Inl (Wrapf ''static relay %q must include /p2p/<peer-id>: %w'' [AStr s] e)
           | Inr ai \<Rightarrow> (case static_relays N ss of Inl e \<Rightarrow> Inl e | Inr ais \<Rightarrow> Inr (ai # ais))))"

definition relay_options :: "'w netlib \<Rightarrow> config \<Rightarrow> p2popt list res" where
  "relay_options N c =
     (if cf_relay c \<and> cf_static_relays c \<noteq> []
      then (case static_relays N (cf_static_relays c) of Inl e \<Rightarrow> Inl e | Inr ais \<Rightarrow> Inr [OptStaticRelays ais])
      else if cf_relay c then Inr [OptPeerSource] else Inr [])"

definition host_options :: "'w netlib \<Rightarrow> config \<Rightarrow> p2popt list res" where
  "host_options N c =
     (let opts = [OptIdentity, OptListen (cf_listen c), OptConnManager, OptResourceManager]
                 @ (if cf_relay c then [OptEnableRelay] else [OptDisableRelay])
      in if cf_isolated c then Inr opts
         else (case relay_options N c of
                 Inl e \<Rightarrow> Inl e
               | Inr ro \<Rightarrow>
                   Inr (opts @ [OptAutoNATv2] @ (if cf_hole_punch c then [OptHolePunching] else [])
                        @ (if cf_nat_port_map c then [OptNATPortMap] else [])
                        @ (if cf_relay c \<and> cf_relay_service c then [OptRelayService] else []) @ ro)))"

definition dht_options :: "config \<Rightarrow> addrinfo list \<Rightarrow> dhtopt list" where
  "dht_options c booters =
     [if cf_dht_server c then DhtServer else DhtClient]
     @ (if booters \<noteq> [] then [DhtBootstrap booters] else [])
     @ (if cf_isolated c then [] else [DhtAddressFilter])"

section \<open>New and Close\<close>

text \<open>From the created host on: on an error, host, store and lock are closed.\<close>

definition start_dht ::
  "('k, 'db, 'w) newlib \<Rightarrow> config \<Rightarrow> string \<Rightarrow> 'db \<Rightarrow> string \<times> nat \<Rightarrow> nworld \<Rightarrow> 'db node res \<times> nworld" where
  "start_dht X c pid db lock w =
     (let fail = (\<lambda>w. release_lock (Some lock) (release RStore (close_host (nl_owns X) w)))
      in case resolve_bootstrap (nl_net X) c of
           Inl e \<Rightarrow> (Inl e, fail w)
         | Inr booters \<Rightarrow>
             (case nl_dht X (dht_options c booters) of
                Inl e \<Rightarrow> (Inl (Wrapf ''create kad-dht: %w'' [] e), fail w)
              | Inr _ \<Rightarrow>
                  (let w1 = hold RDht w; sub = (\<not> cf_isolated c \<and> ok (nl_sub X))
                   in (Inr \<lparr>n_cfg = c, n_peer = pid, n_db = db, n_lock = Some lock, n_sub = sub, n_owns = nl_owns X\<rparr>,
                       if sub then hold RSub w1 else w1))))"

text \<open>From the opened store on.\<close>

definition start_host ::
  "('k, 'db, 'w) newlib \<Rightarrow> config \<Rightarrow> 'db \<Rightarrow> string \<times> nat \<Rightarrow> nworld \<Rightarrow> 'db node res \<times> nworld" where
  "start_host X c db lock w =
     (let fail = (\<lambda>w. release_lock (Some lock) (release RStore w))
      in case load_or_generate (nl_keys X) (key_path c) (nw_os w) of
           (Inl e, os1) \<Rightarrow> (Inl e, fail (w\<lparr>nw_os := os1\<rparr>))
         | (Inr (key, pid), os1) \<Rightarrow>
             (let w1 = w\<lparr>nw_os := os1\<rparr>
              in case nl_connmgr X of
                   Inl e \<Rightarrow> (Inl e, fail w1)
                 | Inr _ \<Rightarrow>
                     (let w2 = hold RConnMgr w1
                      in case nl_rcmgr X of
                           Inl e \<Rightarrow> (Inl e, fail w2)
                         | Inr _ \<Rightarrow>
                             (let w3 = hold RRcMgr w2
                              in case host_options (nl_net X) c of
                                   Inl e \<Rightarrow> (Inl e, w3)
                                 | Inr opts \<Rightarrow>
                                     (case nl_host X opts of
                                        Inl e \<Rightarrow> (Inl (Wrapf ''create libp2p host: %w'' [] e),
                                                  fail (release_managers (nl_undoes X) w3))
                                      | Inr _ \<Rightarrow> start_dht X c pid db lock (hold RHost w3))))))"

definition node_new :: "('k, 'db, 'w) newlib \<Rightarrow> config \<Rightarrow> nworld \<Rightarrow> 'db node res \<times> nworld" where
  "node_new X c w =
     (case ensure_dirs c (nw_os w) of
        (Inl e, os1) \<Rightarrow> (Inl e, w\<lparr>nw_os := os1\<rparr>)
      | (Inr _, os1) \<Rightarrow>
          (case acquire_lock (nl_lockfile X) (lock_path c) (nw_locks w) of
             (Inl e, lk) \<Rightarrow> (Inl e, w\<lparr>nw_os := os1, nw_locks := lk\<rparr>)
           | (Inr lock, lk) \<Rightarrow>
               (let w1 = w\<lparr>nw_os := os1, nw_locks := lk\<rparr>
                in case store_open (nl_bolt X) (nl_dbfile X) (db_path c) (nw_open w1) of
                     (Inl e, rs) \<Rightarrow> (Inl e, release_lock (Some lock) (w1\<lparr>nw_open := rs\<rparr>))
                   | (Inr db, rs) \<Rightarrow> start_host X c db lock (w1\<lparr>nw_open := rs\<rparr>))))"

definition node_close :: "'db node \<Rightarrow> nworld \<Rightarrow> nworld" where
  "node_close n w =
     (let w1 = (if n_sub n then release RSub w else w);
          w2 = close_host (n_owns n) (release RDht w1)
      in release_lock (n_lock n) (release RStore w2))"

section \<open>Reachability\<close>

text \<open>
  \<open>trackReachability\<close> over the verdicts it receives. The state is the stored verdict, the channel of
  capacity four, whether a public verdict was seen, and the numbers of re-announcements; \<open>drained\<close> tells how
  many verdicts a reader has taken from the channel before each event.
\<close>

record reach_state =
  rs_reach :: reachability
  rs_chan :: "reachability list"
  rs_public :: bool
  rs_reprovides :: nat

definition track_step :: "nat \<Rightarrow> reachability \<Rightarrow> reach_state \<Rightarrow> reach_state" where
  "track_step drained r s =
     (let ch = drop drained (rs_chan s);
          s1 = s\<lparr>rs_reach := r, rs_chan := (if length ch < 4 then ch @ [r] else ch)\<rparr>
      in if r = ReachabilityPublic \<and> \<not> rs_public s1
         then s1\<lparr>rs_public := True, rs_reprovides := Suc (rs_reprovides s1)\<rparr>
         else s1)"

fun track_reachability :: "(nat \<times> reachability) list \<Rightarrow> reach_state \<Rightarrow> reach_state" where
  "track_reachability [] s = s"
| "track_reachability ((k, r) # evs) s = track_reachability evs (track_step k r s)"

lemma track_once:
  "length (rs_chan s) \<le> 4 \<Longrightarrow>
     let s' = track_reachability evs s in
       length (rs_chan s') \<le> 4 \<and> rs_reach s' = (if evs = [] then rs_reach s else snd (last evs))
       \<and> rs_reprovides s' = rs_reprovides s + (if \<not> rs_public s \<and> ReachabilityPublic \<in> snd ` set evs then 1 else 0)"
proof (induction evs arbitrary: s)
  case (Cons ev evs)
  obtain k r where ev: "ev = (k, r)" by fastforce
  have "length (rs_chan (track_step k r s)) \<le> 4" using Cons.prems by (auto simp: track_step_def Let_def)
  from Cons.IH [OF this] show ?case by (auto simp: ev track_step_def Let_def)
qed simp

section \<open>Lock and resources across a start\<close>

lemma release_simps [simp]:
  "nw_locks (release r w) = nw_locks w" "nw_open (release r w) = remove1 r (nw_open w)"
  "nw_locks (hold r w) = nw_locks w" "nw_open (hold r w) = r # nw_open w"
  "nw_open (release_lock l w) = nw_open w"
  by (simp_all add: release_def hold_def release_lock_def)

lemma acquire_then_release:
  assumes "acquire_lock opened p s = (Inr l, s')"
  shows "holder (snd (snd (lock_close u v (Some l) s'))) = holder s" "holder s p = None" "l = (p, next_fd s)"
    "holder s' = (holder s)(p \<mapsto> next_fd s)"
  using assms by (auto simp: acquire_lock_def lock_close_def Let_def fun_eq_iff split: sum.splits if_splits)

lemma store_open_effect:
  assumes "store_open B opened p rs = (r, rs')"
  shows "rs' = (if ok r then RStore # rs else rs)"
  using assms by (auto simp: store_open_def Let_def split: sum.splits prod.splits)

lemma managers_simps [simp]:
  "nw_locks (release_managers P w) = nw_locks w" "nw_locks (close_host P w) = nw_locks w"
  by (simp_all add: release_managers_def close_host_def Let_def)

text \<open>What is left of the two managers where \<open>P\<close> tells which ones are closed.\<close>

definition left_managers :: "(resource \<Rightarrow> bool) \<Rightarrow> resource list" where
  "left_managers P = filter (\<lambda>r. \<not> P r) [RRcMgr, RConnMgr]"

lemma release_managers_open:
  "nw_open w = RRcMgr # RConnMgr # rs \<Longrightarrow> nw_open (release_managers P w) = left_managers P @ rs"
  by (auto simp: release_managers_def left_managers_def Let_def)

lemma close_host_open:
  "nw_open w = RHost # RRcMgr # RConnMgr # rs \<Longrightarrow> nw_open (close_host P w) = left_managers P @ rs"
  by (simp add: close_host_def release_managers_open)

lemma remove_store: "remove1 RStore (left_managers P @ RStore # rs) = left_managers P @ rs"
  by (auto simp: left_managers_def remove1_append)

lemmas managers_open = release_managers_open close_host_open remove_store

lemma start_dht_effect:
  assumes "start_dht X c pid db lock w = (r, w')" "nw_open w = RHost # RRcMgr # RConnMgr # RStore # rs"
  shows "(\<not> ok r \<longrightarrow> nw_open w' = left_managers (nl_owns X) @ rs
        \<and> nw_locks w' = nw_locks (release_lock (Some lock) w))
    \<and> (\<forall>n. r = Inr n \<longrightarrow> nw_locks w' = nw_locks w \<and> n_lock n = Some lock \<and> n_cfg n = c \<and> n_owns n = nl_owns X
        \<and> nw_open w' = (if n_sub n then [RSub] else []) @ RDht # nw_open w)"
  using assms by (auto simp: start_dht_def Let_def release_lock_def managers_open split: sum.splits)

text \<open>The ways in which a start can fail after the store was opened: what stays open, and whether the store and the lock
  are given back.\<close>

definition failed_start :: "('k, 'db, 'w) newlib \<Rightarrow> config \<Rightarrow> resource list \<Rightarrow> bool \<Rightarrow> bool" where
  "failed_start X c left given_back =
     (given_back \<and> left = []
      \<or> given_back \<and> ok (nl_connmgr X) \<and> \<not> ok (nl_rcmgr X) \<and> left = [RConnMgr]
      \<or> \<not> given_back \<and> \<not> ok (host_options (nl_net X) c) \<and> left = [RRcMgr, RConnMgr, RStore]
      \<or> given_back \<and> (\<exists>opts. host_options (nl_net X) c = Inr opts \<and> \<not> ok (nl_host X opts))
          \<and> left = left_managers (nl_undoes X)
      \<or> given_back \<and> left = left_managers (nl_owns X))"

lemma start_host_effect:
  assumes run: "start_host X c db lock w = (r, w')" and op: "nw_open w = RStore # rs"
  shows "(\<not> ok r \<longrightarrow> (\<exists>left given. failed_start X c left given \<and> nw_open w' = left @ rs
        \<and> nw_locks w' = (if given then nw_locks (release_lock (Some lock) w) else nw_locks w)))
    \<and> (\<forall>n. r = Inr n \<longrightarrow> nw_locks w' = nw_locks w \<and> n_lock n = Some lock \<and> n_cfg n = c \<and> n_owns n = nl_owns X
        \<and> nw_open w' = (if n_sub n then [RSub] else []) @ RDht # RHost # RRcMgr # RConnMgr # RStore # rs)"
proof -
  obtain r1 os1 where k: "load_or_generate (nl_keys X) (key_path c) (nw_os w) = (r1, os1)" by fastforce
  let ?w3 = "hold RRcMgr (hold RConnMgr (w\<lparr>nw_os := os1\<rparr>))"
  have o3: "nw_open ?w3 = RRcMgr # RConnMgr # RStore # rs" by (simp add: op)
  have fails: ?thesis if "\<not> ok r" "failed_start X c left given" "nw_open w' = left @ rs"
      "nw_locks w' = (if given then nw_locks (release_lock (Some lock) w) else nw_locks w)" for left given
    by (intro conjI impI allI exI [of _ left] exI [of _ given]) (use that in auto)
  consider (early) "\<not> ok r1 \<or> \<not> ok (nl_connmgr X)"
    | (rcmgr) kp where "r1 = Inr kp" "ok (nl_connmgr X)" "\<not> ok (nl_rcmgr X)"
    | (relays) kp e where "r1 = Inr kp" "ok (nl_connmgr X)" "ok (nl_rcmgr X)" "host_options (nl_net X) c = Inl e"
    | (host) kp opts e where "r1 = Inr kp" "ok (nl_connmgr X)" "ok (nl_rcmgr X)" "host_options (nl_net X) c = Inr opts"
        "nl_host X opts = Inl e"
    | (dht) key pid opts u where "r1 = Inr (key, pid)" "ok (nl_connmgr X)" "ok (nl_rcmgr X)"
        "host_options (nl_net X) c = Inr opts" "nl_host X opts = Inr u"
    by (cases r1; cases "ok (nl_connmgr X)"; cases "ok (nl_rcmgr X)"; cases "host_options (nl_net X) c";
        cases "nl_host X (projr (host_options (nl_net X) c))") auto
  then show ?thesis
  proof cases
    case early
    with run k op show ?thesis
      by (intro fails [of "[]" True]; cases r1; cases "nl_connmgr X")
         (auto simp: start_host_def Let_def failed_start_def release_lock_def)
  next
    case rcmgr
    with run k op show ?thesis
      by (intro fails [of "[RConnMgr]" True]; cases "nl_connmgr X"; cases "nl_rcmgr X")
         (auto simp: start_host_def Let_def failed_start_def release_lock_def split: prod.splits)
  next
    case relays
    with run k op show ?thesis
      by (intro fails [of "[RRcMgr, RConnMgr, RStore]" False]; cases "nl_connmgr X"; cases "nl_rcmgr X")
         (auto simp: start_host_def Let_def failed_start_def split: prod.splits)
  next
    case host
    with run k op have w': "\<not> ok r" "w' = release_lock (Some lock) (release RStore (release_managers (nl_undoes X) ?w3))"
      by (cases "nl_connmgr X"; cases "nl_rcmgr X"; auto simp: start_host_def Let_def split: prod.splits)+
    show ?thesis
      by (rule fails [of "left_managers (nl_undoes X)" True])
         (use w' host release_managers_open [OF o3] in \<open>auto simp: failed_start_def remove_store release_lock_def\<close>)
  next
    case dht
    with run k have "start_dht X c pid db lock (hold RHost ?w3) = (r, w')"
      by (cases "nl_connmgr X"; cases "nl_rcmgr X") (simp_all add: start_host_def Let_def)
    note eff = start_dht_effect [OF this, of rs]
    show ?thesis
    proof (cases r)
      case (Inl e)
      with eff o3 show ?thesis
        by (intro fails [of "left_managers (nl_owns X)" True]) (auto simp: failed_start_def release_lock_def)
    next
      case (Inr n)
      with eff o3 show ?thesis by simp
    qed
  qed
qed

lemma node_new_effect:
  assumes "node_new X c w = (r, w')"
  shows "(\<not> ok r \<longrightarrow> (\<exists>left given. failed_start X c left given \<and> nw_open w' = left @ nw_open w
        \<and> (if given then holder (nw_locks w') = holder (nw_locks w) else holder (nw_locks w') (lock_path c) \<noteq> None)))
    \<and> (\<forall>n. r = Inr n \<longrightarrow> holder (nw_locks w) (lock_path c) = None \<and> holder (nw_locks w') (lock_path c) \<noteq> None
        \<and> holder (nw_locks (node_close n w')) = holder (nw_locks w)
        \<and> nw_open w' = (if n_sub n then [RSub] else []) @ RDht # RHost # RRcMgr # RConnMgr # RStore # nw_open w
        \<and> nw_open (node_close n w') = left_managers (nl_owns X) @ nw_open w)"
proof -
  obtain r1 os1 where d: "ensure_dirs c (nw_os w) = (r1, os1)" by fastforce
  obtain r2 lk where a: "acquire_lock (nl_lockfile X) (lock_path c) (nw_locks w) = (r2, lk)" by fastforce
  obtain r3 rs where so: "store_open (nl_bolt X) (nl_dbfile X) (db_path c) (nw_open w) = (r3, rs)" by fastforce
  have clean: ?thesis if "\<not> ok r" "nw_open w' = nw_open w" "holder (nw_locks w') = holder (nw_locks w)"
    by (intro conjI impI allI exI [of _ "[]"] exI [of _ True]) (use that in \<open>auto simp: failed_start_def\<close>)
  consider (early) "\<not> ok r1 \<or> \<not> ok r2" | (store) lock where "ok r1" "r2 = Inr lock" "\<not> ok r3"
    | (opened) lock db where "ok r1" "r2 = Inr lock" "r3 = Inr db" by (cases r2; cases r3) auto
  then show ?thesis
  proof cases
    case early
    have "holder lk = holder (nw_locks w)" if "\<not> ok r2"
      using a that by (auto simp: acquire_lock_def Let_def split: sum.splits if_splits)
    with early assms d a show ?thesis by (intro clean; cases r1; cases r2) (auto simp: node_new_def)
  next
    case store
    note lock = acquire_then_release [OF a [unfolded store(2)]]
    from store assms d a so store_open_effect [OF so] lock show ?thesis
      by (intro clean; cases r1; cases r3) (auto simp: node_new_def release_lock_def)
  next
    case opened
    note lock = acquire_then_release [OF a [unfolded opened(2)]]
    let ?w1 = "w\<lparr>nw_os := os1, nw_locks := lk, nw_open := RStore # nw_open w\<rparr>"
    have sh: "start_host X c db lock ?w1 = (r, w')"
      using opened assms d a so store_open_effect [OF so] by (cases r1) (auto simp: node_new_def)
    have o1: "nw_open ?w1 = RStore # nw_open w" by simp
    note eff = start_host_effect [OF sh o1]
    show ?thesis
    proof (cases r)
      case (Inl e)
      with eff obtain left given where "failed_start X c left given" "nw_open w' = left @ nw_open w"
        "nw_locks w' = (if given then nw_locks (release_lock (Some lock) ?w1) else nw_locks ?w1)" by auto
      with Inl lock show ?thesis
        by (cases given) (auto simp: release_lock_def intro!: exI [of _ left])
    next
      case (Inr n)
      with eff have n: "nw_locks w' = lk" "n_lock n = Some lock" "n_owns n = nl_owns X"
        "nw_open w' = (if n_sub n then [RSub] else []) @ RDht # RHost # RRcMgr # RConnMgr # RStore # nw_open w" by simp_all
      have "nw_open (release RDht (if n_sub n then release RSub w' else w')) = RHost # RRcMgr # RConnMgr # RStore # nw_open w"
        using n(4) by simp
      note close_host_open [OF this, of "nl_owns X"]
      with n lock Inr show ?thesis
        by (simp add: node_close_def Let_def release_lock_def remove_store)
    qed
  qed
qed

lemma node_new_cases:
  assumes "node_new X c w = (r, w')" and "nl_owns X RConnMgr" "nl_owns X RRcMgr"
  shows "(\<not> ok r \<longrightarrow>
        nw_open w' = nw_open w \<and> holder (nw_locks w') = holder (nw_locks w)
        \<or> \<not> ok (nl_rcmgr X) \<and> nw_open w' = RConnMgr # nw_open w \<and> holder (nw_locks w') = holder (nw_locks w)
        \<or> \<not> ok (host_options (nl_net X) c) \<and> nw_open w' = RRcMgr # RConnMgr # RStore # nw_open w
            \<and> holder (nw_locks w') (lock_path c) \<noteq> None
        \<or> (\<exists>opts. host_options (nl_net X) c = Inr opts \<and> \<not> ok (nl_host X opts))
            \<and> nw_open w' = filter (\<lambda>m. \<not> nl_undoes X m) [RRcMgr, RConnMgr] @ nw_open w
            \<and> holder (nw_locks w') = holder (nw_locks w))
    \<and> (\<forall>n. r = Inr n \<longrightarrow> holder (nw_locks w) (lock_path c) = None \<and> holder (nw_locks w') (lock_path c) \<noteq> None
        \<and> nw_open w' = (if n_sub n then [RSub] else []) @ [RDht, RHost, RRcMgr, RConnMgr, RStore] @ nw_open w
        \<and> holder (nw_locks (node_close n w')) = holder (nw_locks w) \<and> nw_open (node_close n w') = nw_open w)"
proof -
  have owned: "left_managers (nl_owns X) = []" using assms(2,3) by (simp add: left_managers_def)
  show ?thesis
  proof (cases r)
    case (Inl e)
    with node_new_effect [OF assms(1)] obtain left given where "failed_start X c left given" "nw_open w' = left @ nw_open w"
      "if given then holder (nw_locks w') = holder (nw_locks w) else holder (nw_locks w') (lock_path c) \<noteq> None" by auto
    with Inl show ?thesis unfolding failed_start_def owned by (cases given) (auto simp: left_managers_def)
  next
    case (Inr n)
    with node_new_effect [OF assms(1)] show ?thesis by (simp add: owned)
  qed
qed

section \<open>Properties\<close>

text \<open>C32: what a node that fails to start leaves behind. The store and the repository lock are given back, with one
  exception: when the configured relay addresses do not parse, they stay, together with both managers (the
  process cannot start a node again). The connection manager also stays when the resource manager cannot be
  made, and after a failing \<open>libp2p.New\<close> those managers stay that it does not close itself; every
  other failure leaves nothing behind. A started node holds the lock and has the store, both managers, the host, the DHT
  and, if it could subscribe, the subscription open; closing it releases the lock and all of them. That a host closes
  the managers it was given is what the code relies on.\<close>

theorem node_lifecycle:
  assumes "node_new X c w = (r, w')" and "nl_owns X RConnMgr" "nl_owns X RRcMgr"
  shows "(\<not> ok r \<longrightarrow>
        nw_open w' = nw_open w \<and> holder (nw_locks w') = holder (nw_locks w)
        \<or> \<not> ok (nl_rcmgr X) \<and> nw_open w' = RConnMgr # nw_open w \<and> holder (nw_locks w') = holder (nw_locks w)
        \<or> \<not> ok (host_options (nl_net X) c) \<and> nw_open w' = RRcMgr # RConnMgr # RStore # nw_open w
            \<and> holder (nw_locks w') (lock_path c) \<noteq> None
        \<or> (\<exists>opts. host_options (nl_net X) c = Inr opts \<and> \<not> ok (nl_host X opts))
            \<and> nw_open w' = filter (\<lambda>m. \<not> nl_undoes X m) [RRcMgr, RConnMgr] @ nw_open w
            \<and> holder (nw_locks w') = holder (nw_locks w))
    \<and> (\<forall>n. r = Inr n \<longrightarrow> holder (nw_locks w) (lock_path c) = None \<and> holder (nw_locks w') (lock_path c) \<noteq> None
        \<and> nw_open w' = (if n_sub n then [RSub] else []) @ [RDht, RHost, RRcMgr, RConnMgr, RStore] @ nw_open w
        \<and> holder (nw_locks (node_close n w')) = holder (nw_locks w) \<and> nw_open (node_close n w') = nw_open w)"
  by (rule node_new_cases [OF assms])

text \<open>A node in an empty repository, started and closed again.\<close>

definition small_config :: config where
  "small_config = \<lparr>cf_repo_dir = ''/r'', cf_hub_dir = ''/h'', cf_listen = [], cf_bootstrap = [], cf_isolated = False,
     cf_connect = [], cf_hole_punch = True, cf_relay = True, cf_nat_port_map = True, cf_relay_service = False,
     cf_static_relays = [], cf_relay_bulk = False, cf_chunk_size = 1, cf_dht_server = True, cf_endpoint = [], cf_token = [],
     cf_api_socket = [], cf_rescan = 0\<rparr>"

definition small_lib :: "(string, memdb, cid list) newlib" where
  "small_lib = \<lparr>nl_keys = plain_keys, nl_bolt = mem_bolt, nl_net = list_net, nl_lockfile = Inr (), nl_dbfile = Inr ([], []),
     nl_connmgr = Inr (), nl_rcmgr = Inr (), nl_host = (\<lambda>_. Inr ()),
     nl_undoes = (\<lambda>_. False), nl_owns = (\<lambda>r. r \<in> {RConnMgr, RRcMgr}), nl_dht = (\<lambda>_. Inr ()), nl_sub = Inr ()\<rparr>"

definition small_world :: nworld where
  "small_world = \<lparr>nw_os = bare_os, nw_locks = \<lparr>holder = (\<lambda>_. None), next_fd = 3\<rparr>, nw_open = []\<rparr>"

lemma small_start: "ok (fst (node_new small_lib small_config small_world))"
  by code_simp

theorem node_lifecycle_witness:
  "\<exists>n w'. node_new small_lib small_config small_world = (Inr n, w') \<and> holder (nw_locks w') ''/r/swarmface.lock'' \<noteq> None
     \<and> nw_open (node_close n w') = [] \<and> holder (nw_locks (node_close n w')) = (\<lambda>_. None)"
proof -
  obtain n w' where run: "node_new small_lib small_config small_world = (Inr n, w')"
    using small_start by (cases "node_new small_lib small_config small_world") (auto simp: ok_iff)
  have "lock_path small_config = ''/r/swarmface.lock''" by code_simp
  moreover have "nl_owns small_lib RConnMgr" "nl_owns small_lib RRcMgr" by (simp_all add: small_lib_def)
  ultimately show ?thesis using node_lifecycle [OF run] run by (simp add: small_world_def)
qed

end
