(* ===== verification/Watch.thy ===== *)
theory Watch
  imports Ingest Evict NodeNet "HOL-Library.AList"
begin

text \<open>
  \<open>internal/watch/watch.go\<close>: the watcher of the Hugging Face cache. Its loop is the step relation
  \<open>watch_step\<close>, one rule per case of the \<open>select\<close>; handlers are functions on the state. The bytes of
  the cache and the database may change between steps by other parts of the daemon: \<open>environment\<close> steps
  change anything but the watcher's own fields. \<open>live k\<close> says whether the context is still alive at the
  \<open>k\<close>-th check of a loop, so cancellation at any point is covered. Times are in nanoseconds. A Go map is an
  association list, whose order stands for the arbitrary iteration order.
\<close>

section \<open>State\<close>

definition DebounceWindow :: int where "DebounceWindow = 1500 * 10 ^ 6"

record ('s, 'm, 'd, 'w) wenv =
  v_cfg :: config
  v_ingest :: "('s, 'm, 'd) ingestlib"
  v_maps :: "'s maplib"
  v_net :: "'w netlib"
  v_boxo :: "'s boxo"
  v_order :: "cid list \<Rightarrow> cid list"
  v_mainbs :: "'s blockops"
  v_stores :: "bytes \<Rightarrow> 's dsops"
  v_fsadd :: "string list \<Rightarrow> string \<Rightarrow> unit res"
  v_now :: string

record ('s, 'w) wworld =
  ww_db :: 's
  ww_os :: os
  ww_net :: 'w
  ww_pending :: "(string \<times> int) list"
  ww_known :: "string list"
  ww_watched :: "string list"

text \<open>The watcher's own maps, and the directories the kernel watches for it.\<close>

definition wframe :: "('s, 'w) wworld \<Rightarrow> (string \<times> int) list \<times> string list \<times> string list" where
  "wframe w = (ww_pending w, ww_known w, ww_watched w)"

abbreviation v_hub :: "('s, 'm, 'd, 'w) wenv \<Rightarrow> string" where
  "v_hub E \<equiv> cf_hub_dir (v_cfg E)"

definition v_target :: "('s, 'm, 'd, 'w) wenv \<Rightarrow> 's target" where
  "v_target E = from_node (v_maps E) (v_mainbs E) (v_stores E) (v_hub E)"

section \<open>Watches\<close>

fun add_watches ::
  "('s, 'm, 'd, 'w) wenv \<Rightarrow> string list \<Rightarrow> ('s, 'w) wworld \<Rightarrow> ('s, 'w) wworld" where
  "add_watches E [] w = w"
| "add_watches E (d # ds) w =
     (if d \<in> set (ww_known w) then add_watches E ds w
      else case os_stat (ww_os w) d of
             (Inl _, os1) \<Rightarrow> add_watches E ds (w\<lparr>ww_os := os1\<rparr>)
           | (Inr st, os1) \<Rightarrow>
               if \<not> is_dir (fi_node st) then add_watches E ds (w\<lparr>ww_os := os1\<rparr>)
               else (case v_fsadd E (ww_watched w) d of
                       Inl _ \<Rightarrow> add_watches E ds (w\<lparr>ww_os := os1\<rparr>)
                     | Inr _ \<Rightarrow> add_watches E ds (w\<lparr>ww_os := os1, ww_known := d # ww_known w,
                                                    ww_watched := d # ww_watched w\<rparr>)))"

definition add_repo_watches :: "('s, 'm, 'd, 'w) wenv \<Rightarrow> string \<Rightarrow> ('s, 'w) wworld \<Rightarrow> ('s, 'w) wworld" where
  "add_repo_watches E repo_dir w =
     add_watches E [join_path [repo_dir, []], join_path [repo_dir, ''refs''], join_path [repo_dir, ''snapshots'']] w"

fun track_repos :: "('s, 'm, 'd, 'w) wenv \<Rightarrow> (string \<times> fnode) list \<Rightarrow> ('s, 'w) wworld \<Rightarrow> ('s, 'w) wworld" where
  "track_repos E [] w = w"
| "track_repos E ((name, n) # es) w =
     (if \<not> is_dir n then track_repos E es w
      else if repo_from_dir_name name = None then track_repos E es w
      else track_repos E es (add_repo_watches E (join_path [v_hub E, name]) w))"

definition track_existing_repos :: "('s, 'm, 'd, 'w) wenv \<Rightarrow> ('s, 'w) wworld \<Rightarrow> ('s, 'w) wworld" where
  "track_existing_repos E w =
     (case os_readdir (ww_os w) (v_hub E) of
        (Inl _, os1) \<Rightarrow> w\<lparr>ww_os := os1\<rparr>
      | (Inr es, os1) \<Rightarrow> track_repos E es (w\<lparr>ww_os := os1\<rparr>))"

fun repo_dir_loop :: "nat \<Rightarrow> string \<Rightarrow> string \<Rightarrow> string" where
  "repo_dir_loop 0 hub cur = []"
| "repo_dir_loop (Suc n) hub cur =
     (if cur = hub then []
      else let parent = dir cur in
        if parent = cur then []
        else if dir parent = hub then parent
        else repo_dir_loop n hub parent)"

definition repo_dir_of :: "string \<Rightarrow> string \<Rightarrow> string" where
  "repo_dir_of hub path = repo_dir_loop 6 hub path"

section \<open>Pruning and ingesting\<close>

definition evict_entry ::
  "nat \<Rightarrow> ('s, 'm, 'd, 'w) wenv \<Rightarrow> entry \<Rightarrow> ('s, 'w) wworld \<Rightarrow> (unit res \<times> ('s, 'w) wworld) option" where
  "evict_entry n E e w =
     (case evict_commit n (i_cids (v_ingest E)) (v_boxo E) (v_order E) (v_target E) e
             \<lparr>ev_db = ww_db w, ev_os = ww_os w, ev_log = []\<rparr> of
        None \<Rightarrow> None
      | Some (r, ew) \<Rightarrow> Some (r, w\<lparr>ww_db := ev_db ew, ww_os := ev_os ew\<rparr>))"

text \<open>\<open>paths.Exists() && SnapshotComplete(...)\<close>: the second call is made only if the first succeeds.\<close>

definition content_present :: "paths \<Rightarrow> string \<Rightarrow> os \<Rightarrow> bool \<times> os" where
  "content_present p commit os =
     (case paths_exists p os of
        (False, os1) \<Rightarrow> (False, os1)
      | (True, os1) \<Rightarrow> snapshot_complete p commit os1)"

fun prune_entries ::
  "nat \<Rightarrow> ('s, 'm, 'd, 'w) wenv \<Rightarrow> string \<Rightarrow> entry list \<Rightarrow> ('s, 'w) wworld \<Rightarrow> ('s, 'w) wworld option" where
  "prune_entries n E r [] w = Some w"
| "prune_entries n E r (e # es) w =
     (if r \<noteq> [] \<and> repo_id e \<noteq> r then prune_entries n E r es w
      else case content_present (new_paths (v_hub E) (repo_id e) (repo_type e)) (commit_hash e) (ww_os w) of
             (True, os1) \<Rightarrow> prune_entries n E r es (w\<lparr>ww_os := os1\<rparr>)
           | (False, os1) \<Rightarrow>
               (case evict_entry n E e (w\<lparr>ww_os := os1\<rparr>) of
                  None \<Rightarrow> None
                | Some (_, w1) \<Rightarrow> prune_entries n E r es w1))"

definition prune_orphans ::
  "nat \<Rightarrow> ('s, 'm, 'd, 'w) wenv \<Rightarrow> string \<Rightarrow> ('s, 'w) wworld \<Rightarrow> ('s, 'w) wworld option" where
  "prune_orphans n E r w =
     (case map_list (v_maps E) (ww_db w) of
        Inl _ \<Rightarrow> Some w
      | Inr es \<Rightarrow> prune_entries n E r es w)"

fun repo_type_loop :: "string \<Rightarrow> string \<Rightarrow> repotype list \<Rightarrow> os \<Rightarrow> repotype \<times> os" where
  "repo_type_loop hub r [] os = (Model, os)"
| "repo_type_loop hub r (t # ts) os =
     (case os_stat os (join_path [hub, repo_dir_name r t]) of
        (Inl _, os1) \<Rightarrow> repo_type_loop hub r ts os1
      | (Inr st, os1) \<Rightarrow> if is_dir (fi_node st) then (t, os1) else repo_type_loop hub r ts os1)"

definition repo_type_of :: "string \<Rightarrow> string \<Rightarrow> os \<Rightarrow> repotype \<times> os" where
  "repo_type_of hub r os = repo_type_loop hub r [Model, Dataset, Space] os"

definition try_ingest ::
  "nat \<Rightarrow> ('s, 'm, 'd, 'w) wenv \<Rightarrow> string \<Rightarrow> ('s, 'w) wworld \<Rightarrow> ('s, 'w) wworld option" where
  "try_ingest n E r w =
     (case repo_type_of (v_hub E) r (ww_os w) of
        (t, os0) \<Rightarrow>
          (let p = new_paths (v_hub E) r t
           in case current_commit p ''main'' os0 of
                (Inl _, os1) \<Rightarrow> prune_orphans n E r (w\<lparr>ww_os := os1\<rparr>)
              | (Inr commit, os1) \<Rightarrow>
                  (case snapshot_complete p commit os1 of
                     (complete, os2) \<Rightarrow>
                       (case (case map_get (v_maps E) (ww_db w) commit of Inr m \<Rightarrow> m | Inl _ \<Rightarrow> None) of
                          Some e \<Rightarrow>
                            if complete then Some (w\<lparr>ww_os := os2\<rparr>)
                            else map_option snd (evict_entry n E e (w\<lparr>ww_os := os2\<rparr>))
                        | None \<Rightarrow>
                            if \<not> complete then Some (w\<lparr>ww_os := os2\<rparr>)
                            else (case ingest_run n (v_ingest E) (v_maps E) (cf_chunk_size (v_cfg E)) (v_hub E) r t commit
                                         (v_now E) \<lparr>iw_db = ww_db w, iw_os = os2, iw_log = []\<rparr> of
                                    None \<Rightarrow> None
                                  | Some (res, iw) \<Rightarrow>
                                      (let w1 = w\<lparr>ww_db := iw_db iw, ww_os := iw_os iw\<rparr>
                                       in Some (case res of
                                                  Inl _ \<Rightarrow> w1
                                                | Inr ir \<Rightarrow> w1\<lparr>ww_net := snd (provide_commit (i_cids (v_ingest E)) (v_net E)
                                                                             commit (ir_actual ir) (ww_net w1))\<rparr>)))))))"

fun ingest_all ::
  "nat \<Rightarrow> ('s, 'm, 'd, 'w) wenv \<Rightarrow> (nat \<Rightarrow> bool) \<Rightarrow> nat \<Rightarrow> string list \<Rightarrow> ('s, 'w) wworld \<Rightarrow> (bool \<times> ('s, 'w) wworld) option" where
  "ingest_all n E live k [] w = Some (True, w)"
| "ingest_all n E live k (r # rs) w =
     (if \<not> live k then Some (False, w)
      else case try_ingest n E r w of
             None \<Rightarrow> None
           | Some w1 \<Rightarrow> ingest_all n E live (Suc k) rs w1)"

definition scan ::
  "nat \<Rightarrow> ('s, 'm, 'd, 'w) wenv \<Rightarrow> (nat \<Rightarrow> bool) \<Rightarrow> ('s, 'w) wworld \<Rightarrow> ('s, 'w) wworld option" where
  "scan n E live w =
     (case list_repos (v_hub E) (ww_os w) of
        (Inl _, os1) \<Rightarrow> Some (w\<lparr>ww_os := os1\<rparr>)
      | (Inr rs, os1) \<Rightarrow>
          (case ingest_all n E live 0 rs (w\<lparr>ww_os := os1\<rparr>) of
             None \<Rightarrow> None
           | Some (False, w1) \<Rightarrow> Some w1
           | Some (True, w1) \<Rightarrow> prune_orphans n E [] w1))"

section \<open>Events\<close>

text \<open>An fsnotify event: the path and whether its operation mask has \<open>Create\<close>.\<close>

record fsevent =
  fe_name :: string
  fe_create :: bool

definition repo_prefix :: "string \<Rightarrow> bool" where
  "repo_prefix b = (has_prefix b ''models--'' \<or> has_prefix b ''datasets--'' \<or> has_prefix b ''spaces--'')"

definition watch_created ::
  "('s, 'm, 'd, 'w) wenv \<Rightarrow> fsevent \<Rightarrow> ('s, 'w) wworld \<Rightarrow> ('s, 'w) wworld" where
  "watch_created E ev w =
     (if \<not> fe_create ev then w
      else case os_stat (ww_os w) (fe_name ev) of
             (Inl _, os1) \<Rightarrow> w\<lparr>ww_os := os1\<rparr>
           | (Inr st, os1) \<Rightarrow>
               if is_dir (fi_node st) \<and> repo_prefix (base (fe_name ev))
               then add_repo_watches E (fe_name ev) (w\<lparr>ww_os := os1\<rparr>)
               else w\<lparr>ww_os := os1\<rparr>)"

definition handle_event ::
  "('s, 'm, 'd, 'w) wenv \<Rightarrow> int \<Rightarrow> fsevent \<Rightarrow> ('s, 'w) wworld \<Rightarrow> ('s, 'w) wworld" where
  "handle_event E now ev w =
     (let w1 = watch_created E ev w;
          repo_dir = repo_dir_of (v_hub E) (fe_name ev)
      in if repo_dir = [] then w1
         else case repo_from_dir_name (base repo_dir) of
                None \<Rightarrow> w1
              | Some (r, _) \<Rightarrow>
                  (let w2 = add_repo_watches E repo_dir w1
                   in w2\<lparr>ww_pending := AList.update r now (ww_pending w2)\<rparr>))"

definition due_repos :: "int \<Rightarrow> (string \<times> int) list \<Rightarrow> string list" where
  "due_repos now pending = map fst (filter (\<lambda>(r, at). now - at \<ge> DebounceWindow) pending)"

definition flush ::
  "nat \<Rightarrow> ('s, 'm, 'd, 'w) wenv \<Rightarrow> (nat \<Rightarrow> bool) \<Rightarrow> int \<Rightarrow> ('s, 'w) wworld \<Rightarrow> ('s, 'w) wworld option" where
  "flush n E live now w =
     (let due = due_repos now (ww_pending w)
      in map_option snd (ingest_all n E live 0 due
           (w\<lparr>ww_pending := filter (\<lambda>(r, _). r \<notin> set due) (ww_pending w)\<rparr>)))"

text \<open>\<open>Run\<close> up to its loop: \<open>None\<close> out of fuel, an error when the hub directory cannot be made or watched.\<close>

definition run_init ::
  "nat \<Rightarrow> ('s, 'm, 'd, 'w) wenv \<Rightarrow> (nat \<Rightarrow> bool) \<Rightarrow> ('s, 'w) wworld \<Rightarrow> (unit res \<times> ('s, 'w) wworld) option" where
  "run_init n E live w =
     (case os_mkdir_all (ww_os w) (v_hub E) of
        (Inl e, os1) \<Rightarrow> Some (Inl e, w\<lparr>ww_os := os1\<rparr>)
      | (Inr _, os1) \<Rightarrow>
          (case v_fsadd E (ww_watched w) (v_hub E) of
             Inl e \<Rightarrow> Some (Inl e, w\<lparr>ww_os := os1\<rparr>)
           | Inr _ \<Rightarrow>
               map_option (\<lambda>w1. (Inr (), w1))
                 (scan n E live (track_existing_repos E (w\<lparr>ww_os := os1, ww_watched := v_hub E # ww_watched w\<rparr>)))))"

definition rescan ::
  "nat \<Rightarrow> ('s, 'm, 'd, 'w) wenv \<Rightarrow> (nat \<Rightarrow> bool) \<Rightarrow> ('s, 'w) wworld \<Rightarrow> ('s, 'w) wworld option" where
  "rescan n E live w =
     map_option (\<lambda>w1. w1\<lparr>ww_net := snd (reprovide_all (i_cids (v_ingest E)) (v_maps E) (v_net E) (ww_db w1) (ww_net w1))\<rparr>)
       (scan n E live w)"

text \<open>
  One turn of the loop, from a state at time \<open>t\<close> to a state at a later time \<open>t1\<close>, with recursion depth \<open>n\<close>. The
  rescan ticker exists only for a positive interval. Between two cases of the \<open>select\<close> the rest of the system may
  change files, database and network, and the kernel drops the watch of a directory that is removed.
\<close>

inductive watch_step ::
  "nat \<Rightarrow> ('s, 'm, 'd, 'w) wenv \<Rightarrow> int \<times> ('s, 'w) wworld \<Rightarrow> int \<times> ('s, 'w) wworld \<Rightarrow> bool" for n E where
  event: "t \<le> t1 \<Longrightarrow> watch_step n E (t, w) (t1, handle_event E t1 ev w)"
| fs_error: "t \<le> t1 \<Longrightarrow> watch_step n E (t, w) (t1, w)"
| debounce: "t \<le> t1 \<Longrightarrow> flush n E live t1 w = Some w1 \<Longrightarrow> watch_step n E (t, w) (t1, w1)"
| rescan: "t \<le> t1 \<Longrightarrow> 0 < cf_rescan (v_cfg E) \<Longrightarrow> rescan n E live w = Some w1 \<Longrightarrow> watch_step n E (t, w) (t1, w1)"
| environment: "t \<le> t1 \<Longrightarrow> set ws \<subseteq> set (ww_watched w) \<Longrightarrow>
    watch_step n E (t, w) (t1, w\<lparr>ww_db := db, ww_os := os, ww_net := net, ww_watched := ws\<rparr>)"

text \<open>The states of a watcher that started with empty maps.\<close>

inductive watch_run :: "nat \<Rightarrow> ('s, 'm, 'd, 'w) wenv \<Rightarrow> int \<times> ('s, 'w) wworld \<Rightarrow> bool" for n E where
  start: "wframe w = ([], [], []) \<Longrightarrow> run_init n E live w = Some (Inr (), w1) \<Longrightarrow> watch_run n E (t, w1)"
| step: "watch_run n E x \<Longrightarrow> watch_step n E x y \<Longrightarrow> watch_run n E y"

section \<open>The watcher's own fields\<close>

text \<open>Ingesting and pruning change the cache, the database and the network, never the watcher's maps.\<close>

lemma wframe_update [simp]:
  "wframe (w\<lparr>ww_db := db\<rparr>) = wframe w" "wframe (w\<lparr>ww_os := os\<rparr>) = wframe w" "wframe (w\<lparr>ww_net := net\<rparr>) = wframe w"
  by (simp_all add: wframe_def)

lemma evict_entry_frame: "evict_entry n E e w = Some (r, w') \<Longrightarrow> wframe w' = wframe w"
  by (auto simp: evict_entry_def split: option.splits prod.splits)

lemma prune_entries_frame: "prune_entries n E r es w = Some w' \<Longrightarrow> wframe w' = wframe w"
  by (induction n E r es w rule: prune_entries.induct)
     (auto dest!: evict_entry_frame split: if_splits prod.splits option.splits bool.splits)

lemma prune_orphans_frame: "prune_orphans n E r w = Some w' \<Longrightarrow> wframe w' = wframe w"
  by (auto simp: prune_orphans_def dest!: prune_entries_frame split: sum.splits)

lemma try_ingest_frame: "try_ingest n E r w = Some w' \<Longrightarrow> wframe w' = wframe w"
  by (auto simp: try_ingest_def Let_def dest!: prune_orphans_frame evict_entry_frame
      split: prod.splits sum.splits option.splits if_splits)

lemma ingest_all_frame: "ingest_all n E live k rs w = Some (b, w') \<Longrightarrow> wframe w' = wframe w"
  by (induction n E live k rs w rule: ingest_all.induct)
     (auto dest!: try_ingest_frame split: if_splits option.splits)

lemma scan_frame: "scan n E live w = Some w' \<Longrightarrow> wframe w' = wframe w"
  by (auto simp: scan_def dest!: ingest_all_frame prune_orphans_frame
      split: prod.splits sum.splits option.splits bool.splits)

lemma rescan_frame: "rescan n E live w = Some w' \<Longrightarrow> wframe w' = wframe w"
  by (auto simp: rescan_def dest!: scan_frame)

lemma flush_frame: "flush n E live now w = Some w' \<Longrightarrow>
  ww_pending w' = filter (\<lambda>(r, _). r \<notin> set (due_repos now (ww_pending w))) (ww_pending w)
  \<and> ww_known w' = ww_known w \<and> ww_watched w' = ww_watched w"
  by (auto simp: flush_def Let_def wframe_def dest!: ingest_all_frame)

section \<open>The invariant\<close>

text \<open>Directories the watcher knows and those the kernel watches for it.\<close>

definition watches_ok :: "string \<Rightarrow> string list \<times> string list \<Rightarrow> bool" where
  "watches_ok hub kw = (case kw of (known, watched) \<Rightarrow>
     distinct known \<and> set watched \<subseteq> insert hub (set known))"

definition pending_ok :: "int \<Rightarrow> (string \<times> int) list \<Rightarrow> bool" where
  "pending_ok t ps = (distinct (map fst ps)
     \<and> list_all (\<lambda>(r, at). at \<le> t \<and> (\<exists>name ty. repo_from_dir_name name = Some (r, ty))) ps)"

definition watch_inv :: "('s, 'm, 'd, 'w) wenv \<Rightarrow> int \<times> ('s, 'w) wworld \<Rightarrow> bool" where
  "watch_inv E x = (case x of (t, w) \<Rightarrow>
     pending_ok t (ww_pending w) \<and> watches_ok (v_hub E) (ww_known w, ww_watched w))"

text \<open>Adding watches: nothing pending changes, no known directory is forgotten, only unknown ones are added.\<close>

definition watches_grow :: "('s, 'w) wworld \<Rightarrow> ('s, 'w) wworld \<Rightarrow> bool" where
  "watches_grow w w' = (ww_pending w' = ww_pending w
     \<and> (\<exists>ds. ww_known w' = ds @ ww_known w \<and> ww_watched w' = ds @ ww_watched w
          \<and> distinct ds \<and> set ds \<inter> set (ww_known w) = {}))"

lemma watches_grow_frame: "wframe w' = wframe w \<Longrightarrow> watches_grow w w'"
  by (simp add: watches_grow_def wframe_def)

lemma watches_grow_trans:
  assumes "watches_grow w w1" "watches_grow w1 w2"
  shows "watches_grow w w2"
proof -
  from assms(1) obtain ds where d: "ww_pending w1 = ww_pending w" "ww_known w1 = ds @ ww_known w"
    "ww_watched w1 = ds @ ww_watched w" "distinct ds" "set ds \<inter> set (ww_known w) = {}"
    unfolding watches_grow_def by blast
  from assms(2) obtain es where e: "ww_pending w2 = ww_pending w1" "ww_known w2 = es @ ww_known w1"
    "ww_watched w2 = es @ ww_watched w1" "distinct es" "set es \<inter> set (ww_known w1) = {}"
    unfolding watches_grow_def by blast
  from d e show ?thesis unfolding watches_grow_def by (intro conjI exI [of _ "es @ ds"]) auto
qed

lemma grow_pending: "watches_grow w w1 \<Longrightarrow> ww_pending w1 = ww_pending w"
  by (simp add: watches_grow_def)

lemma add_watches_grow: "watches_grow w (add_watches E ds w)"
proof (induction E ds w rule: add_watches.induct)
  case (2 E d ds w)
  have hop: "watches_grow w (add_watches E ds w1)" if "watches_grow w w1" "watches_grow w1 (add_watches E ds w1)" for w1
    using that by (rule watches_grow_trans)
  have one: "d \<notin> set (ww_known w) \<Longrightarrow>
      watches_grow w (w\<lparr>ww_os := os1, ww_known := d # ww_known w, ww_watched := d # ww_watched w\<rparr>)" for os1
    by (simp add: watches_grow_def)
  show ?case
    using 2 one by (auto split: prod.split sum.split intro!: hop intro: watches_grow_frame)
qed (simp add: watches_grow_frame)

lemma add_repo_watches_grow: "watches_grow w (add_repo_watches E d w)"
  unfolding add_repo_watches_def by (rule add_watches_grow)

lemma track_repos_grow: "watches_grow w (track_repos E es w)"
  by (induction E es w rule: track_repos.induct)
     (auto intro: watches_grow_frame watches_grow_trans [OF add_repo_watches_grow])

lemma track_existing_grow: "watches_grow w (track_existing_repos E w)"
  by (auto simp: track_existing_repos_def intro: watches_grow_frame
      intro!: watches_grow_trans [OF _ track_repos_grow] split: prod.split sum.split)

lemma watch_created_grow: "watches_grow w (watch_created E ev w)"
  by (auto simp: watch_created_def intro: watches_grow_frame
      intro!: watches_grow_trans [OF _ add_repo_watches_grow] split: prod.split sum.split)

lemma handle_event_effect:
  "\<exists>w1. watches_grow w w1 \<and> ww_known (handle_event E t ev w) = ww_known w1
     \<and> ww_watched (handle_event E t ev w) = ww_watched w1
     \<and> (ww_pending (handle_event E t ev w) = ww_pending w
        \<or> (\<exists>r ty name. repo_from_dir_name name = Some (r, ty)
             \<and> ww_pending (handle_event E t ev w) = AList.update r t (ww_pending w)))"
proof -
  let ?w1 = "watch_created E ev w" and ?d = "repo_dir_of (v_hub E) (fe_name ev)"
  note c = watch_created_grow [of w E ev]
  note g = watches_grow_trans [OF c add_repo_watches_grow [of ?w1 E ?d]]
  show ?thesis
  proof (cases "?d = [] \<or> repo_from_dir_name (base ?d) = None")
    case True
    then have "handle_event E t ev w = ?w1" by (auto simp: handle_event_def Let_def)
    with c show ?thesis by (auto simp: watches_grow_def)
  next
    case False
    then obtain r ty where r: "?d \<noteq> []" "repo_from_dir_name (base ?d) = Some (r, ty)" by auto
    let ?w2 = "add_repo_watches E ?d ?w1"
    have "handle_event E t ev w = ?w2\<lparr>ww_pending := AList.update r t (ww_pending ?w2)\<rparr>"
      using r by (simp add: handle_event_def Let_def)
    moreover have "ww_pending ?w2 = ww_pending w" using g by (simp add: watches_grow_def)
    ultimately show ?thesis using g r by (intro exI [of _ ?w2]) auto
  qed
qed

lemma watches_ok_grow: "watches_grow w w1 \<Longrightarrow> watches_ok hub (ww_known w, ww_watched w) \<Longrightarrow>
  watches_ok hub (ww_known w1, ww_watched w1)"
  by (auto simp: watches_grow_def watches_ok_def)

lemma pending_ok_later: "pending_ok t ps \<Longrightarrow> t \<le> t1 \<Longrightarrow> pending_ok t1 ps"
  by (fastforce simp: pending_ok_def list_all_iff)

lemma pending_ok_filter: "pending_ok t ps \<Longrightarrow> pending_ok t (filter P ps)"
  by (auto simp: pending_ok_def list_all_iff distinct_map_filter)

lemma pending_ok_update:
  assumes "pending_ok t ps" "repo_from_dir_name name = Some (r, ty)"
  shows "pending_ok t (AList.update r t ps)"
proof -
  have "set (AList.update r t ps) \<subseteq> insert (r, t) (set ps)"
    by (induction ps) auto
  with assms show ?thesis
    by (fastforce simp: pending_ok_def list_all_iff intro: AList.distinct_update)
qed

lemma watch_step_inv: "watch_step n E x y \<Longrightarrow> watch_inv E x \<Longrightarrow> watch_inv E y"
proof (induction rule: watch_step.induct)
  case (event t t1 w ev)
  obtain w1 where "watches_grow w w1" "ww_known (handle_event E t1 ev w) = ww_known w1"
    "ww_watched (handle_event E t1 ev w) = ww_watched w1"
    "ww_pending (handle_event E t1 ev w) = ww_pending w
     \<or> (\<exists>r ty name. repo_from_dir_name name = Some (r, ty)
          \<and> ww_pending (handle_event E t1 ev w) = AList.update r t1 (ww_pending w))"
    using handle_event_effect [of w E t1 ev] by blast
  with event pending_ok_later [of t "ww_pending w" t1] show ?case
    by (auto simp: watch_inv_def watches_ok_grow pending_ok_update)
next
  case (debounce t t1 live w w1)
  then show ?case
    using flush_frame [OF debounce(2)] pending_ok_filter [OF pending_ok_later [OF _ debounce(1)]]
    by (simp add: watch_inv_def)
next
  case (rescan t t1 live w w1)
  then show ?case
    using rescan_frame [OF rescan(3)] pending_ok_later [OF _ rescan(1)] by (simp add: watch_inv_def wframe_def)
qed (auto simp: watch_inv_def watches_ok_def pending_ok_later)

lemma run_init_frame:
  assumes "run_init n E live w = Some (Inr (), w1)" "wframe w = ([], [], [])"
  shows "watch_inv E (t, w1)"
proof -
  from assms(1) obtain os1 where "scan n E live (track_existing_repos E
      (w\<lparr>ww_os := os1, ww_watched := v_hub E # ww_watched w\<rparr>)) = Some w1"
    by (auto simp: run_init_def split: prod.splits sum.splits)
  from scan_frame [OF this] track_existing_grow [of "w\<lparr>ww_os := os1, ww_watched := v_hub E # ww_watched w\<rparr>" E]
  show ?thesis using assms(2)
    by (auto simp: watch_inv_def wframe_def watches_grow_def watches_ok_def pending_ok_def)
qed

lemma watch_run_inv: "watch_run n E x \<Longrightarrow> watch_inv E x"
  by (induction rule: watch_run.induct) (auto intro: run_init_frame watch_step_inv)

lemma watch_step_lost:
  "watch_step n E x y \<Longrightarrow> d \<in> set (ww_known (snd x)) \<and> d \<notin> set (ww_watched (snd x)) \<Longrightarrow>
    d \<in> set (ww_known (snd y)) \<and> d \<notin> set (ww_watched (snd y))"
proof (induction rule: watch_step.induct)
  case (event t t1 w ev)
  with handle_event_effect [of w E t1 ev] show ?case by (auto simp: watches_grow_def)
next
  case (debounce t t1 live w w1)
  with flush_frame [OF debounce(2)] show ?case by simp
next
  case (rescan t t1 live w w1)
  with rescan_frame [OF rescan(3)] show ?case by (simp add: wframe_def)
qed auto

text \<open>
  The watch of a known directory that the kernel has dropped is never restored: a repository deleted and
  downloaded again is noticed through the hub directory and the rescan only.
\<close>

theorem lost_watch_stays_lost:
  assumes "(watch_step n E)\<^sup>*\<^sup>* (t, w) (t1, w1)" "d \<in> set (ww_known w)" "d \<notin> set (ww_watched w)"
  shows "d \<in> set (ww_known w1) \<and> d \<notin> set (ww_watched w1)"
proof -
  from assms(1) have "d \<in> set (ww_known (snd (t1, w1))) \<and> d \<notin> set (ww_watched (snd (t1, w1)))"
  proof (induction rule: rtranclp_induct)
    case (step x y)
    from step(2,3) show ?case by (rule watch_step_lost)
  qed (simp add: assms(2,3))
  then show ?thesis by simp
qed

section \<open>The directory of an event\<close>

lemma dir_root: "dir (abs_path []) = abs_path []"
  by (simp add: abs_path_def dir_def up_to_last_sep_def clean_def is_abs_def has_prefix_def)

lemma repo_dir_loop_spec:
  assumes "list_all norm_seg hs" "hs \<noteq> []"
  shows "list_all norm_seg ps \<Longrightarrow> repo_dir_loop n (abs_path hs) (abs_path ps) =
    (if \<exists>s r. ps = hs @ s # r \<and> 1 \<le> length r \<and> length r \<le> n then abs_path (take (Suc (length hs)) ps) else [])"
proof (induction n arbitrary: ps)
  case (Suc n)
  show ?case
  proof (cases ps rule: rev_cases)
    case Nil
    with assms show ?thesis by (simp add: abs_path_inj dir_root Let_def)
  next
    case (snoc qs x)
    with Suc.prems have q: "list_all norm_seg qs" "norm_seg x" by simp_all
    note IH = Suc.IH [OF q(1)]
    have here: "abs_path ps = abs_path hs \<longleftrightarrow> ps = hs" "abs_path qs \<noteq> abs_path ps"
      using assms Suc.prems q snoc by (simp_all add: abs_path_inj)
    have up: "dir (abs_path ps) = abs_path qs" using q snoc by (simp add: dir_abs_path)
    have hop: "dir (abs_path qs) = abs_path hs \<longleftrightarrow> (\<exists>y. qs = hs @ [y])"
      using assms q(1) by (cases qs rule: rev_cases) (auto simp: dir_root dir_abs_path abs_path_inj)
    have more: "(\<exists>s r. ps = hs @ s # r \<and> 1 \<le> length r \<and> length r \<le> Suc n) \<longleftrightarrow>
        (\<exists>y. qs = hs @ [y]) \<or> (\<exists>s r. qs = hs @ s # r \<and> 1 \<le> length r \<and> length r \<le> n)" (is "?L \<longleftrightarrow> ?R")
    proof
      assume ?L
      then obtain s r where r: "ps = hs @ s # r" "1 \<le> length r" "length r \<le> Suc n" by blast
      then obtain r' z where z: "r = r' @ [z]" by (cases r rule: rev_cases) auto
      with r snoc have "qs = hs @ s # r'" by simp
      with r z show ?R by (cases r') auto
    next
      assume ?R
      then consider y where "qs = hs @ [y]"
        | s r where "qs = hs @ s # r" "1 \<le> length r" "length r \<le> n" by blast
      then show ?L
      proof cases
        case (1 y)
        with snoc show ?thesis by (intro exI [of _ y] exI [of _ "[x]"]) simp
      next
        case (2 s r)
        with snoc show ?thesis by (intro exI [of _ s] exI [of _ "r @ [x]"]) simp
      qed
    qed
    show ?thesis
    proof (cases "\<exists>y. qs = hs @ [y]")
      case True
      with more here up hop snoc show ?thesis by (auto simp: Let_def)
    next
      case False
      moreover have "take (Suc (length hs)) ps = take (Suc (length hs)) qs" if "qs = hs @ s # r" for s r
        using that snoc by simp
      moreover have "ps \<noteq> hs" if "qs = hs @ s # r" for s r using that snoc by simp
      ultimately show ?thesis using more here up hop IH by (auto simp: Let_def)
    qed
  qed
qed simp

text \<open>\<open>repoDirOf\<close> finds the repository of an event: for a path with one to six components below a directory
  directly in the hub it returns that directory, and for every other path (the hub, a repository directory itself, a path
  outside the hub, or one nested deeper) the empty string.\<close>

theorem repo_dir_of_correct:
  assumes "list_all norm_seg hs" "hs \<noteq> []" "list_all norm_seg ps"
  shows "repo_dir_of (abs_path hs) (abs_path ps) =
    (if \<exists>s r. ps = hs @ s # r \<and> 1 \<le> length r \<and> length r \<le> 6 then abs_path (take (Suc (length hs)) ps) else [])"
  using repo_dir_loop_spec [OF assms] by (simp add: repo_dir_of_def)

theorem repo_dir_of_correct_witness:
  "repo_dir_of (abs_path [''hub'']) (abs_path [''hub'', ''models--m'', ''refs'', ''main'']) = abs_path [''hub'', ''models--m'']
   \<and> repo_dir_of (abs_path [''hub'']) (abs_path [''hub'', ''models--m'']) = []"
  using repo_dir_of_correct [of "[''hub'']" "[''hub'', ''models--m'', ''refs'', ''main'']"]
    repo_dir_of_correct [of "[''hub'']" "[''hub'', ''models--m'']"]
  by (simp add: norm_seg_def)

section \<open>Reachable states\<close>

lemma due_repos_of:
  assumes "distinct (map fst ps)"
  shows "r \<in> set (due_repos now ps) \<longleftrightarrow> (\<exists>at. map_of ps r = Some at \<and> DebounceWindow \<le> now - at)"
  using assms by (force simp: due_repos_def)

text \<open>C34: in every state the watcher can reach, a repository is pending at most once, under an id derived from a
  recognised directory name and with a time that is not in the future; no directory is registered twice, and the kernel
  watches nothing but the hub and registered directories. A debounce tick takes out of the pending map exactly
  the repositories that have been quiet for the debounce window.\<close>

theorem watch_reachable:
  assumes "watch_run n E (t, w)"
  shows "distinct (map fst (ww_pending w)) \<and> distinct (ww_known w)
    \<and> set (ww_watched w) \<subseteq> insert (v_hub E) (set (ww_known w))
    \<and> (\<forall>r at. map_of (ww_pending w) r = Some at \<longrightarrow> at \<le> t \<and> (\<exists>name ty. repo_from_dir_name name = Some (r, ty)))
    \<and> (\<forall>live t1 w1 r. flush n E live t1 w = Some w1 \<longrightarrow>
         map_of (ww_pending w1) r = (case map_of (ww_pending w) r of
           None \<Rightarrow> None | Some at \<Rightarrow> if DebounceWindow \<le> t1 - at then None else Some at))"
proof -
  have inv: "pending_ok t (ww_pending w)" "watches_ok (v_hub E) (ww_known w, ww_watched w)"
    using watch_run_inv [OF assms] by (simp_all add: watch_inv_def)
  then have d: "distinct (map fst (ww_pending w))" by (simp add: pending_ok_def)
  have "map_of (ww_pending w1) r = (case map_of (ww_pending w) r of
      None \<Rightarrow> None | Some at \<Rightarrow> if DebounceWindow \<le> t1 - at then None else Some at)"
    if "flush n E live t1 w = Some w1" for live t1 w1 r
    using flush_frame [OF that] by (simp add: map_of_filter_key due_repos_of [OF d] split: option.split)
  with inv show ?thesis
    by (auto simp: pending_ok_def watches_ok_def list_all_iff dest!: map_of_SomeD)
qed

text \<open>A watcher on a hub directory that does not exist yet.\<close>

definition idle_env :: "(memdb, dnode, (string \<times> dnode) list, cid list) wenv" where
  "idle_env = \<lparr>v_cfg = (projr (default_config (Inr ''/home/u'') (\<lambda>_. [])))\<lparr>cf_hub_dir := ''/hub''\<rparr>,
     v_ingest = tree_lib, v_maps = node_maps, v_net = list_net, v_boxo = node_boxo, v_order = id,
     v_mainbs = node_blocks BucketBlocks, v_stores = bolt_ds mem_bolt (\<lambda>_ es. es), v_fsadd = (\<lambda>_ _. Inr ()),
     v_now = ''2024-02-29T10:11:12Z''\<rparr>"

definition idle_world :: "(memdb, cid list) wworld" where
  "idle_world = \<lparr>ww_db = empty_db, ww_os = bare_os, ww_net = [], ww_pending = [], ww_known = [], ww_watched = []\<rparr>"

definition ref_event :: fsevent where
  "ref_event = \<lparr>fe_name = ''/hub/models--org--m/refs/main'', fe_create = True\<rparr>"

lemma idle_os:
  "fst (os_mkdir_all bare_os ''/hub'') = Inr ()"
  "fst (os_readdir (snd (os_mkdir_all bare_os ''/hub'')) ''/hub'') = Inr []"
  "fst (list_repos ''/hub'' (snd (os_readdir (snd (os_mkdir_all bare_os ''/hub'')) ''/hub''))) = Inr []"
  by code_simp+

lemma idle_fields:
  "v_hub idle_env = ''/hub''" "v_maps idle_env = node_maps" "v_fsadd idle_env ws d = Inr ()"
  "ww_db idle_world = empty_db" "ww_os idle_world = bare_os"
  by (simp_all add: idle_env_def idle_world_def)

lemma empty_db_list: "map_list node_maps empty_db = Inr []"
proof -
  have "\<exists>rs. dquery (mds node_maps) empty_db empty_query = Inr rs"
    by (simp add: empty_db_def bolt_ds_def ds_query_def db_view_def mem_bolt_def)
  then show ?thesis using node_db.map_run_list [OF empty_db_run] by fastforce
qed

lemma idle_run: "\<exists>w. run_init 0 idle_env (\<lambda>_. True) idle_world = Some (Inr (), w) \<and> ww_pending w = []"
proof -
  obtain os1 where m: "os_mkdir_all bare_os ''/hub'' = (Inr (), os1)" using idle_os(1) by (metis prod.collapse)
  then obtain os2 where r: "os_readdir os1 ''/hub'' = (Inr [], os2)" using idle_os(2) by (metis prod.collapse snd_conv)
  then obtain os3 where l: "list_repos ''/hub'' os2 = (Inr [], os3)" using idle_os(3) m by (metis prod.collapse snd_conv)
  show ?thesis
    by (simp add: run_init_def idle_fields m track_existing_repos_def r scan_def l prune_orphans_def empty_db_list)
       (simp add: idle_world_def)
qed

lemma idle_event:
  assumes "ww_pending w = []"
  shows "ww_pending (handle_event idle_env 7 ref_event w) = [(''org/m'', 7)]"
proof -
  have "repo_dir_of ''/hub'' (fe_name ref_event) = ''/hub/models--org--m''"
    "repo_from_dir_name (base ''/hub/models--org--m'') = Some (''org/m'', Model)" by code_simp+
  moreover have "ww_pending (add_repo_watches idle_env ''/hub/models--org--m'' (watch_created idle_env ref_event w)) = []"
    unfolding grow_pending [OF add_repo_watches_grow] grow_pending [OF watch_created_grow] by (rule assms)
  ultimately show ?thesis by (simp add: handle_event_def Let_def idle_fields)
qed

theorem watch_reachable_witness:
  "\<exists>w. watch_run 0 idle_env (7, handle_event idle_env 7 ref_event w)
     \<and> map_of (ww_pending (handle_event idle_env 7 ref_event w)) ''org/m'' = Some 7
     \<and> (\<exists>name ty. repo_from_dir_name name = Some (''org/m'', ty))"
proof -
  obtain w where w: "run_init 0 idle_env (\<lambda>_. True) idle_world = Some (Inr (), w)" "ww_pending w = []"
    using idle_run by blast
  have "wframe idle_world = ([], [], [])" by (simp add: wframe_def idle_world_def)
  then have "watch_run 0 idle_env (7, w)" using w(1) by (rule watch_run.start)
  then have run: "watch_run 0 idle_env (7, handle_event idle_env 7 ref_event w)"
    by (rule watch_run.step) (simp add: watch_step.event)
  have "map_of (ww_pending (handle_event idle_env 7 ref_event w)) ''org/m'' = Some 7" by (simp add: idle_event [OF w(2)])
  with watch_reachable [OF run] run show ?thesis by blast
qed

section \<open>No lying provider\<close>

lemma hex_plain: "is_hex c \<Longrightarrow> c \<noteq> [] \<Longrightarrow> plain_key c"
  by (auto simp: is_hex_def plain_key_def list_all_iff from_hex_char_def)

lemma v_target_mapping [simp]: "t_mapping (v_target E) = v_maps E" "t_mainbs (v_target E) = v_mainbs E"
  by (simp_all add: v_target_def from_node_def)

lemma evict_entry_map:
  assumes "evict_target (i_cids (v_ingest E)) (v_boxo E) (v_target E)" "evict_entry n E e w = Some (r, w')"
    and "plain_key (commit_hash e)" "plain_key c"
  shows "map_get (v_maps E) (ww_db w') c =
    (if ok r \<and> c = commit_hash e then Inr None else map_get (v_maps E) (ww_db w) c) \<and> ww_net w' = ww_net w"
proof -
  from assms(2) obtain ew where
    ev: "evict_commit n (i_cids (v_ingest E)) (v_boxo E) (v_order E) (v_target E) e
           \<lparr>ev_db = ww_db w, ev_os = ww_os w, ev_log = []\<rparr> = Some (r, ew)"
    and w': "w' = w\<lparr>ww_db := ev_db ew, ww_os := ev_os ew\<rparr>"
    by (auto simp: evict_entry_def split: option.splits prod.splits)
  from evict_target.evict_commit_map(1) [OF assms(1) ev assms(3,4)] show ?thesis
    by (simp add: w' ok_iff)
qed

lemma evict_entry_total:
  assumes "evict_target (i_cids (v_ingest E)) (v_boxo E) (v_target E)"
    and "finite (present (v_mainbs E) (ww_db w))" "card (present (v_mainbs E) (ww_db w)) < n"
  shows "\<exists>r w'. evict_entry n E e w = Some (r, w')"
  using evict_target.evict_commit_total [OF assms(1), of "\<lparr>ev_db = ww_db w, ev_os = ww_os w, ev_log = []\<rparr>" n "v_order E" e]
    assms(2,3) by (auto simp: evict_entry_def)

text \<open>C33: the watcher does not keep answering for content that is gone. If \<open>refs/main\<close> of a repository names a commit whose
  snapshot is not complete, \<open>tryIngest\<close> returns, announces nothing, and the only mapping it may change is that of the
  commit: it is removed unless its eviction fails, and nothing is shared.\<close>

theorem try_ingest_unlies:
  assumes "evict_target (i_cids (v_ingest E)) (v_boxo E) (v_target E)"
    and "finite (present (v_mainbs E) (ww_db w))" "card (present (v_mainbs E) (ww_db w)) < n"
    and "map_wf (v_maps E) (ww_db w)" "map_get (v_maps E) (ww_db w) commit = Inr me"
    and "repo_type_of (v_hub E) r (ww_os w) = (ty, os0)"
    and "current_commit (new_paths (v_hub E) r ty) ''main'' os0 = (Inr commit, os1)"
    and "snapshot_complete (new_paths (v_hub E) r ty) commit os1 = (False, os2)"
  shows "\<exists>w' evicted. try_ingest n E r w = Some w' \<and> ww_net w' = ww_net w
    \<and> (\<forall>c. plain_key c \<longrightarrow> map_get (v_maps E) (ww_db w') c =
         (if c = commit \<and> evicted then Inr None else map_get (v_maps E) (ww_db w) c))
    \<and> (\<forall>e. me = Some e \<longrightarrow> (\<exists>res. evict_entry n E e (w\<lparr>ww_os := os2\<rparr>) = Some (res, w') \<and> evicted = ok res))"
proof (cases me)
  case None
  with assms(5-8) have "try_ingest n E r w = Some (w\<lparr>ww_os := os2\<rparr>)" by (simp add: try_ingest_def Let_def)
  with None show ?thesis by (intro exI [of _ "w\<lparr>ww_os := os2\<rparr>"] exI [of _ False]) simp
next
  case (Some e)
  have plain: "plain_key commit"
    using current_commit_hex [OF assms(7)] by (intro hex_plain) auto
  have mdb: "mapping_db (v_maps E)" using assms(1) by (simp add: evict_target_def)
  from mapping_db.map_get_Some_iff [OF mdb assms(4) plain, of e] assms(5) Some have ch: "commit_hash e = commit" by simp
  let ?w = "w\<lparr>ww_os := os2\<rparr>"
  obtain res w' where ev: "evict_entry n E e ?w = Some (res, w')"
    using evict_entry_total [OF assms(1), of ?w n e] assms(2,3) by auto
  have "try_ingest n E r w = Some w'"
    using assms(5-8) Some ev by (simp add: try_ingest_def Let_def)
  moreover have "map_get (v_maps E) (ww_db w') c =
      (if c = commit \<and> ok res then Inr None else map_get (v_maps E) (ww_db w) c) \<and> ww_net w' = ww_net w"
    if "plain_key c" for c
    using evict_entry_map [OF assms(1) ev _ that] ch plain by auto
  ultimately show ?thesis using ev Some plain by (intro exI [of _ w'] exI [of _ "ok res"]) auto
qed

text \<open>The cache of a repository whose snapshot was deleted, with the mapping still stored.\<close>

definition gone_os :: os where
  "gone_os = bare_os\<lparr>nodes := [([''hub''], FDir), ([''hub'', ''models--org--m''], FDir),
     ([''hub'', ''models--org--m'', ''refs''], FDir),
     ([''hub'', ''models--org--m'', ''refs'', ''main''], FFile hex_commit 420)]\<rparr>"

definition gone_world :: "(memdb, cid list) wworld" where
  "gone_world = idle_world\<lparr>ww_db := seed_db, ww_os := gone_os\<rparr>"

definition gone_paths :: paths where "gone_paths = new_paths ''/hub'' ''org/m'' Model"

lemma gone_calls:
  "fst (repo_type_of ''/hub'' ''org/m'' gone_os) = Model"
  "fst (current_commit gone_paths ''main'' (snd (repo_type_of ''/hub'' ''org/m'' gone_os))) = Inr hex_commit"
  "fst (snapshot_complete gone_paths hex_commit (snd (current_commit gone_paths ''main''
     (snd (repo_type_of ''/hub'' ''org/m'' gone_os))))) = False"
  by code_simp+

lemma seed_wf: "map_wf node_maps seed_db"
proof -
  have put: "map_put node_maps empty_db seed_entry = (Inr (), seed_db)"
    using node_map_put [of empty_db seed_entry] seed_entry_facts hex_commit_simps
    by (simp add: seed_db_def empty_db_def)
  show ?thesis
    using node_db.map_run_wf [OF map_run.put [OF empty_db_run put seed_entry_facts(1)]] hex_commit_simps
    by (simp add: seed_entry_facts)
qed

lemma gone_target: "evict_target (i_cids (v_ingest idle_env)) (v_boxo idle_env) (v_target idle_env)"
  using node_evict.evict_target_axioms
  by (simp add: v_target_def idle_env_def node_target_def tree_lib_def)

theorem try_ingest_unlies_witness:
  "\<exists>w' evicted. try_ingest (Suc (card (present (node_blocks BucketBlocks) seed_db))) idle_env ''org/m'' gone_world = Some w'
     \<and> ww_net w' = []
     \<and> map_get node_maps (ww_db w') hex_commit = (if evicted then Inr None else Inr (Some (strip_entry seed_entry)))"
proof -
  obtain os0 where t: "repo_type_of ''/hub'' ''org/m'' gone_os = (Model, os0)"
    using gone_calls(1) by (metis prod.collapse)
  obtain os1 where c: "current_commit gone_paths ''main'' os0 = (Inr hex_commit, os1)"
    using gone_calls(2) t by (metis prod.collapse snd_conv)
  obtain os2 where s: "snapshot_complete gone_paths hex_commit os1 = (False, os2)"
    using gone_calls(3) t c by (metis prod.collapse snd_conv)
  have f: "ww_db gone_world = seed_db" "ww_os gone_world = gone_os" "ww_net gone_world = []"
    "v_mainbs idle_env = node_blocks BucketBlocks"
    by (simp_all add: gone_world_def idle_world_def idle_env_def)
  from try_ingest_unlies [OF gone_target, of gone_world "Suc (card (present (node_blocks BucketBlocks) seed_db))"
      hex_commit "Some (strip_entry seed_entry)" "''org/m''" Model os0 os1 os2,
      unfolded idle_fields f gone_paths_def [symmetric], OF node_present_finite lessI seed_wf seed_get t c s]
  obtain w' evicted where "try_ingest (Suc (card (present (node_blocks BucketBlocks) seed_db))) idle_env ''org/m'' gone_world = Some w'"
      "ww_net w' = []" "\<forall>c. plain_key c \<longrightarrow> map_get node_maps (ww_db w') c =
         (if c = hex_commit \<and> evicted then Inr None else map_get node_maps seed_db c)" by blast
  then show ?thesis by (intro exI [of _ w'] exI [of _ evicted]) (simp add: hex_commit_simps seed_get)
qed

end
