(* ===== verification/PullEvents.thy ===== *)
theory PullEvents
  imports Pull
begin

text \<open>
  The events of a pull. Everything a pull does while it works is reported by events of type
  \<open>progress\<close>; a pull that succeeds ends with one event of type \<open>done\<close>, and one that fails
  reports none. The directory lookup of the DAG library may load nodes through the read-through store, and
  sends no event of its own: that is the interface \<open>quiet_dirs\<close>.
\<close>

section \<open>Loud events\<close>

definition loud :: "'s xst \<Rightarrow> pevent list" where
  "loud x = filter (\<lambda>e. pe_type e \<noteq> ''progress'') (x_events x)"

lemma loud_update [simp]:
  "loud (x\<lparr>x_db := db\<rparr>) = loud x" "loud (x\<lparr>x_os := os\<rparr>) = loud x" "loud (x\<lparr>x_conn := c\<rparr>) = loud x"
  "loud (x\<lparr>x_done := n\<rparr>) = loud x"
  by (simp_all add: loud_def)

lemma loud_emit [simp]: "loud (emit e x) = loud x @ (if pe_type e = ''progress'' then [] else [e])"
  by (simp add: loud_def emit_def)

lemma progress_type [simp]: "pe_type (progress m) = ''progress''"
  by (simp add: progress_def)

lemma fetch_x_loud: "fetch_x X cs x = (r, x') \<Longrightarrow> loud x' = loud x"
  by (auto simp: fetch_x_def split: prod.splits)

lemma rt_get_loud: "rt_get X c x = (r, x') \<Longrightarrow> loud x' = loud x"
  by (auto simp: rt_get_def split: sum.splits prod.splits option.splits if_splits dest!: fetch_x_loud)

lemma dag_get_loud: "dag_get X c x = (r, x') \<Longrightarrow> loud x' = loud x"
  by (auto simp: dag_get_def split: sum.splits prod.splits dest: rt_get_loud)

lemma collect_loud:
  "collect_leaves n X c out x = Some (r, x') \<Longrightarrow> loud x' = loud x"
  "collect_links n X ls out x = Some (r, x') \<Longrightarrow> loud x' = loud x"
proof (induction n X c out x and n X ls out x arbitrary: r x' and r x'
    rule: collect_leaves_collect_links.induct)
  case (2 n X c out x)
  then show ?case by (auto split: if_splits prod.splits sum.splits dest: dag_get_loud)
next
  case (4 n X l ls out x)
  obtain r1 x1 where a: "collect_leaves n X l out x = Some (r1, x1)"
    using "4.prems" by (cases "collect_leaves n X l out x") auto
  with 4 show ?case by (cases r1) (force split: option.splits)+
qed auto

lemma put_chunk_loud: "put_chunk X blob q c d s = (r, s') \<Longrightarrow> loud (fx_x s') = loud (fx_x s)"
  by (auto simp: put_chunk_def Let_def split: sum.splits prod.splits)

lemma put_chunks_loud: "put_chunks X blob q cds s = (r, s') \<Longrightarrow> loud (fx_x s') = loud (fx_x s)"
proof (induction X blob q cds s rule: put_chunks.induct)
  case (3 X blob q c d rest s)
  obtain r1 s1 where p: "put_chunk X blob q c d s = (r1, s1)" by fastforce
  with 3 put_chunk_loud [OF p] show ?case by (cases r1) auto
qed auto

lemma put_batches_loud: "put_batches X f blob q tot cnt leaves s = (r, s') \<Longrightarrow> loud (fx_x s') = loud (fx_x s)"
proof (induction leaves arbitrary: s rule: length_induct)
  case (1 leaves)
  show ?case
  proof (cases "leaves = []")
    case True
    with "1.prems" show ?thesis by (simp add: put_batches.simps [of X f blob q tot cnt "[]"])
  next
    case False
    let ?b = "take BatchSize leaves"
    obtain r1 x1 where fe: "fetch_x X ?b (fx_x s) = (r1, x1)" by fastforce
    note v1 = fetch_x_loud [OF fe]
    show ?thesis
    proof (cases r1)
      case (Inl e)
      with "1.prems" False fe v1 show ?thesis by (auto simp: put_batches.simps [of X f blob q tot cnt leaves])
    next
      case (Inr ds)
      obtain r2 s2 where pc: "put_chunks X blob q (zip ?b ds) (s\<lparr>fx_x := x1\<rparr>) = (r2, s2)" by fastforce
      note v2 = put_chunks_loud [OF pc]
      have "length (drop BatchSize leaves) < length leaves" using False by (simp add: BatchSize_def)
      note IH = "1.IH" [rule_format, OF this]
      from "1.prems" False fe Inr pc v1 v2 show ?thesis
        by (cases r2) (auto simp: put_batches.simps [of X f blob q tot cnt leaves] dest!: IH)
    qed
  qed
qed

lemma rollback_loud: "rollback X f tmp q e s = (r, x') \<Longrightarrow> loud x' = loud (fx_x s)"
  by (auto simp: rollback_def Let_def)

lemma finish_loud: "finish_file X f blob tmp q perm s = (r, x') \<Longrightarrow> loud x' = loud (fx_x s)"
  by (auto simp: finish_file_def Let_def split: sum.splits prod.splits if_splits dest!: rollback_loud)

lemma download_loud:
  assumes "download_file X f blob perm tot leaves x = (r, x')"
  shows "loud x' = loud x"
proof -
  obtain sfx os0 where rs: "rand_suffix (x_os x) = (sfx, os0)" by fastforce
  obtain r1 os1 where cr: "os_create os0 (blob @ ''.part-'' @ sfx) 438 = (r1, os1)" by fastforce
  show ?thesis
  proof (cases r1)
    case (Inl e)
    with assms rs cr show ?thesis by (auto simp: download_file_def Let_def)
  next
    case (Inr q)
    let ?s = "\<lparr>fx_x = x\<lparr>x_os := os1\<rparr>, fx_hashed = [], fx_written = 0, fx_registered = []\<rparr>"
    obtain r2 s2 where pb: "put_batches X f blob q tot (length leaves) leaves ?s = (r2, s2)" by fastforce
    with assms rs cr Inr put_batches_loud [OF pb] show ?thesis
      by (cases r2) (auto simp: download_file_def Let_def dest!: rollback_loud finish_loud)
  qed
qed

lemma empty_loud:
  assumes "empty_file X f blob perm tot c x = (r, x')"
  shows "loud x' = loud x"
proof -
  obtain r1 os1 where cr: "os_create (x_os x) blob perm = (r1, os1)" by fastforce
  obtain r2 os2 where cl: "os_close os1 (projr r1) = (r2, os2)" by fastforce
  obtain r3 x3 where fe: "fetch_x X [c] (x\<lparr>x_os := os2\<rparr>) = (r3, x3)" by fastforce
  from assms cr cl fe fetch_x_loud [OF fe] show ?thesis
    by (cases r1; cases r2; cases r3)
       (auto simp: empty_file_def Let_def split: sum.splits prod.splits list.splits option.splits if_splits)
qed

lemma reconstruct_file_loud:
  assumes "reconstruct_file n X p f c tot x = Some (r, x')"
  shows "loud x' = loud x"
proof -
  obtain b os1 where bc: "blob_cached (sha256 X) f (blob_path p (fm_blob f)) (x_os x) = (b, os1)" by fastforce
  obtain r2 os2 where mk: "os_mkdir_all os1 (p_blobs p) = (r2, os2)" by fastforce
  let ?x2 = "x\<lparr>x_os := os2\<rparr>"
  show ?thesis
  proof (cases "fm_sha256 f = [] \<or> b \<or> \<not> ok r2")
    case True
    with assms bc mk show ?thesis
      by (cases "fm_sha256 f = []"; cases b; cases r2) (auto simp: reconstruct_file_def Let_def)
  next
    case False
    then obtain u where r2: "r2 = Inr u" by (cases r2) auto
    from False assms bc mk r2 show ?thesis
      by (auto simp: reconstruct_file_def Let_def split: if_splits option.splits sum.splits
          dest!: empty_loud download_loud collect_loud(1))
  qed
qed

section \<open>The transfer\<close>

locale quiet_dirs =
  fixes X :: "('s, 'n) pulllib"
  assumes dir_find_quiet: "(\<And>c x. x_events (snd (get c x)) = x_events x) \<Longrightarrow>
    x_events (snd (dir_find X get nd nm x)) = x_events x"
begin

lemma dag_get_events: "x_events (snd (dag_get X c x)) = x_events x"
  by (auto simp: dag_get_def rt_get_def fetch_x_def split: sum.splits prod.splits option.splits if_splits)

lemma dir_find_loud: "dir_find X (dag_get X) nd nm x = (r, x') \<Longrightarrow> loud x' = loud x"
  using dir_find_quiet [of "dag_get X" nd nm x] dag_get_events by (simp add: loud_def)

lemma find_parts_loud: "find_parts X cur parts x = (r, x') \<Longrightarrow> loud x' = loud x"
proof (induction parts arbitrary: cur x)
  case (Cons part parts)
  then show ?case
    by (auto split: sum.splits prod.splits dest!: dag_get_loud dir_find_loud)
qed simp

lemma reconstruct_files_loud: "reconstruct_files n X p actual tot fs x = Some (r, x') \<Longrightarrow> loud x' = loud x"
proof (induction fs arbitrary: x)
  case (Cons f fs)
  obtain r1 x1 where fn: "find_node X actual (fm_path f) x = (r1, x1)" by fastforce
  have v1: "loud x1 = loud x" using fn find_parts_loud by (auto simp: find_node_def)
  show ?case
  proof (cases r1)
    case (Inl e)
    with Cons.prems fn v1 show ?thesis by simp
  next
    case (Inr c)
    obtain r2 x2 where rf: "reconstruct_file n X p f c tot x1 = Some (r2, x2)"
      using Cons.prems fn Inr by (cases "reconstruct_file n X p f c tot x1") auto
    with Cons.prems fn Inr v1 reconstruct_file_loud [OF rf] Cons.IH [of x2] show ?thesis by (cases r2) auto
  qed
qed simp

lemma reconstruct_loud:
  assumes "reconstruct n X p peer opened resp x = Some (r, x')"
  shows "loud x' = loud x"
proof (cases "\<exists>actual c. cid_decode (cids X) (mr_actual resp) = Inr actual \<and> new_block_client peer opened = Inr c")
  case True
  then obtain actual c where a: "cid_decode (cids X) (mr_actual resp) = Inr actual" "new_block_client peer opened = Inr c"
    by blast
  obtain r1 x1 where g: "dag_get X actual (x\<lparr>x_conn := c\<rparr>) = (r1, x1)" by fastforce
  with assms a dag_get_loud [OF g] show ?thesis
    by (cases r1) (auto simp: reconstruct_def dest!: reconstruct_files_loud)
next
  case False
  with assms show ?thesis by (auto simp: reconstruct_def split: sum.splits)
qed

end

interpretation node_dirs: quiet_dirs node_pull
proof
  fix get :: "cid \<Rightarrow> memdb xst \<Rightarrow> cid list res \<times> memdb xst" and nd nm x
  assume "\<And>c x. x_events (snd (get c x)) = x_events x"
  then show "x_events (snd (dir_find node_pull get nd nm x)) = x_events x"
    by (auto simp: node_pull_def split: list.splits sum.splits prod.splits) (metis snd_conv)+
qed

section \<open>The pipeline\<close>

text \<open>A step that succeeds has just sent its one \<open>done\<close> event, a step that fails has sent none.\<close>

definition ends_pull :: "unit res \<Rightarrow> ('s, 'w) pworld \<Rightarrow> ('s, 'w) pworld \<Rightarrow> bool" where
  "ends_pull r pw pw' =
     (if ok r then \<exists>m pw0. pw' = say (done_event m) pw0 \<and> loud (pw_x pw0) = loud (pw_x pw)
      else loud (pw_x pw') = loud (pw_x pw))"

lemma say_loud [simp]: "loud (pw_x (say (progress m) pw)) = loud (pw_x pw)"
  by (simp add: say_def)

lemma ends_pull_step: "ends_pull r pw1 pw' \<Longrightarrow> loud (pw_x pw1) = loud (pw_x pw) \<Longrightarrow> ends_pull r pw pw'"
  by (cases "ok r") (auto simp: ends_pull_def)

lemma ends_pull_fail: "loud (pw_x pw') = loud (pw_x pw) \<Longrightarrow> ends_pull (Inl e) pw pw'"
  by (simp add: ends_pull_def)

lemma ends_pull_done: "loud (pw_x pw1) = loud (pw_x pw) \<Longrightarrow> ends_pull (Inr ()) pw (say (done_event m) pw1)"
  by (auto simp: ends_pull_def)

lemmas ends_pull_intros = ends_pull_fail ends_pull_done

lemma dial_given_loud: "dial_given N as ps pw = (qs, pw') \<Longrightarrow> loud (pw_x pw') = loud (pw_x pw)"
  by (induction as arbitrary: ps pw) (auto split: sum.splits prod.splits)

lemma dial_dht_loud [simp]: "loud (pw_x (dial_dht N as pw)) = loud (pw_x pw)"
  by (induction as arbitrary: pw) (auto split: sum.splits prod.splits)

lemma record_pull_ends:
  assumes "record_pull E p commit ref0 opts actual resp pw = (r, pw')"
  shows "ends_pull r pw pw'"
proof -
  obtain r1 db1 where mp: "map_put (e_maps E) (x_db (pw_x pw)) (pull_entry E commit opts resp) = (r1, db1)" by fastforce
  obtain r2 w1 where pc: "provide_commit (cids (e_pull E)) (e_net E) commit actual (pw_net pw) = (r2, w1)" by fastforce
  obtain r3 os1 where ws: "write_snapshot p commit (mr_files resp) ref0 (x_os (pw_x pw)) = (r3, os1)" by fastforce
  have os: "x_os (pw_x (say e pw)) = x_os (pw_x pw)" for e and pw :: "('a, 'c) pworld"
    by (simp add: say_def emit_def)
  from assms mp pc ws show ?thesis
    by (cases r1; cases r2; cases r3) (auto simp: record_pull_def Let_def os intro!: ends_pull_intros)
qed

lemma try_providers_ends:
  assumes "quiet_dirs (e_pull E)"
  shows "try_providers n E p commit ref0 opts qs last0 pw = Some (r, pw') \<Longrightarrow> ends_pull r pw pw'"
proof (induction qs arbitrary: last0 pw)
  case Nil
  then show ?case by (auto intro: ends_pull_fail)
next
  case (Cons q qs)
  obtain r1 w1 where mx: "map_exchange (cids (e_pull E)) (e_net E) q (po_repo opts) commit (pw_net pw) = (r1, w1)"
    by fastforce
  show ?case
  proof (cases r1)
    case (Inl e)
    with Cons.prems mx have "try_providers n E p commit ref0 opts qs (Some e)
        (say (progress (SprintfErr ''step C: %s unusable: %v'' [AStr (short_peer (ai_id q))] e)) (pw\<lparr>pw_net := w1\<rparr>)) = Some (r, pw')"
      by simp
    from Cons.IH [OF this] show ?thesis by (rule ends_pull_step) simp
  next
    case (Inr ar)
    then obtain actual resp where ar: "r1 = Inr (actual, resp)" by (cases ar) auto
    let ?pw1 = "say (progress (Sprintf ''step C: %s -> %s (%d files, %s)''
                       [AStr (short_peer (ai_id q)), AStr (cid_string (cids (e_pull E)) actual),
                        AInt (int (length (mr_files resp))), human_bytes (mr_total resp)])) (pw\<lparr>pw_net := w1\<rparr>)"
    obtain opened w2 where st: "open_stream (e_net E) (ai_id q) ProtocolBlockID (pw_net ?pw1) = (opened, w2)" by fastforce
    obtain r2 x2 where rc: "reconstruct n (e_pull E) p (ai_id q) opened resp ((pw_x ?pw1)\<lparr>x_done := 0\<rparr>) = Some (r2, x2)"
      using Cons.prems mx ar st
      by (cases "reconstruct n (e_pull E) p (ai_id q) opened resp ((pw_x ?pw1)\<lparr>x_done := 0\<rparr>)") (auto simp: Let_def)
    have l2: "loud x2 = loud (pw_x pw)" using quiet_dirs.reconstruct_loud [OF assms rc] by simp
    show ?thesis
    proof (cases r2)
      case err: (Inl e)
      with Cons.prems mx ar st rc have "try_providers n E p commit ref0 opts qs (Some e)
          (say (progress (SprintfErr ''step D: %s failed: %v'' [AStr (short_peer (ai_id q))] e)) (?pw1\<lparr>pw_x := x2, pw_net := w2\<rparr>))
          = Some (r, pw')" by (simp add: Let_def)
      from Cons.IH [OF this] show ?thesis by (rule ends_pull_step) (simp add: l2)
    next
      case fine: (Inr u)
      with Cons.prems mx ar st rc have
        "record_pull E p commit ref0 opts actual resp (?pw1\<lparr>pw_x := x2, pw_net := w2\<rparr>) = (r, pw')" by (simp add: Let_def)
      from record_pull_ends [OF this] show ?thesis by (rule ends_pull_step) (simp add: l2)
    qed
  qed
qed

lemma pull_from_peers_ends:
  assumes "quiet_dirs (e_pull E)" "pull_from_peers n E p commit ref0 opts pw = Some (r, pw')"
  shows "ends_pull r pw pw'"
proof -
  obtain given pw1 where d: "dial_given (e_net E) (po_peers opts) [] pw = (given, pw1)" by fastforce
  let ?pw2 = "dial_dht (e_net E) (po_connect opts) pw1"
  obtain sz w3 where wt: "wait_for_routing_table (e_net E) (e_ticks E) (e_canceled E) (pw_net ?pw2) = (sz, w3)" by fastforce
  from assms(2) d wt consider (none) "\<not> ok r" "loud (pw_x pw') = loud (pw_x ?pw2)"
    | (some) qs pw6 where "try_providers n E p commit ref0 opts qs None pw6 = Some (r, pw')" "loud (pw_x pw6) = loud (pw_x ?pw2)"
    by (fastforce simp: pull_from_peers_def Let_def split: prod.splits if_splits sum.splits)
  then show ?thesis
  proof cases
    case none
    with dial_given_loud [OF d] show ?thesis by (simp add: ends_pull_def)
  next
    case some
    from try_providers_ends [OF assms(1) some(1)] some(2) dial_given_loud [OF d] show ?thesis by (auto intro: ends_pull_step)
  qed
qed

lemma fetch_blob_loud:
  assumes "fetch_blob H srv c p r t commit f tot x = (res, f1, x', sent)"
  shows "loud x' = loud x"
proof -
  obtain st os1 where s: "os_stat (x_os x) (blob_path p (fm_blob f)) = (st, os1)" by fastforce
  obtain sfx os2 where rs: "rand_suffix os1 = (sfx, os2)" by fastforce
  obtain r3 os3 where cr: "os_create os2 (blob_path p (fm_blob f) @ ''.'' @ sfx @ ''.download'') 420 = (r3, os3)" by fastforce
  from assms s rs cr show ?thesis
    by (cases r3) (auto simp: fetch_blob_def Let_def split: if_splits prod.splits sum.splits)
qed

lemma fetch_blobs_loud: "fetch_blobs k H net c p r t commit tot fs x = (res, x', sent) \<Longrightarrow> loud x' = loud x"
  by (induction fs arbitrary: k x res sent) (force dest: fetch_blob_loud split: prod.splits sum.splits)+

lemma loud_append_progress: "loud (x\<lparr>x_events := x_events x @ map progress ms\<rparr>) = loud x"
  by (simp add: loud_def)

lemma hf_ingest_ends:
  assumes "hf_ingest n E p commit opts pw = Some (r, pw')"
  shows "ends_pull r pw pw'"
proof -
  from assms obtain r1 iw where ig: "ingest_run n (e_ingest E) (e_maps E) (cf_chunk_size (e_cfg E)) (cf_hub_dir (e_cfg E))
      (po_repo opts) (po_type opts) commit (e_now E) \<lparr>iw_db = x_db (pw_x pw), iw_os = x_os (pw_x pw), iw_log = []\<rparr> = Some (r1, iw)"
    by (auto simp: hf_ingest_def split: option.splits)
  have "loud ((pw_x pw)\<lparr>x_db := iw_db iw, x_os := iw_os iw, x_events := x_events (pw_x pw) @ map progress (iw_log iw)\<rparr>)
      = loud (pw_x pw)"
    by (simp add: loud_def)
  with assms ig show ?thesis by (cases r1) (auto simp: hf_ingest_def Let_def intro!: ends_pull_intros)
qed

lemma hf_download_ends:
  assumes "hf_download n E p commit ref0 opts c siblings pw = Some (r, pw')"
  shows "ends_pull r pw pw'"
proof -
  obtain answer rqs where t: "tree_at (h_url_ok (e_hub E)) (next_answer E pw) c (po_repo opts) (po_type opts) commit
      = (answer, rqs)" by fastforce
  let ?xet = "case answer of Inl _ \<Rightarrow> [] | Inr tree \<Rightarrow> xet_by_path tree"
  show ?thesis
  proof (cases "manifest_from_revision siblings ?xet")
    case (Inl e)
    with assms show ?thesis by (auto simp: hf_download_def Let_def t intro: ends_pull_fail)
  next
    case (Inr ft)
    then obtain fs tot where m: "manifest_from_revision siblings ?xet = Inr (fs, tot)" by (cases ft) auto
    let ?pw1 = "say (progress (Sprintf ''hf: %d file(s), %s'' [AInt (int (length fs)), human_bytes tot])) (log_sent rqs pw)"
    obtain r2 x2 rqs2 where fb: "fetch_blobs (length (pw_sent ?pw1)) (e_hub E) (e_answers E) c p (po_repo opts) (po_type opts)
        commit tot fs ((pw_x ?pw1)\<lparr>x_done := 0\<rparr>) = (r2, x2, rqs2)" by (metis prod_cases3)
    have l2: "loud x2 = loud (pw_x pw)" using fetch_blobs_loud [OF fb] by simp
    show ?thesis
    proof (cases r2)
      case err: (Inl e)
      with assms m fb l2 show ?thesis by (auto simp: hf_download_def Let_def t intro: ends_pull_fail)
    next
      case fine: (Inr fs1)
      obtain r3 os3 where ws: "write_snapshot p commit fs1 ref0 (x_os x2) = (r3, os3)" by fastforce
      with assms m fb fine l2 show ?thesis
        by (cases r3) (auto simp: hf_download_def Let_def t intro: ends_pull_fail ends_pull_step [OF hf_ingest_ends])
    qed
  qed
qed

lemma pull_from_hf_ends:
  assumes "pull_from_hf n E p commit ref0 opts pw = Some (r, pw')"
  shows "ends_pull r pw pw'"
proof -
  let ?pw1 = "say (progress (Sprintf ''hf: fetching %s @ %s from %s''
      [AStr (po_repo opts), AStr (short12 commit), AStr (cf_endpoint (e_cfg E))])) pw"
  obtain r1 os1 where mk: "os_mkdir_all (x_os (pw_x ?pw1)) (p_blobs p) = (r1, os1)" by fastforce
  with assms show ?thesis
    by (cases r1)
       (auto simp: pull_from_hf_def Let_def split: sum.splits if_splits
         intro: ends_pull_fail ends_pull_step [OF hf_download_ends])
qed

lemma pull_sources_ends:
  assumes "quiet_dirs (e_pull E)" "pull_sources n E p commit ref0 opts pw = Some (r, pw')"
  shows "ends_pull r pw pw'"
proof -
  let ?src = "sources_resolve (po_sources opts)"
  have one: "P2P ?src \<or> HF ?src" by (auto simp: sources_resolve_def default_sources_def)
  show ?thesis
  proof (cases "P2P ?src")
    case True
    then obtain r1 pw1 where pp: "pull_from_peers n E p commit ref0 opts pw = Some (r1, pw1)"
      using assms(2) by (cases "pull_from_peers n E p commit ref0 opts pw") (auto simp: pull_sources_def)
    note e1 = pull_from_peers_ends [OF assms(1) pp]
    show ?thesis
    proof (cases r1)
      case (Inl e)
      with e1 have l: "loud (pw_x pw1) = loud (pw_x pw)" by (simp add: ends_pull_def)
      from assms(2) True pp Inl l show ?thesis
        by (auto simp: pull_sources_def Let_def split: if_splits
            intro: ends_pull_fail ends_pull_step [OF pull_from_hf_ends])
    next
      case (Inr u)
      with assms(2) True pp e1 show ?thesis by (simp add: pull_sources_def)
    qed
  next
    case False
    with assms(2) one have "pull_from_hf n E p commit ref0 opts pw = Some (r, pw')" by (simp add: pull_sources_def)
    then show ?thesis by (rule pull_from_hf_ends)
  qed
qed

lemma pull_step_a_loud: "pull_step_a E opts pw = (r, pw') \<Longrightarrow> loud (pw_x pw') = loud (pw_x pw)"
  by (auto simp: pull_step_a_def Let_def split: if_splits prod.splits sum.splits)

lemma pull_run_ends:
  assumes "quiet_dirs (e_pull E)" "pull_run n E opts pw = Some (r, pw')"
  shows "ends_pull r pw pw'"
proof (cases "trim_space (po_repo opts) = []")
  case True
  with assms(2) show ?thesis by (auto simp: pull_run_def intro: ends_pull_fail)
next
  case False
  obtain r1 pw1 where a: "pull_step_a E opts pw = (r1, pw1)" by fastforce
  note l1 = pull_step_a_loud [OF a]
  show ?thesis
  proof (cases r1)
    case (Inl e)
    with assms(2) False a l1 show ?thesis by (auto simp: pull_run_def Let_def intro: ends_pull_fail)
  next
    case (Inr commit)
    let ?ref = "if po_ref opts = [] then ''main'' else po_ref opts"
    let ?p = "new_paths (cf_hub_dir (e_cfg E)) (po_repo opts) (po_type opts)"
    let ?pw2 = "say (progress (Sprintf ''step A: %s @ %s'' [AStr (po_repo opts), AStr commit])) pw1"
    let ?found = "if po_force opts then None
      else case map_get (e_maps E) (x_db (pw_x ?pw2)) commit of Inr (Some e) \<Rightarrow> Some e | _ \<Rightarrow> None"
    show ?thesis
    proof (cases "from_commit (cids (e_pull E)) commit")
      case err: (Inl e)
      with assms(2) False a l1 Inr show ?thesis by (auto simp: pull_run_def Let_def intro: ends_pull_fail)
    next
      case fine: (Inr dc)
      show ?thesis
      proof (cases ?found)
        case None
        with assms(2) False a Inr fine have "pull_sources n E ?p commit ?ref opts ?pw2 = Some (r, pw')"
          by (simp add: pull_run_def Let_def)
        from pull_sources_ends [OF assms(1) this] show ?thesis by (rule ends_pull_step) (simp add: l1)
      next
        case (Some e)
        obtain b os3 where sc: "snapshot_complete ?p commit (x_os (pw_x ?pw2)) = (b, os3)" by fastforce
        obtain r4 os4 where ws: "write_snapshot ?p commit (files e) ?ref os3 = (r4, os4)" by fastforce
        from assms(2) False a Inr fine Some sc ws l1 show ?thesis
          by (cases b; cases r4) (auto simp: pull_run_def Let_def intro!: ends_pull_intros)
      qed
    qed
  qed
qed

lemma pull_run_ended:
  assumes "quiet_dirs (e_pull E)" "pull_run n E opts pw = Some (r, pw')" "x_events (pw_x pw) = []"
  shows "\<exists>evs last. list_all (\<lambda>e. pe_type e = ''progress'') evs
    \<and> x_events (pw_x pw') = evs @ (if ok r then [last] else []) \<and> pe_type last = ''done''"
proof -
  have none: "loud (pw_x pw) = []" using assms(3) by (simp add: loud_def)
  have quiet: "list_all (\<lambda>e. pe_type e = ''progress'') (x_events x)" if "loud x = []" for x :: "'a xst"
    using that by (auto simp: loud_def filter_empty_conv list_all_iff)
  note e = pull_run_ends [OF assms(1,2)]
  show ?thesis
  proof (cases "ok r")
    case True
    with e none obtain m pw0 where m: "pw' = say (done_event m) pw0" "loud (pw_x pw0) = []" by (auto simp: ends_pull_def)
    then have "x_events (pw_x pw') = x_events (pw_x pw0) @ [done_event m]" by (simp add: say_def emit_def)
    with True quiet [OF m(2)] show ?thesis
      by (intro exI [of _ "x_events (pw_x pw0)"] exI [of _ "done_event m"]) (simp add: done_event_def)
  next
    case False
    with e none have "loud (pw_x pw') = []" by (simp add: ends_pull_def)
    with False quiet show ?thesis
      by (intro exI [of _ "x_events (pw_x pw')"] exI [of _ "done_event (Lit [])"]) (simp add: done_event_def)
  qed
qed

text \<open>A pull reports its outcome exactly once: every event of a pull is of type \<open>progress\<close>, except that a
  pull that succeeds ends with one event of type \<open>done\<close>.\<close>

theorem pull_run_reports:
  assumes "quiet_dirs (e_pull E)" "pull_run n E opts pw = Some (r, pw')" "x_events (pw_x pw) = []"
  shows "\<exists>evs last. list_all (\<lambda>e. pe_type e = ''progress'') evs
    \<and> x_events (pw_x pw') = evs @ (if ok r then [last] else []) \<and> pe_type last = ''done''"
  by (rule pull_run_ended [OF assms])

theorem pull_run_reports_witness:
  "\<exists>e pw'. pull_run 0 lone_env (lone_opts\<lparr>po_repo := ''  ''\<rparr>) lone_world = Some (Inl e, pw')
     \<and> list_all (\<lambda>e. pe_type e = ''progress'') (x_events (pw_x pw'))"
proof -
  have run: "pull_run 0 lone_env (lone_opts\<lparr>po_repo := ''  ''\<rparr>) lone_world
      = Some (Inl (Errorf ''pull requires a repo id'' []), lone_world)"
  proof -
    have "trim_space ''  '' = []" by code_simp
    then show ?thesis by (simp add: pull_run_def)
  qed
  have "quiet_dirs (e_pull lone_env)" using node_dirs.quiet_dirs_axioms by (simp add: lone_env_def)
  from pull_run_reports [OF this run] run show ?thesis by (auto simp: lone_world_def)
qed

end
