(* ===== verification/Controls.thy ===== *)
theory Controls
  imports PullEvents
begin

unbundle bit_operations_syntax

text \<open>
  \<open>internal/controls/controls.go\<close>: the daemon's control socket, the client's \<open>Call\<close> and the server's
  \<open>handle\<close>. The daemon's node is the record \<open>cenv\<close>; its state is the database, the cache, the network and whether the
  \<open>Shutdown\<close> channel is closed. The handler of a command returns the events it sends, in order; they
  are written to the connection one frame each. The text of a formatted message is the argument \<open>c_text\<close>. A failed write
  cancels the context of the operation, which then stops at a point that depends on the
  libraries: the theorems about whole sessions are about connections that take what is written.
\<close>

section \<open>State\<close>

record ('s, 'n, 'm, 'd, 'w) cenv =
  c_node :: "('s, 'n, 'm, 'd, 'w) penv"
  c_boxo :: "'s boxo"
  c_order :: "cid list \<Rightarrow> cid list"
  c_mainbs :: "'s blockops"
  c_stores :: "bytes \<Rightarrow> 's dsops"
  c_host_addrs :: "'w \<Rightarrow> maddr list"
  c_reach :: "'w \<Rightarrow> reachability"
  c_text :: "msg \<Rightarrow> string"

record ('s, 'w) cworld =
  cw_db :: 's
  cw_os :: os
  cw_net :: 'w
  cw_shutdown :: bool

abbreviation c_hub :: "('s, 'n, 'm, 'd, 'w) cenv \<Rightarrow> string" where
  "c_hub D \<equiv> cf_hub_dir (e_cfg (c_node D))"

definition error_event :: "msg \<Rightarrow> pevent" where
  "error_event m = \<lparr>pe_type = ''error'', pe_msg = m, pe_bytes = 0, pe_total = 0\<rparr>"

definition error_of :: "goerr \<Rightarrow> pevent" where
  "error_of e = error_event (SprintfErr ''%v'' [] e)"

definition c_target :: "('s, 'n, 'm, 'd, 'w) cenv \<Rightarrow> 's target" where
  "c_target D = from_node (e_maps (c_node D)) (c_mainbs D) (c_stores D) (c_hub D)"

section \<open>Commands\<close>

definition do_pull ::
  "nat \<Rightarrow> ('s, 'n, 'm, 'd, 'w) cenv \<Rightarrow> control_request \<Rightarrow> ('s, 'w) cworld \<Rightarrow> (pevent list \<times> ('s, 'w) cworld) option" where
  "do_pull n D req w =
     (case parse_repo_type (cr_type req) of
        Inl e \<Rightarrow> Some ([error_of e], w)
      | Inr t \<Rightarrow>
          (case parse_sources (cr_from req) of
             Inl e \<Rightarrow> Some ([error_event (SprintfErr ''pull: %v'' [] e)], w)
           | Inr src \<Rightarrow>
               (case pull_run n (c_node D)
                       \<lparr>po_repo = cr_repo req, po_type = t, po_commit = cr_commit req, po_ref = cr_ref req,
                        po_peers = cr_peers req, po_connect = cr_connect req, po_force = cr_force req,
                        po_sources = src, po_token = cr_token req\<rparr>
                       \<lparr>pw_x = \<lparr>x_db = cw_db w, x_os = cw_os w, x_conn = fresh_conn [], x_done = 0, x_events = []\<rparr>,
                        pw_net = cw_net w, pw_sent = []\<rparr> of
                  None \<Rightarrow> None
                | Some (r, pw) \<Rightarrow>
                    Some (x_events (pw_x pw) @ (case r of Inl e \<Rightarrow> [error_of e] | Inr _ \<Rightarrow> []),
                          w\<lparr>cw_db := x_db (pw_x pw), cw_os := x_os (pw_x pw), cw_net := pw_net pw\<rparr>))))"

text \<open>The commit of an ingest request: the given one, or the one the ref names.\<close>

definition ingest_commit ::
  "('s, 'n, 'm, 'd, 'w) cenv \<Rightarrow> control_request \<Rightarrow> repotype \<Rightarrow> os \<Rightarrow> string res \<times> os" where
  "ingest_commit D req t os =
     (if cr_commit req \<noteq> [] then (Inr (cr_commit req), os)
      else current_commit (new_paths (c_hub D) (cr_repo req) t) (cr_ref req) os)"

definition do_ingest ::
  "nat \<Rightarrow> ('s, 'n, 'm, 'd, 'w) cenv \<Rightarrow> control_request \<Rightarrow> ('s, 'w) cworld \<Rightarrow> (pevent list \<times> ('s, 'w) cworld) option" where
  "do_ingest n D req w =
     (case parse_repo_type (cr_type req) of
        Inl e \<Rightarrow> Some ([error_of e], w)
      | Inr t \<Rightarrow>
          (case ingest_commit D req t (cw_os w) of
             (Inl e, os1) \<Rightarrow> Some ([error_of e], w\<lparr>cw_os := os1\<rparr>)
           | (Inr commit, os1) \<Rightarrow>
               (case ingest_run n (e_ingest (c_node D)) (e_maps (c_node D)) (cf_chunk_size (e_cfg (c_node D))) (c_hub D)
                       (cr_repo req) t commit (e_now (c_node D)) \<lparr>iw_db = cw_db w, iw_os = os1, iw_log = []\<rparr> of
                  None \<Rightarrow> None
                | Some (Inl e, iw) \<Rightarrow>
                    Some (map progress (iw_log iw) @ [error_of e], w\<lparr>cw_db := iw_db iw, cw_os := iw_os iw\<rparr>)
                | Some (Inr res, iw) \<Rightarrow>
                    Some (map progress (iw_log iw) @
                            [done_event (Sprintf ''shared %s@%s: %s (%s)''
                               [AStr (ir_repo res), AStr (short12 (ir_commit res)),
                                AStr (cid_string (i_cids (e_ingest (c_node D))) (ir_actual res)), human_bytes (ir_total res)])],
                          w\<lparr>cw_db := iw_db iw, cw_os := iw_os iw,
                            cw_net := snd (provide_commit (i_cids (e_ingest (c_node D))) (e_net (c_node D)) commit
                                             (ir_actual res) (cw_net w))\<rparr>))))"

definition nl :: string where "nl = [CHR 0x0A]"

definition node_addrs :: "('s, 'n, 'm, 'd, 'w) cenv \<Rightarrow> 'w \<Rightarrow> string list" where
  "node_addrs D net = map (\<lambda>a. a @ ''/p2p/'' @ e_self (c_node D)) (c_host_addrs D net)"

definition status_line :: "('s, 'n, 'm, 'd, 'w) cenv \<Rightarrow> 'w \<Rightarrow> msg \<times> 'w" where
  "status_line D net =
     (case rt_size (e_net (c_node D)) net of
        (rt, net1) \<Rightarrow>
          (Sprintf (''peer : %s'' @ nl @ ''addrs:'' @ nl @ ''  %s'' @ nl @ ''dht  : routing table %d peer(s)%s'' @ nl @ ''reach: %s'')
             [AStr (e_self (c_node D)), AStr (join_with (nl @ ''  '') (node_addrs D net1)), AInt (int rt),
              AStr (if rt = 0
                    then nl @ ''         (not joined the DHT swarm: providers cannot be announced or resolved)''
                    else []),
              AStr (reachability_line (c_reach D net1) (e_cfg (c_node D)))],
           net1))"

definition list_line :: "entry \<Rightarrow> pevent" where
  "list_line e = progress (Sprintf ''%s@%s -> %s (%s, %d files)''
     [AStr (repo_id e), AStr (short12 (commit_hash e)), AStr (actual_cid e), human_bytes (total_size e),
      AInt (int (length (files e)))])"

definition do_list :: "('s, 'n, 'm, 'd, 'w) cenv \<Rightarrow> ('s, 'w) cworld \<Rightarrow> pevent list" where
  "do_list D w =
     (case map_list (e_maps (c_node D)) (cw_db w) of
        Inl e \<Rightarrow> [error_of e]
      | Inr es \<Rightarrow> map list_line es @ [done_event (Sprintf ''%d shared revision(s)'' [AInt (int (length es))])])"

definition do_evict ::
  "nat \<Rightarrow> ('s, 'n, 'm, 'd, 'w) cenv \<Rightarrow> control_request \<Rightarrow> ('s, 'w) cworld \<Rightarrow> (pevent list \<times> ('s, 'w) cworld) option" where
  "do_evict n D req w =
     (let L = cids (e_pull (c_node D));
          ew = \<lparr>ev_db = cw_db w, ev_os = cw_os w, ev_log = []\<rparr>
      in if cr_commit req \<noteq> []
         then (case map_get (e_maps (c_node D)) (cw_db w) (cr_commit req) of
                 Inl e \<Rightarrow> Some ([error_of e], w)
               | Inr None \<Rightarrow> Some ([error_event (Lit ''unknown commit'')], w)
               | Inr (Some entry) \<Rightarrow>
                   (case evict_commit n L (c_boxo D) (c_order D) (c_target D) entry ew of
                      None \<Rightarrow> None
                    | Some (r, ew1) \<Rightarrow>
                        Some (map progress (ev_log ew1) @
                                [case r of
                                   Inl e \<Rightarrow> error_of e
                                 | Inr _ \<Rightarrow> done_event (Sprintf ''evicted %s@%s''
                                              [AStr (repo_id entry), AStr (short12 (commit_hash entry))])],
                              w\<lparr>cw_db := ev_db ew1, cw_os := ev_os ew1\<rparr>)))
         else (case evict_repo n L (c_boxo D) (c_order D) (c_target D) (cr_repo req) ew of
                 None \<Rightarrow> None
               | Some (k, err, ew1) \<Rightarrow>
                   Some (map progress (ev_log ew1) @
                           [case err of
                              Some e \<Rightarrow> error_of e
                            | None \<Rightarrow> done_event (Sprintf ''evicted %d revision(s) of %s''
                                        [AInt (int k), AStr (cr_repo req)])],
                         w\<lparr>cw_db := ev_db ew1, cw_os := ev_os ew1\<rparr>)))"

definition dispatch ::
  "nat \<Rightarrow> ('s, 'n, 'm, 'd, 'w) cenv \<Rightarrow> control_request \<Rightarrow> ('s, 'w) cworld \<Rightarrow> (pevent list \<times> ('s, 'w) cworld) option" where
  "dispatch n D req w =
     (if cr_cmd req = CmdPull then do_pull n D req w
      else if cr_cmd req = CmdIngest then do_ingest n D req w
      else if cr_cmd req = CmdStatus
      then (case status_line D (cw_net w) of (m, net1) \<Rightarrow> Some ([done_event m], w\<lparr>cw_net := net1\<rparr>))
      else if cr_cmd req = CmdList then Some (do_list D w, w)
      else if cr_cmd req = CmdEvict then do_evict n D req w
      else if cr_cmd req = CmdShutdown then Some ([done_event (Lit ''shutting down'')], w\<lparr>cw_shutdown := True\<rparr>)
      else Some ([error_event (Lit (''unknown command: '' @ cr_cmd req))], w))"

section \<open>The server side of a connection\<close>

definition render_event :: "('s, 'n, 'm, 'd, 'w) cenv \<Rightarrow> pevent \<Rightarrow> control_event" where
  "render_event D e = \<lparr>ce_type = pe_type e, ce_message = c_text D (pe_msg e), ce_bytes = pe_bytes e, ce_total = pe_total e\<rparr>"

definition write_event :: "('s, 'n, 'm, 'd, 'w) cenv \<Rightarrow> pevent \<Rightarrow> conn \<Rightarrow> unit res \<times> conn" where
  "write_event D e c = write_json (jmarshal enc_control_event) c (render_event D e)"

fun write_events :: "('s, 'n, 'm, 'd, 'w) cenv \<Rightarrow> pevent list \<Rightarrow> conn \<Rightarrow> conn" where
  "write_events D [] c = c"
| "write_events D (e # es) c = write_events D es (snd (write_event D e c))"

definition handle_control ::
  "nat \<Rightarrow> ('s, 'n, 'm, 'd, 'w) cenv \<Rightarrow> conn \<Rightarrow> ('s, 'w) cworld \<Rightarrow> (conn \<times> ('s, 'w) cworld) option" where
  "handle_control n D c w =
     (case read_json (unmarshal dec_control_request) c of
        (Inl e, c1) \<Rightarrow> Some (write_events D [error_of e] c1, w)
      | (Inr req, c1) \<Rightarrow>
          (case dispatch n D req w of
             None \<Rightarrow> None
           | Some (evs, w1) \<Rightarrow> Some (write_events D evs c1, w1)))"

section \<open>The client side\<close>

lemma read_json_shrinks:
  "read_json um c = (Inr v, c1) \<Longrightarrow> length (rd_buf c1) < length (rd_buf c)"
  by (auto simp: read_json_def read_frame_def Let_def split: prod.splits sum.splits if_splits dest!: read_full_ok)

text \<open>The loop of \<open>Call\<close>; \<open>fn\<close> is the callback, over a state of the caller's.\<close>

function call_loop :: "(control_event \<Rightarrow> 'u \<Rightarrow> unit res \<times> 'u) \<Rightarrow> conn \<Rightarrow> 'u \<Rightarrow> unit res \<times> 'u" where
  "call_loop fn c u =
     (case read_json (unmarshal dec_control_event) c of
        (Inl e, c1) \<Rightarrow>
          (Inl (if errors_is e EOF then Errorf ''daemon closed control connection before completing'' []
                else Wrapf ''read control event: %w'' [] e), u)
      | (Inr ev, c1) \<Rightarrow>
          (case fn ev u of
             (Inl e, u1) \<Rightarrow> (Inl e, u1)
           | (Inr _, u1) \<Rightarrow>
               if ce_type ev = ''done'' then (Inr (), u1)
               else if ce_type ev = ''error'' then (Inl (Errorf (ce_message ev) []), u1)
               else call_loop fn c1 u1))"
  by pat_completeness auto
termination
  by (relation "measure (\<lambda>(_, c, _). length (rd_buf c))") (auto dest: read_json_shrinks [OF sym])

declare call_loop.simps [simp del]

text \<open>\<open>Call\<close>: \<open>dialed\<close> is the outcome of dialling the socket.\<close>

definition call_daemon ::
  "string \<Rightarrow> conn res \<Rightarrow> control_request \<Rightarrow> (control_event \<Rightarrow> 'u \<Rightarrow> unit res \<times> 'u) \<Rightarrow> 'u \<Rightarrow> unit res \<times> 'u" where
  "call_daemon path dialed req fn u =
     (case dialed of
        Inl e \<Rightarrow> (Inl (Wrapf ''dial daemon at %s: %w'' [AStr path] e), u)
      | Inr c \<Rightarrow>
          (case write_json (jmarshal enc_control_request) c req of
             (Inl e, _) \<Rightarrow> (Inl (Wrapf ''send control request: %w'' [] e), u)
           | (Inr _, c1) \<Rightarrow> call_loop fn c1 u))"

section \<open>The socket\<close>

text \<open>
  The path of the control socket: nothing, a socket with a live or a dead listener and its permission bits, or
  another file. \<open>so_busy\<close> says that a live listener does not take a connection within the dial timeout, for instance
  because its backlog is full; \<open>so_modes\<close> records the permission bits of every socket that was created there.
  \<open>remove_err\<close>, \<open>listen_err\<close> and \<open>chmod_err\<close> are failures of the three calls for other reasons.
\<close>

type_synonym perm = "9 word"

datatype sock_node = Sock bool perm | OtherFile

record sock_state =
  so_node :: "sock_node option"
  so_busy :: bool
  so_umask :: perm
  so_modes :: "perm list"

definition probe :: "sock_state \<Rightarrow> bool" where
  "probe st = (case so_node st of Some (Sock live _) \<Rightarrow> live \<and> \<not> so_busy st | _ \<Rightarrow> False)"

definition alive :: "sock_state \<Rightarrow> bool" where
  "alive st = probe st"

definition net_listen :: "goerr option \<Rightarrow> sock_state \<Rightarrow> unit res \<times> sock_state" where
  "net_listen err st =
     (case err of
        Some e \<Rightarrow> (Inl e, st)
      | None \<Rightarrow>
          if so_node st \<noteq> None then (Inl (Errorf ''bind: address already in use'' []), st)
          else let mode = 511 AND NOT (so_umask st)
               in (Inr (), st\<lparr>so_node := Some (Sock True mode), so_modes := mode # so_modes st\<rparr>))"

definition chmod_socket :: "goerr option \<Rightarrow> perm \<Rightarrow> sock_state \<Rightarrow> unit res \<times> sock_state" where
  "chmod_socket err mode st =
     (case err of
        Some e \<Rightarrow> (Inl e, st)
      | None \<Rightarrow> (Inr (), st\<lparr>so_node := map_option (\<lambda>nd. case nd of Sock live _ \<Rightarrow> Sock live mode | OtherFile \<Rightarrow> OtherFile) (so_node st)\<rparr>))"

text \<open>Closing the listener unlinks its socket.\<close>

definition server_close :: "sock_state \<Rightarrow> sock_state" where
  "server_close st = st\<lparr>so_node := None\<rparr>"

definition remove_socket :: "goerr option \<Rightarrow> sock_state \<Rightarrow> unit res \<times> sock_state" where
  "remove_socket err st =
     (case err of Some e \<Rightarrow> (Inl e, st) | None \<Rightarrow> (Inr (), st\<lparr>so_node := None, so_busy := False\<rparr>))"

definition serve_socket ::
  "goerr option \<Rightarrow> goerr option \<Rightarrow> goerr option \<Rightarrow> string \<Rightarrow> sock_state \<Rightarrow> unit res \<times> sock_state" where
  "serve_socket remove_err listen_err chmod_err path st =
     (let st1 = (case so_node st of
                   Some (Sock _ _) \<Rightarrow> if \<not> probe st then snd (remove_socket remove_err st) else st
                 | _ \<Rightarrow> st);
          old = so_umask st1
      in case net_listen listen_err (st1\<lparr>so_umask := 127\<rparr>) of
           (r, st2) \<Rightarrow>
             (let st3 = st2\<lparr>so_umask := old\<rparr>
              in case r of
                   Inl e \<Rightarrow> (Inl (Wrapf ''listen %s: %w'' [AStr path] e), st3)
                 | Inr _ \<Rightarrow>
                     (case chmod_socket chmod_err 384 st3 of
                        (Inl e, st4) \<Rightarrow> (Inl (Wrapf ''chmod %s: %w'' [AStr path] e), server_close st4)
                      | (Inr _, st4) \<Rightarrow> (Inr (), st4))))"

section \<open>Every command ends with one outcome\<close>

definition outcome :: "pevent list \<Rightarrow> bool" where
  "outcome evs = (\<exists>ps e. evs = ps @ [e] \<and> list_all (\<lambda>p. pe_type p = ''progress'') ps \<and> pe_type e \<in> {''done'', ''error''})"

lemma outcome_intro: "list_all (\<lambda>p. pe_type p = ''progress'') ps \<Longrightarrow> pe_type e \<in> {''done'', ''error''} \<Longrightarrow> outcome (ps @ [e])"
  unfolding outcome_def by blast

lemma outcome_single: "pe_type e \<in> {''done'', ''error''} \<Longrightarrow> outcome [e]"
  using outcome_intro [of "[]"] by simp

lemma event_types [simp]:
  "pe_type (done_event m) = ''done''" "pe_type (error_event m) = ''error''" "pe_type (error_of e) = ''error''"
  by (simp_all add: done_event_def error_event_def error_of_def)

lemma progress_map [simp]: "list_all (\<lambda>p. pe_type p = ''progress'') (map progress ms)"
  by (simp add: list_all_iff)

lemma do_pull_outcome:
  assumes "quiet_dirs (e_pull (c_node D))" "do_pull n D req w = Some (evs, w')"
  shows "outcome evs"
proof (cases "\<exists>t src. parse_repo_type (cr_type req) = Inr t \<and> parse_sources (cr_from req) = Inr src")
  case False
  with assms(2) show ?thesis by (auto simp: do_pull_def intro!: outcome_single split: sum.splits)
next
  case True
  with assms(2) obtain t src r pw where
    run: "pull_run n (c_node D)
      \<lparr>po_repo = cr_repo req, po_type = t, po_commit = cr_commit req, po_ref = cr_ref req,
       po_peers = cr_peers req, po_connect = cr_connect req, po_force = cr_force req,
       po_sources = src, po_token = cr_token req\<rparr>
      \<lparr>pw_x = \<lparr>x_db = cw_db w, x_os = cw_os w, x_conn = fresh_conn [], x_done = 0, x_events = []\<rparr>, pw_net = cw_net w, pw_sent = []\<rparr>
      = Some (r, pw)"
    and evs: "evs = x_events (pw_x pw) @ (case r of Inl e \<Rightarrow> [error_of e] | Inr _ \<Rightarrow> [])"
    by (auto simp: do_pull_def split: option.splits)
  from pull_run_ended [OF assms(1) run] obtain ps l where
    "list_all (\<lambda>e. pe_type e = ''progress'') ps" "x_events (pw_x pw) = ps @ (if ok r then [l] else [])" "pe_type l = ''done''"
    by auto
  with evs show ?thesis by (cases r) (auto intro: outcome_intro)
qed

lemma do_ingest_outcome: "do_ingest n D req w = Some (evs, w') \<Longrightarrow> outcome evs"
  by (auto simp: do_ingest_def intro!: outcome_intro outcome_single split: sum.splits prod.splits option.splits)

lemma do_evict_outcome: "do_evict n D req w = Some (evs, w') \<Longrightarrow> outcome evs"
  by (auto simp: do_evict_def Let_def intro!: outcome_intro outcome_single
      split: if_splits sum.splits prod.splits option.splits)

lemma do_list_outcome: "outcome (do_list D w)"
  by (auto simp: do_list_def list_line_def list_all_iff intro!: outcome_intro outcome_single split: sum.splits)

lemma dispatch_outcome:
  assumes "quiet_dirs (e_pull (c_node D))" "dispatch n D req w = Some (evs, w')"
  shows "outcome evs"
  using assms(2)
  by (auto simp: dispatch_def intro: do_pull_outcome [OF assms(1)] do_ingest_outcome do_evict_outcome
      do_list_outcome outcome_single split: if_splits prod.splits)

section \<open>What a client can conclude\<close>

text \<open>The events a connection delivers: \<open>reads c evs c1\<close> holds when \<open>evs\<close> can be read from \<open>c\<close>, leaving \<open>c1\<close>.\<close>

inductive reads :: "conn \<Rightarrow> control_event list \<Rightarrow> conn \<Rightarrow> bool" where
  none: "reads c [] c"
| event: "read_json (unmarshal dec_control_event) c = (Inr e, c1) \<Longrightarrow> reads c1 es c2 \<Longrightarrow> reads c (e # es) c2"

definition final_event :: "control_event \<Rightarrow> bool" where
  "final_event e = (ce_type e = ''done'' \<or> ce_type e = ''error'')"

text \<open>The callback's run over a list of events: the state after the last one, if it accepted all of them.\<close>

fun feed :: "(control_event \<Rightarrow> 'u \<Rightarrow> unit res \<times> 'u) \<Rightarrow> control_event list \<Rightarrow> 'u \<Rightarrow> 'u option" where
  "feed fn [] u = Some u"
| "feed fn (e # es) u = (case fn e u of (Inl _, _) \<Rightarrow> None | (Inr _, u1) \<Rightarrow> feed fn es u1)"

lemma call_loop_sound:
  "call_loop fn c u = (Inr (), u') \<Longrightarrow>
    \<exists>es e c1. reads c (es @ [e]) c1 \<and> ce_type e = ''done'' \<and> list_all (\<lambda>e. \<not> final_event e) es \<and> feed fn (es @ [e]) u = Some u'"
proof (induction fn c u rule: call_loop.induct)
  case (1 fn c u)
  obtain r c1 where rd: "read_json (unmarshal dec_control_event) c = (r, c1)" by fastforce
  from "1.prems" rd obtain ev where r: "r = Inr ev" by (cases r) (auto simp: call_loop.simps [of fn c u])
  obtain r2 u1 where f: "fn ev u = (r2, u1)" by fastforce
  from "1.prems" rd r f have r2: "r2 = Inr ()" by (cases r2) (auto simp: call_loop.simps [of fn c u])
  note step = "1.prems" [unfolded call_loop.simps [of fn c u]] rd r f r2
  show ?case
  proof (cases "ce_type ev = ''done''")
    case True
    with step have "u' = u1" by simp
    with True rd r f r2 show ?thesis
      by (intro exI [of _ "[]"] exI [of _ ev] exI [of _ c1]) (auto intro: reads.intros)
  next
    case False
    with step have ne: "ce_type ev \<noteq> ''error''" and rec: "call_loop fn c1 u1 = (Inr (), u')"
      by (auto split: if_splits)
    from "1.IH" [OF rd [symmetric] r f [symmetric] r2 False ne rec] obtain es e c2 where
      "reads c1 (es @ [e]) c2" "ce_type e = ''done''" "list_all (\<lambda>e. \<not> final_event e) es" "feed fn (es @ [e]) u1 = Some u'"
      by blast
    with rd r f r2 False ne show ?thesis
      by (intro exI [of _ "ev # es"] exI [of _ e] exI [of _ c2]) (auto intro: reads.event simp: final_event_def)
  qed
qed

lemma call_loop_follows:
  assumes "reads c (es @ [e]) c1" "list_all (\<lambda>e. \<not> final_event e) es" "final_event e" "feed fn (es @ [e]) u = Some u'"
  shows "call_loop fn c u = (if ce_type e = ''done'' then Inr () else Inl (Errorf (ce_message e) []), u')"
  using assms
proof (induction es arbitrary: c u)
  case Nil
  from Nil(1) obtain r where rd: "read_json (unmarshal dec_control_event) c = (Inr e, r)"
    by (auto elim: reads.cases)
  from Nil(4) have "\<exists>r2. fn e u = (Inr r2, u')" by (auto split: prod.splits sum.splits)
  with rd Nil(3) show ?case by (auto simp: call_loop.simps [of fn c u] final_event_def)
next
  case (Cons a es)
  from Cons.prems(1) obtain r where rd: "read_json (unmarshal dec_control_event) c = (Inr a, r)" "reads r (es @ [e]) c1"
    by (auto elim: reads.cases)
  from Cons.prems(4) obtain u1 where f: "fn a u = (Inr (), u1)" "feed fn (es @ [e]) u1 = Some u'"
    by (auto split: prod.splits sum.splits)
  from Cons.IH [OF rd(2) _ Cons.prems(3) f(2)] Cons.prems(2) rd(1) f(1) show ?case
    by (simp add: call_loop.simps [of fn c u] final_event_def)
qed

section \<open>Whole sessions\<close>

definition event_frame :: "('s, 'n, 'm, 'd, 'w) cenv \<Rightarrow> pevent \<Rightarrow> bytes" where
  "event_frame D e = json_print (enc_control_event (render_event D e))"

text \<open>The event is valid UTF-8 with 64-bit counters and fits a frame.\<close>

definition sendable :: "('s, 'n, 'm, 'd, 'w) cenv \<Rightarrow> pevent \<Rightarrow> bool" where
  "sendable D e = (control_event_wf (render_event D e) \<and> length (event_frame D e) \<le> MaxFrame)"

lemma write_events_unlimited:
  "list_all (sendable D) es \<Longrightarrow> wr_room c = None \<Longrightarrow>
    write_events D es c = c\<lparr>wr_buf := wr_buf c @ concat (map (\<lambda>e. frame_bytes (event_frame D e)) es)\<rparr>"
proof (induction es arbitrary: c)
  case (Cons e es)
  then have "snd (write_event D e c) = c\<lparr>wr_buf := wr_buf c @ frame_bytes (event_frame D e)\<rparr>"
    by (simp add: write_event_def write_json_def jmarshal_def event_frame_def [symmetric] sendable_def write_frame_unlimited)
  with Cons show ?case by simp
qed simp

lemma reads_frames:
  "list_all (sendable D) es \<Longrightarrow> rd_buf d = concat (map (\<lambda>e. frame_bytes (event_frame D e)) es) @ rest \<Longrightarrow>
    reads d (map (render_event D) es) (d\<lparr>rd_buf := rest\<rparr>)"
proof (induction es arbitrary: d)
  case Nil
  then have "d\<lparr>rd_buf := rest\<rparr> = d" by simp
  then show ?case using reads.none [of d] by simp
next
  case (Cons e es)
  let ?d = "d\<lparr>rd_buf := concat (map (\<lambda>e. frame_bytes (event_frame D e)) es) @ rest\<rparr>"
  have wf: "control_event_wf (render_event D e)" "length (event_frame D e) \<le> MaxFrame"
    using Cons.prems(1) by (simp_all add: sendable_def)
  have "read_frame d = (Inr (event_frame D e), ?d)"
    using Cons.prems(2) wf(2) by (intro read_frame_frame_bytes) auto
  then have "read_json (unmarshal dec_control_event) d = (Inr (render_event D e), ?d)"
    using json_wf_control_event [OF wf(1)] dec_enc_control_event [OF wf(1)]
    by (simp add: read_json_def event_frame_def unmarshal_print)
  moreover have "reads ?d (map (render_event D) es) (?d\<lparr>rd_buf := rest\<rparr>)"
    using Cons.prems(1) by (intro Cons.IH) simp_all
  ultimately show ?case by (auto intro: reads.event)
qed

lemma feed_record: "feed (\<lambda>e u. (Inr (), u @ [e])) es u = Some (u @ es)"
  by (induction es arbitrary: u) simp_all

text \<open>C35: client and server agree. Over a connection that takes what is written, \<open>handle\<close> answers a request with
  the events of its command, and \<open>Call\<close> passes them to its callback in order, all of them, and returns: without an
  error exactly when the command ended with \<open>done\<close>, otherwise with the message of its \<open>error\<close> event.\<close>

theorem control_session:
  assumes "quiet_dirs (e_pull (c_node D))" "control_request_wf req" "length (json_print (enc_control_request req)) \<le> MaxFrame"
    and "dispatch n D req w = Some (evs, w')" "list_all (sendable D) evs"
  shows "\<exists>c1. handle_control n D (fresh_conn (frame_bytes (json_print (enc_control_request req)))) w = Some (c1, w')
    \<and> evs \<noteq> [] \<and> call_loop (\<lambda>e u. (Inr (), u @ [e])) (fresh_conn (wr_buf c1)) []
      = (if pe_type (last evs) = ''done'' then Inr () else Inl (Errorf (c_text D (pe_msg (last evs))) []), map (render_event D) evs)"
proof -
  let ?c = "fresh_conn (frame_bytes (json_print (enc_control_request req)))"
  have "read_frame ?c = (Inr (json_print (enc_control_request req)), ?c\<lparr>rd_buf := []\<rparr>)"
    using assms(3) by (intro read_frame_frame_bytes) (simp_all add: fresh_conn_def)
  then have rd: "read_json (unmarshal dec_control_request) ?c = (Inr req, fresh_conn [])"
    using json_wf_control_request [OF assms(2)] dec_enc_control_request
    by (simp add: read_json_def unmarshal_print) (simp add: fresh_conn_def)
  let ?bytes = "concat (map (\<lambda>e. frame_bytes (event_frame D e)) evs)"
  have w: "write_events D evs (fresh_conn []) = (fresh_conn [])\<lparr>wr_buf := ?bytes\<rparr>"
    using write_events_unlimited [OF assms(5), of "fresh_conn []"] by (simp add: fresh_conn_def)
  obtain ps e where evs: "evs = ps @ [e]" "list_all (\<lambda>p. pe_type p = ''progress'') ps" "pe_type e \<in> {''done'', ''error''}"
    using dispatch_outcome [OF assms(1,4)] by (auto simp: outcome_def)
  have "reads (fresh_conn ?bytes) (map (render_event D) evs) (fresh_conn [])"
    using reads_frames [OF assms(5), of "fresh_conn ?bytes" "[]"] by (simp add: fresh_conn_def)
  then have r: "reads (fresh_conn ?bytes) (map (render_event D) ps @ [render_event D e]) (fresh_conn [])"
    by (simp add: evs(1))
  have "call_loop (\<lambda>e u. (Inr (), u @ [e])) (fresh_conn ?bytes) []
      = (if ce_type (render_event D e) = ''done'' then Inr () else Inl (Errorf (ce_message (render_event D e)) []),
         map (render_event D) ps @ [render_event D e])"
    using evs(2,3) by (intro call_loop_follows [OF r])
      (auto simp: list_all_iff final_event_def render_event_def feed_record)
  with rd w assms(4) evs show ?thesis
    by (auto simp: handle_control_def render_event_def fresh_conn_def)
qed

text \<open>C36: \<open>Call\<close> never reports success for an unfinished command, whatever the daemon sends: it returns without an
  error only after dialling, sending the request, and reading a \<open>done\<close> event with no \<open>error\<close> or \<open>done\<close> event before it,
  every event up to it having been accepted by the callback. In particular a connection that ends early is an error.\<close>

theorem call_daemon_honest:
  assumes "call_daemon path dialed req fn u = (Inr (), u')"
  shows "\<exists>c c1 es e c2. dialed = Inr c \<and> write_json (jmarshal enc_control_request) c req = (Inr (), c1)
    \<and> reads c1 (es @ [e]) c2 \<and> ce_type e = ''done'' \<and> list_all (\<lambda>e. \<not> final_event e) es \<and> feed fn (es @ [e]) u = Some u'"
proof -
  from assms obtain c c1 v where "dialed = Inr c" "write_json (jmarshal enc_control_request) c req = (Inr v, c1)"
    "call_loop fn c1 u = (Inr (), u')"
    by (auto simp: call_daemon_def split: sum.splits prod.splits)
  with call_loop_sound [of fn c1 u u'] show ?thesis by auto
qed

text \<open>A daemon asked to shut down.\<close>

definition plain_text :: "msg \<Rightarrow> string" where
  "plain_text m = (case m of Lit s \<Rightarrow> s | Sprintf f _ \<Rightarrow> f | SprintfErr f _ _ \<Rightarrow> f)"

definition lone_daemon :: "(memdb, cid list, dnode, (string \<times> dnode) list, cid list) cenv" where
  "lone_daemon = \<lparr>c_node = lone_env, c_boxo = node_boxo, c_order = id, c_mainbs = node_blocks BucketBlocks,
     c_stores = bolt_ds mem_bolt (\<lambda>_ es. es), c_host_addrs = (\<lambda>_. []), c_reach = (\<lambda>_. ReachabilityUnknown),
     c_text = plain_text\<rparr>"

definition lone_cworld :: "(memdb, cid list) cworld" where
  "lone_cworld = \<lparr>cw_db = empty_db, cw_os = empty_os, cw_net = [], cw_shutdown = False\<rparr>"

definition stop_request :: control_request where
  "stop_request = \<lparr>cr_cmd = CmdShutdown, cr_repo = [], cr_type = [], cr_commit = [], cr_ref = [], cr_peers = [],
     cr_connect = [], cr_force = False, cr_from = [], cr_token = []\<rparr>"

definition stopping :: control_event where
  "stopping = \<lparr>ce_type = ''done'', ce_message = ''shutting down'', ce_bytes = 0, ce_total = 0\<rparr>"

lemma stop_dispatch:
  "dispatch n lone_daemon stop_request lone_cworld
     = Some ([done_event (Lit ''shutting down'')], lone_cworld\<lparr>cw_shutdown := True\<rparr>)"
  by (simp add: dispatch_def stop_request_def CmdPull_def CmdIngest_def CmdStatus_def CmdList_def CmdEvict_def CmdShutdown_def)

lemma stop_render: "render_event lone_daemon (done_event (Lit ''shutting down'')) = stopping"
  by (simp add: render_event_def done_event_def stopping_def lone_daemon_def plain_text_def)

lemma stopping_wf: "control_event_wf stopping"
  by (simp add: control_event_wf_def stopping_def ascii_utf8 int64_range_def)

lemma stop_lengths:
  "length (json_print (enc_control_event stopping)) \<le> MaxFrame"
  "length (json_print (enc_control_request stop_request)) \<le> MaxFrame"
proof -
  have "length (json_print (enc_control_event stopping)) < 1000"
    "length (json_print (enc_control_request stop_request)) < 1000" by code_simp+
  then show "length (json_print (enc_control_event stopping)) \<le> MaxFrame"
    "length (json_print (enc_control_request stop_request)) \<le> MaxFrame" by (simp_all add: MaxFrame_def)
qed

lemma stop_request_wf: "control_request_wf stop_request"
  by (simp add: control_request_wf_def stop_request_def CmdShutdown_def ascii_utf8)

theorem control_session_witness:
  "\<exists>c1. handle_control 0 lone_daemon (fresh_conn (frame_bytes (json_print (enc_control_request stop_request)))) lone_cworld
      = Some (c1, lone_cworld\<lparr>cw_shutdown := True\<rparr>)
    \<and> call_loop (\<lambda>e u. (Inr (), u @ [e])) (fresh_conn (wr_buf c1)) [] = (Inr (), [stopping])"
proof -
  have q: "quiet_dirs (e_pull (c_node lone_daemon))"
    using node_dirs.quiet_dirs_axioms by (simp add: lone_daemon_def lone_env_def)
  have s: "list_all (sendable lone_daemon) [done_event (Lit ''shutting down'')]"
    using stopping_wf stop_lengths(1) by (simp add: sendable_def event_frame_def stop_render)
  from control_session [OF q stop_request_wf stop_lengths(2) stop_dispatch s] show ?thesis
    by (simp add: stop_render)
qed

theorem call_daemon_honest_witness:
  "\<exists>c1 es e c2. write_json (jmarshal enc_control_request) (fresh_conn (frame_bytes (json_print (enc_control_event stopping))))
      stop_request = (Inr (), c1)
    \<and> reads c1 (es @ [e]) c2 \<and> ce_type e = ''done''"
proof -
  let ?c = "fresh_conn (frame_bytes (json_print (enc_control_event stopping)))"
  have w: "write_json (jmarshal enc_control_request) ?c stop_request
      = (Inr (), ?c\<lparr>wr_buf := frame_bytes (json_print (enc_control_request stop_request))\<rparr>)" (is "_ = (_, ?c1)")
    using stop_lengths(2) by (rule write_json_fresh)
  have "read_frame ?c1 = (Inr (json_print (enc_control_event stopping)), ?c1\<lparr>rd_buf := []\<rparr>)"
    using stop_lengths(1) by (intro read_frame_frame_bytes) (simp_all add: fresh_conn_def)
  then have "read_json (unmarshal dec_control_event) ?c1 = (Inr stopping, ?c1\<lparr>rd_buf := []\<rparr>)"
    using json_wf_control_event [OF stopping_wf] dec_enc_control_event [OF stopping_wf]
    by (simp add: read_json_def unmarshal_print)
  moreover have "ce_type stopping = ''done''" by (simp add: stopping_def)
  ultimately have "call_daemon ''/s'' (Inr ?c) stop_request (\<lambda>_ u. (Inr (), u)) () = (Inr (), ())"
    by (simp add: call_daemon_def w call_loop.simps)
  from call_daemon_honest [OF this] show ?thesis by blast
qed

section \<open>The socket is private\<close>

text \<open>C37: the control socket, which carries access tokens, is the owner's only from its creation on: every socket \<open>Serve\<close> creates has
  mode 0600, whatever the umask, which it restores on every path. It replaces a socket that nobody answers on,
  refuses to start beside a daemon that answers the probe, and leaves no socket behind when it fails, except for a
  stale one that it could not remove. (A live daemon that does not take a connection within the timeout of the probe
  counts as one that does not answer.)\<close>

theorem serve_socket_private:
  assumes "serve_socket remove_err listen_err chmod_err path st = (r, st')"
  shows "so_umask st' = so_umask st \<and> (\<exists>new. so_modes st' = new @ so_modes st \<and> set new \<subseteq> {384})
    \<and> (if alive st then \<not> ok r \<and> st' = st
       else if ok r then so_node st' = Some (Sock True 384) else so_node st' \<in> {None, Some OtherFile} \<or> remove_err \<noteq> None \<and> st' = st)
    \<and> (\<not> alive st \<and> so_node st \<noteq> Some OtherFile \<and> remove_err = None \<and> listen_err = None \<and> chmod_err = None \<longrightarrow> ok r)"
proof -
  have m: "(511 AND NOT 127 :: perm) = 384" by simp
  show ?thesis
  proof (cases "so_node st")
    case None
    with assms m show ?thesis
      by (cases st; cases listen_err; cases chmod_err)
         (auto simp: serve_socket_def alive_def probe_def net_listen_def chmod_socket_def server_close_def Let_def)
  next
    case (Some nd)
    show ?thesis
    proof (cases nd)
      case (Sock live mode)
      with Some assms m show ?thesis
        by (cases "so_busy st"; cases st; cases live; cases remove_err; cases listen_err; cases chmod_err)
           (auto simp: serve_socket_def remove_socket_def alive_def probe_def net_listen_def chmod_socket_def server_close_def Let_def)
    next
      case OtherFile
      with Some assms show ?thesis
        by (cases st; cases listen_err)
           (auto simp: serve_socket_def alive_def probe_def net_listen_def Let_def)
    qed
  qed
qed

theorem serve_socket_private_witness:
  "so_node (snd (serve_socket None None None ''/run/sf'' \<lparr>so_node = Some (Sock False 511), so_busy = False, so_umask = 0, so_modes = []\<rparr>))
     = Some (Sock True 384)"
proof -
  let ?st = "\<lparr>so_node = Some (Sock False 511), so_busy = False, so_umask = 0, so_modes = []\<rparr> :: sock_state"
  obtain r st' where run: "serve_socket None None None ''/run/sf'' ?st = (r, st')" by (rule prod.exhaust)
  have "\<not> alive ?st" by (simp add: alive_def probe_def)
  with serve_socket_private [OF run] run show ?thesis by (auto split: if_splits)
qed

end
