(* ===== verification/Flags.thy ===== *)
theory Flags
  imports Config
begin

text \<open>
  The command line of \<open>main.go\<close>: Go's \<open>flag\<close> package as the program uses it, \<open>splitArgs\<close>, the flags shared by
  every subcommand and the flag sets of the subcommands. A parsed command line is the list of assignments in order,
  with the positional arguments. \<open>strconv.ParseInt\<close> and \<open>time.ParseDuration\<close> are the argument \<open>N\<close>.
\<close>

section \<open>The flag package\<close>

datatype flagkind = FBool | FString | FList | FInt64 | FDuration

type_synonym flagset = "(string \<times> flagkind) list"
type_synonym assignment = "string \<times> string"

record numlib =
  parse_int64 :: "string \<Rightarrow> int res"
  parse_duration :: "string \<Rightarrow> int res"

definition parse_bool :: "string \<Rightarrow> bool res" where
  "parse_bool s =
     (if s \<in> {''1'', ''t'', ''T'', ''TRUE'', ''true'', ''True''} then Inr True
      else if s \<in> {''0'', ''f'', ''F'', ''FALSE'', ''false'', ''False''} then Inr False
      else Inl (Errorf ''parse error'' []))"

text \<open>\<open>Value.Set\<close>: whether the value is accepted.\<close>

definition set_flag :: "numlib \<Rightarrow> flagkind \<Rightarrow> string \<Rightarrow> unit res" where
  "set_flag N k v =
     (case k of
        FBool \<Rightarrow> (case parse_bool v of Inl e \<Rightarrow> Inl e | Inr _ \<Rightarrow> Inr ())
      | FInt64 \<Rightarrow> (case parse_int64 N v of Inl e \<Rightarrow> Inl e | Inr _ \<Rightarrow> Inr ())
      | FDuration \<Rightarrow> (case parse_duration N v of Inl e \<Rightarrow> Inl e | Inr _ \<Rightarrow> Inr ())
      | _ \<Rightarrow> Inr ())"

datatype parsed = Stop "string list" | Took assignment "string list" | Fail goerr

text \<open>The first \<open>=\<close> after the first character separates the name from its value.\<close>

fun split_eq :: "string \<Rightarrow> string \<times> string option" where
  "split_eq [] = ([], None)"
| "split_eq (c # cs) =
     (c # takeWhile (\<lambda>x. x \<noteq> CHR ''='') cs,
      if CHR ''='' \<in> set cs then Some (tl (dropWhile (\<lambda>x. x \<noteq> CHR ''='') cs)) else None)"

definition flag_body :: "string \<Rightarrow> string" where
  "flag_body s = (if take 2 s = ''--'' then drop 2 s else drop 1 s)"

definition take_value :: "numlib \<Rightarrow> flagkind \<Rightarrow> string \<Rightarrow> string \<Rightarrow> string list \<Rightarrow> parsed" where
  "take_value N k name v rest =
     (case set_flag N k v of
        Inl e \<Rightarrow> Fail (Wrapf (if k = FBool then ''invalid boolean value %q for -%s: %v''
                             else ''invalid value %q for flag -%s: %v'') [AStr v, AStr name] e)
      | Inr _ \<Rightarrow> Took (name, v) rest)"

definition parse_named :: "numlib \<Rightarrow> flagset \<Rightarrow> string \<Rightarrow> string option \<Rightarrow> string list \<Rightarrow> parsed" where
  "parse_named N F name value rest =
     (case map_of F name of
        None \<Rightarrow> Fail (if name = ''help'' \<or> name = ''h'' then Sentinel ErrHelp
                      else Errorf ''flag provided but not defined: -%s'' [AStr name])
      | Some k \<Rightarrow>
          (case value of
             Some v \<Rightarrow> take_value N k name v rest
           | None \<Rightarrow>
               if k = FBool then take_value N k name ''true'' rest
               else (case rest of
                       [] \<Rightarrow> Fail (Errorf ''flag needs an argument: -%s'' [AStr name])
                     | v # rest1 \<Rightarrow> take_value N k name v rest1)))"

fun parse_one :: "numlib \<Rightarrow> flagset \<Rightarrow> string list \<Rightarrow> parsed" where
  "parse_one N F [] = Stop []"
| "parse_one N F (s # rest) =
     (if length s < 2 \<or> hd s \<noteq> CHR ''-'' then Stop (s # rest)
      else if s = ''--'' then Stop rest
      else let body = flag_body s in
        if body = [] \<or> hd body = CHR ''-'' \<or> hd body = CHR ''='' then Fail (Errorf ''bad flag syntax: %s'' [AStr s])
        else case split_eq body of (name, value) \<Rightarrow> parse_named N F name value rest)"

lemma parse_one_shrinks: "parse_one N F args = Took nv rest \<Longrightarrow> length rest < length args"
  by (cases args)
     (auto simp: Let_def parse_named_def take_value_def split: if_splits prod.splits option.splits sum.splits list.splits)

declare parse_one.simps(2) [simp del]

text \<open>\<open>FlagSet.Parse\<close>: the assignments in order and the remaining arguments.\<close>

function parse_flags ::
  "numlib \<Rightarrow> flagset \<Rightarrow> string list \<Rightarrow> assignment list \<Rightarrow> (assignment list \<times> string list) res" where
  "parse_flags N F args acc =
     (case parse_one N F args of
        Stop rest \<Rightarrow> Inr (acc, rest)
      | Fail e \<Rightarrow> Inl e
      | Took nv rest \<Rightarrow> parse_flags N F rest (acc @ [nv]))"
  by pat_completeness auto
termination
  by (relation "measure (\<lambda>(_, _, args, _). length args)") (auto dest: parse_one_shrinks)

declare parse_flags.simps [simp del]

text \<open>The values a flag has after parsing.\<close>

definition flag_values :: "assignment list \<Rightarrow> string \<Rightarrow> string list" where
  "flag_values asg name = map snd (filter (\<lambda>(n, _). n = name) asg)"

definition flag_string :: "assignment list \<Rightarrow> string \<Rightarrow> string \<Rightarrow> string" where
  "flag_string asg name dflt = (case flag_values asg name of [] \<Rightarrow> dflt | vs \<Rightarrow> last vs)"

definition flag_bool :: "assignment list \<Rightarrow> string \<Rightarrow> bool" where
  "flag_bool asg name = (case flag_values asg name of [] \<Rightarrow> False | vs \<Rightarrow> parse_bool (last vs) = Inr True)"

section \<open>splitArgs\<close>

definition is_bool :: "flagset \<Rightarrow> string \<Rightarrow> bool" where
  "is_bool F name = (map_of F name = Some FBool)"

definition flag_like :: "string \<Rightarrow> bool" where
  "flag_like a = (has_prefix a ''-'' \<and> a \<noteq> ''-'')"

fun split_loop :: "flagset \<Rightarrow> string list \<Rightarrow> string list \<Rightarrow> string list \<Rightarrow> string list" where
  "split_loop F [] flags positional = flags @ positional"
| "split_loop F [a] flags positional =
     (if a = ''--'' then flags @ positional
      else if \<not> flag_like a then flags @ positional @ [a]
      else flags @ [a] @ positional)"
| "split_loop F (a # v # rest) flags positional =
     (if a = ''--'' then flags @ positional @ v # rest
      else if \<not> flag_like a then split_loop F (v # rest) flags (positional @ [a])
      else if CHR ''='' \<in> set a then split_loop F (v # rest) (flags @ [a]) positional
      else if \<not> is_bool F (trim_left a ''-'') then split_loop F rest (flags @ [a, v]) positional
      else split_loop F (v # rest) (flags @ [a]) positional)"

definition split_args :: "flagset \<Rightarrow> string list \<Rightarrow> string list" where
  "split_args F args = split_loop F args [] []"

section \<open>Order of arguments\<close>

text \<open>A parser that accepts flags and positional arguments in any order.\<close>

function parse_mixed ::
  "numlib \<Rightarrow> flagset \<Rightarrow> string list \<Rightarrow> assignment list \<Rightarrow> string list \<Rightarrow> (assignment list \<times> string list) res" where
  "parse_mixed N F args acc pos =
     (case args of
        [] \<Rightarrow> Inr (acc, pos)
      | a # rest \<Rightarrow>
          if \<not> flag_like a then parse_mixed N F rest acc (pos @ [a])
          else (case parse_one N F args of
                  Stop rest1 \<Rightarrow> Inr (acc, pos @ rest1)
                | Fail e \<Rightarrow> Inl e
                | Took nv rest1 \<Rightarrow> parse_mixed N F rest1 (acc @ [nv]) pos))"
  by pat_completeness auto
termination
  by (relation "measure (\<lambda>(_, _, args, _, _). length args)") (auto dest!: parse_one_shrinks)

declare parse_mixed.simps [simp del]

text \<open>Command lines without the argument \<open>--\<close> that do not end with a flag lacking its value.\<close>

fun tidy :: "flagset \<Rightarrow> string list \<Rightarrow> bool" where
  "tidy F [] = True"
| "tidy F [a] = (a \<noteq> ''--'' \<and> (flag_like a \<and> CHR ''='' \<notin> set a \<longrightarrow>
     is_bool F (trim_left a ''-'') \<or> map_of F (trim_left a ''-'') = None))"
| "tidy F (a # v # rest) =
     (a \<noteq> ''--'' \<and> (if \<not> flag_like a \<or> CHR ''='' \<in> set a \<or> is_bool F (trim_left a ''-'') then tidy F (v # rest) else tidy F rest))"

text \<open>The two parts \<open>splitArgs\<close> separates.\<close>

fun flag_part :: "flagset \<Rightarrow> string list \<Rightarrow> string list" and pos_part :: "flagset \<Rightarrow> string list \<Rightarrow> string list" where
  "flag_part F [] = []"
| "flag_part F [a] = (if flag_like a then [a] else [])"
| "flag_part F (a # v # rest) =
     (if \<not> flag_like a then flag_part F (v # rest)
      else if CHR ''='' \<in> set a \<or> is_bool F (trim_left a ''-'') then a # flag_part F (v # rest)
      else a # v # flag_part F rest)"
| "pos_part F [] = []"
| "pos_part F [a] = (if flag_like a then [] else [a])"
| "pos_part F (a # v # rest) =
     (if \<not> flag_like a then a # pos_part F (v # rest)
      else if CHR ''='' \<in> set a \<or> is_bool F (trim_left a ''-'') then pos_part F (v # rest)
      else pos_part F rest)"

lemma split_loop_parts:
  "tidy F args \<Longrightarrow> split_loop F args fl ps = fl @ flag_part F args @ ps @ pos_part F args"
  by (induction F args fl ps rule: split_loop.induct) auto

lemma pos_part_plain: "list_all (\<lambda>a. \<not> flag_like a) (pos_part F args)"
  by (induction F args rule: tidy.induct) auto

lemma parse_one_plain: "\<not> flag_like a \<Longrightarrow> parse_one N F (a # rest) = Stop (a # rest)"
  by (cases a; cases "tl a") (auto simp: flag_like_def has_prefix_def parse_one.simps(2))

lemma parse_flags_plain: "list_all (\<lambda>a. \<not> flag_like a) ps \<Longrightarrow> parse_flags N F ps acc = Inr (acc, ps)"
  by (cases ps) (simp_all add: parse_flags.simps [of N F] parse_one_plain)

lemma flag_like_Cons: "flag_like a \<longleftrightarrow> (\<exists>b. a = CHR ''-'' # b \<and> b \<noteq> [])"
  by (cases a) (auto simp: flag_like_def has_prefix_def)

text \<open>How many arguments a flag takes does not depend on what follows them.\<close>

lemma flag_body_name:
  assumes "flag_like a" "flag_body a \<noteq> []" "hd (flag_body a) \<noteq> CHR ''-''"
  shows "trim_left a ''-'' = flag_body a" "set a = insert (CHR ''-'') (set (flag_body a))"
proof -
  obtain b where a: "a = CHR ''-'' # b" "b \<noteq> []" using assms(1) by (auto simp: flag_like_Cons)
  then obtain x y where b: "b = x # y" by (cases b) auto
  show "trim_left a ''-'' = flag_body a" "set a = insert (CHR ''-'') (set (flag_body a))"
    using assms(2,3) by (cases "x = CHR ''-''"; cases y; auto simp: a b flag_body_def trim_left_def)+
qed

lemma split_eq_whole:
  assumes "body \<noteq> []" "hd body \<noteq> CHR ''=''" "CHR ''='' \<notin> set body"
  shows "split_eq body = (body, None)"
  using assms by (cases body) (auto simp: takeWhile_eq_all_conv)

lemma split_eq_value:
  assumes "body \<noteq> []" "hd body \<noteq> CHR ''=''" "CHR ''='' \<in> set body"
  shows "\<exists>n v. split_eq body = (n, Some v)"
  using assms by (cases body) auto

text \<open>A flag and the arguments it takes: the outcome and that the rest is left.\<close>

definition taken :: "goerr + assignment \<Rightarrow> string list \<Rightarrow> parsed" where
  "taken r rest = (case r of Inl e \<Rightarrow> Fail e | Inr nv \<Rightarrow> Took nv rest)"

lemma taken_simps [simp]: "taken (Inl e) rest = Fail e" "taken (Inr nv) rest = Took nv rest"
  by (simp_all add: taken_def)

lemma take_value_taken: "\<exists>r. \<forall>rest. take_value N k name v rest = taken r rest"
  by (cases "set_flag N k v") (auto simp: take_value_def intro: exI [of _ "Inl _"] exI [of _ "Inr (name, v)"])

lemma parse_one_flag:
  assumes "flag_like a" "a \<noteq> ''--''"
  shows "parse_one N F (a # rest) =
    (if flag_body a = [] \<or> hd (flag_body a) = CHR ''-'' \<or> hd (flag_body a) = CHR ''=''
     then Fail (Errorf ''bad flag syntax: %s'' [AStr a])
     else case split_eq (flag_body a) of (name, value) \<Rightarrow> parse_named N F name value rest)"
proof -
  obtain b where "a = CHR ''-'' # b" "b \<noteq> []" using assms(1) by (auto simp: flag_like_Cons)
  then have "\<not> (length a < 2 \<or> hd a \<noteq> CHR ''-'')" by (cases b) auto
  with assms(2) show ?thesis by (simp add: parse_one.simps(2) Let_def)
qed

lemma parse_one_alone:
  assumes "flag_like a" "a \<noteq> ''--''"
    and "CHR ''='' \<in> set a \<or> is_bool F (trim_left a ''-'') \<or> map_of F (trim_left a ''-'') = None"
  shows "\<exists>r. \<forall>rest. parse_one N F (a # rest) = taken r rest"
proof (cases "flag_body a = [] \<or> hd (flag_body a) = CHR ''-'' \<or> hd (flag_body a) = CHR ''=''")
  case True
  then show ?thesis
    by (intro exI [of _ "Inl (Errorf ''bad flag syntax: %s'' [AStr a])"]) (simp add: parse_one_flag [OF assms(1,2)])
next
  case False
  note one = parse_one_flag [OF assms(1,2), of N F, unfolded if_not_P [OF False]]
  have name: "trim_left a ''-'' = flag_body a" "CHR ''='' \<in> set a \<longleftrightarrow> CHR ''='' \<in> set (flag_body a)"
    using flag_body_name [OF assms(1)] False by auto
  show ?thesis
  proof (cases "CHR ''='' \<in> set (flag_body a)")
    case True
    with False split_eq_value [of "flag_body a"] obtain n v where s: "split_eq (flag_body a) = (n, Some v)" by auto
    show ?thesis
    proof (cases "map_of F n")
      case None
      then show ?thesis by (intro exI [of _ "Inl _"]) (simp add: one s parse_named_def)
    next
      case (Some k)
      with take_value_taken [of N k n v] show ?thesis by (auto simp: one s parse_named_def)
    qed
  next
    case noeq: False
    with False have s: "split_eq (flag_body a) = (flag_body a, None)" by (intro split_eq_whole) auto
    show ?thesis
    proof (cases "map_of F (flag_body a)")
      case None
      then show ?thesis by (intro exI [of _ "Inl _"]) (simp add: one s parse_named_def)
    next
      case (Some k)
      with assms(3) noeq name have "k = FBool" by (simp add: is_bool_def)
      with Some take_value_taken [of N k "flag_body a" "''true''"] show ?thesis by (auto simp: one s parse_named_def)
    qed
  qed
qed

lemma parse_one_valued:
  assumes "flag_like a" "a \<noteq> ''--''" "CHR ''='' \<notin> set a" "\<not> is_bool F (trim_left a ''-'')"
  shows "\<exists>r. \<forall>rest. parse_one N F (a # v # rest) = taken r rest"
proof (cases "map_of F (trim_left a ''-'') = None \<or> flag_body a = [] \<or> hd (flag_body a) = CHR ''-'' \<or> hd (flag_body a) = CHR ''=''")
  case True
  show ?thesis
  proof (cases "map_of F (trim_left a ''-'') = None")
    case none: True
    obtain r where r: "\<forall>rest. parse_one N F (a # rest) = taken r rest"
      using parse_one_alone [OF assms(1,2)] none by blast
    show ?thesis
    proof (cases r)
      case (Inl e)
      with r show ?thesis by (intro exI [of _ "Inl e"]) simp
    next
      case (Inr nv)
      have False
      proof (cases "flag_body a = [] \<or> hd (flag_body a) = CHR ''-'' \<or> hd (flag_body a) = CHR ''=''")
        case True
        with r Inr show ?thesis by (simp add: parse_one_flag [OF assms(1,2)])
      next
        case ok: False
        then have "trim_left a ''-'' = flag_body a" "CHR ''='' \<notin> set (flag_body a)"
          using flag_body_name [OF assms(1)] assms(3) by auto
        with ok split_eq_whole [of "flag_body a"] none r Inr show ?thesis
          by (simp add: parse_one_flag [OF assms(1,2)] parse_named_def)
      qed
      then show ?thesis ..
    qed
  next
    case False
    with True show ?thesis
      by (intro exI [of _ "Inl (Errorf ''bad flag syntax: %s'' [AStr a])"]) (simp add: parse_one_flag [OF assms(1,2)])
  qed
next
  case False
  then have name: "trim_left a ''-'' = flag_body a" "CHR ''='' \<notin> set (flag_body a)"
    using flag_body_name [OF assms(1)] assms(3) by auto
  with False have s: "split_eq (flag_body a) = (flag_body a, None)" by (intro split_eq_whole) auto
  from False name obtain k where k: "map_of F (flag_body a) = Some k" "k \<noteq> FBool"
    using assms(4) by (auto simp: is_bool_def)
  from take_value_taken [of N k "flag_body a" v] False k s show ?thesis
    by (auto simp: parse_one_flag [OF assms(1,2)] parse_named_def)
qed

definition with_rest :: "goerr + assignment list \<Rightarrow> string list \<Rightarrow> (assignment list \<times> string list) res" where
  "with_rest r rest = (case r of Inl e \<Rightarrow> Inl e | Inr acc \<Rightarrow> Inr (acc, rest))"

lemma with_rest_simps [simp]: "with_rest (Inl e) rest = Inl e" "with_rest (Inr acc) rest = Inr (acc, rest)"
  by (simp_all add: with_rest_def)

lemma parse_mixed_flag:
  assumes "flag_like a"
  shows "parse_mixed N F (a # rest) acc ps = (case parse_one N F (a # rest) of
      Stop rest1 \<Rightarrow> Inr (acc, ps @ rest1) | Fail e \<Rightarrow> Inl e | Took nv rest1 \<Rightarrow> parse_mixed N F rest1 (acc @ [nv]) ps)"
  using assms by (simp add: parse_mixed.simps [of N F "a # rest"])

lemma parse_mixed_plain: "\<not> flag_like a \<Longrightarrow> parse_mixed N F (a # rest) acc ps = parse_mixed N F rest acc (ps @ [a])"
  by (simp add: parse_mixed.simps [of N F "a # rest"])

lemma parse_flags_taken:
  "parse_one N F args = taken r rest \<Longrightarrow> parse_flags N F args acc =
    (case r of Inl e \<Rightarrow> Inl e | Inr nv \<Rightarrow> parse_flags N F rest (acc @ [nv]))"
  by (cases r) (simp_all add: parse_flags.simps [of N F args])

lemma parse_parts:
  assumes "list_all (\<lambda>a. \<not> flag_like a) qs"
  shows "tidy F args \<Longrightarrow> \<exists>r. parse_flags N F (flag_part F args @ qs) acc = with_rest r qs
    \<and> parse_mixed N F args acc ps = with_rest r (ps @ pos_part F args)"
proof (induction F args arbitrary: acc ps rule: tidy.induct)
  case (1 F)
  show ?case by (intro exI [of _ "Inr acc"]) (simp add: parse_flags_plain [OF assms] parse_mixed.simps [of N F "[]"])
next
  case (2 F a)
  show ?case
  proof (cases "flag_like a")
    case False
    then show ?thesis
      by (intro exI [of _ "Inr acc"])
         (simp add: parse_flags_plain [OF assms] parse_mixed_plain parse_mixed.simps [of N F "[]"])
  next
    case True
    obtain r where r: "\<forall>rest. parse_one N F (a # rest) = taken r rest"
      using parse_one_alone [OF True, of F N] 2 True by auto
    show ?thesis
    proof (cases r)
      case (Inl e)
      with True r show ?thesis by (intro exI [of _ "Inl e"]) (simp add: parse_flags_taken [of N F _ r] parse_mixed_flag)
    next
      case (Inr nv)
      with True r show ?thesis
        by (intro exI [of _ "Inr (acc @ [nv])"])
           (simp add: parse_flags_taken [of N F _ r] parse_mixed_flag parse_flags_plain [OF assms] parse_mixed.simps [of N F "[]"])
    qed
  qed
next
  case (3 F a v rest)
  show ?case
  proof (cases "flag_like a")
    case False
    with "3.prems" have "tidy F (v # rest)" by simp
    with "3.IH"(1) [of acc "ps @ [a]"] False show ?thesis by (simp add: parse_mixed_plain)
  next
    case fl: True
    have na: "a \<noteq> ''--''" using "3.prems" by simp
    show ?thesis
    proof (cases "CHR ''='' \<in> set a \<or> is_bool F (trim_left a ''-'')")
      case True
      obtain r where r: "\<forall>rest. parse_one N F (a # rest) = taken r rest"
        using parse_one_alone [OF fl na] True by blast
      show ?thesis
      proof (cases r)
        case (Inl e)
        with fl True r show ?thesis
          by (intro exI [of _ "Inl e"]) (simp add: parse_flags_taken [of N F _ r] parse_mixed_flag)
      next
        case (Inr nv)
        have "tidy F (v # rest)" using "3.prems" fl True by (auto split: if_splits)
        from "3.IH"(1) [OF _ this, of "acc @ [nv]" ps] fl True r Inr show ?thesis
          by (auto simp: parse_flags_taken [of N F _ r] parse_mixed_flag)
      qed
    next
      case False
      then obtain r where r: "\<forall>rest. parse_one N F (a # v # rest) = taken r rest"
        using parse_one_valued [OF fl na] by blast
      show ?thesis
      proof (cases r)
        case (Inl e)
        with fl False r show ?thesis
          by (intro exI [of _ "Inl e"]) (simp add: parse_flags_taken [of N F _ r] parse_mixed_flag)
      next
        case (Inr nv)
        have "tidy F rest" using "3.prems" fl False by simp
        from "3.IH"(2) [OF _ this, of "acc @ [nv]" ps] fl False r Inr show ?thesis
          by (auto simp: parse_flags_taken [of N F _ r] parse_mixed_flag)
      qed
    qed
  qed
qed

text \<open>C38: flags and positional arguments may come in any order: for a command line without the argument \<open>--\<close> that does not end with
  a flag lacking its value, parsing the rearranged arguments with the standard parser, which stops at the first
  positional argument, gives the assignments, the positional arguments or the error that a parser accepting them in any
  order gives.\<close>

theorem split_args_any_order:
  assumes "tidy F args"
  shows "parse_flags N F (split_args F args) [] = parse_mixed N F args [] []"
proof -
  have s: "split_args F args = flag_part F args @ pos_part F args"
    using split_loop_parts [OF assms, of "[]" "[]"] by (simp add: split_args_def)
  obtain r where "parse_flags N F (flag_part F args @ pos_part F args) [] = with_rest r (pos_part F args)"
    "parse_mixed N F args [] [] = with_rest r ([] @ pos_part F args)"
    using parse_parts [OF pos_part_plain [of F args] assms, of N "[]" "[]"] by blast
  then show ?thesis unfolding s by simp
qed

text \<open>With \<open>sf evict a b --commit\<close> the repository \<open>a\<close> is taken for the missing commit, and after \<open>--\<close> a positional argument
  is still read as a flag.\<close>

definition plain_nums :: numlib where
  "plain_nums = \<lparr>parse_int64 = (\<lambda>_. Inr 0), parse_duration = (\<lambda>_. Inr 0)\<rparr>"

theorem split_args_any_order_witness:
  "let F = [(''commit'', FString), (''force'', FBool)] in
   parse_flags plain_nums F (split_args F [''org/m'', ''--force'', ''--commit'', ''c1'']) []
     = parse_mixed plain_nums F [''org/m'', ''--force'', ''--commit'', ''c1''] [] []
   \<and> parse_flags plain_nums F (split_args F [''org/m'', ''--force'', ''--commit'', ''c1'']) []
     = Inr ([(''force'', ''true''), (''commit'', ''c1'')], [''org/m''])
   \<and> parse_flags plain_nums F (split_args F [''a'', ''b'', ''--commit'']) [] = Inr ([(''commit'', ''a'')], [''b''])
   \<and> parse_flags plain_nums F (split_args F [''--'', ''--force'']) [] = Inr ([(''force'', ''true'')], [])"
proof -
  let ?F = "[(''commit'', FString), (''force'', FBool)]"
  have t: "tidy ?F [''org/m'', ''--force'', ''--commit'', ''c1'']" by code_simp
  have e: "parse_flags plain_nums ?F (split_args ?F [''org/m'', ''--force'', ''--commit'', ''c1'']) []
      = Inr ([(''force'', ''true''), (''commit'', ''c1'')], [''org/m''])" by code_simp
  have f: "parse_flags plain_nums ?F (split_args ?F [''a'', ''b'', ''--commit'']) [] = Inr ([(''commit'', ''a'')], [''b''])"
    by code_simp
  have g: "parse_flags plain_nums ?F (split_args ?F [''--'', ''--force'']) [] = Inr ([(''force'', ''true'')], [])"
    by code_simp
  show ?thesis unfolding Let_def using split_args_any_order [OF t, of plain_nums] e f g by (intro conjI) assumption+
qed

section \<open>Shared flags\<close>

record common =
  cm_repo :: string
  cm_hub :: string
  cm_endpoint :: string
  cm_token :: string
  cm_level :: string

definition common_flags :: flagset where
  "common_flags = [(''repo'', FString), (''hf-hub'', FString), (''endpoint'', FString), (''hf-token'', FString),
     (''log-level'', FString)]"

definition common_of :: "assignment list \<Rightarrow> common" where
  "common_of asg =
     \<lparr>cm_repo = flag_string asg ''repo'' [], cm_hub = flag_string asg ''hf-hub'' [],
      cm_endpoint = flag_string asg ''endpoint'' [], cm_token = flag_string asg ''hf-token'' [],
      cm_level = flag_string asg ''log-level'' ''info''\<rparr>"

text \<open>\<open>logging.SetLogLevel\<close> is the argument \<open>set_level\<close>.\<close>

fun set_levels :: "(string \<Rightarrow> string \<Rightarrow> unit res) \<Rightarrow> string \<Rightarrow> string list \<Rightarrow> unit res" where
  "set_levels set_level level [] = Inr ()"
| "set_levels set_level level (name # names) =
     (case set_level name level of Inl e \<Rightarrow> Inl e | Inr _ \<Rightarrow> set_levels set_level level names)"

declare set_levels.simps [simp del]

definition override_config :: "common \<Rightarrow> config \<Rightarrow> config" where
  "override_config c cfg =
     (let cfg1 = (if cm_repo c \<noteq> [] then cfg\<lparr>cf_repo_dir := cm_repo c, cf_api_socket := cm_repo c @ ''/api.sock''\<rparr> else cfg);
          cfg2 = (if cm_hub c \<noteq> [] then cfg1\<lparr>cf_hub_dir := cm_hub c\<rparr> else cfg1);
          cfg3 = (if cm_endpoint c \<noteq> [] then cfg2\<lparr>cf_endpoint := trim_right (cm_endpoint c) ''/''\<rparr> else cfg2)
      in if cm_token c \<noteq> [] then cfg3\<lparr>cf_token := cm_token c\<rparr> else cfg3)"

definition apply_common :: "(string \<Rightarrow> string \<Rightarrow> unit res) \<Rightarrow> common \<Rightarrow> config \<Rightarrow> config res" where
  "apply_common set_level c cfg =
     (case set_levels set_level (if cm_level c = [] then ''info'' else cm_level c)
             [''sf'', ''sf/pull'', ''sf/watch'', ''sf/controls''] of
        Inl e \<Rightarrow> Inl e
      | Inr _ \<Rightarrow> Inr (override_config c cfg))"

section \<open>Subcommands\<close>

definition daemon_flags :: flagset where
  "daemon_flags = common_flags @
     [(''listen'', FList), (''bootstrap'', FList), (''connect'', FList), (''chunk-size'', FInt64), (''no-watch'', FBool),
      (''dht-client'', FBool), (''isolated'', FBool), (''no-relay'', FBool), (''no-nat-portmap'', FBool),
      (''no-hole-punch'', FBool), (''relay-bulk'', FBool), (''relay-service'', FBool), (''static-relay'', FList),
      (''rescan'', FDuration)]"

definition pull_flags :: flagset where
  "pull_flags = common_flags @
     [(''commit'', FString), (''ref'', FString), (''repo-type'', FString), (''peer'', FList), (''connect'', FList),
      (''force'', FBool), (''no-daemon'', FBool), (''no-fork'', FBool), (''from'', FString)]"

definition ingest_flags :: flagset where
  "ingest_flags = common_flags @ [(''commit'', FString), (''ref'', FString), (''repo-type'', FString)]"

definition evict_flags :: flagset where
  "evict_flags = common_flags @ [(''commit'', FString)]"

definition resolve_flags :: flagset where
  "resolve_flags = common_flags @ [(''repo-type'', FString)]"

definition flag_number :: "(string \<Rightarrow> int res) \<Rightarrow> assignment list \<Rightarrow> string \<Rightarrow> int \<Rightarrow> int" where
  "flag_number parse asg name dflt =
     (case flag_values asg name of [] \<Rightarrow> dflt | vs \<Rightarrow> (case parse (last vs) of Inr n \<Rightarrow> n | Inl _ \<Rightarrow> dflt))"

text \<open>The configuration of \<open>sf daemon\<close> before the shared flags are applied.\<close>

definition daemon_config :: "numlib \<Rightarrow> assignment list \<Rightarrow> config \<Rightarrow> config" where
  "daemon_config N asg cfg =
     cfg\<lparr>cf_listen := (case flag_values asg ''listen'' of [] \<Rightarrow> cf_listen cfg | vs \<Rightarrow> vs),
         cf_bootstrap := (case flag_values asg ''bootstrap'' of [] \<Rightarrow> cf_bootstrap cfg | vs \<Rightarrow> vs),
         cf_connect := (case flag_values asg ''connect'' of [] \<Rightarrow> cf_connect cfg | vs \<Rightarrow> vs),
         cf_chunk_size := flag_number (parse_int64 N) asg ''chunk-size'' DefaultChunkSize,
         cf_dht_server := \<not> flag_bool asg ''dht-client'', cf_isolated := flag_bool asg ''isolated'',
         cf_relay := \<not> flag_bool asg ''no-relay'', cf_nat_port_map := \<not> flag_bool asg ''no-nat-portmap'',
         cf_hole_punch := \<not> flag_bool asg ''no-hole-punch'', cf_relay_bulk := flag_bool asg ''relay-bulk'',
         cf_relay_service := flag_bool asg ''relay-service'', cf_static_relays := flag_values asg ''static-relay'',
         cf_rescan := flag_number (parse_duration N) asg ''rescan'' (5 * 60 * 10 ^ 9)\<rparr>"

section \<open>The forked daemon\<close>

definition opt_arg :: "string \<Rightarrow> string \<Rightarrow> string list" where
  "opt_arg flag v = (if v \<noteq> [] then [flag, v] else [])"

definition fork_args :: "common \<Rightarrow> string list" where
  "fork_args c =
     [''daemon''] @ opt_arg ''--repo'' (cm_repo c) @ opt_arg ''--hf-hub'' (cm_hub c)
     @ opt_arg ''--endpoint'' (cm_endpoint c) @ opt_arg ''--log-level'' (cm_level c)"

text \<open>The child's environment: of two settings of a variable the last one counts.\<close>

definition fork_env :: "(string \<Rightarrow> string) \<Rightarrow> config \<Rightarrow> string \<Rightarrow> string" where
  "fork_env env cfg = env(''HF_TOKEN'' := cf_token cfg)"

definition token_status :: "string \<Rightarrow> string" where
  "token_status tok =
     (if tok = [] then ''unset''
      else if length tok \<le> 4 then ''set''
      else ''set ('' @ map char_of [0xE2, 0x80, 0xA6 :: nat] @ drop (length tok - 4) tok @ '')'')"

definition on_off :: "bool \<Rightarrow> string" where
  "on_off b = (if b then ''on'' else ''off'')"

lemma pair_name:
  assumes "n \<noteq> []" "hd n \<noteq> CHR ''-''" "CHR ''='' \<notin> set n"
  shows "flag_like (''--'' @ n)" "''--'' @ n \<noteq> ''--''" "trim_left (''--'' @ n) ''-'' = n" "flag_body (''--'' @ n) = n"
    "split_eq n = (n, None)" "hd n \<noteq> CHR ''=''"
  using assms by (cases n; auto simp: flag_like_def has_prefix_def trim_left_def flag_body_def takeWhile_eq_all_conv)+

definition long_flags :: "assignment list \<Rightarrow> string list" where
  "long_flags ps = concat (map (\<lambda>(n, v). [''--'' @ n, v]) ps)"

definition string_flag :: "flagset \<Rightarrow> string \<Rightarrow> bool" where
  "string_flag F n = (map_of F n = Some FString \<and> n \<noteq> [] \<and> hd n \<noteq> CHR ''-'' \<and> CHR ''='' \<notin> set n)"

lemma split_loop_long:
  "list_all (\<lambda>(n, _). string_flag F n) ps \<Longrightarrow> split_loop F (long_flags ps) fl qs = fl @ long_flags ps @ qs"
proof (induction ps arbitrary: fl)
  case (Cons p ps)
  obtain n v where p: "p = (n, v)" by fastforce
  with Cons.prems have "string_flag F n" by simp
  then have n: "map_of F n = Some FString" "n \<noteq> []" "hd n \<noteq> CHR ''-''" "CHR ''='' \<notin> set n"
    by (simp_all add: string_flag_def)
  have "CHR ''='' \<notin> set (''--'' @ n)" "\<not> is_bool F n" using n by (simp_all add: is_bool_def)
  with pair_name [OF n(2-4)] have "split_loop F ((''--'' @ n) # v # long_flags ps) fl qs
      = split_loop F (long_flags ps) (fl @ [''--'' @ n, v]) qs" by simp
  with Cons show ?case by (simp add: p long_flags_def)
qed (simp add: long_flags_def)

lemma parse_flags_long:
  "list_all (\<lambda>(n, _). string_flag F n) ps \<Longrightarrow> parse_flags N F (long_flags ps) acc = Inr (acc @ ps, [])"
proof (induction ps arbitrary: acc)
  case Nil
  show ?case by (simp add: long_flags_def parse_flags.simps [of N F "[]"])
next
  case (Cons p ps)
  obtain n v where p: "p = (n, v)" by fastforce
  with Cons.prems have "string_flag F n" by simp
  then have n: "map_of F n = Some FString" "n \<noteq> []" "hd n \<noteq> CHR ''-''" "CHR ''='' \<notin> set n"
    by (simp_all add: string_flag_def)
  note nm = pair_name [OF n(2-4)]
  have "parse_one N F ((''--'' @ n) # v # long_flags ps) = Took (n, v) (long_flags ps)"
    unfolding parse_one_flag [OF nm(1,2)] nm(4) using n nm(5,6)
    by (simp add: parse_named_def take_value_def set_flag_def)
  then have "parse_flags N F ((''--'' @ n) # v # long_flags ps) acc = parse_flags N F (long_flags ps) (acc @ [(n, v)])"
    by (subst parse_flags.simps) simp
  with Cons show ?case by (simp add: p long_flags_def)
qed

definition opt_pair :: "string \<Rightarrow> string \<Rightarrow> assignment list" where
  "opt_pair n v = (if v \<noteq> [] then [(n, v)] else [])"

definition fork_assignments :: "common \<Rightarrow> assignment list" where
  "fork_assignments c = opt_pair ''repo'' (cm_repo c) @ opt_pair ''hf-hub'' (cm_hub c)
     @ opt_pair ''endpoint'' (cm_endpoint c) @ opt_pair ''log-level'' (cm_level c)"

lemma fork_args_long: "fork_args c = ''daemon'' # long_flags (fork_assignments c)"
  by (simp add: fork_args_def long_flags_def fork_assignments_def opt_arg_def opt_pair_def)

lemma fork_common:
  "common_of (fork_assignments c) = c\<lparr>cm_token := [], cm_level := (if cm_level c = [] then ''info'' else cm_level c)\<rparr>"
  by (cases c) (simp add: common_of_def fork_assignments_def opt_pair_def flag_string_def flag_values_def)

lemma string_flags:
  "string_flag daemon_flags ''repo''" "string_flag daemon_flags ''hf-hub''" "string_flag daemon_flags ''endpoint''"
  "string_flag daemon_flags ''log-level''"
  by code_simp+

lemma default_config_token:
  "default_config (Inr h) (env(''HF_TOKEN'' := t)) =
     map_sum id (\<lambda>c. c\<lparr>cf_token := trim_space (first_non_empty [t, env ''HUGGING_FACE_HUB_TOKEN''])\<rparr>)
       (default_config (Inr h) env)"
  by (simp add: default_config_def Let_def del: first_non_empty.simps)

text \<open>C39: the daemon that \<open>sf pull\<close> forks is the one it then talks to: its arguments parse, and with the child's environment
  they give the state directory, control socket, hub directory and endpoint of the parent, and the parent's token
  up to surrounding blanks. The token is not among the arguments, which every user can read: they
  are the same whatever \<open>--hf-token\<close> is.\<close>

theorem fork_daemon_agrees:
  assumes "default_config home env = Inr cfg0" "apply_common set_level c cfg0 = Inr cfg"
  shows "\<exists>asg cfg1 child.
      parse_flags N daemon_flags (split_args daemon_flags (tl (fork_args c))) [] = Inr (asg, [])
    \<and> default_config home (fork_env env cfg) = Inr cfg1
    \<and> apply_common set_level (common_of asg) (daemon_config N asg cfg1) = Inr child
    \<and> cf_repo_dir child = cf_repo_dir cfg \<and> cf_api_socket child = cf_api_socket cfg
    \<and> cf_hub_dir child = cf_hub_dir cfg \<and> cf_endpoint child = cf_endpoint cfg
    \<and> (trim_space (cf_token cfg) \<noteq> [] \<longrightarrow> cf_token child = trim_space (cf_token cfg))
    \<and> fork_args (c\<lparr>cm_token := t\<rparr>) = fork_args c"
proof -
  let ?asg = "fork_assignments c"
  have flags: "list_all (\<lambda>(n, _). string_flag daemon_flags n) ?asg"
    using string_flags by (simp add: fork_assignments_def opt_pair_def)
  have parse: "parse_flags N daemon_flags (split_args daemon_flags (tl (fork_args c))) [] = Inr (?asg, [])"
    using split_loop_long [OF flags, of "[]" "[]"] parse_flags_long [OF flags, of N "[]"]
    by (simp add: fork_args_long split_args_def)
  obtain h where h: "home = Inr h"
  proof (cases home)
    case (Inl e)
    with assms(1) show ?thesis by (simp add: default_config_def)
  qed
  define cfg1 where "cfg1 = cfg0\<lparr>cf_token := trim_space (first_non_empty [cf_token cfg, env ''HUGGING_FACE_HUB_TOKEN''])\<rparr>"
  have d: "default_config home (fork_env env cfg) = Inr cfg1"
    using assms(1) unfolding h fork_env_def default_config_token cfg1_def by simp
  have same: "cf_repo_dir cfg1 = cf_repo_dir cfg0" "cf_api_socket cfg1 = cf_api_socket cfg0"
      "cf_hub_dir cfg1 = cf_hub_dir cfg0" "cf_endpoint cfg1 = cf_endpoint cfg0" by (simp_all add: cfg1_def)
  have lv: "set_levels set_level (if cm_level c = [] then ''info'' else cm_level c)
      [''sf'', ''sf/pull'', ''sf/watch'', ''sf/controls''] = Inr ()" and cfg: "cfg = override_config c cfg0"
    using assms(2) by (auto simp: apply_common_def split: sum.splits)
  let ?child = "override_config (common_of ?asg) (daemon_config N ?asg cfg1)"
  have child: "apply_common set_level (common_of ?asg) (daemon_config N ?asg cfg1) = Inr ?child"
    using lv by (simp add: apply_common_def fork_common)
  have "cf_repo_dir ?child = cf_repo_dir cfg" "cf_api_socket ?child = cf_api_socket cfg"
    "cf_hub_dir ?child = cf_hub_dir cfg" "cf_endpoint ?child = cf_endpoint cfg" "cf_token ?child = cf_token cfg1"
    by (simp_all add: cfg fork_common override_config_def daemon_config_def same Let_def)
  moreover have "fork_args (c\<lparr>cm_token := t\<rparr>) = fork_args c" by (simp add: fork_args_def)
  moreover have "trim_space (cf_token cfg) \<noteq> [] \<longrightarrow> cf_token cfg1 = trim_space (cf_token cfg)" by (simp add: cfg1_def)
  ultimately show ?thesis using parse d child
    by (intro exI [of _ ?asg]) (rule exI [of _ cfg1], rule exI [of _ ?child], simp)
qed

theorem fork_daemon_agrees_witness:
  "\<exists>asg cfg1 child.
      parse_flags plain_nums daemon_flags (split_args daemon_flags [''--repo'', ''/r'', ''--log-level'', ''info'']) [] = Inr (asg, [])
    \<and> default_config (Inr ''/home/u'') ((\<lambda>_. [])(''HF_TOKEN'' := ''tok'')) = Inr cfg1
    \<and> apply_common (\<lambda>_ _. Inr ()) (common_of asg) (daemon_config plain_nums asg cfg1) = Inr child
    \<and> cf_api_socket child = ''/r/api.sock'' \<and> cf_token child = ''tok''"
proof -
  let ?c = "\<lparr>cm_repo = ''/r'', cm_hub = [], cm_endpoint = [], cm_token = ''tok'', cm_level = ''info''\<rparr>"
  obtain cfg0 where d: "default_config (Inr ''/home/u'') (\<lambda>_. []) = Inr cfg0" by (auto simp: default_config_def Let_def)
  let ?cfg = "override_config ?c cfg0"
  have a: "apply_common (\<lambda>_ _. Inr ()) ?c cfg0 = Inr ?cfg" by (simp add: apply_common_def set_levels.simps)
  have f: "fork_args ?c = ''daemon'' # [''--repo'', ''/r'', ''--log-level'', ''info'']"
    by (simp add: fork_args_def opt_arg_def)
  have s: "cf_api_socket ?cfg = ''/r/api.sock''" "cf_token ?cfg = ''tok''"
    by (simp_all add: override_config_def Let_def)
  have t: "trim_space ''tok'' = ''tok''" by code_simp
  have e: "fork_env (\<lambda>_. []) ?cfg = (\<lambda>_. [])(''HF_TOKEN'' := ''tok'')" by (simp add: fork_env_def s)
  from fork_daemon_agrees [OF d a, of plain_nums, unfolded f e s list.sel t]
  have "\<exists>asg cfg1 child.
      parse_flags plain_nums daemon_flags (split_args daemon_flags [''--repo'', ''/r'', ''--log-level'', ''info'']) [] = Inr (asg, [])
    \<and> default_config (Inr ''/home/u'') ((\<lambda>_. [])(''HF_TOKEN'' := ''tok'')) = Inr cfg1
    \<and> apply_common (\<lambda>_ _. Inr ()) (common_of asg) (daemon_config plain_nums asg cfg1) = Inr child
    \<and> cf_api_socket child = ''/r/api.sock'' \<and> (''tok'' \<noteq> [] \<longrightarrow> cf_token child = ''tok'')" by blast
  then show ?thesis by (simp only: list.distinct not_False_eq_True simp_thms)
qed

end
