(* ===== verification/Cli.thy ===== *)
theory Cli
  imports Flags NodeLife Controls
begin

text \<open>
  The subcommands of \<open>main.go\<close>. What the process finds is the record \<open>menv\<close>: home directory and environment, the outcome of
  starting a node, the libraries of a node, the answers of the control socket to successive probes and the connection a
  dial gives, and what forking a child brings. The state is that of the process (files, locks, open resources), the
  database of the node it runs, the network, the control socket's path and the lines printed.
\<close>

section \<open>State\<close>

datatype line = Out msg | Err msg

datatype waitev = Exited "goerr option" | Tick | Deadline

record ('k, 's, 'n, 'm, 'd, 'w) menv =
  m_home :: "string res"
  m_env :: "string \<Rightarrow> string"
  m_level :: "string \<Rightarrow> string \<Rightarrow> unit res"
  m_nums :: numlib
  m_new :: "('k, 's, 'w) newlib"
  m_libs :: "('s, 'n, 'm, 'd, 'w) cenv"
  m_probes :: "nat \<Rightarrow> bool"
  m_conn :: "conn res"
  m_exe :: "string res"
  m_devnull :: "unit res"
  m_start :: "string \<Rightarrow> string list \<Rightarrow> (string \<Rightarrow> string) \<Rightarrow> nat res"
  m_waits :: "(bool \<times> waitev) list"
  m_remove_err :: "goerr option"
  m_listen_err :: "goerr option"
  m_chmod_err :: "goerr option"

record ('s, 'w) mworld =
  mw_nw :: nworld
  mw_db :: 's
  mw_net :: 'w
  mw_sock :: sock_state
  mw_out :: "line list"

definition print_line :: "line \<Rightarrow> ('s, 'w) mworld \<Rightarrow> ('s, 'w) mworld" where
  "print_line l w = w\<lparr>mw_out := mw_out w @ [l]\<rparr>"

abbreviation mw_os :: "('s, 'w) mworld \<Rightarrow> os" where "mw_os w \<equiv> nw_os (mw_nw w)"

definition set_os :: "os \<Rightarrow> ('s, 'w) mworld \<Rightarrow> ('s, 'w) mworld" where
  "set_os os w = w\<lparr>mw_nw := (mw_nw w)\<lparr>nw_os := os\<rparr>\<rparr>"

text \<open>The libraries of a node with the given configuration and peer id.\<close>

definition at_node ::
  "('k, 's, 'n, 'm, 'd, 'w) menv \<Rightarrow> config \<Rightarrow> string \<Rightarrow> ('s, 'n, 'm, 'd, 'w) cenv" where
  "at_node M cfg pid = (m_libs M)\<lparr>c_node := (c_node (m_libs M))\<lparr>e_cfg := cfg, e_self := pid\<rparr>\<rparr>"

section \<open>Shared steps\<close>

definition print_event :: "control_event \<Rightarrow> line list \<Rightarrow> unit res \<times> line list" where
  "print_event e out =
     (if ce_type e = ''progress''
      then (Inr (), out @ [Err (if ce_total e > 0
              then Sprintf ''  %s (%s / %s)'' [AStr (ce_message e), human_bytes (ce_bytes e), human_bytes (ce_total e)]
              else Sprintf ''  %s'' [AStr (ce_message e)])])
      else if ce_type e = ''done'' then (Inr (), out @ [Out (Lit (ce_message e))])
      else if ce_type e = ''error'' then (Inl (Errorf (ce_message e) []), out)
      else (Inr (), out))"

text \<open>Flags, positional arguments and configuration; \<open>usage\<close> is the error for a missing repository id.\<close>

definition prologue ::
  "('k, 's, 'n, 'm, 'd, 'w) menv \<Rightarrow> flagset \<Rightarrow> goerr option \<Rightarrow> string list \<Rightarrow> (assignment list \<times> string list \<times> config) res" where
  "prologue M F usage args =
     (case parse_flags (m_nums M) F (split_args F args) [] of
        Inl e \<Rightarrow> Inl e
      | Inr (asg, pos) \<Rightarrow>
          if usage \<noteq> None \<and> pos = [] then Inl (the usage)
          else (case default_config (m_home M) (m_env M) of
                  Inl e \<Rightarrow> Inl e
                | Inr cfg \<Rightarrow>
                    (case apply_common (m_level M) (common_of asg) cfg of
                       Inl e \<Rightarrow> Inl e
                     | Inr cfg1 \<Rightarrow> Inr (asg, pos, cfg1))))"

definition proxy ::
  "('k, 's, 'n, 'm, 'd, 'w) menv \<Rightarrow> config \<Rightarrow> control_request \<Rightarrow> ('s, 'w) mworld \<Rightarrow> unit res \<times> ('s, 'w) mworld" where
  "proxy M cfg req w =
     (case call_daemon (cf_api_socket cfg) (m_conn M) req print_event (mw_out w) of
        (r, out) \<Rightarrow> (r, w\<lparr>mw_out := out\<rparr>))"

definition blank_request :: "string \<Rightarrow> control_request" where
  "blank_request cmd = \<lparr>cr_cmd = cmd, cr_repo = [], cr_type = [], cr_commit = [], cr_ref = [], cr_peers = [],
     cr_connect = [], cr_force = False, cr_from = [], cr_token = []\<rparr>"

text \<open>Running an operation on a node of this process, which is closed afterwards.\<close>

definition with_node ::
  "('k, 's, 'n, 'm, 'd, 'w) menv \<Rightarrow> config \<Rightarrow> ('s node \<Rightarrow> ('s, 'w) mworld \<Rightarrow> (unit res \<times> ('s, 'w) mworld) option) \<Rightarrow>
     ('s, 'w) mworld \<Rightarrow> (unit res \<times> ('s, 'w) mworld) option" where
  "with_node M cfg op w =
     (case node_new (m_new M) cfg (mw_nw w) of
        (Inl e, nw) \<Rightarrow> Some (Inl e, w\<lparr>mw_nw := nw\<rparr>)
      | (Inr nd, nw) \<Rightarrow>
          (case op nd (w\<lparr>mw_nw := nw, mw_db := n_db nd\<rparr>) of
             None \<Rightarrow> None
           | Some (r, w1) \<Rightarrow> Some (r, w1\<lparr>mw_nw := node_close nd (mw_nw w1)\<rparr>)))"

section \<open>Pull\<close>

definition os_open_append :: "os \<Rightarrow> string \<Rightarrow> nat \<Rightarrow> path res \<times> os" where
  "os_open_append os p mode =
     syscall os (\<lambda>os.
       case resolve os True p of
         Inl e \<Rightarrow> (Inl (Sentinel e), os)
       | Inr q \<Rightarrow>
           (case lookup os q of
              Some (FFile _ _) \<Rightarrow> (Inr q, os)
            | Some _ \<Rightarrow> (Inl (Sentinel EISDIR), os)
            | None \<Rightarrow> if parent_ok os q then (Inr q, set_node os q (FFile [] mode))
                      else (Inl (Sentinel ErrNotExist), os)))"

text \<open>The wait for the child: whether the socket answers, and what the \<open>select\<close> then receives. The list ends
  when the deadline has passed.\<close>

fun fork_wait :: "string \<Rightarrow> string \<Rightarrow> (bool \<times> waitev) list \<Rightarrow> unit res" where
  "fork_wait sock log_path [] = Inl (Errorf ''daemon did not answer on %s within 30s (see %s)'' [AStr sock, AStr log_path])"
| "fork_wait sock log_path ((answers, ev) # evs) =
     (if answers then Inr ()
      else case ev of
             Exited err \<Rightarrow>
               Inl (Wrapf ''daemon exited before it was ready: %w (see %s)'' [AStr log_path]
                      (case err of None \<Rightarrow> Errorf ''exited cleanly'' [] | Some e \<Rightarrow> e))
           | Tick \<Rightarrow> fork_wait sock log_path evs
           | Deadline \<Rightarrow> Inl (Errorf ''daemon did not answer on %s within 30s (see %s)'' [AStr sock, AStr log_path]))"

definition fork_daemon ::
  "('k, 's, 'n, 'm, 'd, 'w) menv \<Rightarrow> config \<Rightarrow> common \<Rightarrow> ('s, 'w) mworld \<Rightarrow> unit res \<times> ('s, 'w) mworld" where
  "fork_daemon M cfg c w =
     (case ensure_dirs cfg (mw_os w) of
        (Inl e, os1) \<Rightarrow> (Inl e, set_os os1 w)
      | (Inr _, os1) \<Rightarrow>
          (case m_exe M of
             Inl e \<Rightarrow> (Inl e, set_os os1 w)
           | Inr exe \<Rightarrow>
               (let log_path = join_path [cf_repo_dir cfg, ''daemon.log'']
                in case os_open_append os1 log_path 384 of
                     (Inl e, os2) \<Rightarrow> (Inl e, set_os os2 w)
                   | (Inr _, os2) \<Rightarrow>
                       (case m_devnull M of
                          Inl e \<Rightarrow> (Inl e, set_os os2 w)
                        | Inr _ \<Rightarrow>
                            (case m_start M exe (fork_args c) (fork_env (m_env M) cfg) of
                               Inl e \<Rightarrow> (Inl e, set_os os2 w)
                             | Inr pid \<Rightarrow>
                                 (fork_wait (cf_api_socket cfg) log_path (m_waits M),
                                  print_line (Err (Sprintf ''started background daemon: pid %d, log %s''
                                    [AInt (int pid), AStr log_path])) (set_os os2 w)))))))"

definition pull_local ::
  "nat \<Rightarrow> ('k, 's, 'n, 'm, 'd, 'w) menv \<Rightarrow> config \<Rightarrow> assignment list \<Rightarrow> string \<Rightarrow> sources \<Rightarrow> 's node \<Rightarrow> ('s, 'w) mworld \<Rightarrow>
     (unit res \<times> ('s, 'w) mworld) option" where
  "pull_local n M cfg asg r src nd w =
     (let w1 = print_line (Out (Sprintf ''pulling %s as %s'' [AStr r, AStr (n_peer nd)])) w;
          D = at_node M cfg (n_peer nd)
      in case parse_repo_type (flag_string asg ''repo-type'' ''model'') of
           Inl e \<Rightarrow> Some (Inl e, w1)
         | Inr t \<Rightarrow>
             (case pull_run n (c_node D)
                     \<lparr>po_repo = r, po_type = t, po_commit = flag_string asg ''commit'' [], po_ref = flag_string asg ''ref'' ''main'',
                      po_peers = flag_values asg ''peer'', po_connect = flag_values asg ''connect'',
                      po_force = flag_bool asg ''force'', po_sources = src, po_token = cf_token cfg\<rparr>
                     \<lparr>pw_x = \<lparr>x_db = mw_db w1, x_os = mw_os w1, x_conn = fresh_conn [], x_done = 0, x_events = []\<rparr>,
                      pw_net = mw_net w1, pw_sent = []\<rparr> of
                None \<Rightarrow> None
              | Some (res, pw) \<Rightarrow>
                  Some (res, (set_os (x_os (pw_x pw)) w1)\<lparr>mw_db := x_db (pw_x pw), mw_net := pw_net pw,
                    mw_out := foldl (\<lambda>out e. snd (print_event (render_event D e) out)) (mw_out w1) (x_events (pw_x pw))\<rparr>)))"

definition pull_request :: "config \<Rightarrow> assignment list \<Rightarrow> string \<Rightarrow> sources \<Rightarrow> control_request" where
  "pull_request cfg asg r src =
     \<lparr>cr_cmd = CmdPull, cr_repo = r, cr_type = flag_string asg ''repo-type'' ''model'',
      cr_commit = flag_string asg ''commit'' [], cr_ref = flag_string asg ''ref'' ''main'', cr_peers = flag_values asg ''peer'',
      cr_connect = flag_values asg ''connect'', cr_force = flag_bool asg ''force'', cr_from = sources_string src,
      cr_token = cf_token cfg\<rparr>"

definition try_fork ::
  "('k, 's, 'n, 'm, 'd, 'w) menv \<Rightarrow> config \<Rightarrow> assignment list \<Rightarrow> ('s, 'w) mworld \<Rightarrow> ('s, 'w) mworld" where
  "try_fork M cfg asg w =
     (if \<not> m_probes M 0 \<and> \<not> flag_bool asg ''no-fork''
      then (case fork_daemon M cfg (common_of asg) w of
              (Inl e, w1) \<Rightarrow> print_line (Err (SprintfErr ''sf: background daemon did not start (%v); pulling in-process'' [] e)) w1
            | (Inr _, w1) \<Rightarrow> w1)
      else w)"

definition cmd_pull ::
  "nat \<Rightarrow> ('k, 's, 'n, 'm, 'd, 'w) menv \<Rightarrow> string \<Rightarrow> string list \<Rightarrow> ('s, 'w) mworld \<Rightarrow> (unit res \<times> ('s, 'w) mworld) option" where
  "cmd_pull n M name args w =
     (case prologue M pull_flags
             (Some (Errorf ''usage: sf %s <repo_id> [--commit <hash>] [--peer <multiaddr>]'' [AStr name])) args of
        Inl e \<Rightarrow> Some (Inl e, w)
      | Inr (asg, pos, cfg) \<Rightarrow>
          (case parse_sources (flag_string asg ''from'' ''p2p,hf'') of
             Inl e \<Rightarrow> Some (Inl (Wrapf ''--from: %w'' [] e), w)
           | Inr src \<Rightarrow>
               (let w1 = (if flag_bool asg ''no-daemon'' then w else try_fork M cfg asg w)
                in if \<not> flag_bool asg ''no-daemon'' \<and> m_probes M 1
                   then Some (proxy M cfg (pull_request cfg asg (hd pos) src)
                                (print_line (Err (Sprintf ''proxying to daemon at %s'' [AStr (cf_api_socket cfg)])) w1))
                   else (let cfg1 = cfg\<lparr>cf_dht_server := False\<rparr>
                         in with_node M cfg1 (pull_local n M cfg1 asg (hd pos) src) w1))))"

section \<open>Ingest, evict, list\<close>

definition ingest_lines :: "msg list \<Rightarrow> line list" where
  "ingest_lines ms = map (\<lambda>m. Err (case m of Lit s \<Rightarrow> Lit (''  '' @ s) | Sprintf f as \<Rightarrow> Sprintf (''  '' @ f) as
      | SprintfErr f as e \<Rightarrow> SprintfErr (''  '' @ f) as e)) ms"

definition ingest_local ::
  "nat \<Rightarrow> ('k, 's, 'n, 'm, 'd, 'w) menv \<Rightarrow> config \<Rightarrow> control_request \<Rightarrow> 's node \<Rightarrow> ('s, 'w) mworld \<Rightarrow>
     (unit res \<times> ('s, 'w) mworld) option" where
  "ingest_local n M cfg req nd w =
     (let E = c_node (at_node M cfg (n_peer nd)); L = i_cids (e_ingest E)
      in case parse_repo_type (cr_type req) of
           Inl e \<Rightarrow> Some (Inl e, w)
         | Inr t \<Rightarrow>
             (case ingest_commit (at_node M cfg (n_peer nd)) req t (mw_os w) of
                (Inl e, os1) \<Rightarrow> Some (Inl e, set_os os1 w)
              | (Inr commit, os1) \<Rightarrow>
                  (case ingest_run n (e_ingest E) (e_maps E) (cf_chunk_size cfg) (cf_hub_dir cfg) (cr_repo req) t commit (e_now E)
                          \<lparr>iw_db = mw_db w, iw_os = os1, iw_log = []\<rparr> of
                     None \<Rightarrow> None
                   | Some (res, iw) \<Rightarrow>
                       (let w1 = (set_os (iw_os iw) w)\<lparr>mw_db := iw_db iw, mw_out := mw_out w @ ingest_lines (iw_log iw)\<rparr>
                        in case res of
                             Inl e \<Rightarrow> Some (Inl e, w1)
                           | Inr ir \<Rightarrow>
                               Some (Inr (), print_line (Out (Sprintf (''shared %s@%s'' @ nl @ ''  actual_cid : %s'' @ nl @ ''  dummy_cid  : %s''
                                        @ nl @ ''  files      : %d'' @ nl @ ''  chunks     : %d'' @ nl @ ''  size       : %s'')
                                      [AStr (ir_repo ir), AStr (ir_commit ir), AStr (cid_string L (ir_actual ir)),
                                       AStr (cid_string L (ir_dummy ir)), AInt (int (ir_files ir)), AInt (ir_chunks ir),
                                       human_bytes (ir_total ir)]))
                                 (w1\<lparr>mw_net := snd (provide_commit L (e_net E) commit (ir_actual ir) (mw_net w1))\<rparr>))))))"

definition cmd_ingest ::
  "nat \<Rightarrow> ('k, 's, 'n, 'm, 'd, 'w) menv \<Rightarrow> string list \<Rightarrow> ('s, 'w) mworld \<Rightarrow> (unit res \<times> ('s, 'w) mworld) option" where
  "cmd_ingest n M args w =
     (case prologue M ingest_flags (Some (Errorf ''usage: sf ingest <repo_id> [--commit <hash>]'' [])) args of
        Inl e \<Rightarrow> Some (Inl e, w)
      | Inr (asg, pos, cfg) \<Rightarrow>
          (let req = (blank_request CmdIngest)\<lparr>cr_repo := hd pos, cr_type := flag_string asg ''repo-type'' ''model'',
                        cr_commit := flag_string asg ''commit'' [], cr_ref := flag_string asg ''ref'' ''main''\<rparr>
           in if m_probes M 0 then Some (proxy M cfg req w)
              else (let cfg1 = cfg\<lparr>cf_dht_server := False\<rparr> in with_node M cfg1 (ingest_local n M cfg1 req) w)))"

definition evict_local ::
  "nat \<Rightarrow> ('k, 's, 'n, 'm, 'd, 'w) menv \<Rightarrow> config \<Rightarrow> string \<Rightarrow> string \<Rightarrow> 's node \<Rightarrow> ('s, 'w) mworld \<Rightarrow>
     (unit res \<times> ('s, 'w) mworld) option" where
  "evict_local n M cfg r commit nd w =
     (let D = at_node M cfg (n_peer nd); L = cids (e_pull (c_node D));
          ew = \<lparr>ev_db = mw_db w, ev_os = mw_os w, ev_log = []\<rparr>
      in if commit \<noteq> []
         then (case map_get (e_maps (c_node D)) (mw_db w) commit of
                 Inl e \<Rightarrow> Some (Inl e, w)
               | Inr None \<Rightarrow> Some (Inl (Errorf ''commit %s is not shared by this node'' [AStr (short12 commit)]), w)
               | Inr (Some entry) \<Rightarrow>
                   (case evict_commit n L (c_boxo D) (c_order D) (c_target D) entry ew of
                      None \<Rightarrow> None
                    | Some (res, ew1) \<Rightarrow>
                        (let w1 = (set_os (ev_os ew1) w)\<lparr>mw_db := ev_db ew1\<rparr>
                         in case res of
                              Inl e \<Rightarrow> Some (Inl e, w1)
                            | Inr _ \<Rightarrow> Some (Inr (), print_line (Out (Sprintf ''evicted %s@%s''
                                         [AStr (repo_id entry), AStr (short12 (commit_hash entry))])) w1))))
         else (case evict_repo n L (c_boxo D) (c_order D) (c_target D) r ew of
                 None \<Rightarrow> None
               | Some (k, err, ew1) \<Rightarrow>
                   (let w1 = (set_os (ev_os ew1) w)\<lparr>mw_db := ev_db ew1, mw_out := mw_out w @ ingest_lines (ev_log ew1)\<rparr>
                    in case err of
                         Some e \<Rightarrow> Some (Inl e, w1)
                       | None \<Rightarrow> Some (Inr (), print_line (Out (Sprintf ''evicted %d revision(s) of %s''
                                    [AInt (int k), AStr r])) w1))))"

definition cmd_evict ::
  "nat \<Rightarrow> ('k, 's, 'n, 'm, 'd, 'w) menv \<Rightarrow> string list \<Rightarrow> ('s, 'w) mworld \<Rightarrow> (unit res \<times> ('s, 'w) mworld) option" where
  "cmd_evict n M args w =
     (case prologue M evict_flags (Some (Errorf ''usage: sf evict <repo_id> [--commit <hash>]'' [])) args of
        Inl e \<Rightarrow> Some (Inl e, w)
      | Inr (asg, pos, cfg) \<Rightarrow>
          (let commit = flag_string asg ''commit'' []
           in if m_probes M 0
              then Some (proxy M cfg ((blank_request CmdEvict)\<lparr>cr_repo := hd pos, cr_commit := commit\<rparr>) w)
              else (let cfg1 = cfg\<lparr>cf_dht_server := False\<rparr> in with_node M cfg1 (evict_local n M cfg1 (hd pos) commit) w)))"

definition entry_line :: "entry \<Rightarrow> line" where
  "entry_line e = Out (Sprintf ''%-40s @ %s  ->  %s  (%s, %d files, %s)''
     [AStr (repo_id e), AStr (short12 (commit_hash e)), AStr (actual_cid e), AStr (repo_type e),
      AInt (int (length (files e))), human_bytes (total_size e)])"

definition list_local ::
  "('k, 's, 'n, 'm, 'd, 'w) menv \<Rightarrow> 's node \<Rightarrow> ('s, 'w) mworld \<Rightarrow> (unit res \<times> ('s, 'w) mworld) option" where
  "list_local M nd w =
     (case map_list (e_maps (c_node (m_libs M))) (mw_db w) of
        Inl e \<Rightarrow> Some (Inl e, w)
      | Inr es \<Rightarrow>
          Some (Inr (), w\<lparr>mw_out := mw_out w @ (if es = [] then [Out (Lit ''no shared revisions yet'')] else map entry_line es)\<rparr>))"

definition cmd_list ::
  "('k, 's, 'n, 'm, 'd, 'w) menv \<Rightarrow> string list \<Rightarrow> ('s, 'w) mworld \<Rightarrow> (unit res \<times> ('s, 'w) mworld) option" where
  "cmd_list M args w =
     (case prologue M common_flags None args of
        Inl e \<Rightarrow> Some (Inl e, w)
      | Inr (asg, pos, cfg) \<Rightarrow>
          if m_probes M 0 then Some (proxy M cfg (blank_request CmdList) w)
          else with_node M (cfg\<lparr>cf_dht_server := False\<rparr>) (list_local M) w)"

section \<open>Status, id, resolve, shutdown\<close>

definition cmd_status :: "('k, 's, 'n, 'm, 'd, 'w) menv \<Rightarrow> string list \<Rightarrow> ('s, 'w) mworld \<Rightarrow> unit res \<times> ('s, 'w) mworld" where
  "cmd_status M args w =
     (case prologue M common_flags None args of
        Inl e \<Rightarrow> (Inl e, w)
      | Inr (asg, pos, cfg) \<Rightarrow>
          if m_probes M 0
          then proxy M cfg (blank_request CmdStatus) (print_line (Out (Lit ''daemon: running'')) w)
          else (let w1 = print_line (Out (Lit ''daemon: not running'')) w
                in case load_identity (nl_keys (m_new M)) (key_path cfg) (mw_os w1) of
                     (Inl _, os1) \<Rightarrow> (Inr (), set_os os1 w1)
                   | (Inr _, os1) \<Rightarrow>
                       (Inr (), print_line (Out (Lit ''(identity present; run `sf daemon` to share)'')) (set_os os1 w1))))"

definition cmd_id :: "('k, 's, 'n, 'm, 'd, 'w) menv \<Rightarrow> string list \<Rightarrow> ('s, 'w) mworld \<Rightarrow> unit res \<times> ('s, 'w) mworld" where
  "cmd_id M args w =
     (case prologue M common_flags None args of
        Inl e \<Rightarrow> (Inl e, w)
      | Inr (asg, pos, cfg) \<Rightarrow>
          (case load_identity (nl_keys (m_new M)) (key_path cfg) (mw_os w) of
             (Inl _, os1) \<Rightarrow>
               (Inl (Errorf ''no identity yet at %s (run `sf daemon` once to create it)'' [AStr (key_path cfg)]), set_os os1 w)
           | (Inr (_, pid), os1) \<Rightarrow> (Inr (), print_line (Out (Lit pid)) (set_os os1 w))))"

definition cmd_resolve :: "('k, 's, 'n, 'm, 'd, 'w) menv \<Rightarrow> string list \<Rightarrow> ('s, 'w) mworld \<Rightarrow> unit res \<times> ('s, 'w) mworld" where
  "cmd_resolve M args w =
     (case prologue M resolve_flags (Some (Errorf ''usage: sf resolve <repo_id>'' [])) args of
        Inl e \<Rightarrow> (Inl e, w)
      | Inr (asg, pos, cfg) \<Rightarrow>
          (case parse_repo_type (flag_string asg ''repo-type'' ''model'') of
             Inl e \<Rightarrow> (Inl e, w)
           | Inr t \<Rightarrow>
               (let E = c_node (m_libs M)
                in case fst (repo_info_latest (h_url_ok (e_hub E)) (e_answers E 0)
                          ((new_client (cf_endpoint cfg))\<lparr>token := cf_token cfg\<rparr>) (hd pos) t True) of
                     Inl e \<Rightarrow> (Inl e, w)
                   | Inr info \<Rightarrow>
                       (case from_commit (cids (e_pull E)) (ri_sha info) of
                          Inl e \<Rightarrow> (Inl e, w)
                        | Inr d \<Rightarrow>
                            (Inr (), print_line (Out (Sprintf (''repo       : %s'' @ nl @ ''commit     : %s'' @ nl
                               @ ''dummy cid  : %s'' @ nl @ ''files      : %d'')
                               [AStr (ri_id info), AStr (ri_sha info), AStr (cid_string (cids (e_pull E)) d),
                                AInt (int (length (ri_siblings info)))])) w)))))"

definition cmd_shutdown :: "('k, 's, 'n, 'm, 'd, 'w) menv \<Rightarrow> string list \<Rightarrow> ('s, 'w) mworld \<Rightarrow> unit res \<times> ('s, 'w) mworld" where
  "cmd_shutdown M args w =
     (case prologue M common_flags None args of
        Inl e \<Rightarrow> (Inl e, w)
      | Inr (asg, pos, cfg) \<Rightarrow>
          if \<not> m_probes M 0 then (Inl (Errorf ''no daemon running'' []), w)
          else proxy M cfg (blank_request CmdShutdown) w)"

section \<open>Daemon\<close>

definition boot_desc :: "config \<Rightarrow> msg" where
  "boot_desc cfg =
     (if cf_isolated cfg then Lit ''isolated (none)''
      else if cf_bootstrap cfg \<noteq> [] then Sprintf ''%d custom'' [AInt (int (length (cf_bootstrap cfg)))]
      else Lit ''libp2p defaults'')"

definition boot_arg :: "config \<Rightarrow> fmtarg" where
  "boot_arg cfg = (case boot_desc cfg of Lit s \<Rightarrow> AStr s | Sprintf f as \<Rightarrow> ASprintf f as | SprintfErr f as _ \<Rightarrow> ASprintf f as)"

definition banner :: "('k, 's, 'n, 'm, 'd, 'w) menv \<Rightarrow> config \<Rightarrow> string \<Rightarrow> 'w \<Rightarrow> line list" where
  "banner M cfg pid net =
     (let D = at_node M cfg pid
      in [Out (Sprintf ''sf %s daemon'' [AStr ''0.6.0'']), Out (Sprintf ''  peer id : %s'' [AStr pid])]
         @ map (\<lambda>a. Out (Sprintf ''  addr    : %s'' [AStr a])) (node_addrs D net)
         @ (if cf_dht_server cfg \<and> loopback_only (e_net (c_node D)) (c_host_addrs D net)
            then [Err (Lit (''  warn    : bound to loopback only '' @ utf8_dash @ '' no other peer can dial this node.'' @ nl
                     @ ''            The DHT will hand out 127.0.0.1, so every transparent pull fails.'' @ nl
                     @ ''            Drop the --listen override to get the default /ip4/0.0.0.0/tcp/4008.''))]
            else [])
         @ [Out (Sprintf ''  hub     : %s'' [AStr (cf_hub_dir cfg)]), Out (Sprintf ''  repo    : %s'' [AStr (cf_repo_dir cfg)]),
            Out (Sprintf ''  hf      : endpoint=%s token=%s'' [AStr (cf_endpoint cfg), AStr (token_status (cf_token cfg))]),
            Out (Sprintf ''  dht     : server=%t bootstrap=%s''
              [AStr (if cf_dht_server cfg then ''true'' else ''false''), boot_arg cfg]),
            Out (Sprintf ''  nat     : portmap=%s relay=%s holepunch=%s bulk-over-relay=%s relay-service=%s static-relays=%d''
              [AStr (on_off (cf_nat_port_map cfg \<and> \<not> cf_isolated cfg)), AStr (on_off (cf_relay cfg)),
               AStr (on_off (cf_hole_punch cfg \<and> \<not> cf_isolated cfg)), AStr (on_off (cf_relay_bulk cfg)),
               AStr (on_off (cf_relay_service cfg \<and> \<not> cf_isolated cfg)), AInt (int (length (cf_static_relays cfg)))])])"

text \<open>From the started node to the open control socket: dialling, waiting for the routing table, announcing.\<close>

definition daemon_join ::
  "('k, 's, 'n, 'm, 'd, 'w) menv \<Rightarrow> config \<Rightarrow> string \<Rightarrow> ('s, 'w) mworld \<Rightarrow> ('s, 'w) mworld" where
  "daemon_join M cfg pid w =
     (let D = at_node M cfg pid; E = c_node D;
          w1 = w\<lparr>mw_out := mw_out w @ banner M cfg pid (mw_net w), mw_net := dial_peers (e_net E) (cf_connect cfg) (mw_net w)\<rparr>
      in case wait_for_routing_table (e_net E) (e_ticks E) (e_canceled E) (mw_net w1) of
           (rt, net2) \<Rightarrow>
             (let w2 = w1\<lparr>mw_net := net2, mw_out := mw_out w1
                   @ [Out (Sprintf ''  swarm   : routing table %d peer(s)'' [AInt (int rt)])]
                   @ (if rt = 0 \<and> \<not> cf_isolated cfg
                      then [Err (Lit ''  warn    : not joined the DHT swarm; provider records cannot be announced or resolved'')]
                      else [])
                   @ [Out (Sprintf ''  reach   : %s'' [AStr (reachability_line (c_reach D net2) cfg)])]\<rparr>
              in case reprovide_all (cids (e_pull E)) (e_maps E) (e_net E) (mw_db w2) (mw_net w2) of
                   (r, net3) \<Rightarrow>
                     w2\<lparr>mw_net := net3, mw_out := mw_out w2 @
                        (case r of
                           Inl e \<Rightarrow> [Err (SprintfErr ''  warn    : reprovide failed: %v'' [] e)]
                         | Inr k \<Rightarrow> if k > 0 then [Out (Sprintf ''  shared  : re-announced %d revision(s)'' [AInt (int k)])] else [])\<rparr>))"

text \<open>
  Serving until a signal, a shutdown request or the end of the watcher: what happens meanwhile is the
  argument \<open>life\<close>, whose result is what \<open>cmdDaemon\<close> returns. The steps it is made of are the watcher's and the control
  server's. The socket is closed before the node.
\<close>

definition daemon_serve ::
  "('k, 's, 'n, 'm, 'd, 'w) menv \<Rightarrow> (('s, 'w) mworld \<Rightarrow> unit res \<times> ('s, 'w) mworld) \<Rightarrow> config \<Rightarrow> 's node \<Rightarrow> ('s, 'w) mworld \<Rightarrow>
     (unit res \<times> ('s, 'w) mworld) option" where
  "daemon_serve M life cfg nd w =
     (let w1 = daemon_join M cfg (n_peer nd) w
      in case serve_socket (m_remove_err M) (m_listen_err M) (m_chmod_err M) (cf_api_socket cfg) (mw_sock w1) of
           (Inl e, sk) \<Rightarrow> Some (Inl e, w1\<lparr>mw_sock := sk\<rparr>)
         | (Inr _, sk) \<Rightarrow>
             (case life (w1\<lparr>mw_sock := sk, mw_out := mw_out w1 @
                       [Out (Sprintf ''  control : %s'' [AStr (cf_api_socket cfg)]),
                        Out (Lit (''  running '' @ utf8_dash @ '' Ctrl-C to stop''))]\<rparr>) of
                (r, w2) \<Rightarrow> Some (r, w2\<lparr>mw_sock := server_close (mw_sock w2)\<rparr>)))"

text \<open>The configuration of the daemon: its own flags first, then the common ones.\<close>

definition daemon_settings :: "('k, 's, 'n, 'm, 'd, 'w) menv \<Rightarrow> string list \<Rightarrow> config res" where
  "daemon_settings M args =
     (case parse_flags (m_nums M) daemon_flags (split_args daemon_flags args) [] of
        Inl e \<Rightarrow> Inl e
      | Inr (asg, pos) \<Rightarrow>
          (case default_config (m_home M) (m_env M) of
             Inl e \<Rightarrow> Inl e
           | Inr cfg0 \<Rightarrow> apply_common (m_level M) (common_of asg) (daemon_config (m_nums M) asg cfg0)))"

definition cmd_daemon ::
  "('k, 's, 'n, 'm, 'd, 'w) menv \<Rightarrow> (('s, 'w) mworld \<Rightarrow> unit res \<times> ('s, 'w) mworld) \<Rightarrow> string list \<Rightarrow> ('s, 'w) mworld \<Rightarrow>
     (unit res \<times> ('s, 'w) mworld) option" where
  "cmd_daemon M life args w =
     (if args \<noteq> [] \<and> hd args = ''stop'' then Some (cmd_shutdown M (tl args) w)
      else case daemon_settings M args of
             Inl e \<Rightarrow> Some (Inl e, w)
           | Inr cfg \<Rightarrow> with_node M cfg (daemon_serve M life cfg) w)"

section \<open>The program\<close>

definition run_cmd ::
  "nat \<Rightarrow> ('k, 's, 'n, 'm, 'd, 'w) menv \<Rightarrow> (('s, 'w) mworld \<Rightarrow> unit res \<times> ('s, 'w) mworld) \<Rightarrow> string \<Rightarrow> string list \<Rightarrow>
     ('s, 'w) mworld \<Rightarrow> (unit res \<times> ('s, 'w) mworld) option" where
  "run_cmd n M life usage_text args w =
     (case args of
        [] \<Rightarrow> Some (Inl (Errorf ''missing command'' []), print_line (Err (Lit usage_text)) w)
      | cmd # rest \<Rightarrow>
          if cmd = ''daemon'' then cmd_daemon M life rest w
          else if cmd = ''pull'' \<or> cmd = ''download'' then cmd_pull n M cmd rest w
          else if cmd = ''ingest'' then cmd_ingest n M rest w
          else if cmd = ''evict'' then cmd_evict n M rest w
          else if cmd = ''list'' then cmd_list M rest w
          else if cmd = ''status'' then Some (cmd_status M rest w)
          else if cmd = ''id'' then Some (cmd_id M rest w)
          else if cmd = ''resolve'' then Some (cmd_resolve M rest w)
          else if cmd = ''shutdown'' then Some (cmd_shutdown M rest w)
          else if cmd = ''version'' \<or> cmd = ''-v'' \<or> cmd = ''--version''
          then Some (Inr (), print_line (Out (Lit ''sf 0.6.0'')) w)
          else if cmd = ''help'' \<or> cmd = ''-h'' \<or> cmd = ''--help'' then Some (Inr (), print_line (Err (Lit usage_text)) w)
          else Some (Inl (Errorf ''unknown command %q'' [AStr cmd]), print_line (Err (Lit usage_text)) w))"

text \<open>\<open>main\<close>: the exit code and the lines printed.\<close>

definition main_exit :: "unit res \<times> ('s, 'w) mworld \<Rightarrow> nat \<times> line list" where
  "main_exit rw =
     (case rw of
        (Inr _, w) \<Rightarrow> (0, mw_out w)
      | (Inl e, w) \<Rightarrow> (1, mw_out w @ (if errors_is e ErrHelp then [] else [Err (SprintfErr ''sf: error: %v'' [] e)])))"

section \<open>Locks and open resources\<close>

definition same_proc :: "('s, 'w) mworld \<Rightarrow> ('s, 'w) mworld \<Rightarrow> bool" where
  "same_proc w w1 = (nw_locks (mw_nw w1) = nw_locks (mw_nw w) \<and> nw_open (mw_nw w1) = nw_open (mw_nw w))"

lemma same_proc_refl [simp]: "same_proc w w"
  by (simp add: same_proc_def)

lemma same_proc_trans: "same_proc w w1 \<Longrightarrow> same_proc w1 w2 \<Longrightarrow> same_proc w w2"
  by (simp add: same_proc_def)

lemma same_proc_simps [simp]:
  "same_proc w (set_os os w1) = same_proc w w1" "same_proc w (print_line l w1) = same_proc w w1"
  "same_proc w (w1\<lparr>mw_db := db\<rparr>) = same_proc w w1" "same_proc w (w1\<lparr>mw_net := net\<rparr>) = same_proc w w1"
  "same_proc w (w1\<lparr>mw_out := out\<rparr>) = same_proc w w1" "same_proc w (w1\<lparr>mw_sock := sk\<rparr>) = same_proc w w1"
  by (simp_all add: same_proc_def set_os_def print_line_def)

lemma proxy_same: "proxy M cfg req w = (r, w1) \<Longrightarrow> same_proc w w1"
  by (auto simp: proxy_def split: prod.splits)

lemma fork_same: "fork_daemon M cfg c w = (r, w1) \<Longrightarrow> same_proc w w1"
  by (auto simp: fork_daemon_def Let_def split: prod.splits sum.splits)

lemma try_fork_same: "same_proc w (try_fork M cfg asg w)"
  by (auto simp: try_fork_def dest: fork_same split: prod.splits sum.splits)

lemma pull_local_same: "pull_local n M cfg asg q src nd w = Some (r, w1) \<Longrightarrow> same_proc w w1"
  by (auto simp: pull_local_def Let_def split: sum.splits option.splits)

lemma ingest_local_same: "ingest_local n M cfg req nd w = Some (r, w1) \<Longrightarrow> same_proc w w1"
  by (auto simp: ingest_local_def Let_def split: sum.splits option.splits prod.splits)

lemma evict_local_same: "evict_local n M cfg q commit nd w = Some (r, w1) \<Longrightarrow> same_proc w w1"
  by (auto simp: evict_local_def Let_def split: sum.splits option.splits prod.splits if_splits)

lemma list_local_same: "list_local M nd w = Some (r, w1) \<Longrightarrow> same_proc w w1"
  by (auto simp: list_local_def split: sum.splits)

lemma daemon_join_same: "same_proc w (daemon_join M cfg pid w)"
  by (auto simp: daemon_join_def Let_def split: prod.splits)

lemma daemon_serve_same:
  assumes "\<And>w. same_proc w (snd (life w))" "daemon_serve M life cfg nd w = Some (r, w1)"
  shows "same_proc w w1"
proof -
  obtain r1 sk where s: "serve_socket (m_remove_err M) (m_listen_err M) (m_chmod_err M) (cf_api_socket cfg)
      (mw_sock (daemon_join M cfg (n_peer nd) w)) = (r1, sk)" by fastforce
  note j = daemon_join_same [of w M cfg "n_peer nd"]
  show ?thesis
  proof (cases r1)
    case (Inl e)
    with assms(2) s j show ?thesis by (auto simp: daemon_serve_def Let_def)
  next
    case (Inr u)
    let ?w2 = "(daemon_join M cfg (n_peer nd) w)\<lparr>mw_sock := sk, mw_out := mw_out (daemon_join M cfg (n_peer nd) w) @
        [Out (Sprintf ''  control : %s'' [AStr (cf_api_socket cfg)]), Out (Lit (''  running '' @ utf8_dash @ '' Ctrl-C to stop''))]\<rparr>"
    obtain r2 w2 where l: "life ?w2 = (r2, w2)" by fastforce
    have "same_proc w ?w2" using j by simp
    then have "same_proc w (snd (life ?w2))" by (rule same_proc_trans) (rule assms(1))
    then have "same_proc w w2" unfolding l by simp
    with assms(2) s Inr l show ?thesis by (auto simp: daemon_serve_def Let_def)
  qed
qed

text \<open>What a command leaves: nothing open and no lock taken, compared with before.\<close>

definition released :: "('s, 'w) mworld \<Rightarrow> ('s, 'w) mworld \<Rightarrow> bool" where
  "released w w1 = (nw_open (mw_nw w1) = nw_open (mw_nw w) \<and> holder (nw_locks (mw_nw w1)) = holder (nw_locks (mw_nw w)))"

text \<open>What a command may leave of its own node's managers when its node could not be started: the connection manager if there is no
  resource manager, and those that a failing \<open>libp2p.New\<close> does not close.\<close>

definition leaks_managers :: "('k, 's, 'n, 'm, 'd, 'w) menv \<Rightarrow> ('s, 'w) mworld \<Rightarrow> ('s, 'w) mworld \<Rightarrow> bool" where
  "leaks_managers M w w1 =
     (holder (nw_locks (mw_nw w1)) = holder (nw_locks (mw_nw w))
      \<and> (\<not> ok (nl_rcmgr (m_new M)) \<and> nw_open (mw_nw w1) = RConnMgr # nw_open (mw_nw w)
         \<or> (\<exists>opts. \<not> ok (nl_host (m_new M) opts))
            \<and> nw_open (mw_nw w1) = filter (\<lambda>m. \<not> nl_undoes (m_new M) m) [RRcMgr, RConnMgr] @ nw_open (mw_nw w)))"

definition cleans :: "('k, 's, 'n, 'm, 'd, 'w) menv \<Rightarrow> ('s, 'w) mworld \<Rightarrow> unit res \<Rightarrow> ('s, 'w) mworld \<Rightarrow> bool" where
  "cleans M w r w1 = (released w w1 \<or> \<not> ok r \<and> leaks_managers M w w1)"

text \<open>A host closes the managers it was given.\<close>

definition host_owns :: "('k, 's, 'n, 'm, 'd, 'w) menv \<Rightarrow> bool" where
  "host_owns M = (nl_owns (m_new M) RConnMgr \<and> nl_owns (m_new M) RRcMgr)"

lemma released_cleans: "released w w1 \<Longrightarrow> cleans M w r w1"
  by (simp add: cleans_def)

lemma same_released: "same_proc w w1 \<Longrightarrow> released w w1"
  by (simp add: same_proc_def released_def)

lemma same_cleans: "same_proc w w1 \<Longrightarrow> cleans M w r w1"
  by (rule released_cleans) (rule same_released)

lemma cleans_after_same: "same_proc w w1 \<Longrightarrow> cleans M w1 r w2 \<Longrightarrow> cleans M w r w2"
  by (simp add: same_proc_def released_def cleans_def leaks_managers_def)

lemma node_close_cong:
  assumes "nw_locks w1 = nw_locks w" "nw_open w1 = nw_open w"
  shows "nw_open (node_close nd w1) = nw_open (node_close nd w)" "nw_locks (node_close nd w1) = nw_locks (node_close nd w)"
  using assms
  by (simp_all add: node_close_def close_host_def release_managers_def release_def release_lock_def Let_def)

lemma with_node_released:
  assumes "host_owns M" "with_node M cfg op w = Some (r, w')" "\<And>nd w r w1. op nd w = Some (r, w1) \<Longrightarrow> same_proc w w1"
  shows "cleans M w r w' \<or> \<not> ok (host_options (nl_net (m_new M)) cfg) \<and> \<not> ok r
    \<and> nw_open (mw_nw w') = RRcMgr # RConnMgr # RStore # nw_open (mw_nw w)"
proof -
  obtain r1 nw where nn: "node_new (m_new M) cfg (mw_nw w) = (r1, nw)" by fastforce
  note eff = node_new_cases [OF nn] assms(1) [unfolded host_owns_def]
  show ?thesis
  proof (cases r1)
    case (Inl e)
    with assms(2) nn have "r = Inl e" "w' = w\<lparr>mw_nw := nw\<rparr>" by (auto simp: with_node_def)
    with eff Inl show ?thesis by (auto simp: cleans_def released_def leaks_managers_def)
  next
    case (Inr nd)
    let ?w0 = "w\<lparr>mw_nw := nw, mw_db := n_db nd\<rparr>"
    from assms(2) nn Inr obtain w1 where op: "op nd ?w0 = Some (r, w1)" and w': "w' = w1\<lparr>mw_nw := node_close nd (mw_nw w1)\<rparr>"
      by (auto simp: with_node_def split: option.splits)
    from assms(3) [OF op] have "nw_locks (mw_nw w1) = nw_locks nw" "nw_open (mw_nw w1) = nw_open nw"
      by (simp_all add: same_proc_def)
    from node_close_cong [OF this, of nd] eff Inr have "released w w'" by (simp add: w' released_def)
    then show ?thesis by (simp add: cleans_def)
  qed
qed

text \<open>Only malformed static relays make the options fail.\<close>

lemma host_options_relays: "\<not> ok (host_options N c) \<Longrightarrow> \<not> ok (static_relays N (cf_static_relays c))"
  by (auto simp: host_options_def relay_options_def Let_def split: sum.splits if_splits)

lemma host_options_plain: "cf_static_relays c = [] \<Longrightarrow> ok (host_options N c)"
  by (simp add: host_options_def relay_options_def Let_def)

lemma prologue_relays:
  assumes "prologue M F usage args = Inr (asg, pos, cfg)"
  shows "cf_static_relays cfg = []"
proof -
  from assms obtain cfg0 where "default_config (m_home M) (m_env M) = Inr cfg0" "cfg = override_config (common_of asg) cfg0"
    by (auto simp: prologue_def apply_common_def split: sum.splits if_splits)
  moreover from this(1) have "cf_static_relays cfg0 = []"
    by (auto simp: default_config_def Let_def simp del: first_non_empty.simps split: sum.splits)
  ultimately show ?thesis by (simp add: override_config_def Let_def)
qed

lemma local_cleans:
  assumes "host_owns M" "prologue M F usage args = Inr (asg, pos, cfg)" "with_node M (cfg\<lparr>cf_dht_server := False\<rparr>) op w = Some (r, w')"
    and "\<And>nd w r w1. op nd w = Some (r, w1) \<Longrightarrow> same_proc w w1"
  shows "cleans M w r w'"
proof -
  have "ok (host_options (nl_net (m_new M)) (cfg\<lparr>cf_dht_server := False\<rparr>))"
    using prologue_relays [OF assms(2)] by (intro host_options_plain) simp
  with with_node_released [OF assms(1,3,4)] show ?thesis by simp
qed

lemma cmd_pull_cleans:
  assumes "host_owns M" "cmd_pull n M name args w = Some (r, w')"
  shows "cleans M w r w'"
proof (cases "prologue M pull_flags
    (Some (Errorf ''usage: sf %s <repo_id> [--commit <hash>] [--peer <multiaddr>]'' [AStr name])) args")
  case (Inl e)
  with assms(2) show ?thesis by (auto simp: cmd_pull_def intro: same_cleans)
next
  case (Inr apc)
  then obtain asg pos cfg where p: "prologue M pull_flags
      (Some (Errorf ''usage: sf %s <repo_id> [--commit <hash>] [--peer <multiaddr>]'' [AStr name])) args = Inr (asg, pos, cfg)"
    by (cases apc) auto
  let ?w1 = "if flag_bool asg ''no-daemon'' then w else try_fork M cfg asg w"
  have s1: "same_proc w ?w1" using try_fork_same [of w M cfg asg] by simp
  show ?thesis
  proof (cases "parse_sources (flag_string asg ''from'' ''p2p,hf'')")
    case (Inl e)
    with assms(2) p show ?thesis by (auto simp: cmd_pull_def intro: same_cleans)
  next
    case (Inr src)
    show ?thesis
    proof (cases "\<not> flag_bool asg ''no-daemon'' \<and> m_probes M 1")
      case True
      with assms(2) p Inr have "proxy M cfg (pull_request cfg asg (hd pos) src)
          (print_line (Err (Sprintf ''proxying to daemon at %s'' [AStr (cf_api_socket cfg)])) ?w1) = (r, w')"
        by (simp add: cmd_pull_def)
      from proxy_same [OF this] s1 show ?thesis by (auto intro: same_cleans simp: same_proc_def print_line_def)
    next
      case False
      with assms(2) p Inr have "with_node M (cfg\<lparr>cf_dht_server := False\<rparr>)
          (pull_local n M (cfg\<lparr>cf_dht_server := False\<rparr>) asg (hd pos) src) ?w1 = Some (r, w')"
        by (auto simp: cmd_pull_def Let_def)
      from local_cleans [OF assms(1) p this] pull_local_same have "cleans M ?w1 r w'" by blast
      with s1 show ?thesis by (rule cleans_after_same)
    qed
  qed
qed

lemma cmd_ingest_cleans: "host_owns M \<Longrightarrow> cmd_ingest n M args w = Some (r, w') \<Longrightarrow> cleans M w r w'"
  by (auto simp: cmd_ingest_def Let_def split: sum.splits if_splits
      intro: same_cleans dest: proxy_same [THEN same_cleans] local_cleans [OF _ _ _ ingest_local_same])

lemma cmd_evict_cleans: "host_owns M \<Longrightarrow> cmd_evict n M args w = Some (r, w') \<Longrightarrow> cleans M w r w'"
  by (auto simp: cmd_evict_def Let_def split: sum.splits if_splits
      intro: same_cleans dest: proxy_same [THEN same_cleans] local_cleans [OF _ _ _ evict_local_same])

lemma cmd_list_cleans: "host_owns M \<Longrightarrow> cmd_list M args w = Some (r, w') \<Longrightarrow> cleans M w r w'"
  by (auto simp: cmd_list_def split: sum.splits if_splits
      intro: same_cleans dest: proxy_same [THEN same_cleans] local_cleans [OF _ _ _ list_local_same])

lemma cmd_status_same: "cmd_status M args w = (r, w') \<Longrightarrow> same_proc w w'"
  using proxy_same [of M _ "blank_request CmdStatus" "print_line (Out (Lit ''daemon: running'')) w" r w']
  by (fastforce simp: cmd_status_def Let_def same_proc_def print_line_def set_os_def split: sum.splits if_splits prod.splits)

lemma cmd_id_same: "cmd_id M args w = (r, w') \<Longrightarrow> same_proc w w'"
  by (auto simp: cmd_id_def split: sum.splits prod.splits)

lemma cmd_resolve_same: "cmd_resolve M args w = (r, w') \<Longrightarrow> same_proc w w'"
  by (auto simp: cmd_resolve_def Let_def split: sum.splits prod.splits)

lemma cmd_shutdown_same: "cmd_shutdown M args w = (r, w') \<Longrightarrow> same_proc w w'"
  by (auto simp: cmd_shutdown_def dest: proxy_same split: sum.splits prod.splits if_splits)

text \<open>What \<open>sf daemon\<close> leaves when its static relays are malformed.\<close>

definition leaks_store :: "('k, 's, 'n, 'm, 'd, 'w) menv \<Rightarrow> string list \<Rightarrow> ('s, 'w) mworld \<Rightarrow> ('s, 'w) mworld \<Rightarrow> bool" where
  "leaks_store M args w w1 =
     ((\<exists>cfg. daemon_settings M args = Inr cfg \<and> \<not> ok (static_relays (nl_net (m_new M)) (cf_static_relays cfg)))
      \<and> nw_open (mw_nw w1) = RRcMgr # RConnMgr # RStore # nw_open (mw_nw w))"

lemma cmd_daemon_cleans:
  assumes "host_owns M" "\<And>w. same_proc w (snd (life w))" "cmd_daemon M life args w = Some (r, w')"
  shows "cleans M w r w' \<or> \<not> ok r \<and> leaks_store M args w w'"
proof (cases "args \<noteq> [] \<and> hd args = ''stop''")
  case True
  with assms(3) cmd_shutdown_same [of M "tl args" w r w'] show ?thesis by (simp add: cmd_daemon_def same_cleans)
next
  case False
  show ?thesis
  proof (cases "daemon_settings M args")
    case (Inl e)
    with assms(3) False show ?thesis by (auto simp: cmd_daemon_def intro: same_cleans)
  next
    case (Inr cfg)
    with assms(3) False have run: "with_node M cfg (daemon_serve M life cfg) w = Some (r, w')"
      by (auto simp: cmd_daemon_def)
    have "cleans M w r w' \<or> \<not> ok (host_options (nl_net (m_new M)) cfg) \<and> \<not> ok r
        \<and> nw_open (mw_nw w') = RRcMgr # RConnMgr # RStore # nw_open (mw_nw w)"
      by (rule with_node_released [OF assms(1) run]) (rule daemon_serve_same [OF assms(2)])
    with Inr show ?thesis
      by (auto simp: leaks_store_def dest!: host_options_relays)
  qed
qed

section \<open>Properties\<close>

lemma proxy_only_prints: "proxy M cfg req w = (r, w1) \<Longrightarrow> w1 = w\<lparr>mw_out := mw_out w1\<rparr>"
  by (auto simp: proxy_def split: prod.splits)

lemma proxied_prints:
  assumes "m_probes M 0" "args \<noteq> []" "hd args \<in> {''ingest'', ''evict'', ''list'', ''status'', ''shutdown''}"
    and "run_cmd n M life usage_text args w = Some (r, w')"
  shows "w' = w\<lparr>mw_out := mw_out w'\<rparr>"
proof -
  obtain cmd rest where a: "args = cmd # rest" using assms(2) by (cases args) auto
  from assms(3) a consider "cmd = ''ingest''" | "cmd = ''evict''" | "cmd = ''list''" | "cmd = ''status''" | "cmd = ''shutdown''"
    by auto
  then show ?thesis
  proof cases
    case 1
    with assms(1,4) a show ?thesis
      by (auto simp: run_cmd_def cmd_ingest_def Let_def dest!: proxy_only_prints split: sum.splits)
  next
    case 2
    with assms(1,4) a show ?thesis
      by (auto simp: run_cmd_def cmd_evict_def Let_def dest!: proxy_only_prints split: sum.splits)
  next
    case 3
    with assms(1,4) a show ?thesis
      by (auto simp: run_cmd_def cmd_list_def dest!: proxy_only_prints split: sum.splits)
  next
    case 4
    with assms(1,4) a show ?thesis
      by (cases "prologue M common_flags None rest")
         (auto simp: run_cmd_def cmd_status_def print_line_def proxy_def split: prod.splits)
  next
    case 5
    with assms(1,4) a show ?thesis
      by (auto simp: run_cmd_def cmd_shutdown_def dest!: proxy_only_prints split: sum.splits)
  qed
qed

lemma if_branchE: "(if b then x else y) = z \<Longrightarrow> (x = z \<Longrightarrow> P) \<Longrightarrow> (y = z \<Longrightarrow> P) \<Longrightarrow> P"
  by (cases b) auto

text \<open>A pull that may use the daemon and finds it both times it looks.\<close>

definition pulls_by_daemon :: "('k, 's, 'n, 'm, 'd, 'w) menv \<Rightarrow> string list \<Rightarrow> bool" where
  "pulls_by_daemon M args =
     (m_probes M 0 \<and> m_probes M 1
      \<and> (case parse_flags (m_nums M) pull_flags (split_args pull_flags args) [] of
           Inl _ \<Rightarrow> True | Inr (asg, _) \<Rightarrow> \<not> flag_bool asg ''no-daemon''))"

lemma pull_prints:
  assumes "pulls_by_daemon M args" "cmd_pull n M name args w = Some (r, w')"
  shows "w' = w\<lparr>mw_out := mw_out w'\<rparr>"
proof (cases "prologue M pull_flags
    (Some (Errorf ''usage: sf %s <repo_id> [--commit <hash>] [--peer <multiaddr>]'' [AStr name])) args")
  case (Inl e)
  with assms(2) show ?thesis by (auto simp: cmd_pull_def)
next
  case (Inr apc)
  then obtain asg pos cfg where p: "prologue M pull_flags
      (Some (Errorf ''usage: sf %s <repo_id> [--commit <hash>] [--peer <multiaddr>]'' [AStr name])) args = Inr (asg, pos, cfg)"
    by (cases apc) auto
  then have "\<not> flag_bool asg ''no-daemon''" "m_probes M 0" "m_probes M 1"
    using assms(1) by (auto simp: pulls_by_daemon_def prologue_def split: sum.splits if_splits)
  with assms(2) p show ?thesis
    by (auto simp: cmd_pull_def try_fork_def proxy_def print_line_def split: sum.splits prod.splits)
qed

lemma run_cmd_pull:
  "cmd = ''pull'' \<or> cmd = ''download'' \<Longrightarrow> run_cmd n M life usage_text (cmd # rest) w = cmd_pull n M cmd rest w"
  by (auto simp: run_cmd_def)

lemma run_cmd_cleans:
  assumes "host_owns M" "\<And>w. same_proc w (snd (life w))" "run_cmd n M life usage_text args w = Some (r, w')"
  shows "cleans M w r w' \<or> args \<noteq> [] \<and> hd args = ''daemon'' \<and> \<not> ok r \<and> leaks_store M (tl args) w w'"
proof (cases args)
  case Nil
  with assms(3) show ?thesis by (auto simp: run_cmd_def intro: same_cleans)
next
  case (Cons cmd rest)
  show ?thesis
  proof (cases "cmd = ''daemon''")
    case True
    with Cons assms(3) cmd_daemon_cleans [OF assms(1,2), of rest w r w'] show ?thesis by (simp add: run_cmd_def)
  next
    case False
    then have "cleans M w r w'"
      using assms(3) unfolding run_cmd_def Cons list.case if_not_P [OF False]
      by (elim if_branchE)
         (auto dest: cmd_pull_cleans [OF assms(1)] cmd_ingest_cleans [OF assms(1)] cmd_evict_cleans [OF assms(1)]
           cmd_list_cleans [OF assms(1)] cmd_status_same [THEN same_cleans] cmd_id_same [THEN same_cleans]
           cmd_resolve_same [THEN same_cleans] cmd_shutdown_same [THEN same_cleans] intro: same_cleans)
    then show ?thesis ..
  qed
qed

text \<open>C40: every command cleans up and respects the single writer. Whatever its arguments and whatever fails, a command that
  ends has released the repository lock and closed everything its node opened, with these exceptions, all of them failed starts of
  the node: the managers that \<open>New\<close> leaves open when the resource manager cannot be made or \<open>libp2p.New\<close> fails; and
  the store, the lock and both managers when \<open>sf daemon\<close> is configured with malformed static relays. Where a daemon answers
  on the control socket, \<open>ingest\<close>, \<open>evict\<close>, \<open>list\<close>, \<open>status\<close>, \<open>shutdown\<close> and, without \<open>--no-daemon\<close>, \<open>pull\<close> and
  \<open>download\<close> start no node and no daemon and change nothing but what is printed. (A host closes the managers it was given.)\<close>

theorem cli_releases:
  assumes "nl_owns (m_new M) RConnMgr" "nl_owns (m_new M) RRcMgr"
    and "\<forall>w. same_proc w (snd (life w))" "run_cmd n M life usage_text args w = Some (r, w')"
  shows "(released w w'
      \<or> \<not> ok r \<and> leaks_managers M w w'
      \<or> \<not> ok r \<and> args \<noteq> [] \<and> hd args = ''daemon'' \<and> leaks_store M (tl args) w w')
    \<and> (m_probes M 0 \<and> args \<noteq> [] \<and> hd args \<in> {''ingest'', ''evict'', ''list'', ''status'', ''shutdown''} \<longrightarrow>
         w' = w\<lparr>mw_out := mw_out w'\<rparr>)
    \<and> (args \<noteq> [] \<and> hd args \<in> {''pull'', ''download''} \<and> pulls_by_daemon M (tl args) \<longrightarrow> w' = w\<lparr>mw_out := mw_out w'\<rparr>)"
proof (intro conjI impI)
  have "host_owns M" using assms(1,2) by (simp add: host_owns_def)
  from run_cmd_cleans [OF this _ assms(4)] assms(3) show "released w w' \<or> \<not> ok r \<and> leaks_managers M w w'
      \<or> \<not> ok r \<and> args \<noteq> [] \<and> hd args = ''daemon'' \<and> leaks_store M (tl args) w w'"
    unfolding cleans_def by blast
next
  assume "m_probes M 0 \<and> args \<noteq> [] \<and> hd args \<in> {''ingest'', ''evict'', ''list'', ''status'', ''shutdown''}"
  with proxied_prints [OF _ _ _ assms(4)] show "w' = w\<lparr>mw_out := mw_out w'\<rparr>" by blast
next
  assume p: "args \<noteq> [] \<and> hd args \<in> {''pull'', ''download''} \<and> pulls_by_daemon M (tl args)"
  then obtain cmd rest where a: "args = cmd # rest" by (cases args) auto
  have "cmd = ''pull'' \<or> cmd = ''download''" using p a by simp
  from run_cmd_pull [OF this, of n M life usage_text rest w] assms(4) a
  have "cmd_pull n M cmd rest w = Some (r, w')" by simp
  with pull_prints [OF _ this] p a show "w' = w\<lparr>mw_out := mw_out w'\<rparr>" by simp
qed

text \<open>A process without a running daemon, and one whose daemon has just died.\<close>

definition shell_env :: "bool \<Rightarrow> (string, memdb, cid list, dnode, (string \<times> dnode) list, cid list) menv" where
  "shell_env up = \<lparr>m_home = Inr ''/h'', m_env = (\<lambda>_. []), m_level = (\<lambda>_ _. Inr ()), m_nums = plain_nums, m_new = small_lib,
     m_libs = lone_daemon, m_probes = (\<lambda>_. up), m_conn = Inl (Sentinel ECONNREFUSED), m_exe = Inr ''/bin/sf'', m_devnull = Inr (),
     m_start = (\<lambda>_ _ _. Inr 1), m_waits = [], m_remove_err = None, m_listen_err = None, m_chmod_err = None\<rparr>"

definition shell_world :: "(memdb, cid list) mworld" where
  "shell_world = \<lparr>mw_nw = small_world, mw_db = ([], []), mw_net = [],
     mw_sock = \<lparr>so_node = None, so_busy = False, so_umask = 18, so_modes = []\<rparr>, mw_out = []\<rparr>"

lemma shell_returns:
  "\<exists>r w'. run_cmd 0 (shell_env up) (\<lambda>w. (Inr (), w)) [] [''list''] shell_world = Some (r, w')"
proof -
  have "cmd_list M args w \<noteq> None"
    for M :: "(string, memdb, cid list, dnode, (string \<times> dnode) list, cid list) menv" and args w
    by (auto simp: cmd_list_def with_node_def list_local_def split: sum.split prod.split)
  then show ?thesis by (auto simp: run_cmd_def)
qed

theorem cli_releases_witness:
  "(\<exists>r w'. run_cmd 0 (shell_env False) (\<lambda>w. (Inr (), w)) [] [''list''] shell_world = Some (r, w')
      \<and> nw_open (mw_nw w') = [] \<and> holder (nw_locks (mw_nw w')) = (\<lambda>_. None))
   \<and> (\<exists>r w'. run_cmd 0 (shell_env True) (\<lambda>w. (Inr (), w)) [] [''list''] shell_world = Some (r, w')
      \<and> w' = shell_world\<lparr>mw_out := mw_out w'\<rparr>)"
proof -
  have own: "nl_owns (m_new (shell_env up)) RConnMgr" "nl_owns (m_new (shell_env up)) RRcMgr"
    and up: "ok (nl_rcmgr (m_new (shell_env up)))" "ok (nl_host (m_new (shell_env up)) opts)" for up opts
    by (simp_all add: shell_env_def small_lib_def)
  have l: "\<forall>w :: (memdb, cid list) mworld. same_proc w (snd (Inr () :: unit res, w))" by simp
  have p: "m_probes (shell_env True) 0" by (simp add: shell_env_def)
  obtain r w' where a: "run_cmd 0 (shell_env False) (\<lambda>w. (Inr (), w)) [] [''list''] shell_world = Some (r, w')"
    using shell_returns by blast
  obtain r2 w2 where b: "run_cmd 0 (shell_env True) (\<lambda>w. (Inr (), w)) [] [''list''] shell_world = Some (r2, w2)"
    using shell_returns by blast
  have "released shell_world w'" using cli_releases [OF own l a] up by (auto simp: leaks_managers_def)
  then have "nw_open (mw_nw w') = [] \<and> holder (nw_locks (mw_nw w')) = (\<lambda>_. None)"
    by (simp add: released_def shell_world_def small_world_def)
  moreover have "w2 = shell_world\<lparr>mw_out := mw_out w2\<rparr>" using cli_releases [OF own l b] p by simp
  ultimately show ?thesis using a b by blast
qed

end
