(* ===== verification/Records.thy ===== *)
theory Records
  imports Pull Watch Controls
begin

text \<open>
  What the stored mappings of a node have in common, whichever operation wrote them. A record of the mapping
  bucket is the encoding of an entry, filed under its commit hash, that can be announced: the hash has a dummy CID, the
  entry's own dummy CID is absent or that one, and its content CID can be decoded. Every operation of the node keeps this:
  ingest, evict, pull from peers or from the Hub, the commands of the control socket and the turns of the watcher. What they
  need of the libraries, that block operations leave the mapping bucket alone, is the interface \<open>node_stores\<close>; it is
  interpreted on the node's own database.
\<close>

section \<open>Sound records\<close>

definition announceable :: "cidlib \<Rightarrow> entry \<Rightarrow> bool" where
  "announceable L e =
     (ok (cid_decode L (actual_cid e))
      \<and> (\<exists>d. from_commit L (commit_hash e) = Inr d \<and> (dummy_cid e = [] \<or> cid_decode L (dummy_cid e) = Inr d)))"

definition records_ok :: "cidlib \<Rightarrow> 's maplib \<Rightarrow> 's \<Rightarrow> bool" where
  "records_ok L M s = (\<forall>k v. valid_key k \<longrightarrow> dget (mds M) s k = Inr v \<longrightarrow>
     (\<exists>e. marshal_entry e = Inr v \<and> k = map_key M (commit_hash e) \<and> announceable L e))"

text \<open>What is observed of the mapping bucket.\<close>

definition map_view :: "'s maplib \<Rightarrow> 's \<Rightarrow> (string \<Rightarrow> bytes res) \<times> (query \<Rightarrow> dsentry list res)" where
  "map_view M s = (dget (mds M) s, dquery (mds M) s)"

lemma same_map_view: "same_map M s s' \<longleftrightarrow> map_view M s' = map_view M s"
  by (auto simp: same_map_def map_view_def fun_eq_iff)

lemma records_view: "map_view M s' = map_view M s \<Longrightarrow> records_ok L M s' = records_ok L M s"
  by (simp add: map_view_def records_ok_def)

context mapping_db
begin

lemma records_put:
  assumes "records_ok L M s" "announceable L e"
  shows "records_ok L M (snd (map_put M s e))"
proof -
  obtain r s' where p: "map_put M s e = (r, s')" by fastforce
  show ?thesis
  proof (cases r)
    case (Inl err)
    with p assms(1) show ?thesis by (auto dest: map_put_err)
  next
    case (Inr u)
    with p obtain d where d: "marshal_entry e = Inr d"
      and q: "dput (mds M) s (map_key M (commit_hash e)) d = (Inr (), s')"
      by (auto simp: map_put_def split: if_splits sum.splits)
    from get_put [OF map_key_valid _ q] assms d show ?thesis
      unfolding p records_ok_def by (auto split: if_splits)
  qed
qed

lemma records_delete:
  assumes "records_ok L M s" "map_delete M s c = (r, s')"
  shows "records_ok L M s'"
proof (cases r)
  case (Inl err)
  with assms show ?thesis by (auto dest: map_delete_err)
next
  case (Inr u)
  with assms(2) have q: "ddelete (mds M) s (map_key M c) = (Inr (), s')" by (simp add: map_delete_def)
  from get_delete [OF map_key_valid _ q] assms(1) show ?thesis
    unfolding records_ok_def by (auto split: if_splits)
qed

end

section \<open>Eviction\<close>

context evict_target
begin

lemma evict_commit_records:
  assumes "evict_commit n L X order T e w = Some (r, w')" "records_ok L' (t_mapping T) (ev_db w)"
  shows "records_ok L' (t_mapping T) (ev_db w')"
  using assms(1)
proof (cases rule: evict_commit_cases)
  case (2 es root keep tgt)
  from 2(5) obtain r1 s1 where
    d: "delete_cids L (target_fm X T) (t_mainbs T) keep (order tgt) (ev_db w) = (r1, s1)"
    and m: "ev_db w' = s1 \<and> r \<noteq> Inr ()
      \<or> r1 = Inr () \<and> r = Inr () \<and> map_delete (t_mapping T) s1 (commit_hash e) = (Inr (), ev_db w')"
    by (rule evict_found_db)
  from delete_cids_effect [OF d] assms(2) have "records_ok L' (t_mapping T) s1"
    using records_view by (metis same_map_view)
  with m show ?thesis by (auto dest: maps.records_delete)
qed (use assms(2) in simp)

lemma evict_entries_records:
  "evict_entries n L X order T rid es k w = Some (k', err, w') \<Longrightarrow> records_ok L' (t_mapping T) (ev_db w) \<Longrightarrow>
   records_ok L' (t_mapping T) (ev_db w')"
  by (induction es arbitrary: k w)
     (auto split: if_splits option.splits sum.splits dest: evict_commit_records)

lemma evict_repo_records:
  "evict_repo n L X order T rid w = Some (k, err, w') \<Longrightarrow> records_ok L' (t_mapping T) (ev_db w) \<Longrightarrow>
   records_ok L' (t_mapping T) (ev_db w')"
  by (auto simp: evict_repo_def split: sum.splits option.splits if_splits dest: evict_entries_records)

end

section \<open>Ingest\<close>

text \<open>The importer and the directory builder store blocks: they leave an observation of the database alone, and the nodes
  they return have a CID made from a multihash.\<close>

locale ingest_store =
  fixes X :: "('s, 'n, 'd) ingestlib" and view :: "'s \<Rightarrow> 'v"
  assumes view_layout: "view (snd (layout_file X content rerr src chunk s)) = view s"
    and view_add_child: "view (snd (add_child X d nm nd s)) = view s"
    and view_dag_add: "view (snd (dag_add X nd s)) = view s"
    and node_valid: "cid_valid (i_cids X) (node_cid X nd)"
begin

lemma layout_view: "layout_file X content rerr src chunk s = (r, s') \<Longrightarrow> view s' = view s"
  using view_layout by (metis snd_conv)

lemma add_child_view: "add_child X d nm nd s = (r, s') \<Longrightarrow> view s' = view s"
  using view_add_child by (metis snd_conv)

lemma dag_add_view: "dag_add X nd s = (r, s') \<Longrightarrow> view s' = view s"
  using view_dag_add by (metis snd_conv)

lemma add_file_view: "add_file_nocopy X chunk f w = (r, w') \<Longrightarrow> view (iw_db w') = view (iw_db w)"
  by (auto simp: add_file_nocopy_def split: if_splits prod.splits sum.splits dest: layout_view)

lemma add_files_view: "add_files X chunk fs leaves bd k w = (r, w') \<Longrightarrow> view (iw_db w') = view (iw_db w)"
proof (induction fs arbitrary: leaves bd k w)
  case (Cons f fs)
  then show ?case by (fastforce split: prod.splits sum.splits dest: add_file_view)
qed simp

lemma link_leaves_view: "link_leaves X leaves fs d s = (r, s') \<Longrightarrow> view s' = view s"
proof (induction fs arbitrary: d s)
  case (Cons f fs)
  then show ?case by (fastforce split: prod.splits sum.splits option.splits dest: add_child_view)
qed simp

lemma build_dir_view:
  "build_dir n X' bd leaves dn s = Some (r, s') \<Longrightarrow> X' = X \<Longrightarrow> view s' = view s"
  "link_subdirs n X' bd leaves subs d s = Some (q, s') \<Longrightarrow> X' = X \<Longrightarrow> view s' = view s"
proof (induction n X' bd leaves dn s and n X' bd leaves subs d s arbitrary: r s' and q s'
    rule: build_dir_link_subdirs.induct)
  case (2 n X' bd leaves dn s)
  then show ?case
    by (fastforce split: sum.splits option.splits prod.splits dest: link_leaves_view dag_add_view)
next
  case (4 n X' bd leaves sub subs d s)
  then show ?case
    by (fastforce split: sum.splits option.splits prod.splits dest: add_child_view)
qed simp_all

lemma build_tree_view: "build_tree n X chunk fs w = Some (r, w') \<Longrightarrow> view (iw_db w') = view (iw_db w)"
  by (fastforce simp: build_tree_def split: sum.splits option.splits prod.splits dest: add_files_view build_dir_view(1))

end

lemma ingest_entry_announceable:
  assumes "multiformats L" "from_commit L c = Inr d" "cid_valid L a"
  shows "announceable L \<lparr>repo_id = r, repo_type = t, commit_hash = c, actual_cid = cid_string L a,
    dummy_cid = cid_string L d, files = fs, total_size = n, added_at = now, origin = og\<rparr>"
  using multiformats.decode_string [OF assms(1)] multiformats.from_commit_valid [OF assms(1,2)] assms(2,3)
  by (simp add: announceable_def)

lemma ingest_run_records:
  assumes X: "ingest_store X (map_view M)" and M: "mapping_db M" and L: "multiformats (i_cids X)"
    and run: "ingest_run n X M chunk hub r t commit now w = Some (res, w')"
    and sound: "records_ok (i_cids X) M (iw_db w)"
  shows "records_ok (i_cids X) M (iw_db w')"
proof -
  obtain r0 os1 where s: "read_snapshot (i_sha256 X) (new_paths hub r t) commit (iw_os w) = (r0, os1)" by fastforce
  show ?thesis
  proof (cases "\<exists>fs. r0 = Inr fs \<and> fs \<noteq> []")
    case False
    with run s sound show ?thesis by (auto simp: ingest_run_def Let_def split: sum.splits if_splits)
  next
    case True
    then obtain fs0 where fs0: "r0 = Inr fs0" "fs0 \<noteq> []" by blast
    obtain fs1 os2 where e: "enrich_from_tree (new_paths hub r t) commit fs0 os1 = (fs1, os2)" by fastforce
    obtain r1 w1 where b: "build_tree n X chunk fs1 (w\<lparr>iw_os := os2\<rparr>) = Some (r1, w1)"
      using run s fs0 e by (auto simp: ingest_run_def Let_def split: option.splits)
    from ingest_store.build_tree_view [OF X b] records_view sound
    have s1: "records_ok (i_cids X) M (iw_db w1)" by fastforce
    show ?thesis
    proof (cases "\<exists>root k dc. r1 = Inr (root, k) \<and> from_commit (i_cids X) commit = Inr dc")
      case False
      with run s fs0 e b s1 show ?thesis by (auto simp: ingest_run_def Let_def split: sum.splits if_splits)
    next
      case True
      then obtain root k dc where g: "r1 = Inr (root, k)" "from_commit (i_cids X) commit = Inr dc" by blast
      from mapping_db.records_put [OF M s1 ingest_entry_announceable [OF L g(2) ingest_store.node_valid [OF X]]]
        run s fs0 e b g
      show ?thesis by (auto simp: ingest_run_def Let_def split: sum.splits prod.splits)
        (metis snd_conv)+
    qed
  qed
qed

section \<open>Pull\<close>

lemma pull_entry_announceable:
  assumes "bound_response L commit actual resp" "ok (from_commit L commit)"
  shows "announceable L (pull_entry E commit opts resp)"
  using assms by (auto simp: bound_response_def announceable_def pull_entry_def ok_iff)

lemma fetch_blob_db:
  assumes "fetch_blob H srv c p r t commit f tot x = (res, f1, x', sent)"
  shows "x_db x' = x_db x"
proof -
  obtain st os1 where s: "os_stat (x_os x) (blob_path p (fm_blob f)) = (st, os1)" by fastforce
  obtain sfx os2 where rs: "rand_suffix os1 = (sfx, os2)" by fastforce
  obtain r3 os3 where cr: "os_create os2 (blob_path p (fm_blob f) @ ''.'' @ sfx @ ''.download'') 420 = (r3, os3)" by fastforce
  from assms s rs cr show ?thesis
    by (cases r3) (auto simp: fetch_blob_def Let_def emit_def split: if_splits prod.splits sum.splits)
qed

lemma fetch_blobs_db: "fetch_blobs k H net c p r t commit tot fs x = (res, x', sent) \<Longrightarrow> x_db x' = x_db x"
  by (induction fs arbitrary: k x res sent) (force dest: fetch_blob_db split: prod.splits sum.splits)+

text \<open>The libraries of a node: every operation on blocks leaves the mapping bucket alone.\<close>

locale node_libs =
  fixes E :: "('s, 'n, 'm, 'd, 'w) penv"
  assumes maps: "mapping_db (e_maps E)"
    and transfer: "transfer_store (e_pull E) (map_view (e_maps E))"
    and importer: "ingest_store (e_ingest E) (map_view (e_maps E))"
    and cidlib: "multiformats (cids (e_pull E))"
    and one_cidlib: "i_cids (e_ingest E) = cids (e_pull E)"
begin

abbreviation sound :: "'s \<Rightarrow> bool" where
  "sound db \<equiv> records_ok (cids (e_pull E)) (e_maps E) db"

lemma ingest_sound:
  "ingest_run n (e_ingest E) (e_maps E) chunk hub r t commit now w = Some (res, w') \<Longrightarrow> sound (iw_db w) \<longrightarrow> sound (iw_db w')"
  using ingest_run_records [OF importer maps] cidlib by (simp add: one_cidlib)

lemma hf_ingest_sound:
  "hf_ingest n E p commit opts pw = Some (r, pw') \<Longrightarrow> sound (x_db (pw_x pw)) \<longrightarrow> sound (x_db (pw_x pw'))"
  by (auto simp: hf_ingest_def Let_def split: option.splits sum.splits dest!: ingest_sound)

lemma hf_download_sound:
  assumes "hf_download n E p commit ref0 opts c siblings pw = Some (r, pw')"
  shows "sound (x_db (pw_x pw)) \<longrightarrow> sound (x_db (pw_x pw'))"
proof -
  obtain answer rqs where t: "tree_at (h_url_ok (e_hub E)) (next_answer E pw) c (po_repo opts) (po_type opts) commit
      = (answer, rqs)" by fastforce
  let ?xet = "case answer of Inl _ \<Rightarrow> [] | Inr tree \<Rightarrow> xet_by_path tree"
  show ?thesis
  proof (cases "manifest_from_revision siblings ?xet")
    case (Inl e)
    with assms show ?thesis by (auto simp: hf_download_def Let_def t)
  next
    case (Inr ft)
    then obtain fs tot where m: "manifest_from_revision siblings ?xet = Inr (fs, tot)" by (cases ft) auto
    let ?pw1 = "say (progress (Sprintf ''hf: %d file(s), %s'' [AInt (int (length fs)), human_bytes tot])) (log_sent rqs pw)"
    obtain r2 x2 rqs2 where fb: "fetch_blobs (length (pw_sent ?pw1)) (e_hub E) (e_answers E) c p (po_repo opts) (po_type opts)
        commit tot fs ((pw_x ?pw1)\<lparr>x_done := 0\<rparr>) = (r2, x2, rqs2)" by (metis prod_cases3)
    have db: "x_db x2 = x_db (pw_x pw)" using fetch_blobs_db [OF fb] by simp
    show ?thesis
    proof (cases r2)
      case err: (Inl e)
      with assms m fb db show ?thesis by (auto simp: hf_download_def Let_def t)
    next
      case fine: (Inr fs1)
      obtain r3 os3 where ws: "write_snapshot p commit fs1 ref0 (x_os x2) = (r3, os3)" by fastforce
      from assms m fb fine db ws show ?thesis
        by (cases r3) (auto simp: hf_download_def Let_def t dest!: hf_ingest_sound)
    qed
  qed
qed

lemma pull_from_hf_sound:
  assumes "pull_from_hf n E p commit ref0 opts pw = Some (r, pw')"
  shows "sound (x_db (pw_x pw)) \<longrightarrow> sound (x_db (pw_x pw'))"
proof -
  let ?pw1 = "say (progress (Sprintf ''hf: fetching %s @ %s from %s''
      [AStr (po_repo opts), AStr (short12 commit), AStr (cf_endpoint (e_cfg E))])) pw"
  obtain r1 os1 where mk: "os_mkdir_all (x_os (pw_x ?pw1)) (p_blobs p) = (r1, os1)" by fastforce
  with assms show ?thesis
    by (cases r1)
       (auto simp: pull_from_hf_def Let_def split: sum.splits if_splits dest!: hf_download_sound)
qed

lemma try_providers_sound:
  assumes "try_providers n E p commit ref0 opts qs last0 pw = Some (r, pw')" "sound (x_db (pw_x pw))"
    and "ok (from_commit (cids (e_pull E)) commit)"
  shows "sound (x_db (pw_x pw'))"
  using try_providers_effect [OF transfer assms(1)]
proof (elim disjE exE conjE)
  assume "map_view (e_maps E) (x_db (pw_x pw')) = map_view (e_maps E) (x_db (pw_x pw))"
  from records_view [OF this] assms(2) show ?thesis by simp
next
  fix x1 actual resp
  assume v: "map_view (e_maps E) (x_db x1) = map_view (e_maps E) (x_db (pw_x pw))"
    and b: "bound_response (cids (e_pull E)) commit actual resp"
    and db: "x_db (pw_x pw') = snd (map_put (e_maps E) (x_db x1) (pull_entry E commit opts resp))"
  from records_view [OF v] assms(2) have "sound (x_db x1)" by simp
  from mapping_db.records_put [OF maps this pull_entry_announceable [OF b assms(3)]] show ?thesis
    by (simp add: db)
qed

lemma pull_from_peers_sound:
  assumes "pull_from_peers n E p commit ref0 opts pw = Some (r, pw')" "sound (x_db (pw_x pw))"
    and "ok (from_commit (cids (e_pull E)) commit)"
  shows "sound (x_db (pw_x pw'))"
proof -
  obtain given pw1 where d: "dial_given (e_net E) (po_peers opts) [] pw = (given, pw1)" by fastforce
  let ?pw2 = "dial_dht (e_net E) (po_connect opts) pw1"
  obtain sz w3 where wt: "wait_for_routing_table (e_net E) (e_ticks E) (e_canceled E) (pw_net ?pw2) = (sz, w3)" by fastforce
  have db: "x_db (pw_x ?pw2) = x_db (pw_x pw)"
    using dial_given_db [OF d] dial_dht_db [of "e_net E" "po_connect opts" pw1] by simp
  from assms(1) d wt consider (none) "x_db (pw_x pw') = x_db (pw_x ?pw2)"
    | (some) qs pw6 where "try_providers n E p commit ref0 opts qs None pw6 = Some (r, pw')" "x_db (pw_x pw6) = x_db (pw_x ?pw2)"
    by (fastforce simp: pull_from_peers_def Let_def split: prod.splits if_splits sum.splits)
  then show ?thesis
    by cases (use db assms(2,3) try_providers_sound in auto)
qed

lemma pull_sources_sound:
  assumes "pull_sources n E p commit ref0 opts pw = Some (r, pw')" "sound (x_db (pw_x pw))"
    and "ok (from_commit (cids (e_pull E)) commit)"
  shows "sound (x_db (pw_x pw'))"
proof (cases "P2P (sources_resolve (po_sources opts))")
  case True
  then obtain r1 pw1 where pp: "pull_from_peers n E p commit ref0 opts pw = Some (r1, pw1)"
    using assms(1) by (cases "pull_from_peers n E p commit ref0 opts pw") (auto simp: pull_sources_def)
  from pull_from_peers_sound [OF pp assms(2,3)] assms(1) True pp show ?thesis
    by (cases r1) (auto simp: pull_sources_def Let_def split: if_splits dest!: pull_from_hf_sound)
next
  case False
  with assms show ?thesis by (auto simp: pull_sources_def Let_def split: if_splits dest: pull_from_hf_sound)
qed

lemma pull_run_sound:
  assumes "pull_run n E opts pw = Some (r, pw')" "sound (x_db (pw_x pw))"
  shows "sound (x_db (pw_x pw'))"
proof -
  obtain r1 pw1 where a: "pull_step_a E opts pw = (r1, pw1)" by fastforce
  have db: "x_db (pw_x pw1) = x_db (pw_x pw)" using a by (auto simp: pull_step_a_def Let_def split: if_splits prod.splits sum.splits)
  show ?thesis
  proof (cases "trim_space (po_repo opts) = [] \<or> \<not> ok r1 \<or> \<not> ok (from_commit (cids (e_pull E)) (projr r1))")
    case True
    with assms a db show ?thesis
      by (auto simp: pull_run_def Let_def split: if_splits sum.splits)
  next
    case False
    then obtain commit where c: "r1 = Inr commit" "ok (from_commit (cids (e_pull E)) commit)" by (auto simp: ok_iff)
    let ?ref = "if po_ref opts = [] then ''main'' else po_ref opts"
    let ?p = "new_paths (cf_hub_dir (e_cfg E)) (po_repo opts) (po_type opts)"
    let ?pw2 = "say (progress (Sprintf ''step A: %s @ %s'' [AStr (po_repo opts), AStr commit])) pw1"
    let ?found = "if po_force opts then None
      else case map_get (e_maps E) (x_db (pw_x ?pw2)) commit of Inr (Some e) \<Rightarrow> Some e | _ \<Rightarrow> None"
    from c(2) obtain dc where dc: "from_commit (cids (e_pull E)) commit = Inr dc" by (auto simp: ok_iff)
    show ?thesis
    proof (cases ?found)
      case None
      with assms(1) False a c dc have "pull_sources n E ?p commit ?ref opts ?pw2 = Some (r, pw')"
        by (simp add: pull_run_def Let_def)
      from pull_sources_sound [OF this] assms(2) db c(2) show ?thesis by simp
    next
      case (Some e)
      obtain b os3 where sc: "snapshot_complete ?p commit (x_os (pw_x ?pw2)) = (b, os3)" by fastforce
      obtain r4 os4 where ws: "write_snapshot ?p commit (files e) ?ref os3 = (r4, os4)" by fastforce
      from assms False a c dc Some sc ws db show ?thesis
        by (cases b; cases r4) (auto simp: pull_run_def Let_def)
    qed
  qed
qed

end

section \<open>Commands and the watcher\<close>

text \<open>The watcher of the daemon works on the node of the control server.\<close>

definition watch_env ::
  "('s, 'n, 'm, 'd, 'w) cenv \<Rightarrow> (string list \<Rightarrow> string \<Rightarrow> unit res) \<Rightarrow> ('s, 'm, 'd, 'w) wenv" where
  "watch_env D fsadd =
     \<lparr>v_cfg = e_cfg (c_node D), v_ingest = e_ingest (c_node D), v_maps = e_maps (c_node D), v_net = e_net (c_node D),
      v_boxo = c_boxo D, v_order = c_order D, v_mainbs = c_mainbs D, v_stores = c_stores D, v_fsadd = fsadd,
      v_now = e_now (c_node D)\<rparr>"

lemma watch_env_simps [simp]:
  "v_maps (watch_env D f) = e_maps (c_node D)" "v_ingest (watch_env D f) = e_ingest (c_node D)"
  "v_boxo (watch_env D f) = c_boxo D" "v_target (watch_env D f) = c_target D"
  "v_order (watch_env D f) = c_order D" "v_cfg (watch_env D f) = e_cfg (c_node D)"
  by (simp_all add: watch_env_def v_target_def c_target_def)

lemma target_mapping [simp]: "t_mapping (c_target D) = e_maps (c_node D)"
  by (simp add: c_target_def from_node_def)

locale node_stores = node_libs "c_node D" for D :: "('s, 'n, 'm, 'd, 'w) cenv" +
  assumes evictions: "evict_target (cids (e_pull (c_node D))) (c_boxo D) (c_target D)"
begin

lemma evict_commit_sound:
  "evict_commit n (cids (e_pull (c_node D))) (c_boxo D) order (c_target D) e w = Some (r, w') \<Longrightarrow>
   sound (ev_db w) \<longrightarrow> sound (ev_db w')"
  using evict_target.evict_commit_records [OF evictions] by auto

lemma evict_repo_sound:
  "evict_repo n (cids (e_pull (c_node D))) (c_boxo D) order (c_target D) rid w = Some (k, err, w') \<Longrightarrow>
   sound (ev_db w) \<longrightarrow> sound (ev_db w')"
  using evict_target.evict_repo_records [OF evictions] by auto

lemma do_pull_sound: "do_pull n D req w = Some (evs, w') \<Longrightarrow> sound (cw_db w) \<longrightarrow> sound (cw_db w')"
  by (auto simp: do_pull_def split: sum.splits option.splits dest!: pull_run_sound)

lemma do_ingest_sound: "do_ingest n D req w = Some (evs, w') \<Longrightarrow> sound (cw_db w) \<longrightarrow> sound (cw_db w')"
  by (auto simp: do_ingest_def split: sum.splits option.splits prod.splits dest!: ingest_sound)

lemma do_evict_sound: "do_evict n D req w = Some (evs, w') \<Longrightarrow> sound (cw_db w) \<longrightarrow> sound (cw_db w')"
  by (auto simp: do_evict_def Let_def split: if_splits sum.splits option.splits
      dest!: evict_commit_sound evict_repo_sound)

lemma dispatch_sound: "dispatch n D req w = Some (evs, w') \<Longrightarrow> sound (cw_db w) \<longrightarrow> sound (cw_db w')"
  by (auto simp: dispatch_def split: if_splits prod.splits
      dest!: do_pull_sound do_ingest_sound do_evict_sound)

abbreviation W :: "(string list \<Rightarrow> string \<Rightarrow> unit res) \<Rightarrow> ('s, 'm, 'd, 'w) wenv" where
  "W f \<equiv> watch_env D f"

lemma evict_entry_sound: "evict_entry n (W f) e w = Some (r, w') \<Longrightarrow> sound (ww_db w) \<longrightarrow> sound (ww_db w')"
  by (auto simp: evict_entry_def one_cidlib split: option.splits prod.splits dest!: evict_commit_sound)

lemma prune_entries_sound: "prune_entries n (W f) r es w = Some w' \<Longrightarrow> sound (ww_db w) \<longrightarrow> sound (ww_db w')"
  by (induction es arbitrary: w)
     (fastforce split: if_splits prod.splits option.splits bool.splits dest: evict_entry_sound)+

lemma prune_orphans_sound: "prune_orphans n (W f) r w = Some w' \<Longrightarrow> sound (ww_db w) \<longrightarrow> sound (ww_db w')"
  by (auto simp: prune_orphans_def split: sum.splits dest!: prune_entries_sound)

lemma try_ingest_sound: "try_ingest n (W f) r w = Some w' \<Longrightarrow> sound (ww_db w) \<longrightarrow> sound (ww_db w')"
  by (auto simp: try_ingest_def Let_def split: prod.splits sum.splits option.splits if_splits
      dest!: prune_orphans_sound evict_entry_sound ingest_sound)

lemma ingest_all_sound: "ingest_all n (W f) live k rs w = Some (b, w') \<Longrightarrow> sound (ww_db w) \<longrightarrow> sound (ww_db w')"
  by (induction rs arbitrary: k w) (fastforce split: if_splits option.splits dest: try_ingest_sound)+

lemma scan_sound: "scan n (W f) live w = Some w' \<Longrightarrow> sound (ww_db w) \<longrightarrow> sound (ww_db w')"
  by (auto simp: scan_def split: prod.splits sum.splits option.splits bool.splits
      dest!: ingest_all_sound prune_orphans_sound)

lemma flush_sound: "flush n (W f) live now w = Some w' \<Longrightarrow> sound (ww_db w) \<longrightarrow> sound (ww_db w')"
  by (auto simp: flush_def Let_def dest!: ingest_all_sound)

lemma rescan_sound: "rescan n (W f) live w = Some w' \<Longrightarrow> sound (ww_db w) \<longrightarrow> sound (ww_db w')"
  by (auto simp: rescan_def dest!: scan_sound)

end

text \<open>Watching directories touches nothing but the watcher's own maps and the clock of the file system.\<close>

lemma add_watches_db [simp]: "ww_db (add_watches E ds w) = ww_db w"
  by (induction ds arbitrary: w) (auto split: prod.splits sum.splits)

lemma add_repo_watches_db [simp]: "ww_db (add_repo_watches E d w) = ww_db w"
  unfolding add_repo_watches_def by (rule add_watches_db)

lemma track_repos_db [simp]: "ww_db (track_repos E es w) = ww_db w"
  by (induction E es w rule: track_repos.induct) auto

lemma track_existing_db [simp]: "ww_db (track_existing_repos E w) = ww_db w"
  by (auto simp: track_existing_repos_def split: prod.splits sum.splits)

lemma handle_event_db [simp]: "ww_db (handle_event E now ev w) = ww_db w"
  by (auto simp: handle_event_def watch_created_def Let_def split: prod.splits sum.splits option.splits)

context node_stores
begin

lemma run_init_sound: "run_init n (W f) live w = Some (r, w') \<Longrightarrow> sound (ww_db w) \<longrightarrow> sound (ww_db w')"
  by (auto simp: run_init_def split: prod.splits sum.splits dest!: scan_sound)

end

section \<open>The node's own database\<close>

lemma node_view:
  assumes "node_mappings s' = node_mappings s"
  shows "map_view node_maps s' = map_view node_maps s"
proof -
  from assms have "BucketMap \<in> set (fst s') \<longleftrightarrow> BucketMap \<in> set (fst s)" "\<And>k. mem_get s' BucketMap k = mem_get s BucketMap k"
    by (auto simp: node_mappings_def fun_eq_iff)
  moreover from this have "bucket_foreach mem_bolt s' BucketMap = bucket_foreach mem_bolt s BucketMap"
    using mem_foreach_keys [of BucketMap s] mem_foreach_keys [of BucketMap s']
    by (auto simp: mem_bolt_def sorted_list_of_set_sort_remdups [symmetric] simp del: set_map set_filter)
  moreover have "tx_begin mem_bolt db = Inr ()" "bucket_exists mem_bolt db b = (b \<in> set (fst db))"
    "bucket_get mem_bolt db b k = mem_get db b k" for db b k
    by (simp_all add: mem_bolt_def)
  ultimately show ?thesis
    by (simp add: map_view_def bolt_ds_def ds_get_def ds_query_def db_view_def fun_eq_iff)
qed

text \<open>An importer that stores a reference for every file and a block for every directory.\<close>

definition node_key :: "dnode \<Rightarrow> cid" where
  "node_key nd = (case nd of
     FileNode src \<Rightarrow> new_cidv1 ref_cids Raw ([char_of (0 :: nat), char_of (0 :: nat)] @ src)
   | DirNode d \<Rightarrow> new_cidv1 ref_cids DagProtobuf ([char_of (0 :: nat), char_of (0 :: nat)] @ concat (map fst d)))"

definition node_ingest :: "(memdb, dnode, (string \<times> dnode) list) ingestlib" where
  "node_ingest = tree_lib
     \<lparr>layout_file := (\<lambda>_ _ src _ s. case bs_put (node_blocks BucketFilestore) s (node_key (FileNode src)) src of
          (Inl e, s1) \<Rightarrow> (Inl e, s1) | (Inr _, s1) \<Rightarrow> (Inr (FileNode src), s1)),
      dag_add := (\<lambda>nd s. bs_put (node_blocks BucketBlocks) s (node_key nd) (node_key nd)),
      node_cid := node_key\<rparr>"

interpretation node_importer: ingest_store node_ingest "map_view node_maps"
proof
  fix content :: bytes and rerr :: "goerr option" and src :: string and chunk :: int and s :: memdb
  show "map_view node_maps (snd (layout_file node_ingest content rerr src chunk s)) = map_view node_maps s"
    using node_put_mappings [of BucketFilestore s "node_key (FileNode src)" src]
    by (intro node_view) (auto simp: node_ingest_def split: prod.split sum.split)
next
  fix d :: "(string \<times> dnode) list" and nm :: string and nd :: dnode and s :: memdb
  show "map_view node_maps (snd (add_child node_ingest d nm nd s)) = map_view node_maps s"
    by (simp add: node_ingest_def tree_lib_def)
next
  fix nd :: dnode and s :: memdb
  show "map_view node_maps (snd (dag_add node_ingest nd s)) = map_view node_maps s"
    by (rule node_view) (simp add: node_ingest_def node_put_mappings)
  have "cid_valid ref_cids (node_key nd)"
    by (auto simp: node_key_def cid_valid_def ref_cids_def Raw_def DagProtobuf_def ok_def split: dnode.split)
  then show "cid_valid (i_cids node_ingest) (node_cid node_ingest nd)"
    by (simp add: node_ingest_def tree_lib_def)
qed

definition node_daemon :: "(memdb, cid list, dnode, (string \<times> dnode) list, cid list) cenv" where
  "node_daemon = lone_daemon\<lparr>c_node := (c_node lone_daemon)\<lparr>e_ingest := node_ingest\<rparr>\<rparr>"

lemma node_daemon_simps [simp]:
  "e_pull (c_node node_daemon) = node_pull" "e_maps (c_node node_daemon) = node_maps"
  "e_ingest (c_node node_daemon) = node_ingest" "c_boxo node_daemon = node_boxo"
  "cids node_pull = ref_cids" "i_cids node_ingest = ref_cids"
  by (simp_all add: node_daemon_def lone_daemon_def lone_env_def node_pull_def node_ingest_def tree_lib_def)

lemma evict_target_hub:
  "t_mapping T' = t_mapping T \<Longrightarrow> t_mainbs T' = t_mainbs T \<Longrightarrow> target_fm X T' = target_fm X T \<Longrightarrow>
   evict_target L X T \<Longrightarrow> evict_target L X T'"
  by (simp add: evict_target_def evict_target_axioms_def)

interpretation live_node: node_stores node_daemon
proof (intro node_stores.intro node_libs.intro node_stores_axioms.intro)
  show "mapping_db (e_maps (c_node node_daemon))" by (simp add: node_db.mapping_db_axioms)
  show "transfer_store (e_pull (c_node node_daemon)) (map_view (e_maps (c_node node_daemon)))"
  proof (simp, unfold_locales)
    fix get :: "cid \<Rightarrow> memdb xst \<Rightarrow> cid list res \<times> memdb xst" and nd nm x
    assume "\<And>c x. map_view node_maps (x_db (snd (get c x))) = map_view node_maps (x_db x)"
    then show "map_view node_maps (x_db (snd (dir_find node_pull get nd nm x))) = map_view node_maps (x_db x)"
      by (auto simp: node_pull_def split: list.splits sum.splits prod.splits) (metis snd_conv)+
  qed (rule node_view, rule node_transfer.view_put node_transfer.view_put_ref node_transfer.view_delete
        node_transfer.view_main_put)+
  show "ingest_store (e_ingest (c_node node_daemon)) (map_view (e_maps (c_node node_daemon)))"
    by (simp add: node_importer.ingest_store_axioms)
  show "multiformats (cids (e_pull (c_node node_daemon)))" by (simp add: ref.multiformats_axioms)
  show "i_cids (e_ingest (c_node node_daemon)) = cids (e_pull (c_node node_daemon))" by simp
  show "evict_target (cids (e_pull (c_node node_daemon))) (c_boxo node_daemon) (c_target node_daemon)"
    using evict_target_hub [OF _ _ _ node_evict.evict_target_axioms, of "c_target node_daemon"]
    by (simp add: c_target_def from_node_def node_target_def target_fm_def node_daemon_def lone_daemon_def lone_env_def
        node_boxo_def)
qed

end
