(* ===== verification/Daemon.thy ===== *)
theory Daemon
  imports Records Cli
begin

text \<open>
  The running daemon: what \<open>cmdDaemon\<close> of \<open>main.go\<close> does from the open control socket to the exit. Its goroutines are the
  main one with its \<open>select\<close> and deferred calls, the signal handler of \<open>signalContext\<close>, the accept loop and one handler per
  connection of \<open>controls.go\<close>, and the watcher of \<open>watch.go\<close>. They share the node (database, cache, network), the context
  and the channel \<open>Shutdown\<close>. A run is an interleaving of their actions; \<open>daemon_act\<close> says what an action does and when it is
  enabled, so any finite schedule can be executed. The work of one command and one turn of the watcher are one action
  each; the test and the close of \<open>Shutdown\<close> are two. \<open>MClosedTwice\<close> is the end of the process by the panic of closing the closed
  channel. An action whose work does not return (a command that panics elsewhere, such as an ingest with a chunk size of
  zero, or that recurses without end) is not a step of a run. What Hub, clock and waiting bring to a command is part of its action,
  and the cache and the network may change at any time by other processes.
\<close>

section \<open>State\<close>

datatype handler = HAccepted conn | HSelect conn | HClose conn | HDone conn

datatype main_phase = MServing | MReturned "unit res" | MSockClosed "unit res" | MExited "unit res" | MClosedTwice

datatype watch_phase = WOff | WStarting | WRunning | WEnded

record ('s, 'w) dstate =
  ds_db :: 's
  ds_os :: os
  ds_net :: 'w
  ds_sock :: sock_state
  ds_listening :: bool
  ds_accepting :: bool
  ds_conns :: "handler list"
  ds_ctx :: bool
  ds_shutdown :: bool
  ds_watch :: watch_phase
  ds_pending :: "(string \<times> int) list"
  ds_known :: "string list"
  ds_watched :: "string list"
  ds_time :: int
  ds_errch :: "unit res option"
  ds_main :: main_phase

definition running :: "('s, 'w) dstate \<Rightarrow> bool" where
  "running s = (case ds_main s of MExited _ \<Rightarrow> False | MClosedTwice \<Rightarrow> False | _ \<Rightarrow> True)"

text \<open>\<open>watch.New\<close>: no repository pending, no directory known.\<close>

definition watch_new :: "(string \<times> int) list \<times> string list" where
  "watch_new = ([], [])"

text \<open>The state in which \<open>cmdDaemon\<close> has its control socket and has started accept loop and watcher.\<close>

definition daemon_begin :: "bool \<Rightarrow> int \<Rightarrow> ('s, 'w) mworld \<Rightarrow> sock_state \<Rightarrow> ('s, 'w) dstate" where
  "daemon_begin no_watch t w sk =
     \<lparr>ds_db = mw_db w, ds_os = mw_os w, ds_net = mw_net w, ds_sock = sk, ds_listening = True, ds_accepting = True,
      ds_conns = [], ds_ctx = False, ds_shutdown = False, ds_watch = (if no_watch then WOff else WStarting),
      ds_pending = fst watch_new, ds_known = snd watch_new, ds_watched = [], ds_time = t, ds_errch = None, ds_main = MServing\<rparr>"

section \<open>A connection\<close>

definition ctl_world :: "('s, 'w) dstate \<Rightarrow> ('s, 'w) cworld" where
  "ctl_world s = \<lparr>cw_db = ds_db s, cw_os = ds_os s, cw_net = ds_net s, cw_shutdown = ds_shutdown s\<rparr>"

definition put_world :: "('s, 'w) cworld \<Rightarrow> ('s, 'w) dstate \<Rightarrow> ('s, 'w) dstate" where
  "put_world w s = s\<lparr>ds_db := cw_db w, ds_os := cw_os w, ds_net := cw_net w\<rparr>"

text \<open>The node as a command finds it: the answers of the Hub, the ticks it is granted, the time, and the context.\<close>

definition cmd_env ::
  "(nat \<Rightarrow> transport) \<Rightarrow> nat \<Rightarrow> string \<Rightarrow> bool \<Rightarrow> ('s, 'n, 'm, 'd, 'w) cenv \<Rightarrow> ('s, 'n, 'm, 'd, 'w) cenv" where
  "cmd_env answers tk now canceled D =
     D\<lparr>c_node := (c_node D)\<lparr>e_answers := answers, e_ticks := tk, e_now := now, e_canceled := canceled\<rparr>\<rparr>"

text \<open>\<open>handle\<close> up to the end of a command; a shutdown request still has to look at the channel.\<close>

definition handle_conn ::
  "nat \<Rightarrow> ('s, 'n, 'm, 'd, 'w) cenv \<Rightarrow> conn \<Rightarrow> ('s, 'w) cworld \<Rightarrow> (handler \<times> ('s, 'w) cworld) option" where
  "handle_conn n D c w =
     (case read_json (unmarshal dec_control_request) c of
        (Inl e, c1) \<Rightarrow> Some (HDone (write_events D [error_of e] c1), w)
      | (Inr req, c1) \<Rightarrow>
          if cr_cmd req = CmdShutdown
          then Some (HSelect (write_events D [done_event (Lit ''shutting down'')] c1), w)
          else (case dispatch n D req w of
                  None \<Rightarrow> None
                | Some (evs, w1) \<Rightarrow> Some (HDone (write_events D evs c1), w1)))"

section \<open>The watcher's part of the state\<close>

definition watch_of :: "('s, 'w) dstate \<Rightarrow> ('s, 'w) wworld" where
  "watch_of s = \<lparr>ww_db = ds_db s, ww_os = ds_os s, ww_net = ds_net s, ww_pending = ds_pending s, ww_known = ds_known s,
     ww_watched = ds_watched s\<rparr>"

definition put_watch :: "('s, 'w) wworld \<Rightarrow> ('s, 'w) dstate \<Rightarrow> ('s, 'w) dstate" where
  "put_watch w s = s\<lparr>ds_db := ww_db w, ds_os := ww_os w, ds_net := ww_net w, ds_pending := ww_pending w,
     ds_known := ww_known w, ds_watched := ww_watched w\<rparr>"

definition watch_turn :: "int \<Rightarrow> ('s, 'w) wworld option \<Rightarrow> ('s, 'w) dstate \<Rightarrow> ('s, 'w) dstate option" where
  "watch_turn t r s =
     (if ds_watch s = WRunning \<and> ds_time s \<le> t then map_option (\<lambda>w. (put_watch w s)\<lparr>ds_time := t\<rparr>) r else None)"

definition watch_end :: "unit res \<Rightarrow> ('s, 'w) dstate \<Rightarrow> ('s, 'w) dstate" where
  "watch_end r s = s\<lparr>ds_watch := WEnded, ds_errch := Some r\<rparr>"

section \<open>Actions\<close>

datatype ('w) action =
    Signal
  | Accept conn
  | AcceptError goerr
  | Handle nat "nat \<Rightarrow> transport" nat string
  | Select nat
  | CloseChan nat
  | WatchFail goerr
  | WatchInit "nat \<Rightarrow> bool"
  | WatchEvent int fsevent
  | WatchError int
  | WatchFlush int "nat \<Rightarrow> bool"
  | WatchRescan int "nat \<Rightarrow> bool"
  | WatchCtx
  | WatchClosed
  | KernelDrop "string list"
  | Outside os 'w
  | MainCtx
  | MainShutdown
  | MainWatch
  | MainCloseSock
  | MainExit

text \<open>Closing the closed channel panics and ends the process: its listener dies and the socket file stays.\<close>

definition abandon :: "sock_state \<Rightarrow> sock_state" where
  "abandon st = st\<lparr>so_node := map_option (\<lambda>nd. case nd of Sock _ m \<Rightarrow> Sock False m | OtherFile \<Rightarrow> OtherFile) (so_node st)\<rparr>"

definition the_handler :: "('s, 'w) dstate \<Rightarrow> nat \<Rightarrow> handler option" where
  "the_handler s i = (if i < length (ds_conns s) then Some (ds_conns s ! i) else None)"

definition set_handler :: "nat \<Rightarrow> handler \<Rightarrow> ('s, 'w) dstate \<Rightarrow> ('s, 'w) dstate" where
  "set_handler i h s = s\<lparr>ds_conns := (ds_conns s)[i := h]\<rparr>"

text \<open>The goroutine of \<open>signalContext\<close> cancels the context when an interrupt or a termination signal arrives.\<close>

definition signal_received :: "('s, 'w) dstate \<Rightarrow> ('s, 'w) dstate" where
  "signal_received s = s\<lparr>ds_ctx := True\<rparr>"

text \<open>The accept loop: a new goroutine per connection; any error ends it.\<close>

definition accept_loop :: "conn res \<Rightarrow> ('s, 'w) dstate \<Rightarrow> ('s, 'w) dstate option" where
  "accept_loop r s =
     (if \<not> ds_accepting s then None
      else case r of
             Inl e \<Rightarrow> Some (s\<lparr>ds_accepting := False\<rparr>)
           | Inr c \<Rightarrow> if ds_listening s then Some (s\<lparr>ds_conns := ds_conns s @ [HAccepted c]\<rparr>) else None)"

text \<open>The \<open>select\<close> on \<open>Shutdown\<close> and the \<open>close\<close> in its default case, which panics when the channel is already closed.\<close>

definition select_shutdown :: "nat \<Rightarrow> ('s, 'w) dstate \<Rightarrow> ('s, 'w) dstate option" where
  "select_shutdown i s =
     (case the_handler s i of
        Some (HSelect c) \<Rightarrow> Some (set_handler i (if ds_shutdown s then HDone c else HClose c) s)
      | _ \<Rightarrow> None)"

definition close_shutdown :: "nat \<Rightarrow> ('s, 'w) dstate \<Rightarrow> ('s, 'w) dstate option" where
  "close_shutdown i s =
     (case the_handler s i of
        Some (HClose c) \<Rightarrow>
          if ds_shutdown s then Some (s\<lparr>ds_main := MClosedTwice, ds_sock := abandon (ds_sock s)\<rparr>)
          else Some ((set_handler i (HDone c) s)\<lparr>ds_shutdown := True\<rparr>)
      | _ \<Rightarrow> None)"

text \<open>The main goroutine: its \<open>select\<close>, then \<open>srv.Close\<close>, then \<open>n.Close\<close>, \<open>stop\<close> and the return from \<open>main\<close>.\<close>

definition main_return :: "bool \<Rightarrow> unit res \<Rightarrow> ('s, 'w) dstate \<Rightarrow> ('s, 'w) dstate option" where
  "main_return ready r s =
     (if ds_main s = MServing \<and> ready then Some (s\<lparr>ds_main := MReturned r\<rparr>) else None)"

definition main_close :: "('s, 'w) dstate \<Rightarrow> ('s, 'w) dstate option" where
  "main_close s =
     (case ds_main s of
        MReturned r \<Rightarrow> Some (s\<lparr>ds_main := MSockClosed r, ds_listening := False, ds_sock := server_close (ds_sock s)\<rparr>)
      | _ \<Rightarrow> None)"

definition main_finish :: "('s, 'w) dstate \<Rightarrow> ('s, 'w) dstate option" where
  "main_finish s =
     (case ds_main s of MSockClosed r \<Rightarrow> Some (s\<lparr>ds_main := MExited r, ds_ctx := True\<rparr>) | _ \<Rightarrow> None)"

text \<open>\<open>Run\<close> of the watcher, up to its loop.\<close>

definition watch_start ::
  "nat \<Rightarrow> ('s, 'm, 'd, 'w) wenv \<Rightarrow> (nat \<Rightarrow> bool) \<Rightarrow> ('s, 'w) dstate \<Rightarrow> ('s, 'w) dstate option" where
  "watch_start n E live s =
     (if ds_watch s \<noteq> WStarting then None
      else case run_init n E live (watch_of s) of
             None \<Rightarrow> None
           | Some (Inl e, w) \<Rightarrow> Some (watch_end (Inl e) (put_watch w s))
           | Some (Inr _, w) \<Rightarrow> Some ((put_watch w s)\<lparr>ds_watch := WRunning\<rparr>))"

fun act ::
  "nat \<Rightarrow> ('s, 'n, 'm, 'd, 'w) cenv \<Rightarrow> (string list \<Rightarrow> string \<Rightarrow> unit res) \<Rightarrow> 'w action \<Rightarrow> ('s, 'w) dstate \<Rightarrow>
     ('s, 'w) dstate option" where
  "act n D f Signal s = Some (signal_received s)"
| "act n D f (Accept c) s = accept_loop (Inr c) s"
| "act n D f (AcceptError e) s = accept_loop (Inl e) s"
| "act n D f (Handle i answers tk now) s =
     (case the_handler s i of
        Some (HAccepted c) \<Rightarrow>
          map_option (\<lambda>(h, w). set_handler i h (put_world w s))
            (handle_conn n (cmd_env answers tk now (ds_ctx s) D) c (ctl_world s))
      | _ \<Rightarrow> None)"
| "act n D f (Select i) s = select_shutdown i s"
| "act n D f (CloseChan i) s = close_shutdown i s"
| "act n D f (WatchFail e) s = (if ds_watch s = WStarting then Some (watch_end (Inl e) s) else None)"
| "act n D f (WatchInit live) s = watch_start n (watch_env D f) live s"
| "act n D f (WatchEvent t ev) s = watch_turn t (Some (handle_event (watch_env D f) t ev (watch_of s))) s"
| "act n D f (WatchError t) s = watch_turn t (Some (watch_of s)) s"
| "act n D f (WatchFlush t live) s = watch_turn t (flush n (watch_env D f) live t (watch_of s)) s"
| "act n D f (WatchRescan t live) s =
     (if 0 < cf_rescan (e_cfg (c_node D)) then watch_turn t (rescan n (watch_env D f) live (watch_of s)) s else None)"
| "act n D f WatchCtx s = (if ds_watch s = WRunning \<and> ds_ctx s then Some (watch_end (Inr ()) s) else None)"
| "act n D f WatchClosed s =
     (if ds_watch s = WRunning then Some (watch_end (Inl (Errorf ''fsnotify event channel closed'' [])) s) else None)"
| "act n D f (KernelDrop ws) s =
     (if set ws \<subseteq> set (ds_watched s) then Some (s\<lparr>ds_watched := ws\<rparr>) else None)"
| "act n D f (Outside os net) s = Some (s\<lparr>ds_os := os, ds_net := net\<rparr>)"
| "act n D f MainCtx s = main_return (ds_ctx s) (Inr ()) s"
| "act n D f MainShutdown s = main_return (ds_shutdown s) (Inr ()) s"
| "act n D f MainWatch s = (case ds_errch s of None \<Rightarrow> None | Some r \<Rightarrow> main_return True r (s\<lparr>ds_errch := None\<rparr>))"
| "act n D f MainCloseSock s = main_close s"
| "act n D f MainExit s = main_finish s"

definition daemon_act ::
  "nat \<Rightarrow> ('s, 'n, 'm, 'd, 'w) cenv \<Rightarrow> (string list \<Rightarrow> string \<Rightarrow> unit res) \<Rightarrow> 'w action \<Rightarrow> ('s, 'w) dstate \<Rightarrow>
     ('s, 'w) dstate option" where
  "daemon_act n D f a s = (if running s then act n D f a s else None)"

fun schedule ::
  "nat \<Rightarrow> ('s, 'n, 'm, 'd, 'w) cenv \<Rightarrow> (string list \<Rightarrow> string \<Rightarrow> unit res) \<Rightarrow> 'w action list \<Rightarrow> ('s, 'w) dstate \<Rightarrow>
     ('s, 'w) dstate option" where
  "schedule n D f [] s = Some s"
| "schedule n D f (a # as) s = (case daemon_act n D f a s of None \<Rightarrow> None | Some s1 \<Rightarrow> schedule n D f as s1)"

inductive daemon_run ::
  "nat \<Rightarrow> ('s, 'n, 'm, 'd, 'w) cenv \<Rightarrow> (string list \<Rightarrow> string \<Rightarrow> unit res) \<Rightarrow> ('s, 'w) dstate \<Rightarrow> ('s, 'w) dstate \<Rightarrow> bool"
  for n D f s0 where
  here: "daemon_run n D f s0 s0"
| more: "daemon_run n D f s0 s \<Longrightarrow> daemon_act n D f a s = Some s' \<Longrightarrow> daemon_run n D f s0 s'"

lemmas act_defs = daemon_act_def accept_loop_def select_shutdown_def close_shutdown_def main_return_def main_close_def
  main_finish_def watch_turn_def watch_end_def watch_start_def put_world_def put_watch_def set_handler_def
  signal_received_def

section \<open>The stored records\<close>

lemma cmd_env_simps [simp]:
  "e_maps (c_node (cmd_env a k now b D)) = e_maps (c_node D)" "e_pull (c_node (cmd_env a k now b D)) = e_pull (c_node D)"
  "e_ingest (c_node (cmd_env a k now b D)) = e_ingest (c_node D)" "c_boxo (cmd_env a k now b D) = c_boxo D"
  "c_target (cmd_env a k now b D) = c_target D"
  by (simp_all add: cmd_env_def c_target_def)

lemma node_stores_cmd_env [simp]: "node_stores (cmd_env a k now b D) = node_stores D"
  by (simp add: node_stores_def node_libs_def node_stores_axioms_def)

abbreviation daemon_sound :: "('s, 'n, 'm, 'd, 'w) cenv \<Rightarrow> 's \<Rightarrow> bool" where
  "daemon_sound D db \<equiv> records_ok (cids (e_pull (c_node D))) (e_maps (c_node D)) db"

lemma handle_conn_sound:
  assumes "node_stores D" "handle_conn n D c w = Some (h, w')"
  shows "daemon_sound D (cw_db w) \<longrightarrow> daemon_sound D (cw_db w')"
  using assms(2) node_stores.dispatch_sound [OF assms(1)]
  by (auto simp: handle_conn_def split: prod.splits sum.splits if_splits option.splits)

lemma watch_of_simps [simp]:
  "ww_db (watch_of s) = ds_db s" "ww_os (watch_of s) = ds_os s" "ww_net (watch_of s) = ds_net s"
  "wframe (watch_of s) = (ds_pending s, ds_known s, ds_watched s)"
  by (simp_all add: watch_of_def wframe_def)

lemma act_sound:
  assumes D: "node_stores D" and a: "act n D f a s = Some s'"
  shows "daemon_sound D (ds_db s) \<longrightarrow> daemon_sound D (ds_db s')"
proof (cases a)
  case (Handle i answers tk now)
  with a D show ?thesis
    using handle_conn_sound [of "cmd_env answers tk now (ds_ctx s) D" n _ "ctl_world s"]
    by (auto simp: act_defs ctl_world_def split: option.splits handler.splits)
next
  case (WatchInit live)
  with a node_stores.run_init_sound [OF D] show ?thesis
    by (auto simp: act_defs split: if_splits option.splits sum.splits)
next
  case (WatchFlush t live)
  with a node_stores.flush_sound [OF D] show ?thesis by (auto simp: act_defs split: if_splits)
next
  case (WatchRescan t live)
  with a node_stores.rescan_sound [OF D] show ?thesis by (auto simp: act_defs split: if_splits)
qed (use a in \<open>auto simp: act_defs split: if_splits option.splits handler.splits main_phase.splits sum.splits\<close>)

text \<open>C24: in every reachable state of the daemon, whatever the clients ask, the peers and the Hub answer, and however the
  goroutines interleave, each record of the mapping bucket is the encoding of an entry filed under its own commit hash,
  which is well-formed, bound to its dummy CID and has a decodable content CID: what \<open>List\<close>, \<open>Get\<close>, the map
  protocol and the announcements rely on.\<close>

theorem daemon_records_sound:
  assumes "node_stores D" "records_ok (cids (e_pull (c_node D))) (e_maps (c_node D)) (ds_db s0)"
    and "daemon_run n D f s0 s"
  shows "records_ok (cids (e_pull (c_node D))) (e_maps (c_node D)) (ds_db s)"
  using assms(3)
proof induction
  case (more s a s')
  then have "act n D f a s = Some s'" by (simp add: daemon_act_def split: if_splits)
  from act_sound [OF assms(1) this] more.IH show ?case by blast
qed (rule assms(2))

section \<open>The watcher inside the daemon\<close>

lemma watch_of_put [simp]: "watch_of (put_watch w s) = w" "watch_of (s\<lparr>ds_time := t\<rparr>) = watch_of s"
  "watch_of (s\<lparr>ds_watch := p\<rparr>) = watch_of s" "ds_time (put_watch w s) = ds_time s" "ds_watch (put_watch w s) = ds_watch s"
  by (simp_all add: watch_of_def put_watch_def)












section \<open>Shutdown\<close>

lemma daemon_run_trans: "daemon_run n D f s1 s2 \<Longrightarrow> daemon_run n D f s0 s1 \<Longrightarrow> daemon_run n D f s0 s2"
  by (induction rule: daemon_run.induct) (auto intro: daemon_run.intros)

lemma schedule_run: "schedule n D f as s = Some s' \<Longrightarrow> daemon_run n D f s s'"
proof (induction as arbitrary: s)
  case (Cons a as)
  then obtain s1 where "daemon_act n D f a s = Some s1" "schedule n D f as s1 = Some s'" by (auto split: option.splits)
  with Cons.IH daemon_run.more [OF daemon_run.here] show ?case by (blast intro: daemon_run_trans)
qed (auto intro: daemon_run.here)

text \<open>The handlers that have found \<open>Shutdown\<close> open and are about to close it.\<close>

definition closers :: "('s, 'w) dstate \<Rightarrow> nat set" where
  "closers s = {i. i < length (ds_conns s) \<and> (\<exists>c. ds_conns s ! i = HClose c)}"

definition alone :: "nat set \<Rightarrow> bool" where
  "alone A = (\<forall>i \<in> A. \<forall>j \<in> A. i = j)"

text \<open>Runs in which no two handlers are about to close the channel at the same time.\<close>

inductive serial_run ::
  "nat \<Rightarrow> ('s, 'n, 'm, 'd, 'w) cenv \<Rightarrow> (string list \<Rightarrow> string \<Rightarrow> unit res) \<Rightarrow> ('s, 'w) dstate \<Rightarrow> ('s, 'w) dstate \<Rightarrow> bool"
  for n D f s0 where
  serial_here: "serial_run n D f s0 s0"
| serial_more: "serial_run n D f s0 s \<Longrightarrow> daemon_act n D f a s = Some s' \<Longrightarrow> alone (closers s') \<Longrightarrow> serial_run n D f s0 s'"

definition calm :: "('s, 'w) dstate \<Rightarrow> bool" where
  "calm s = (ds_main s \<noteq> MClosedTwice \<and> alone (closers s) \<and> (ds_shutdown s \<longrightarrow> closers s = {}))"

lemma closers_update:
  "closers (s\<lparr>ds_conns := (ds_conns s)[i := h]\<rparr>)
     = (if i < length (ds_conns s) \<and> (\<exists>c. h = HClose c) then insert i (closers s) else closers s - {i})"
  by (cases "i < length (ds_conns s)") (auto simp: closers_def nth_list_update list_update_beyond split: if_splits)

lemma closers_append: "closers (s\<lparr>ds_conns := ds_conns s @ [HAccepted c]\<rparr>) = closers s"
  by (auto simp: closers_def nth_append less_Suc_eq split: if_splits)

lemma handle_conn_phase: "handle_conn n D c w = Some (h, w') \<Longrightarrow> h \<noteq> HClose c'"
  by (auto simp: handle_conn_def split: prod.splits sum.splits if_splits option.splits)

lemma closers_fields: "ds_conns s' = ds_conns s \<Longrightarrow> closers s' = closers s"
  by (simp add: closers_def)

lemma alone_subset: "alone A \<Longrightarrow> B \<subseteq> A \<Longrightarrow> alone B"
  unfolding alone_def by blast

text \<open>An action keeps the channel and the closers, apart from those of a shutdown request.\<close>

lemma act_other_closers:
  assumes "act n D f a s = Some s'" "\<And>i. a \<noteq> Select i" "\<And>i. a \<noteq> CloseChan i"
  shows "closers s' \<subseteq> closers s \<and> ds_shutdown s' = ds_shutdown s \<and> (ds_main s' = MClosedTwice \<longrightarrow> ds_main s = MClosedTwice)"
proof (cases a)
  case (Handle i answers tk now)
  then obtain c h w where h: "the_handler s i = Some (HAccepted c)"
    "handle_conn n (cmd_env answers tk now (ds_ctx s) D) c (ctl_world s) = Some (h, w)"
    "s' = set_handler i h (put_world w s)"
    using assms(1) by (auto split: option.splits handler.splits)
  have "closers s' \<subseteq> closers (put_world w s)"
    using closers_update [of "put_world w s" i h] handle_conn_phase [OF h(2)] by (auto simp: h(3) set_handler_def)
  then show ?thesis by (simp add: h(3) put_world_def set_handler_def closers_def)
next
  case (Accept c)
  with assms(1) show ?thesis
    by (auto simp: accept_loop_def closers_append split: if_splits)
qed (use assms in \<open>auto simp: act_defs closers_def split: if_splits option.splits main_phase.splits sum.splits\<close>)

lemma act_calm:
  assumes "calm s" "act n D f a s = Some s'" "alone (closers s')"
  shows "calm s'"
proof (cases a)
  case (Select i)
  with assms(2) obtain c where "s' = set_handler i (if ds_shutdown s then HDone c else HClose c) s"
    by (auto simp: select_shutdown_def split: option.splits handler.splits)
  with assms(1,3) closers_update [of s i "HDone c"] show ?thesis by (auto simp: calm_def set_handler_def)
next
  case (CloseChan i)
  with assms(2) obtain c where h: "the_handler s i = Some (HClose c)"
    by (auto simp: close_shutdown_def split: option.splits handler.splits)
  then have i: "i \<in> closers s" by (auto simp: closers_def the_handler_def split: if_splits)
  with assms(1) have "\<not> ds_shutdown s" "closers s = {i}" by (auto simp: calm_def alone_def)
  moreover from this h CloseChan assms(2) have "s' = (set_handler i (HDone c) s)\<lparr>ds_shutdown := True\<rparr>"
    by (simp add: close_shutdown_def)
  ultimately show ?thesis
    using assms(1,3) closers_update [of s i "HDone c"]
    by (auto simp: calm_def set_handler_def closers_def)
qed (use act_other_closers [OF assms(2)] assms in \<open>auto simp: calm_def\<close>)

definition asks_shutdown :: "conn \<Rightarrow> bool" where
  "asks_shutdown c = (case read_json (unmarshal dec_control_request) c of (Inr req, _) \<Rightarrow> cr_cmd req = CmdShutdown | _ \<Rightarrow> False)"

lemma asks_shutdown_handled:
  assumes "asks_shutdown c"
  obtains c' where "handle_conn n D c w = Some (HSelect c', w)"
  using assms by (auto simp: asks_shutdown_def handle_conn_def split: prod.splits sum.splits)

lemma two_shutdowns_panic:
  assumes s: "ds_main s = MServing" "ds_accepting s" "ds_listening s" "\<not> ds_shutdown s"
    and c: "asks_shutdown c1" "asks_shutdown c2"
  shows "\<exists>s'. daemon_run n D f s s' \<and> ds_main s' = MClosedTwice \<and> ds_sock s' = abandon (ds_sock s) \<and> ds_db s' = ds_db s"
proof -
  let ?k = "length (ds_conns s)"
  define E where "E = cmd_env (\<lambda>_ _. Inl (Sentinel EOF)) 0 [] (ds_ctx s) D"
  obtain d1 where d1: "handle_conn n E c1 (ctl_world s) = Some (HSelect d1, ctl_world s)"
    using asks_shutdown_handled [OF c(1)] .
  obtain d2 where d2: "handle_conn n E c2 (ctl_world s) = Some (HSelect d2, ctl_world s)"
    using asks_shutdown_handled [OF c(2)] .
  let ?h = "\<lambda>i. Handle i (\<lambda>_ _. Inl (Sentinel EOF)) 0 []"
  have "\<exists>s'. schedule n D f [Accept c1, Accept c2, ?h ?k, ?h (Suc ?k), Select ?k, Select (Suc ?k),
        CloseChan ?k, CloseChan (Suc ?k)] s = Some s'
      \<and> ds_main s' = MClosedTwice \<and> ds_sock s' = abandon (ds_sock s) \<and> ds_db s' = ds_db s"
    using s d1 d2
    by (simp add: act_defs running_def the_handler_def nth_append ctl_world_def list_update_append
        flip: E_def)
  then show ?thesis using schedule_run by blast
qed

text \<open>C26: two clients that ask the daemon to stop can crash it: from every serving state in which \<open>Shutdown\<close> is open and
  connections are accepted, two shutdown requests can interleave so that the second \<open>close\<close> of the channel panics,
  which leaves the socket file behind. If no two handlers are between the test of the channel and its close at
  the same time, the channel is never closed twice. (Panics elsewhere, such as the division by a chunk size of zero
  in an ingest, are not excluded.)\<close>

theorem shutdown_race:
  "(ds_main s = MServing \<and> ds_accepting s \<and> ds_listening s \<and> \<not> ds_shutdown s \<and> asks_shutdown c1 \<and> asks_shutdown c2 \<longrightarrow>
      (\<exists>s'. daemon_run n D f s s' \<and> ds_main s' = MClosedTwice \<and> ds_sock s' = abandon (ds_sock s)))
   \<and> (serial_run n D f (daemon_begin no_watch t w sk) s \<longrightarrow> ds_main s \<noteq> MClosedTwice)"
proof -
  have "calm s" if "serial_run n D f (daemon_begin no_watch t w sk) s"
    using that
  proof induction
    case serial_here
    then show ?case by (simp add: calm_def daemon_begin_def closers_def alone_def)
  next
    case (serial_more s a s')
    then show ?case by (auto simp: daemon_act_def split: if_splits intro: act_calm)
  qed
  with two_shutdowns_panic show ?thesis by (fastforce simp: calm_def)
qed

text \<open>One shutdown request alone has the effect that the handler of a whole connection describes.\<close>

lemma handler_sequential:
  assumes "handle_control n D c w = Some (c', w')"
  shows "\<exists>h w1. handle_conn n D c w = Some (h, w1) \<and>
    (h = HDone c' \<and> w' = w1 \<or> h = HSelect c' \<and> w1 = w \<and> w' = w\<lparr>cw_shutdown := True\<rparr>)"
  using assms
  by (auto simp: handle_control_def handle_conn_def dispatch_def CmdPull_def CmdIngest_def CmdStatus_def CmdList_def
      CmdEvict_def CmdShutdown_def split: prod.splits sum.splits option.splits if_splits)

section \<open>Stopping\<close>

definition stage :: "('s, 'w) dstate \<Rightarrow> nat" where
  "stage s = (case ds_main s of MServing \<Rightarrow> 3 | MReturned _ \<Rightarrow> 2 | MSockClosed _ \<Rightarrow> 1 | _ \<Rightarrow> 0)"

definition stop_requested :: "('s, 'w) dstate \<Rightarrow> bool" where
  "stop_requested s = (ds_ctx s \<or> ds_shutdown s \<or> ds_errch s \<noteq> None \<or> ds_main s \<noteq> MServing)"

definition main_actions :: "'w action set" where
  "main_actions = {MainCtx, MainShutdown, MainWatch, MainCloseSock, MainExit}"

text \<open>The socket in each phase of the main goroutine.\<close>

definition sock_ok :: "sock_state \<Rightarrow> ('s, 'w) dstate \<Rightarrow> bool" where
  "sock_ok sk s = (case ds_main s of
       MServing \<Rightarrow> ds_sock s = sk \<and> ds_listening s
     | MReturned _ \<Rightarrow> ds_sock s = sk \<and> ds_listening s
     | MSockClosed _ \<Rightarrow> ds_sock s = server_close sk \<and> \<not> ds_listening s
     | MExited _ \<Rightarrow> ds_sock s = server_close sk \<and> \<not> ds_listening s \<and> ds_ctx s
     | MClosedTwice \<Rightarrow> True)"

lemma act_sock_ok: "sock_ok sk s \<Longrightarrow> running s \<Longrightarrow> act n D f a s = Some s' \<Longrightarrow> sock_ok sk s'"
  by (cases a)
     (auto simp: act_defs sock_ok_def running_def split: if_splits option.splits handler.splits main_phase.splits sum.splits)

lemma run_sock_ok:
  assumes "daemon_run n D f (daemon_begin no_watch t w sk) s"
  shows "sock_ok sk s"
  using assms
proof induction
  case here
  then show ?case by (simp add: sock_ok_def daemon_begin_def)
next
  case (more s a s')
  then show ?case by (auto simp: daemon_act_def split: if_splits intro: act_sock_ok)
qed

lemma act_keeps_stopping:
  "stop_requested s \<Longrightarrow> running s \<Longrightarrow> act n D f a s = Some s' \<Longrightarrow> stop_requested s' \<and> stage s' \<le> stage s"
  by (cases a)
     (auto simp: act_defs stop_requested_def stage_def running_def
       split: if_splits option.splits handler.splits main_phase.splits sum.splits)

lemma main_progress:
  assumes "running s" "stop_requested s"
  shows "\<exists>a \<in> main_actions. \<exists>s'. daemon_act n D f a s = Some s' \<and> stage s' < stage s"
  using assms
  by (cases "ds_main s")
     (auto simp: main_actions_def act_defs stop_requested_def stage_def running_def)

text \<open>C27: the daemon stops when it is told to. Once a signal, a shutdown request or the end of the watcher has reached it, an
  action of the main goroutine that brings the exit nearer is enabled until the exit, and no action of any
  goroutine takes the request back or the progress. A daemon that has exited has closed its listener, removed its socket
  and cancelled its context; until it closes the socket, the socket is the one it opened.\<close>

theorem daemon_stops:
  assumes "daemon_run n D f (daemon_begin no_watch t w sk) s"
  shows "(running s \<and> stop_requested s \<longrightarrow>
      (\<exists>a \<in> main_actions. \<exists>s'. daemon_act n D f a s = Some s' \<and> stage s' < stage s))
    \<and> (\<forall>a s'. stop_requested s \<and> daemon_act n D f a s = Some s' \<longrightarrow> stop_requested s' \<and> stage s' \<le> stage s)
    \<and> (\<forall>r. ds_main s = MExited r \<longrightarrow> so_node (ds_sock s) = None \<and> \<not> ds_listening s \<and> ds_ctx s)
    \<and> (ds_main s = MServing \<longrightarrow> ds_sock s = sk \<and> ds_listening s)"
proof (intro conjI allI impI)
  fix a s'
  assume "stop_requested s \<and> daemon_act n D f a s = Some s'"
  then show "stop_requested s'" "stage s' \<le> stage s"
    using act_keeps_stopping [of s n D f a s'] by (simp_all add: daemon_act_def split: if_splits)
qed (use main_progress run_sock_ok [OF assms] in \<open>auto simp: sock_ok_def server_close_def\<close>)

section \<open>The accept loop\<close>

lemma act_no_accept:
  "\<not> ds_accepting s \<Longrightarrow> act n D f a s = Some s' \<Longrightarrow> \<not> ds_accepting s' \<and> length (ds_conns s') = length (ds_conns s)"
  by (cases a)
     (auto simp: act_defs split: if_splits option.splits handler.splits main_phase.splits sum.splits)

text \<open>C28: the accept loop does not survive an error: after the first failing \<open>Accept\<close>, which may be a passing one such as a lack
  of file descriptors, no connection is ever taken up again, while the socket of the serving daemon stays in place
  and keeps answering the probe of \<open>Alive\<close>.\<close>

theorem accept_error_is_final:
  assumes "daemon_run n D f (daemon_begin no_watch t w sk) s" "daemon_act n D f (AcceptError e) s = Some s1"
    and "daemon_run n D f s1 s2"
  shows "length (ds_conns s2) = length (ds_conns s) \<and> (ds_main s2 = MServing \<longrightarrow> probe (ds_sock s2) = probe sk)"
proof -
  from assms(2) have s1: "\<not> ds_accepting s1" "ds_conns s1 = ds_conns s"
    by (auto simp: act_defs split: if_splits)
  from assms(3) have "\<not> ds_accepting s2 \<and> length (ds_conns s2) = length (ds_conns s1)"
  proof induction
    case (more s a s')
    then have "act n D f a s = Some s'" by (simp add: daemon_act_def split: if_splits)
    with act_no_accept [OF _ this] more.IH show ?case by simp
  qed (use s1 in simp)
  moreover have "daemon_run n D f (daemon_begin no_watch t w sk) s2"
    using daemon_run.more [OF assms(1,2)] assms(3) by (rule daemon_run_trans [rotated])
  ultimately show ?thesis using run_sock_ok s1(2) by (fastforce simp: sock_ok_def)
qed

section \<open>A daemon that is asked to stop\<close>

definition stop_conn :: conn where
  "stop_conn = fresh_conn (frame_bytes (json_print (enc_control_request stop_request)))"

lemma stop_conn_asks: "asks_shutdown stop_conn"
proof -
  have "read_frame stop_conn = (Inr (json_print (enc_control_request stop_request)), stop_conn\<lparr>rd_buf := []\<rparr>)"
    using stop_lengths(2) by (intro read_frame_frame_bytes) (simp_all add: stop_conn_def fresh_conn_def)
  then show ?thesis
    using json_wf_control_request [OF stop_request_wf] dec_enc_control_request [of stop_request]
    by (simp add: asks_shutdown_def read_json_def unmarshal_print stop_request_def)
qed

definition open_sock :: sock_state where
  "open_sock = \<lparr>so_node = Some (Sock True 384), so_busy = False, so_umask = 18, so_modes = [384]\<rparr>"

definition good_entry :: entry where
  "good_entry = seed_entry\<lparr>actual_cid := ''f01'', dummy_cid := []\<rparr>"

definition good_begin :: "bool \<Rightarrow> (memdb, cid list) dstate" where
  "good_begin no_watch = daemon_begin no_watch 0 (shell_world\<lparr>mw_nw := small_world\<lparr>nw_os := bare_os\<rparr>,
     mw_db := snd (map_put node_maps empty_db good_entry)\<rparr>) open_sock"

abbreviation idle_watch :: "string list \<Rightarrow> string \<Rightarrow> unit res" where "idle_watch \<equiv> \<lambda>_ _. Inr ()"

lemma good_records: "records_ok ref_cids node_maps (ds_db (good_begin no_watch))"
proof -
  have "records_ok ref_cids node_maps empty_db"
    by (simp add: records_ok_def empty_db_def bolt_ds_def ds_get_def db_view_def mem_bolt_def mem_get_def)
  moreover have "ok (from_commit ref_cids hex_commit)"
    using ref.from_commit_ok [of hex_commit] hex_commit_simps by (simp add: CommitLen_def)
  moreover have "ok (cid_decode ref_cids ''f01'')" by code_simp
  ultimately show ?thesis
    using node_db.records_put [of ref_cids empty_db good_entry]
    by (simp add: announceable_def good_entry_def seed_entry_facts good_begin_def daemon_begin_def ok_iff)
qed

lemma stop_run:
  "\<exists>s. daemon_run n D f (good_begin no_watch) s \<and> ds_main s = MServing \<and> ds_shutdown s
     \<and> ds_db s = ds_db (good_begin no_watch)"
proof -
  let ?s = "good_begin no_watch"
  define E where "E = cmd_env (\<lambda>_ _. Inl (Sentinel EOF)) 0 [] (ds_ctx ?s) D"
  obtain d where d: "handle_conn n E stop_conn (ctl_world ?s) = Some (HSelect d, ctl_world ?s)"
    using asks_shutdown_handled [OF stop_conn_asks] .
  have "\<exists>s. schedule n D f [Accept stop_conn, Handle 0 (\<lambda>_ _. Inl (Sentinel EOF)) 0 [], Select 0, CloseChan 0] ?s = Some s
      \<and> ds_main s = MServing \<and> ds_shutdown s \<and> ds_db s = ds_db ?s"
    using d unfolding E_def
    by (simp add: act_defs running_def the_handler_def ctl_world_def good_begin_def daemon_begin_def)
  then show ?thesis using schedule_run by blast
qed

theorem daemon_records_sound_witness:
  "\<exists>s. daemon_run 5 node_daemon idle_watch (good_begin True) s \<and> ds_shutdown s
     \<and> records_ok ref_cids node_maps (ds_db s)"
proof -
  obtain s where s: "daemon_run 5 node_daemon idle_watch (good_begin True) s" "ds_shutdown s"
    using stop_run by blast
  have "records_ok (cids (e_pull (c_node node_daemon))) (e_maps (c_node node_daemon)) (ds_db (good_begin True))"
    using good_records by simp
  from daemon_records_sound [OF live_node.node_stores_axioms this s(1)] s show ?thesis by auto
qed

theorem shutdown_race_witness:
  "(\<exists>s'. daemon_run 5 node_daemon idle_watch (good_begin True) s' \<and> ds_main s' = MClosedTwice
      \<and> so_node (ds_sock s') = Some (Sock False 384))
   \<and> ds_main (good_begin True) \<noteq> MClosedTwice"
proof -
  let ?s = "good_begin True"
  have s: "ds_main ?s = MServing" "ds_accepting ?s" "ds_listening ?s" "\<not> ds_shutdown ?s"
    "so_node (abandon (ds_sock ?s)) = Some (Sock False 384)"
    by (simp_all add: good_begin_def daemon_begin_def open_sock_def abandon_def)
  have "serial_run 5 node_daemon idle_watch ?s ?s" by (rule serial_run.serial_here)
  with shutdown_race [of ?s stop_conn stop_conn 5 node_daemon idle_watch True 0
      "shell_world\<lparr>mw_nw := small_world\<lparr>nw_os := bare_os\<rparr>, mw_db := snd (map_put node_maps empty_db good_entry)\<rparr>" open_sock,
      folded good_begin_def] stop_conn_asks s
  show ?thesis by auto
qed

theorem daemon_stops_witness:
  "\<exists>s a s'. daemon_run 5 node_daemon idle_watch (good_begin True) s \<and> ds_shutdown s
     \<and> a \<in> main_actions \<and> daemon_act 5 node_daemon idle_watch a s = Some s' \<and> stage s' < stage s
     \<and> ds_sock s = open_sock"
proof -
  obtain s where s: "daemon_run 5 node_daemon idle_watch (good_begin True) s" "ds_shutdown s" "ds_main s = MServing"
    using stop_run by blast
  have "running s \<and> stop_requested s" using s by (simp add: running_def stop_requested_def)
  with daemon_stops [OF s(1) [unfolded good_begin_def]] s show ?thesis by blast
qed

theorem accept_error_is_final_witness:
  "\<exists>s1. daemon_act 5 node_daemon idle_watch (AcceptError (Errorf ''accept: too many open files'' [])) (good_begin True) = Some s1
     \<and> length (ds_conns s1) = 0 \<and> ds_main s1 = MServing \<and> probe (ds_sock s1)"
proof -
  obtain s1 where s1: "daemon_act 5 node_daemon idle_watch (AcceptError (Errorf ''accept: too many open files'' [])) (good_begin True) = Some s1"
    and m: "ds_main s1 = MServing"
    by (simp add: act_defs running_def good_begin_def daemon_begin_def)
  from accept_error_is_final [OF daemon_run.here s1 [unfolded good_begin_def] daemon_run.here] s1 m
  show ?thesis by (auto simp: good_begin_def daemon_begin_def open_sock_def probe_def)
qed





end
