(* ===== verification/Spec2Isabelle.thy ===== *)
theory Spec2Isabelle
  imports Protoio Dummy MappingDb Wire Sources Evict PullFile PullTransfer Hfapi Ingest Config HfFallback Pull NodeLife Watch Controls Cli Daemon
begin

text \<open>
  \<^bold>\<open>swarmface (hf-ipfs)\<close>: a daemon and command line that shares the revisions of a Hugging Face cache over
  IPFS and pulls revisions from peers or, failing that, from the Hugging Face Hub. This development models the Go
  program under \<open>src/\<close> and proves what makes it correct.

  \<^bold>\<open>How the program works.\<close> A \<^emph>\<open>revision\<close> is a commit of a repository, laid out in the cache as
  \<open>snapshots/<commit>\<close>, links into \<open>blobs/\<close>. \<^emph>\<open>Ingest\<close> chunks its files into a DAG whose leaves are references into
  the blobs (filestore), and records an entry, the manifest and the root CID, under the commit hash in the
  \<^emph>\<open>mapping\<close>. A commit hash is turned into a \<^emph>\<open>dummy CID\<close> so that it can be announced on the DHT. A \<^emph>\<open>pull\<close> finds
  providers of the dummy CID, asks each for its entry over the \<^emph>\<open>map protocol\<close>, checks that the answer belongs to the
  commit and has only safe names, fetches the blocks over the \<^emph>\<open>block protocol\<close>, rebuilds and verifies each
  file, writes the snapshot and records the revision; if no peer serves it the \<^emph>\<open>Hub fallback\<close> downloads, verifies
  and ingests it. \<^emph>\<open>Evict\<close> removes a revision without harming the others. The \<^emph>\<open>watcher\<close> ingests revisions that
  appear in the cache and forgets those whose bytes vanish. The \<^emph>\<open>daemon\<close> runs node, watcher and a \<^emph>\<open>control
  socket\<close>; the \<^emph>\<open>commands\<close> use a running daemon or do the work themselves.

  \<^bold>\<open>Conventions.\<close> \<open>Prelude\<close> says how Go's values appear: strings and byte slices as byte lists, \<open>int64\<close> as \<open>int\<close> with
  \<open>wrap64\<close> where it can overflow, the frame header as a 32-bit word, fallible results as \<open>goerr + 'a\<close> with sentinel,
  formatted and wrapped errors, state passed explicitly and returned updated on every path. Concrete
  \<open>fmt\<close> and log text is kept as format and arguments. A function that calls third-party code takes it as a
  record of operations; what is relied on is a locale, interpreted on a concrete instance.

  \<^bold>\<open>The Go library.\<close>
  \<^item> \<open>GoStrings\<close>, \<open>GoPath\<close>, \<open>Json\<close>: the functions of \<open>strings\<close>, \<open>encoding/hex\<close>, \<open>path/filepath\<close> and
    \<open>encoding/json\<close> the program calls, with the parser that inverts the printer on well-formed values.
  \<^item> \<open>FileSys\<close>: the operating system behind \<open>os\<close>: directories, files and symbolic links, with an arbitrary failure
    of any call (\<open>faults\<close>), an arbitrary partial write (\<open>partials\<close>) and arbitrary temporary names. Theorems over all such
    systems cover every sequence of I/O errors. Links are followed at most 40 times, as Linux does.

  \<^bold>\<open>The components.\<close>
  \<^item> \<open>Protoio\<close> (\<open>protoio/protoio.go\<close>): frames over a stream that may end, fail or stop taking bytes anywhere; round
    trip and size limit.
  \<^item> \<open>Dummy\<close> (\<open>dummy/dummy.go\<close>): \<open>from_commit\<close>, \<open>commit_of\<close>; locale \<open>multiformats\<close> for the CID library.
  \<^item> \<open>Store\<close> (\<open>store/bolt.go\<close>): namespaced datastore with queries and batches on bbolt (locale \<open>bolt\<close>), which gives the
    contract \<open>datastore\<close> by a \<open>sublocale\<close>; the repository lock as a step relation with mutual exclusion.
  \<^item> \<open>MappingDb\<close> (\<open>mapping/mapping.go\<close>): entries, their JSON, \<open>Put\<close>, \<open>Get\<close>, \<open>Has\<close>, \<open>Delete\<close>, \<open>List\<close>; refinement of a
    finite map in the locale \<open>mapping_db\<close>.
  \<^item> \<open>Wire\<close> (\<open>wire/wire.go\<close>): messages of the map protocol and the control socket; round trips.
  \<^item> \<open>HfPaths\<close>, \<open>HfTree\<close>, \<open>HfCache\<close>, \<open>HfSnapshot\<close> (\<open>hfcache/cache.go\<close>, \<open>hfcache/tree.go\<close>): names and
    directories, refs, atomic writes, the tree record, reading and completing a snapshot, \<open>WriteSnapshot\<close>: safe names stay
    inside the cache, an atomic write is all or nothing under every fault, the metadata that can be read back is
    kept, a snapshot reported as complete has every entry's bytes, a written snapshot resolves to its blobs.
  \<^item> \<open>Blocks\<close>, \<open>Evict\<close> (\<open>evict/evict.go\<close>): the block stores (locale \<open>blockstore\<close>) and the removal of revisions (locale
    \<open>evict_target\<close>): the blocks, references and mappings of other revisions are left, except for a block or reference
    that is stored under the same multihash as one that is removed (\<open>twin_lost\<close>).
  \<^item> \<open>Serve\<close> (handlers of \<open>node/node.go\<close> and the block client of \<open>pull/pull.go\<close>): both protocols, both ends.
  \<^item> \<open>NodeNet\<close>, \<open>NodeLife\<close> (\<open>node/node.go\<close>): choosing and ordering addresses, dialling, announcing, finding
    providers (locale \<open>provider_records\<close>); \<open>New\<close> with its options, what it opens (store,
    managers, host, DHT, subscription, lock) and what each failure leaves open, \<open>Close\<close>, reachability tracking.
  \<^item> \<open>Sources\<close>, \<open>PullFile\<close>, \<open>PullStore\<close>, \<open>Pull\<close>, \<open>PullEvents\<close> (\<open>pull/sources.go\<close>, \<open>pull/pull.go\<close>): the selection of
    sources; read-through store, leaf collection, reconstruction and verification of a file; what a transfer
    leaves of the database (locale \<open>transfer_store\<close>); \<open>Run\<close> and the peer path; the requests that go to the Hub, which
    the state of a pull records (\<open>pw_sent\<close>); the events a pull reports (locale \<open>quiet_dirs\<close>).
  \<^item> \<open>PullTransfer\<close>: both ends of the block protocol composed. With an honest seeder and no failing system call a file is
    reconstructed completely, and the puller's requests are those the seeder's handler answers (locale \<open>read_through\<close>,
    interpreted on the node's database).
  \<^item> \<open>Hfapi\<close>, \<open>HfFallback\<close> (\<open>hfapi/hfapi.go\<close>, \<open>pull/hffallback.go\<close>): requests and answers of the Hub with an
    arbitrary transport, every call returning the requests it sent; manifests, verified downloads, ingest of the
    result.
  \<^item> \<open>Ingest\<close> (\<open>ingest/ingest.go\<close>): \<open>Run\<close>, \<open>RunRepo\<close> and the directory DAG (locale \<open>unixfs_dirs\<close>). The division by a
    chunk size of zero is a panic (\<open>GoPanic\<close>), after which \<open>Run\<close> does not return.
  \<^item> \<open>Config\<close> (\<open>config/config.go\<close>, \<open>identity/identity.go\<close>): configuration from the environment; the persistent key.
  \<^item> \<open>Watch\<close> (\<open>watch/watch.go\<close>): the loop's steps as the relation \<open>watch_step\<close>, each the source's handler; the
    invariant of every reachable state.
  \<^item> \<open>Controls\<close> (\<open>controls/controls.go\<close>): \<open>Call\<close>, the handler of every command, creation and removal of the socket.
  \<^item> \<open>Flags\<close>, \<open>Cli\<close> (\<open>main.go\<close>): Go's \<open>flag\<close> package, \<open>splitArgs\<close>, the configuration from flags, every subcommand, the
    forked daemon and the exit status.
  \<^item> \<open>Records\<close>: what every stored record satisfies, kept by ingest, evict, pull, the commands and the watcher (locales
    \<open>ingest_store\<close>, \<open>node_libs\<close>, \<open>node_stores\<close>, interpreted on the node's database).
  \<^item> \<open>Daemon\<close> (\<open>cmdDaemon\<close> and \<open>signalContext\<close> of \<open>main.go\<close>, \<open>acceptLoop\<close> and \<open>handle\<close> of \<open>controls.go\<close>, \<open>Run\<close> of
    \<open>watch.go\<close>): the running daemon as an interleaving of its goroutines. The stored records stay sound in every
    reachable state, the watcher's bookkeeping survives the interleaving, the daemon stops when told to and leaves no
    socket; two shutdown requests at once can crash it, and its accept loop does not survive an error.
  \<^item> This theory: what spans the components, that a revision one node ingested is accepted by a node that pulls it.

  \<^bold>\<open>Loops and bounds.\<close> Recursions over data are total. Where the source follows links that need not be
  well-founded, the model takes a depth bound and returns \<open>None\<close> beyond it, and the theorems say which bound is enough: for
  the traversal of evict any number above that of the stored blocks (each is visited once); for \<open>build_dir\<close> the
  number of segments of the longest path; for \<open>collect_leaves\<close> the height of the stored DAG. A peer's DAG need not have a
  height: \<open>collect_cycle_diverges\<close> shows a cyclic one on which no bound is enough, where the source recurses without end.
  \<open>None\<close> is also the value of a run that panics: in both cases the call does not return. Waiting (routing table, reachability, debouncing) counts ticks; the number of ticks granted is an argument, so every
  timeout and cancellation while waiting is covered.

  \<^bold>\<open>Parameters.\<close> CID and multihash packages, bbolt, boxo's block stores, filestore, UnixFS importer and directory
  builder, libp2p hosts and streams and the DHT, fsnotify, the key codec, the HTTP transport, SHA-1 and SHA-256, the clock,
  the order in which Go ranges over a map, \<open>strconv\<close> number and \<open>time\<close> duration parsing of flag values. The instances
  used for interpretations and examples (\<open>ref_cids\<close>, \<open>mem_bolt\<close>, \<open>node_maps\<close>, \<open>node_blocks\<close>, \<open>tree_lib\<close>, \<open>list_net\<close>,
  \<open>node_pull\<close>) satisfy the laws assumed.

  \<^bold>\<open>Not modelled.\<close> The text of usage and help, the interleaving of the database operations inside two commands that run
  at the same time (a command and a turn of the watcher are one action of the daemon each), the cancellation of a
  context inside a library call other than as its failure, the cancellation of a command whose client has gone, timeouts, redirects and the idle watchdog inside the HTTP
  transport, the resource limits given to libp2p, the internal text of \<open>fmt\<close> verbs. Forwarding methods that only call
  their library, and the copies of \<open>short\<close> and \<open>humanBytes\<close> in each package, are not repeated. The announcement at the
  end of \<open>ingest.Run\<close> is performed by the callers' models, on their network state. \<open>Cli\<close> takes what happens while the
  daemon serves as an argument, of which \<open>Daemon\<close> describes the runs.
\<close>

section \<open>From a shared revision to a peer that asks for it\<close>

text \<open>A fresh stream, seen from both ends: the peer reads what the client sent and the client reads what
  the peer's map handler wrote.\<close>

definition peer_end :: "bool \<Rightarrow> bytes \<Rightarrow> stream" where
  "peer_end limited input =
     \<lparr>st_conn = fresh_conn input, st_limited = limited, st_reset = False, st_closed = False\<rparr>"

definition served_by :: "cidlib \<Rightarrow> 's maplib \<Rightarrow> bool \<Rightarrow> 's \<Rightarrow> bool \<Rightarrow> map_request \<Rightarrow> conn \<Rightarrow> bool" where
  "served_by L M relay_bulk db limited q c =
     (wr_room c = None \<and> wr_buf c = [] \<and>
      rd_buf c = wr_buf (st_conn (handle_map L M relay_bulk db
        (peer_end limited (wr_buf (snd (write_json (jmarshal enc_map_request) c q)))))))"

lemma map_exchange_served:
  assumes "host_connect N p w = (Inr (), w1)" "open_stream N (ai_id p) ProtocolMapID w1 = (Inr c, w2)"
    and q_def: "q = \<lparr>mq_commit = commit, mq_repo = r\<rparr>" and c: "served_by L M relay_bulk db limited q c"
    and q: "map_request_wf q" "length (json_print (enc_map_request q)) \<le> MaxFrame"
    and a_def: "a = map_answer L M relay_bulk db limited q"
    and a: "map_response_wf a" "length (json_print (enc_map_response a)) \<le> MaxFrame"
  shows "map_exchange L N p r commit w = (check_response L commit (a\<lparr>mr_files := map strip_src (mr_files a)\<rparr>), w2)"
proof -
  have c1: "write_json (jmarshal enc_map_request) c q = (Inr (), c\<lparr>wr_buf := frame_bytes (json_print (enc_map_request q))\<rparr>)"
    using c q(2) by (simp add: served_by_def write_json_def jmarshal_def write_frame_unlimited)
  let ?s = "peer_end limited (frame_bytes (json_print (enc_map_request q)))"
  let ?c = "c\<lparr>wr_buf := frame_bytes (json_print (enc_map_request q))\<rparr>"
  have "rd_buf ?c = wr_buf (st_conn (handle_map L M relay_bulk db ?s))"
    using c c1 by (simp add: served_by_def)
  with q a have "read_json (unmarshal dec_map_response) ?c = (Inr (a\<lparr>mr_files := map strip_src (mr_files a)\<rparr>), ?c\<lparr>rd_buf := []\<rparr>)"
    by (intro map_reply_read [where s = ?s and q = q and rest = "[]"])
       (simp_all add: peer_end_def fresh_conn_def relayed_def a_def)
  with assms(1,2) c1 show ?thesis by (simp add: map_exchange_def flip: q_def)
qed

text \<open>What the map handler of a node answers after a successful ingest.\<close>

lemma shared_answer:
  assumes L: "multiformats (i_cids X)" and M: "mapping_db M"
    and run: "ingest_run n X M chunk hub r t commit now w = Some (Inr res, w')"
    and fs: "read_snapshot (i_sha256 X) (new_paths hub r t) commit (iw_os w) = (Inr fs0, os1)"
      "enrich_from_tree (new_paths hub r t) commit fs0 os1 = (fs, os2)"
    and wf: "list_all manifest_wf fs"
      "list_all valid_utf8 [r, t, now, cid_string (i_cids X) (ir_actual res), cid_string (i_cids X) (ir_dummy res)]"
    and relay: "limited \<longrightarrow> relay_bulk"
    and a_def: "a = \<lparr>mr_ok = True, mr_error = [], mr_commit = commit, mr_repo = r, mr_type = t,
         mr_actual = cid_string (i_cids X) (ir_actual res), mr_dummy = cid_string (i_cids X) (ir_dummy res),
         mr_total = ir_total res, mr_files = map strip_src fs\<rparr>"
  shows "map_answer (i_cids X) M relay_bulk (iw_db w') limited \<lparr>mq_commit = commit, mq_repo = r'\<rparr> = a"
    and "map_response_wf a"
proof -
  let ?L = "i_cids X"
  let ?e = "\<lparr>repo_id = r, repo_type = t, commit_hash = commit, actual_cid = cid_string ?L (ir_actual res),
      dummy_cid = cid_string ?L (ir_dummy res), files = fs, total_size = ir_total res, added_at = now,
      origin = ''ingest''\<rparr>"
  note put = ingest_run_put [OF run fs]
  have hex: "is_hex commit" "commit \<noteq> []"
    using multiformats.from_commit_ok [OF L, of commit] put(2) by (auto simp: CommitLen_def)
  have e: "entry_wf ?e"
    using wf put(3) hex(1) by (simp add: entry_wf_def is_hex_utf8 ascii_utf8)
  from put(1) obtain db where "map_put M db ?e = (Inr (), iw_db w')" ..
  from mapping_db.map_put_effect [OF M this e] hex_plain [OF hex]
  have "map_get M (iw_db w') commit = Inr (Some (strip_entry ?e))" by simp
  with relay put(2) show "map_answer ?L M relay_bulk (iw_db w') limited \<lparr>mq_commit = commit, mq_repo = r'\<rparr> = a"
    by (auto simp: map_answer_def strip_entry_def a_def)
  show "map_response_wf a"
    using wf put(3) is_hex_utf8 [OF hex(1)]
    by (simp add: a_def map_response_wf_def list.pred_map comp_def strip_src_simps)
qed

text \<open>C29: sharing works: after a successful \<open>Run\<close> of ingest, a puller that asks this node for the commit over an
  unrelayed stream (or any stream, when the operator allows bulk data over relays) gets through the map
  exchange of \<open>pullFromPeers\<close>: the entry survives the datastore, both JSON encodings, the framing and the
  puller's validation of binding, names and CIDs, and the puller ends up with the root CID ingest reported and
  the manifest of the snapshot's files. The file names must be ones the puller accepts and the encoded manifest
  must fit a frame; the root CID is one made from a multihash, as those of boxo's nodes are.\<close>

theorem shared_revision_resolves:
  assumes L: "multiformats (i_cids X)" and M: "mapping_db M"
    and run: "ingest_run n X M chunk hub r t commit now w = Some (Inr res, w')"
    and fs: "read_snapshot (i_sha256 X) (new_paths hub r t) commit (iw_os w) = (Inr fs0, os1)"
      "enrich_from_tree (new_paths hub r t) commit fs0 os1 = (fs, os2)"
    and wf: "list_all manifest_wf fs"
      "list_all valid_utf8 [r, t, now, r', cid_string (i_cids X) (ir_actual res), cid_string (i_cids X) (ir_dummy res)]"
    and names: "list_all (\<lambda>f. safe_rel_path (fm_path f) \<and> safe_blob_name (fm_blob f)) fs"
    and root: "cid_valid (i_cids X) (ir_actual res)"
    and net: "host_connect N p v = (Inr (), v1)" "open_stream N (ai_id p) ProtocolMapID v1 = (Inr c, v2)"
    and peer: "served_by (i_cids X) M relay_bulk (iw_db w') limited \<lparr>mq_commit = commit, mq_repo = r'\<rparr> c"
      "limited \<longrightarrow> relay_bulk"
    and size: "length (json_print (enc_map_request \<lparr>mq_commit = commit, mq_repo = r'\<rparr>)) \<le> MaxFrame"
      "length (json_print (enc_map_response (map_answer (i_cids X) M relay_bulk (iw_db w') limited
         \<lparr>mq_commit = commit, mq_repo = r'\<rparr>))) \<le> MaxFrame"
  shows "\<exists>resp. map_exchange (i_cids X) N p r' commit v = (Inr (ir_actual res, resp), v2)
    \<and> mr_repo resp = r \<and> mr_type resp = t \<and> mr_total resp = ir_total res \<and> mr_files resp = map strip_src fs"
proof -
  let ?q = "\<lparr>mq_commit = commit, mq_repo = r'\<rparr>"
  let ?L = "i_cids X"
  define a where "a = \<lparr>mr_ok = True, mr_error = [], mr_commit = commit, mr_repo = r, mr_type = t,
         mr_actual = cid_string ?L (ir_actual res), mr_dummy = cid_string ?L (ir_dummy res),
         mr_total = ir_total res, mr_files = map strip_src fs\<rparr>"
  note put = ingest_run_put(2) [OF run fs]
  from wf(2) have "list_all valid_utf8 [r, t, now, cid_string ?L (ir_actual res), cid_string ?L (ir_dummy res)]" by simp
  note answer = shared_answer [OF L M run fs wf(1) this peer(2) a_def]
  have "map_request_wf ?q"
    using wf(2) multiformats.from_commit_ok [OF L, of commit] put by (auto simp: map_request_wf_def is_hex_utf8)
  from map_exchange_served [OF net refl peer(1) this size(1) answer(1) [symmetric] answer(2)] size(2)
  have "map_exchange ?L N p r' commit v = (check_response ?L commit (a\<lparr>mr_files := map strip_src (mr_files a)\<rparr>), v2)"
    unfolding answer(1) by blast
  moreover have "a\<lparr>mr_files := map strip_src (mr_files a)\<rparr> = a" by (simp add: a_def strip_src_def)
  moreover have "bound_response ?L commit (ir_actual res) a"
    using multiformats.decode_string [OF L] multiformats.from_commit_valid [OF L put] put root names
    by (simp add: a_def bound_response_def list.pred_map comp_def strip_src_def)
  ultimately show ?thesis by (simp add: check_response_iff) (simp add: a_def)
qed

text \<open>A cache with one downloaded revision, ingested into an empty node, and a puller on the same machine.\<close>

definition share_root :: cid where "share_root = map char_of [1, 112, 0, 0 :: nat]"

definition share_lib :: "(memdb, dnode, (string \<times> dnode) list) ingestlib" where
  "share_lib = tree_lib\<lparr>node_cid := (\<lambda>_. share_root)\<rparr>"

definition share_os :: os where
  "share_os = \<lparr>nodes = [([''h''], FDir), ([''h'', ''models--m''], FDir), ([''h'', ''models--m'', ''blobs''], FDir),
     ([''h'', ''models--m'', ''blobs'', ''x''], FFile ''hi'' 420), ([''h'', ''models--m'', ''snapshots''], FDir),
     ([''h'', ''models--m'', ''snapshots'', hex_commit], FDir),
     ([''h'', ''models--m'', ''snapshots'', hex_commit, ''f''], FLink ''../../blobs/x'')],
     cwd = [], ticks = 0, faults = (\<lambda>_. None), rands = (\<lambda>_. ''7''), mtimes = (\<lambda>_ _. 0), partials = (\<lambda>_. 0)\<rparr>"

definition share_world :: "memdb iworld" where
  "share_world = \<lparr>iw_db = empty_db, iw_os = share_os, iw_log = []\<rparr>"

definition share_file :: file_manifest where
  "share_file = \<lparr>fm_path = ''f'', fm_blob = ''x'', fm_size = 2, fm_sha256 = ''6869'', fm_mode = 420, fm_mtime = 0,
     fm_lfs = False, fm_xet = [], fm_src = ''/h/models--m/blobs/x''\<rparr>"

definition share_request :: map_request where
  "share_request = \<lparr>mq_commit = hex_commit, mq_repo = ''m''\<rparr>"

definition share_net :: "bytes \<Rightarrow> cid list netlib" where
  "share_net input = list_net\<lparr>open_stream := (\<lambda>_ _ w. (Inr (fresh_conn input), w))\<rparr>"

lemma share_files:
  "fst (read_snapshot (i_sha256 share_lib) (new_paths ''/h'' ''m'' Model) hex_commit share_os) = Inr [share_file]"
  "fst (enrich_from_tree (new_paths ''/h'' ''m'' Model) hex_commit [share_file]
     (snd (read_snapshot (i_sha256 share_lib) (new_paths ''/h'' ''m'' Model) hex_commit share_os))) = [share_file]"
  by code_simp+

lemma share_file_safe:
  "safe_rel_path (fm_path share_file)" "safe_blob_name (fm_blob share_file)" "cid_valid ref_cids share_root"
  by code_simp+

definition share_dummy :: cid where "share_dummy = projr (from_commit ref_cids hex_commit)"

lemma share_run:
  "case ingest_run 2 share_lib node_maps 1 ''/h'' ''m'' Model hex_commit ''2024-02-29T10:11:12Z'' share_world of
     Some (Inr res, w') \<Rightarrow> ir_actual res = share_root \<and> ir_total res = 2 \<and> ir_dummy res = share_dummy
   | _ \<Rightarrow> False"
  by code_simp

lemma share_lengths:
  "length (json_print (enc_map_request \<lparr>mq_commit = hex_commit, mq_repo = ''m''\<rparr>)) < 1000"
  "length (json_print (enc_map_response \<lparr>mr_ok = True, mr_error = [], mr_commit = hex_commit, mr_repo = ''m'', mr_type = Model,
     mr_actual = cid_string ref_cids share_root, mr_dummy = cid_string ref_cids share_dummy, mr_total = 2,
     mr_files = map strip_src [share_file]\<rparr>)) < 1000"
  by code_simp+

theorem shared_revision_resolves_witness:
  "\<exists>res w' input resp. ingest_run 2 share_lib node_maps 1 ''/h'' ''m'' Model hex_commit ''2024-02-29T10:11:12Z'' share_world
      = Some (Inr res, w')
    \<and> input = wr_buf (st_conn (handle_map ref_cids node_maps False (iw_db w')
        (peer_end False (frame_bytes (json_print (enc_map_request share_request))))))
    \<and> map_exchange ref_cids (share_net input) \<lparr>ai_id = ''p'', ai_addrs = []\<rparr> ''m'' hex_commit []
      = (Inr (share_root, resp), [])
    \<and> mr_files resp = [strip_src share_file]"
proof -
  obtain res w' where run: "ingest_run 2 share_lib node_maps 1 ''/h'' ''m'' Model hex_commit ''2024-02-29T10:11:12Z'' share_world
      = Some (Inr res, w')"
    and res: "ir_actual res = share_root" "ir_total res = 2" "ir_dummy res = share_dummy"
    using share_run by (auto split: option.splits sum.splits prod.splits)
  obtain os1 where fs0: "read_snapshot (i_sha256 share_lib) (new_paths ''/h'' ''m'' Model) hex_commit (iw_os share_world)
      = (Inr [share_file], os1)"
    using share_files(1) by (cases "read_snapshot (i_sha256 share_lib) (new_paths ''/h'' ''m'' Model) hex_commit share_os")
      (simp add: share_world_def)
  obtain os2 where fs: "enrich_from_tree (new_paths ''/h'' ''m'' Model) hex_commit [share_file] os1 = ([share_file], os2)"
    using share_files(2) fs0 by (cases "enrich_from_tree (new_paths ''/h'' ''m'' Model) hex_commit [share_file] os1")
      (simp add: share_world_def)
  have lib: "i_cids share_lib = ref_cids" by (simp add: share_lib_def tree_lib_def)
  have L: "multiformats (i_cids share_lib)" using ref.multiformats_axioms by (simp add: lib)
  have wf: "list_all manifest_wf [share_file]"
    "list_all valid_utf8 [''m'', Model, ''2024-02-29T10:11:12Z'', cid_string (i_cids share_lib) (ir_actual res),
       cid_string (i_cids share_lib) (ir_dummy res)]"
    unfolding res lib by code_simp+
  note a = shared_answer [OF L node_db.mapping_db_axioms run fs0 fs wf _ refl, unfolded lib res]
  let ?frame = "frame_bytes (json_print (enc_map_request share_request))"
  let ?i = "wr_buf (st_conn (handle_map ref_cids node_maps False (iw_db w') (peer_end False ?frame)))"
  have len: "length (json_print (enc_map_request share_request)) \<le> MaxFrame"
    "length (json_print (enc_map_response (map_answer ref_cids node_maps False (iw_db w') False share_request))) \<le> MaxFrame"
    using share_lengths unfolding share_request_def a(1) [where limited = False, OF impI, simplified]
    by (simp_all add: MaxFrame_def)
  have served: "served_by ref_cids node_maps False (iw_db w') False share_request (fresh_conn ?i)"
    using write_json_fresh [of enc_map_request share_request] len(1) by (simp add: served_by_def fresh_conn_def)
  have "\<exists>resp. map_exchange (i_cids share_lib) (share_net ?i) \<lparr>ai_id = ''p'', ai_addrs = []\<rparr> ''m'' hex_commit []
      = (Inr (ir_actual res, resp), []) \<and> mr_repo resp = ''m'' \<and> mr_type resp = Model \<and> mr_total resp = ir_total res
      \<and> mr_files resp = map strip_src [share_file]"
    by (rule shared_revision_resolves [where relay_bulk = False and limited = False and c = "fresh_conn ?i",
          OF L node_db.mapping_db_axioms run fs0 fs wf(1)])
       (use wf(2) served len in \<open>simp_all add: lib res share_request_def share_net_def list_net_def share_file_safe ascii_utf8\<close>)
  then show ?thesis using run res lib by auto
qed

end
